(* ===== verification/Go_Prelude.thy ===== *)
theory Go_Prelude
  imports Main "HOL-Library.Word" "HOL-Library.Multiset" "HOL-Library.Sublist"
begin

text \<open>
  Shared vocabulary of the development: what the Go language and its standard library
  contribute to every component.

  \<^item> outcomes: a Go function that may panic returns \<open>'a go\<close> (\<open>Panic\<close> or \<open>Ret\<close>);
    one that returns an \<open>error\<close> next to its value returns \<open>'e + 'a\<close>;
  \<^item> text: \<open>strconv\<close>'s and \<open>math/big\<close>'s positional notation (\<open>nat_text\<close>,
    \<open>int_text\<close>, \<open>nat_parse\<close>, \<open>set_string\<close>, \<open>Atoi\<close>) and the functions of
    package \<open>strings\<close> the sources call (\<open>split_on\<close>, \<open>join_with\<close>, \<open>TrimSuffix\<close>,
    \<open>TrimRight\<close>, \<open>TrimSpace\<close>);
  \<^item> integers: \<open>math/big\<close>'s two divisions, truncated (\<open>Quo\<close>, \<open>Rem\<close>) and Euclidean
    (\<open>Div\<close>), and big-endian bytes (\<open>SetBytes\<close>, \<open>FillBytes\<close>).
  The collections \<open>go_text\<close> and \<open>go_int\<close> hold the facts the component proofs use.
\<close>

named_theorems go_text \<open>printing and parsing of numbers and strings\<close>
named_theorems go_int \<open>facts on truncated and Euclidean division\<close>

subsection \<open>Panics\<close>

datatype 'a go = Panic string | Ret 'a

fun go_bind :: "'a go \<Rightarrow> ('a \<Rightarrow> 'b go) \<Rightarrow> 'b go" where
  "go_bind (Panic m) f = Panic m"
| "go_bind (Ret a) f = f a"

definition panics :: "'a go \<Rightarrow> bool" where
  "panics r = (case r of Panic _ \<Rightarrow> True | Ret _ \<Rightarrow> False)"

type_synonym byte = "8 word"

subsection \<open>Definitions: positional notation\<close>

definition digit_char :: "nat \<Rightarrow> char" where
  "digit_char d = (if d < 10 then char_of (48 + d) else char_of (87 + d))"

definition digit_val :: "char \<Rightarrow> nat option" where
  "digit_val c = (let n = of_char c :: nat in
     if 48 \<le> n \<and> n \<le> 57 then Some (n - 48)
     else if 97 \<le> n \<and> n \<le> 122 then Some (n - 87)
     else if 65 \<le> n \<and> n \<le> 90 then Some (n - 55)
     else None)"

text \<open>The digits of a natural number, as \<open>strconv.Itoa\<close> and \<open>big.Int.Text\<close> print them.\<close>

fun nat_text :: "nat \<Rightarrow> nat \<Rightarrow> string" where
  "nat_text b n =
     (if b < 2 \<or> n < b then [digit_char n]
      else nat_text b (n div b) @ [digit_char (n mod b)])"

declare nat_text.simps [simp del]

definition int_text :: "nat \<Rightarrow> int \<Rightarrow> string" where
  "int_text b i = (if i < 0 then CHR ''-'' # nat_text b (nat (- i)) else nat_text b (nat i))"

definition digit_in :: "nat \<Rightarrow> char \<Rightarrow> nat option" where
  "digit_in b c = (case digit_val c of None \<Rightarrow> None | Some d \<Rightarrow> if d < b then Some d else None)"

fun nat_parse_from :: "nat \<Rightarrow> nat \<Rightarrow> string \<Rightarrow> nat option" where
  "nat_parse_from b acc [] = Some acc"
| "nat_parse_from b acc (c # cs) =
     (case digit_in b c of None \<Rightarrow> None | Some d \<Rightarrow> nat_parse_from b (acc * b + d) cs)"

text \<open>A non-empty sequence of digits, all of it.\<close>

definition nat_parse :: "nat \<Rightarrow> string \<Rightarrow> nat option" where
  "nat_parse b s = (if s = [] then None else nat_parse_from b 0 s)"

text \<open>
  \<open>big.Int.SetString(s, base)\<close> for an explicit base: an optional sign, then digits and
  nothing after them. No prefix and no underscores are accepted when the base is given.
\<close>

definition set_string :: "nat \<Rightarrow> string \<Rightarrow> int option" where
  "set_string b s = (case s of
       [] \<Rightarrow> None
     | c # cs \<Rightarrow>
         if c = CHR ''-'' then map_option (\<lambda>n. - int n) (nat_parse b cs)
         else if c = CHR ''+'' then map_option int (nat_parse b cs)
         else map_option int (nat_parse b s))"

text \<open>\<open>strconv.Atoi\<close>: the same with base 10, in the range of a 64-bit \<open>int\<close>.\<close>

definition Atoi :: "string \<Rightarrow> int option" where
  "Atoi s = (case set_string 10 s of
       None \<Rightarrow> None
     | Some i \<Rightarrow> if - (2 ^ 63) \<le> i \<and> i < 2 ^ 63 then Some i else None)"

subsection \<open>Definitions: package strings\<close>

text \<open>\<open>strings.Split\<close> with a one-byte separator.\<close>

fun split_on :: "char \<Rightarrow> string \<Rightarrow> string list" where
  "split_on sep [] = [[]]"
| "split_on sep (c # cs) =
     (if c = sep then [] # split_on sep cs
      else (case split_on sep cs of [] \<Rightarrow> [[c]] | w # ws \<Rightarrow> (c # w) # ws))"

fun join_with :: "char \<Rightarrow> string list \<Rightarrow> string" where
  "join_with sep [] = []"
| "join_with sep [w] = w"
| "join_with sep (w # v # ws) = w @ sep # join_with sep (v # ws)"

definition HasPrefix :: "string \<Rightarrow> string \<Rightarrow> bool" where
  "HasPrefix s p \<longleftrightarrow> take (length p) s = p"

definition TrimSuffix :: "string \<Rightarrow> string \<Rightarrow> string" where
  "TrimSuffix s x =
     (if length x \<le> length s \<and> drop (length s - length x) s = x
      then take (length s - length x) s else s)"

text \<open>\<open>strings.TrimRight\<close> with a one-byte cutset.\<close>

definition TrimRight :: "string \<Rightarrow> char \<Rightarrow> string" where
  "TrimRight s c = rev (dropWhile (\<lambda>x. x = c) (rev s))"

definition is_space :: "char \<Rightarrow> bool" where
  "is_space c \<longleftrightarrow> (let n = of_char c :: nat in n = 32 \<or> (9 \<le> n \<and> n \<le> 13))"

definition TrimSpace :: "string \<Rightarrow> string" where
  "TrimSpace s = rev (dropWhile is_space (rev (dropWhile is_space s)))"

subsection \<open>Definitions: math/big integers\<close>

text \<open>Truncated quotient and remainder (\<open>big.Int.Quo\<close>, \<open>big.Int.Rem\<close>), non-zero divisor.\<close>

definition Quo :: "int \<Rightarrow> int \<Rightarrow> int" where
  "Quo x y = sgn x * sgn y * (\<bar>x\<bar> div \<bar>y\<bar>)"

definition TRem :: "int \<Rightarrow> int \<Rightarrow> int" where
  "TRem x y = x - Quo x y * y"

text \<open>Euclidean quotient (\<open>big.Int.Div\<close>): the remainder is never negative.\<close>

definition EDiv :: "int \<Rightarrow> int \<Rightarrow> int" where
  "EDiv x y = (if 0 \<le> y then x div y else - (x div (- y)))"

definition SetBytes :: "byte list \<Rightarrow> nat" where
  "SetBytes bs = foldl (\<lambda>acc b. acc * 256 + unat b) 0 bs"

text \<open>\<open>big.Int.FillBytes\<close> into a buffer of \<open>n\<close> bytes: big-endian, zero-extended.\<close>

fun FillBytes :: "nat \<Rightarrow> nat \<Rightarrow> byte list" where
  "FillBytes 0 v = []"
| "FillBytes (Suc n) v = FillBytes n (v div 256) @ [word_of_nat (v mod 256)]"

definition go_cmp :: "int \<Rightarrow> int \<Rightarrow> int" where
  "go_cmp a b = (if a < b then -1 else if a = b then 0 else 1)"

subsection \<open>Lemmas: positional notation\<close>

lemma digit_val_char: "d < 36 \<Longrightarrow> digit_val (digit_char d) = Some d"
  by (auto simp: digit_val_def digit_char_def of_char_of)

lemma digit_in_char [go_text]: "d < b \<Longrightarrow> b \<le> 36 \<Longrightarrow> digit_in b (digit_char d) = Some d"
  by (simp add: digit_in_def digit_val_char)

lemma nat_parse_from_append:
  "nat_parse_from b acc (xs @ ys) =
     (case nat_parse_from b acc xs of None \<Rightarrow> None | Some v \<Rightarrow> nat_parse_from b v ys)"
  by (induction xs arbitrary: acc) (auto split: option.splits)

lemma nat_parse_from_value:
  "nat_parse_from b acc s = map_option (\<lambda>v. acc * b ^ length s + v) (nat_parse_from b 0 s)"
proof (induction s arbitrary: acc)
  case (Cons c cs)
  show ?case
  proof (cases "digit_in b c")
    case (Some d)
    show ?thesis using Some Cons [of "acc * b + d"] Cons [of d]
      by (cases "nat_parse_from b 0 cs") (simp_all add: algebra_simps)
  qed simp
qed simp

lemma nat_text_nonempty [simp]: "nat_text b n \<noteq> []"
  by (subst nat_text.simps) simp

lemma nat_parse_from_text:
  assumes "2 \<le> b" "b \<le> 36"
  shows "nat_parse_from b 0 (nat_text b n) = Some n"
  using assms
proof (induction b n rule: nat_text.induct)
  case (1 b n)
  show ?case
  proof (cases "n < b")
    case True
    with 1 show ?thesis by (subst nat_text.simps) (simp add: go_text)
  next
    case False
    with 1 have "nat_parse_from b 0 (nat_text b (n div b)) = Some (n div b)" by simp
    with False 1 show ?thesis
      by (subst nat_text.simps) (simp add: nat_parse_from_append go_text)
  qed
qed

lemma nat_parse_text [go_text]: "2 \<le> b \<Longrightarrow> b \<le> 36 \<Longrightarrow> nat_parse b (nat_text b n) = Some n"
  by (simp add: nat_parse_def nat_parse_from_text)

lemma digit_char_alnum:
  "d < 36 \<Longrightarrow> digit_val c = None \<Longrightarrow> digit_char d \<noteq> c"
  using digit_val_char by fastforce

lemma nat_text_chars:
  "2 \<le> b \<Longrightarrow> b \<le> 36 \<Longrightarrow> c \<in> set (nat_text b n) \<Longrightarrow> \<exists>d < b. c = digit_char d"
proof (induction b n rule: nat_text.induct)
  case (1 b n)
  show ?case
  proof (cases "n < b")
    case True
    with 1 show ?thesis by (subst (asm) nat_text.simps) auto
  next
    case False
    with 1 show ?thesis
      by (subst (asm) nat_text.simps) (auto intro: exI [of _ "n mod b"])
  qed
qed

lemma nat_text_no_sep [go_text]:
  "2 \<le> b \<Longrightarrow> b \<le> 36 \<Longrightarrow> digit_val c = None \<Longrightarrow> c \<notin> set (nat_text b n)"
  using nat_text_chars digit_char_alnum by (metis order_less_le_trans)

lemma nat_text_hd:
  assumes "2 \<le> b" "b \<le> 36" "digit_val c = None"
  shows "hd (nat_text b n) \<noteq> c"
  using nat_text_no_sep [OF assms] by (metis hd_in_set nat_text_nonempty)

lemma set_string_text [go_text]:
  assumes "2 \<le> b" "b \<le> 36"
  shows "set_string b (int_text b i) = Some i"
proof -
  have m: "digit_val (CHR ''-'') = None" "digit_val (CHR ''+'') = None"
    by (simp_all add: digit_val_def)
  obtain c cs where t: "nat_text b (nat i) = c # cs" by (cases "nat_text b (nat i)") auto
  with nat_text_hd [OF assms m(1)] nat_text_hd [OF assms m(2)]
  have "c \<noteq> CHR ''-''" "c \<noteq> CHR ''+''" by (metis list.sel(1))+
  with t show ?thesis using nat_parse_text [OF assms, of "nat i"]
    by (simp add: set_string_def int_text_def nat_parse_text [OF assms])
qed

lemma Atoi_text [go_text]: "- (2 ^ 63) \<le> i \<Longrightarrow> i < 2 ^ 63 \<Longrightarrow> Atoi (int_text 10 i) = Some i"
  by (simp add: Atoi_def go_text)

subsection \<open>Lemmas: strings\<close>

lemma split_on_nonempty [simp]: "split_on sep s \<noteq> []"
  by (cases s) (auto split: list.splits)

lemma split_on_no_sep: "sep \<notin> set s \<Longrightarrow> split_on sep s = [s]"
  by (induction s) auto

lemma split_on_cons: "sep \<notin> set w \<Longrightarrow> split_on sep (w @ sep # s) = w # split_on sep s"
  by (induction w) auto

lemma split_join [go_text]:
  "ws \<noteq> [] \<Longrightarrow> \<forall>w \<in> set ws. sep \<notin> set w \<Longrightarrow> split_on sep (join_with sep ws) = ws"
proof (induction ws rule: join_with.induct)
  case (2 sep w)
  then show ?case by (simp add: split_on_no_sep)
next
  case (3 sep w v ws)
  then show ?case by (simp add: split_on_cons)
qed simp

lemma TrimSuffix_append [simp]: "TrimSuffix (s @ x) x = s"
  by (simp add: TrimSuffix_def)

lemma TrimSuffix_Nil [simp]: "TrimSuffix s [] = s"
  by (simp add: TrimSuffix_def)

lemma set_join_with: "set (join_with sep ws) \<subseteq> insert sep (\<Union> (set ` set ws))"
  by (induction sep ws rule: join_with.induct) auto

subsection \<open>Lemmas: integers\<close>

lemma Quo_TRem: "Quo x y * y + TRem x y = x"
  by (simp add: TRem_def)

lemma Quo_nonneg [go_int]: "0 \<le> x \<Longrightarrow> 0 < y \<Longrightarrow> Quo x y = x div y"
  by (cases "x = 0") (simp_all add: Quo_def)

lemma TRem_nonneg [go_int]: "0 \<le> x \<Longrightarrow> 0 < y \<Longrightarrow> TRem x y = x mod y"
  by (simp add: TRem_def Quo_nonneg minus_div_mult_eq_mod)

lemma Quo_neg [go_int]: "Quo (- x) y = - Quo x y"
  by (simp add: Quo_def sgn_if)

lemma Quo_neg_right [go_int]: "Quo x (- y) = - Quo x y"
  by (simp add: Quo_def sgn_if)

lemma TRem_neg [go_int]: "TRem (- x) y = - TRem x y"
  by (simp add: TRem_def Quo_neg)

lemma TRem_neg_right [go_int]: "TRem x (- y) = TRem x y"
  by (simp add: TRem_def Quo_neg_right)

lemma TRem_sign_neg:
  assumes "x < 0" "0 < y"
  shows "TRem x y \<le> 0"
proof -
  have "TRem (- (- x)) y = - TRem (- x) y" by (rule TRem_neg)
  also have "TRem (- x) y = (- x) mod y" using assms by (intro TRem_nonneg) auto
  finally show ?thesis using assms by simp
qed

lemma EDiv_bounds: "y \<noteq> 0 \<Longrightarrow> 0 \<le> x - EDiv x y * y \<and> x - EDiv x y * y < \<bar>y\<bar>"
proof (cases "0 \<le> y")
  case True
  assume "y \<noteq> 0"
  with True show ?thesis by (simp add: EDiv_def minus_div_mult_eq_mod)
next
  case False
  have "x - EDiv x y * y = x mod (- y)"
    using False minus_div_mult_eq_mod [of x "- y"] by (simp add: EDiv_def)
  with False show ?thesis by simp
qed

lemma SetBytes_snoc [simp]: "SetBytes (bs @ [b]) = SetBytes bs * 256 + unat b"
  by (simp add: SetBytes_def)

lemma SetBytes_Nil [simp]: "SetBytes [] = 0"
  by (simp add: SetBytes_def)

lemma length_FillBytes [simp]: "length (FillBytes n v) = n"
  by (induction n arbitrary: v) auto

lemma SetBytes_FillBytes: "v < 256 ^ n \<Longrightarrow> SetBytes (FillBytes n v) = v"
proof (induction n arbitrary: v)
  case (Suc n)
  then have "v div 256 < 256 ^ n" by (simp add: less_mult_imp_div_less mult.commute)
  then have "SetBytes (FillBytes n (v div 256)) = v div 256" by (rule Suc.IH)
  moreover have "unat (word_of_nat (v mod 256) :: byte) = v mod 256"
    by (simp add: unat_of_nat)
  ultimately show ?case by simp
qed simp

end
