(* ===== verification/Slice_Util.thy ===== *)
theory Slice_Util
  imports Go_Prelude
begin

text \<open>
  Package \<open>sliceutil\<close> (\<open>src/sliceutil/sliceutil.go\<close>): slices are lists, each \<open>for\<close> loop
  is a recursion over the slice with the loop's variables as arguments, and a
  \<open>map[T]bool\<close> of the elements seen so far is a set. Element types are compared with
  Go's \<open>==\<close>, here HOL equality. The lemmas show that every loop computes the list
  function it is named after.
\<close>

subsection \<open>Definitions\<close>

definition Slice_Copy :: "'a list \<Rightarrow> 'a list" where
  "Slice_Copy s = map (\<lambda>i. s ! i) [0..<length s]"

fun Contains :: "'a list \<Rightarrow> 'a \<Rightarrow> bool" where
  "Contains [] e = False"
| "Contains (x # s) e = (if x = e then True else Contains s e)"

fun ContainsAll :: "'a list \<Rightarrow> 'a list \<Rightarrow> bool" where
  "ContainsAll s [] = True"
| "ContainsAll s (x # e) = (if \<not> Contains s x then False else ContainsAll s e)"

text \<open>\<open>out[i] = f(x)\<close> for every index of a slice made with the right length.\<close>

fun Slice_Map_loop :: "('a \<Rightarrow> 'b) \<Rightarrow> nat \<Rightarrow> 'a list \<Rightarrow> 'b list \<Rightarrow> 'b list" where
  "Slice_Map_loop f i [] out = out"
| "Slice_Map_loop f i (x # s) out = Slice_Map_loop f (Suc i) s (out[i := f x])"

definition Slice_Map :: "'b \<Rightarrow> 'a list \<Rightarrow> ('a \<Rightarrow> 'b) \<Rightarrow> 'b list" where
  "Slice_Map zero s f = Slice_Map_loop f 0 s (replicate (length s) zero)"

fun Slice_Filter_loop :: "('a \<Rightarrow> bool) \<Rightarrow> 'a list \<Rightarrow> 'a list \<Rightarrow> 'a list" where
  "Slice_Filter_loop f [] out = out"
| "Slice_Filter_loop f (x # s) out =
     Slice_Filter_loop f s (if f x then out @ [x] else out)"

definition Slice_Filter :: "'a list \<Rightarrow> ('a \<Rightarrow> bool) \<Rightarrow> 'a list" where
  "Slice_Filter s f = Slice_Filter_loop f s []"

fun IsUnique_loop :: "'a set \<Rightarrow> 'a list \<Rightarrow> bool" where
  "IsUnique_loop seen [] = True"
| "IsUnique_loop seen (x # s) = (if x \<in> seen then False else IsUnique_loop (insert x seen) s)"

definition IsUnique :: "'a list \<Rightarrow> bool" where
  "IsUnique s = IsUnique_loop {} s"

text \<open>\<open>Intersect\<close>: the smallest slice, then its elements that every slice contains.\<close>

fun smallest :: "'a list \<Rightarrow> 'a list list \<Rightarrow> 'a list" where
  "smallest m [] = m"
| "smallest m (s # ss) = smallest (if length s < length m then s else m) ss"

fun in_all :: "'a \<Rightarrow> 'a list list \<Rightarrow> bool" where
  "in_all x [] = True"
| "in_all x (s # ss) = (if \<not> Contains s x then False else in_all x ss)"

definition Intersect :: "'a list list \<Rightarrow> 'a list" where
  "Intersect slices = (case slices of
       [] \<Rightarrow> []
     | s # ss \<Rightarrow> Slice_Filter_loop (\<lambda>x. in_all x slices) (smallest s slices) [])"

fun Unique_slice :: "'a set \<Rightarrow> 'a list \<Rightarrow> 'a list \<Rightarrow> 'a set \<times> 'a list" where
  "Unique_slice seen out [] = (seen, out)"
| "Unique_slice seen out (x # s) =
     (if x \<notin> seen then Unique_slice (insert x seen) (out @ [x]) s else Unique_slice seen out s)"

fun Unique_loop :: "'a set \<Rightarrow> 'a list \<Rightarrow> 'a list list \<Rightarrow> 'a list" where
  "Unique_loop seen out [] = out"
| "Unique_loop seen out (s # ss) =
     (case Unique_slice seen out s of (seen', out') \<Rightarrow> Unique_loop seen' out' ss)"

definition Unique :: "'a list list \<Rightarrow> 'a list" where
  "Unique slices = Unique_loop {} [] slices"

fun IndexOf_loop :: "int \<Rightarrow> 'a list \<Rightarrow> 'a \<Rightarrow> int" where
  "IndexOf_loop i [] e = -1"
| "IndexOf_loop i (x # s) e = (if x = e then i else IndexOf_loop (i + 1) s e)"

definition IndexOf :: "'a list \<Rightarrow> 'a \<Rightarrow> int" where
  "IndexOf s e = IndexOf_loop 0 s e"

definition AppendUnique :: "'a list \<Rightarrow> 'a \<Rightarrow> 'a list" where
  "AppendUnique s e = (if Contains s e then s else s @ [e])"

subsection \<open>Lemmas\<close>

lemma Slice_Copy_id [simp]: "Slice_Copy s = s"
  by (simp add: Slice_Copy_def map_nth)

lemma Contains_iff [simp]: "Contains s e \<longleftrightarrow> e \<in> set s"
  by (induction s) auto

lemma ContainsAll_iff [simp]: "ContainsAll s e \<longleftrightarrow> set e \<subseteq> set s"
  by (induction e) auto

lemma Slice_Map_loop_eq:
  "length out = length pre + length s \<Longrightarrow> take (length pre) out = pre \<Longrightarrow>
   Slice_Map_loop f (length pre) s out = pre @ map f s"
proof (induction s arbitrary: pre out)
  case (Cons x s)
  have "Slice_Map_loop f (length (pre @ [f x])) s (out[length pre := f x]) = (pre @ [f x]) @ map f s"
    using Cons.prems by (intro Cons.IH) (simp_all add: take_Suc_conv_app_nth)
  then show ?case by simp
qed simp

lemma Slice_Map_eq [simp]: "Slice_Map zero s f = map f s"
  unfolding Slice_Map_def using Slice_Map_loop_eq [of _ "[]" s f] by simp

lemma Slice_Filter_loop_eq: "Slice_Filter_loop f s out = out @ filter f s"
  by (induction s arbitrary: out) auto

lemma Slice_Filter_eq [simp]: "Slice_Filter s f = filter f s"
  by (simp add: Slice_Filter_def Slice_Filter_loop_eq)

lemma IsUnique_loop_iff: "IsUnique_loop seen s \<longleftrightarrow> distinct s \<and> set s \<inter> seen = {}"
  by (induction s arbitrary: seen) auto

lemma IsUnique_iff [simp]: "IsUnique s \<longleftrightarrow> distinct s"
  by (simp add: IsUnique_def IsUnique_loop_iff)

lemma smallest_in: "smallest m ss \<in> insert m (set ss)"
  by (induction ss arbitrary: m) auto

lemma smallest_le: "length (smallest m ss) \<le> length m \<and> (\<forall>s \<in> set ss. length (smallest m ss) \<le> length s)"
proof (induction ss arbitrary: m)
  case (Cons s ss)
  from Cons [of s] Cons [of m] show ?case by auto
qed simp

lemma in_all_iff [simp]: "in_all x ss \<longleftrightarrow> (\<forall>s \<in> set ss. x \<in> set s)"
  by (induction ss) auto

text \<open>First occurrences, in order: the reference for \<open>Unique\<close>.\<close>

fun firsts :: "'a set \<Rightarrow> 'a list \<Rightarrow> 'a list" where
  "firsts seen [] = []"
| "firsts seen (x # s) = (if x \<in> seen then firsts seen s else x # firsts (insert x seen) s)"

lemma Unique_slice_firsts:
  "Unique_slice seen out s = (seen \<union> set s, out @ firsts seen s)"
  by (induction s arbitrary: seen out) auto

lemma firsts_append: "firsts seen (s @ t) = firsts seen s @ firsts (seen \<union> set s) t"
  by (induction s arbitrary: seen) (auto simp: insert_absorb)

lemma Unique_loop_firsts: "Unique_loop seen out ss = out @ firsts seen (concat ss)"
  by (induction ss arbitrary: seen out) (auto simp: Unique_slice_firsts firsts_append)

lemma set_firsts [simp]: "set (firsts seen s) = set s - seen"
  by (induction s arbitrary: seen) auto

lemma distinct_firsts [simp]: "distinct (firsts seen s)"
  by (induction s arbitrary: seen) auto

lemma Unique_firsts: "Unique slices = firsts {} (concat slices)"
  by (simp add: Unique_def Unique_loop_firsts)

lemma firsts_sorted: "sorted s \<Longrightarrow> sorted (firsts seen s)"
  by (induction s arbitrary: seen) auto

lemma firsts_distinct: "distinct s \<Longrightarrow> set s \<inter> seen = {} \<Longrightarrow> firsts seen s = s"
  by (induction s arbitrary: seen) auto

lemma IndexOf_loop_spec:
  "IndexOf_loop i s e = (if e \<in> set s then i + int (length (takeWhile (\<lambda>x. x \<noteq> e) s)) else -1)"
  by (induction s arbitrary: i) auto

lemma set_Intersect: "set (Intersect ss) = (if ss = [] then {} else \<Inter> (set ` set ss))"
proof (cases ss)
  case (Cons s rest)
  have "smallest s ss \<in> set ss" using smallest_in [of s ss] Cons by auto
  then show ?thesis using Cons by (auto simp: Intersect_def Slice_Filter_loop_eq)
qed (simp add: Intersect_def)

lemma firsts_index:
  "i < length (firsts seen s) \<Longrightarrow> j < i \<Longrightarrow>
   length (takeWhile (\<lambda>x. x \<noteq> firsts seen s ! j) s) < length (takeWhile (\<lambda>x. x \<noteq> firsts seen s ! i) s)"
proof (induction s arbitrary: seen i j)
  case (Cons x s)
  show ?case
  proof (cases "x \<in> seen")
    case True
    have "k < length (firsts seen s) \<Longrightarrow> firsts seen s ! k \<noteq> x" for k
      using True nth_mem [of k "firsts seen s"] by auto
    from this [of i] this [of j] have "firsts seen s ! i \<noteq> x" "firsts seen s ! j \<noteq> x"
      using Cons.prems True by auto
    with True Cons.IH [of i seen j] Cons.prems show ?thesis by auto
  next
    case False
    let ?f = "firsts (insert x seen) s"
    have ne: "k < length ?f \<Longrightarrow> ?f ! k \<noteq> x" for k using nth_mem [of k ?f] by auto
    obtain i' where i: "i = Suc i'" using Cons.prems by (cases i) auto
    show ?thesis
    proof (cases j)
      case 0
      with False i Cons.prems ne [of i'] show ?thesis by auto
    next
      case (Suc j')
      with False i Cons.prems ne [of i'] ne [of j'] Cons.IH [of i' "insert x seen" j'] show ?thesis
        by auto
    qed
  qed
qed simp

subsection \<open>Properties\<close>

text \<open>
  \<open>Unique\<close> holds each element of the slices once, in the order of their first
  occurrences in the concatenated input.
\<close>

theorem Unique_spec:
  "set (Unique ss) = \<Union> (set ` set ss) \<and> distinct (Unique ss) \<and>
   sorted_wrt (\<lambda>x y. IndexOf (concat ss) x < IndexOf (concat ss) y) (Unique ss)"
proof -
  have in_concat: "i < length (firsts {} s) \<Longrightarrow> firsts {} s ! i \<in> set s" for i and s :: "'a list"
    using nth_mem [of i "firsts {} s"] by simp
  then have "sorted_wrt (\<lambda>x y. IndexOf (concat ss) x < IndexOf (concat ss) y) (firsts {} (concat ss))"
    by (auto simp: sorted_wrt_iff_nth_less IndexOf_def IndexOf_loop_spec firsts_index simp del: set_concat)
  then show ?thesis by (simp add: Unique_firsts)
qed

text \<open>
  \<open>Intersect\<close> has exactly the elements that occur in every slice, and none for an
  empty argument list; without repetitions in the slices it has none itself.
\<close>

theorem Intersect_spec:
  "set (Intersect ss) = (if ss = [] then {} else \<Inter> (set ` set ss)) \<and>
   (if list_all IsUnique ss then IsUnique (Intersect ss) else True)"
proof -
  have "distinct (Intersect ss)" if "list_all distinct ss"
  proof (cases ss)
    case (Cons s rest)
    have "smallest s ss \<in> set ss" using smallest_in [of s ss] Cons by auto
    then show ?thesis using that Cons by (auto simp: Intersect_def Slice_Filter_loop_eq list_all_iff)
  qed (simp add: Intersect_def)
  then show ?thesis by (simp add: set_Intersect list_all_iff)
qed

end
