(* ===== verification/Map_Util.thy ===== *)
theory Map_Util
  imports Go_Prelude
begin

text \<open>
  Package \<open>maputil\<close> (\<open>src/maputil/maputil.go\<close>). A Go map that is ranged over is an
  association list with distinct keys whose order is the (unspecified) iteration order of
  that \<open>range\<close>, so a statement about every such list covers every order. A map that is
  built is a partial function.
\<close>

type_synonym ('k, 'v) ranged = "('k \<times> 'v) list"

abbreviation ranged_ok :: "('k, 'v) ranged \<Rightarrow> bool" where
  "ranged_ok m \<equiv> distinct (map fst m)"

subsection \<open>Definitions\<close>

fun Keys_loop :: "'k list \<Rightarrow> ('k, 'v) ranged \<Rightarrow> 'k list" where
  "Keys_loop keys [] = keys"
| "Keys_loop keys ((k, v) # m) = Keys_loop (keys @ [k]) m"

definition Keys :: "('k, 'v) ranged \<Rightarrow> 'k list" where
  "Keys m = Keys_loop [] m"

fun Slice_loop :: "'v list \<Rightarrow> ('k, 'v) ranged \<Rightarrow> 'v list" where
  "Slice_loop values [] = values"
| "Slice_loop values ((k, v) # m) = Slice_loop (values @ [v]) m"

definition Map_Slice :: "('k, 'v) ranged \<Rightarrow> 'v list" where
  "Map_Slice m = Slice_loop [] m"

definition SortedKeys :: "('k, 'v) ranged \<Rightarrow> ('k list \<Rightarrow> 'k list) \<Rightarrow> 'k list" where
  "SortedKeys m srt = srt (Keys m)"

fun Copy_into :: "('k \<rightharpoonup> 'v) \<Rightarrow> ('k, 'v) ranged \<Rightarrow> ('k \<rightharpoonup> 'v)" where
  "Copy_into newMap [] = newMap"
| "Copy_into newMap ((k, v) # m) = Copy_into (newMap(k \<mapsto> v)) m"

definition Map_Copy :: "('k, 'v) ranged \<Rightarrow> ('k \<rightharpoonup> 'v)" where
  "Map_Copy m = Copy_into Map.empty m"

fun Filter_into :: "('k \<rightharpoonup> 'v) \<Rightarrow> ('v \<Rightarrow> bool) \<Rightarrow> ('k, 'v) ranged \<Rightarrow> ('k \<rightharpoonup> 'v)" where
  "Filter_into newMap f [] = newMap"
| "Filter_into newMap f ((k, v) # m) =
     Filter_into (if f v then newMap(k \<mapsto> v) else newMap) f m"

definition Map_Filter :: "('k, 'v) ranged \<Rightarrow> ('v \<Rightarrow> bool) \<Rightarrow> ('k \<rightharpoonup> 'v)" where
  "Map_Filter m f = Filter_into Map.empty f m"

text \<open>\<open>Select\<close> fails with the first key that is not present.\<close>

fun Select_loop :: "('k \<rightharpoonup> 'v) \<Rightarrow> ('k \<rightharpoonup> 'v) \<Rightarrow> 'k list \<Rightarrow> 'k + ('k \<rightharpoonup> 'v)" where
  "Select_loop newMap m [] = Inr newMap"
| "Select_loop newMap m (k # kk) =
     (case m k of None \<Rightarrow> Inl k | Some v \<Rightarrow> Select_loop (newMap(k \<mapsto> v)) m kk)"

definition Select :: "('k \<rightharpoonup> 'v) \<Rightarrow> 'k list \<Rightarrow> 'k + ('k \<rightharpoonup> 'v)" where
  "Select m kk = Select_loop Map.empty m kk"

definition Merge :: "('k, 'v) ranged \<Rightarrow> ('k, 'v) ranged \<Rightarrow> ('k \<rightharpoonup> 'v)" where
  "Merge m1 m2 = Copy_into (Copy_into Map.empty m1) m2"

subsection \<open>Lemmas\<close>

lemma Keys_loop_eq: "Keys_loop keys m = keys @ map fst m"
  by (induction keys m rule: Keys_loop.induct) auto

lemma Keys_eq [simp]: "Keys m = map fst m"
  by (simp add: Keys_def Keys_loop_eq)

lemma Slice_loop_eq: "Slice_loop vs m = vs @ map snd m"
  by (induction vs m rule: Slice_loop.induct) auto

lemma Map_Slice_eq [simp]: "Map_Slice m = map snd m"
  by (simp add: Map_Slice_def Slice_loop_eq)

lemma map_add_fresh: "k \<notin> dom g \<Longrightarrow> f(k \<mapsto> v) ++ g = f ++ g(k \<mapsto> v)"
  by (metis map_add_upd map_add_upd_left)

lemma Copy_into_eq: "ranged_ok m \<Longrightarrow> Copy_into new m = new ++ map_of m"
proof (induction new m rule: Copy_into.induct)
  case (2 new k v m)
  then have "k \<notin> dom (map_of m)" by (simp add: dom_map_of_conv_image_fst)
  then have "new(k \<mapsto> v) ++ map_of m = new ++ map_of ((k, v) # m)"
    using map_add_fresh by (metis fst_conv map_of.simps(2) snd_conv)
  with 2 show ?case by (metis Copy_into.simps(2) distinct.simps(2) list.simps(9))
qed simp

lemma Filter_into_eq: "ranged_ok m \<Longrightarrow> Filter_into new f m = new ++ map_of (filter (\<lambda>kv. f (snd kv)) m)"
proof (induction new f m rule: Filter_into.induct)
  case (2 new f k v m)
  then have "k \<notin> dom (map_of (filter (\<lambda>kv. f (snd kv)) m))"
    by (auto simp: dom_map_of_conv_image_fst)
  then have "new(k \<mapsto> v) ++ map_of (filter (\<lambda>kv. f (snd kv)) m) = new ++ map_of ((k, v) # filter (\<lambda>kv. f (snd kv)) m)"
    using map_add_fresh by (metis fst_conv map_of.simps(2) snd_conv)
  moreover have "ranged_ok m" using 2 by simp
  ultimately show ?case using 2 by (cases "f v") (simp_all del: map_of.simps fun_upd_apply)
qed simp

lemma map_of_filter_val:
  "ranged_ok m \<Longrightarrow>
   map_of (filter (\<lambda>kv. f (snd kv)) m) k =
     (case map_of m k of Some v \<Rightarrow> if f v then Some v else None | None \<Rightarrow> None)"
proof (induction m)
  case (Cons kv m)
  have "map_of m (fst kv) = None" using Cons.prems by (simp add: map_of_eq_None_iff)
  then show ?case using Cons by (cases kv) (auto split: option.splits)
qed simp

lemma Select_loop_spec:
  "Select_loop new m kk =
     (case find (\<lambda>k. m k = None) kk of Some k \<Rightarrow> Inl k | None \<Rightarrow> Inr (new ++ m |` set kk))"
proof (induction kk arbitrary: new)
  case (Cons k kk)
  show ?case
  proof (cases "m k")
    case (Some v)
    have "new(k \<mapsto> v) ++ m |` set kk = new ++ m |` insert k (set kk)"
      using Some by (auto simp: map_add_def restrict_map_def fun_eq_iff split: option.splits)
    with Some show ?thesis by (simp add: Cons split: option.splits)
  qed simp
qed simp

subsection \<open>Properties\<close>

text \<open>
  In whatever order the maps are ranged over, \<open>Copy\<close> is the same map, \<open>Filter\<close> keeps
  exactly the items whose value passes, and \<open>Merge\<close> takes the second map where both have
  the key.
\<close>

theorem maputil_order_independent:
  assumes "ranged_ok m1" "ranged_ok m2"
  shows "Map_Copy m1 = map_of m1 \<and>
    Map_Filter m1 f k = (case map_of m1 k of Some v \<Rightarrow> if f v then Some v else None | None \<Rightarrow> None) \<and>
    Merge m1 m2 k = (case map_of m2 k of Some v \<Rightarrow> Some v | None \<Rightarrow> map_of m1 k)"
proof (intro conjI)
  show "Map_Copy m1 = map_of m1" using assms by (simp add: Map_Copy_def Copy_into_eq)
  show "Map_Filter m1 f k = (case map_of m1 k of Some v \<Rightarrow> if f v then Some v else None | None \<Rightarrow> None)"
    using assms by (simp add: Map_Filter_def Filter_into_eq map_of_filter_val)
  show "Merge m1 m2 k = (case map_of m2 k of Some v \<Rightarrow> Some v | None \<Rightarrow> map_of m1 k)"
    using assms by (simp add: Merge_def Copy_into_eq map_add_def split: option.splits)
qed

theorem maputil_order_independent_witness:
  "Merge [(1 :: nat, ''a''), (2, ''b'')] [(2, ''c'')] 2 = Some ''c''"
  using maputil_order_independent [of "[(1 :: nat, ''a''), (2, ''b'')]" "[(2, ''c'')]" "\<lambda>_. True" 2]
  by simp

text \<open>
  \<open>Select\<close> fails exactly when a requested key is absent, naming the first such key, and
  otherwise is the map restricted to the requested keys.
\<close>

theorem Select_spec:
  "Select m kk = (case find (\<lambda>k. m k = None) kk of Some k \<Rightarrow> Inl k | None \<Rightarrow> Inr (m |` set kk))"
  by (simp add: Select_def Select_loop_spec split: option.splits)

end
