(* ===== verification/Err_Util.thy ===== *)
theory Err_Util
  imports Go_Prelude
begin

text \<open>
  Package \<open>errutil\<close> (\<open>src/errutil/errutil.go\<close>). An error value is a plain error with
  its message or a \<open>MultiError\<close> (a slice of errors); a nil error is \<open>None\<close>.
\<close>

datatype err = Err string | MultiError "err list"

subsection \<open>Definitions\<close>

fun Append_loop :: "err list \<Rightarrow> err option list \<Rightarrow> err list" where
  "Append_loop mErr [] = mErr"
| "Append_loop mErr (e # errs) = (case e of
       None \<Rightarrow> Append_loop mErr errs
     | Some (MultiError m) \<Rightarrow> Append_loop (mErr @ m) errs
     | Some (Err m) \<Rightarrow> Append_loop (mErr @ [Err m]) errs)"

definition Append :: "err option \<Rightarrow> err option list \<Rightarrow> err option" where
  "Append err errs =
     (if err = None \<and> errs = [] then None
      else
        let mErr = Append_loop (case err of
                       Some (MultiError e) \<Rightarrow> e
                     | Some (Err m) \<Rightarrow> [Err m]
                     | None \<Rightarrow> []) errs
        in case mErr of [] \<Rightarrow> None | [e] \<Rightarrow> Some e | _ \<Rightarrow> Some (MultiError mErr))"

text \<open>\<open>Error()\<close>; a plain error's message is its own.\<close>

fun Error_text :: "err \<Rightarrow> string" and Error_list :: "bool \<Rightarrow> err list \<Rightarrow> string" where
  "Error_text (Err m) = m"
| "Error_text (MultiError m) =
     (if m = [] then [] else ''following errors occurred: ['' @ Error_list True m @ '']'')"
| "Error_list first [] = []"
| "Error_list first (e # es) =
     (if first then [] else '', '') @ Error_text e @ Error_list False es"

definition Unwrap :: "err list \<Rightarrow> err list" where
  "Unwrap m = m"

definition Ignore :: "'a \<Rightarrow> err option \<Rightarrow> 'a" where
  "Ignore v e = v"

definition Must :: "'a \<Rightarrow> err option \<Rightarrow> 'a go" where
  "Must v e = (case e of None \<Rightarrow> Ret v | Some x \<Rightarrow> Panic (Error_text x))"

text \<open>The plain errors an error value carries, in order: what \<open>Append\<close> must not lose.\<close>

fun leaves :: "err \<Rightarrow> err list" where
  "leaves (Err m) = [Err m]"
| "leaves (MultiError es) = concat (map leaves es)"

definition leaves_opt :: "err option \<Rightarrow> err list" where
  "leaves_opt e = (case e of None \<Rightarrow> [] | Some x \<Rightarrow> leaves x)"

subsection \<open>Lemmas\<close>

lemma leaves_opt_simps [simp]: "leaves_opt None = []" "leaves_opt (Some e) = leaves e"
  by (simp_all add: leaves_opt_def)

lemma Append_loop_leaves:
  "concat (map leaves (Append_loop mErr errs)) =
   concat (map leaves mErr) @ concat (map leaves_opt errs)"
  by (induction mErr errs rule: Append_loop.induct) (auto split: option.splits err.splits)

lemma leaves_switch:
  "leaves_opt (case m of [] \<Rightarrow> None | [e] \<Rightarrow> Some e | _ \<Rightarrow> Some (MultiError m)) =
   concat (map leaves m)"
  by (auto split: list.splits)

lemma leaves_Append: "leaves_opt (Append err errs) = leaves_opt err @ concat (map leaves_opt errs)"
proof -
  have "concat (map leaves (case err of Some (MultiError e) \<Rightarrow> e | Some (Err m) \<Rightarrow> [Err m] | None \<Rightarrow> []))
      = leaves_opt err"
    by (auto split: option.splits err.splits)
  then show ?thesis
    by (auto simp: Append_def Let_def leaves_switch Append_loop_leaves)
qed

text \<open>
  Combining errors loses none and invents none: the plain errors of \<open>Append err errs\<close>
  are those of \<open>err\<close> followed by those of each argument, nil arguments contributing nothing.
\<close>

theorem Append_leaves:
  "leaves_opt (Append err errs) = leaves_opt err @ concat (map leaves_opt errs)"
  by (rule leaves_Append)

lemma Append_nil: "Append None errs = None \<longleftrightarrow> Append_loop [] errs = []"
  by (auto simp: Append_def Let_def split: list.splits)

end
