(* ===== verification/Bn_Int.thy ===== *)
theory Bn_Int
  imports Complex_Main Go_Prelude
begin

text \<open>
  \<open>IntNumber\<close> (\<open>src/bn/int.go\<close>) and the integer conversions of \<open>src/bn/bn.go\<close>. A
  \<open>*big.Int\<close> is an \<open>int\<close>; the methods never write to their receiver, so each is a
  function of its arguments. \<open>big.Int\<close> panics on a zero divisor and on the square root
  of a negative number; those methods return \<open>'a go\<close>.
\<close>

record IntNumber =
  int_x :: int

subsection \<open>Definitions\<close>

definition convertBigIntToInt :: "int \<Rightarrow> IntNumber" where
  "convertBigIntToInt v = \<lparr>int_x = v\<rparr>"

definition convertInt64ToInt :: "64 word \<Rightarrow> IntNumber" where
  "convertInt64ToInt v = \<lparr>int_x = sint v\<rparr>"

definition convertUint64ToInt :: "64 word \<Rightarrow> IntNumber" where
  "convertUint64ToInt v = \<lparr>int_x = uint v\<rparr>"

definition convertBytesToInt :: "byte list \<Rightarrow> IntNumber" where
  "convertBytesToInt bs = \<lparr>int_x = int (SetBytes bs)\<rparr>"

text \<open>The argument of the \<open>any\<close> switches, restricted to Go's integer types.\<close>

datatype any_int =
    AInt "64 word" | AInt8 "8 word" | AInt16 "16 word" | AInt32 "32 word" | AInt64 "64 word"
  | AUint "64 word" | AUint8 "8 word" | AUint16 "16 word" | AUint32 "32 word" | AUint64 "64 word"

fun anyToInt64 :: "any_int \<Rightarrow> 64 word" where
  "anyToInt64 (AInt v) = v"
| "anyToInt64 (AInt8 v) = signed v"
| "anyToInt64 (AInt16 v) = signed v"
| "anyToInt64 (AInt32 v) = signed v"
| "anyToInt64 (AInt64 v) = v"
| "anyToInt64 _ = 0"

fun anyToUint64 :: "any_int \<Rightarrow> 64 word" where
  "anyToUint64 (AUint v) = v"
| "anyToUint64 (AUint8 v) = unsigned v"
| "anyToUint64 (AUint16 v) = unsigned v"
| "anyToUint64 (AUint32 v) = unsigned v"
| "anyToUint64 (AUint64 v) = v"
| "anyToUint64 _ = 0"

definition Int_BigInt :: "IntNumber \<Rightarrow> int" where
  "Int_BigInt a = int_x a"

definition Int_String :: "IntNumber \<Rightarrow> string" where
  "Int_String a = int_text 10 (int_x a)"

definition Int_Text :: "IntNumber \<Rightarrow> nat \<Rightarrow> string" where
  "Int_Text a base = int_text base (int_x a)"

definition Int_Sign :: "IntNumber \<Rightarrow> int" where
  "Int_Sign a = sgn (int_x a)"

definition Int_Add :: "IntNumber \<Rightarrow> IntNumber \<Rightarrow> IntNumber" where
  "Int_Add a b = \<lparr>int_x = int_x a + int_x b\<rparr>"

definition Int_Sub :: "IntNumber \<Rightarrow> IntNumber \<Rightarrow> IntNumber" where
  "Int_Sub a b = \<lparr>int_x = int_x a - int_x b\<rparr>"

definition Int_Mul :: "IntNumber \<Rightarrow> IntNumber \<Rightarrow> IntNumber" where
  "Int_Mul a b = \<lparr>int_x = int_x a * int_x b\<rparr>"

definition Int_Div :: "IntNumber \<Rightarrow> IntNumber \<Rightarrow> IntNumber go" where
  "Int_Div a b = (if int_x b = 0 then Panic ''division by zero''
     else Ret \<lparr>int_x = EDiv (int_x a) (int_x b)\<rparr>)"

definition Int_DivRoundUp :: "IntNumber \<Rightarrow> IntNumber \<Rightarrow> IntNumber go" where
  "Int_DivRoundUp a b =
     (if int_x b = 0 then Panic ''division by zero''
      else if sgn (TRem (int_x a) (int_x b)) > 0
      then Ret \<lparr>int_x = EDiv (int_x a) (int_x b) + 1\<rparr>
      else Ret \<lparr>int_x = EDiv (int_x a) (int_x b)\<rparr>)"

definition Int_Rem :: "IntNumber \<Rightarrow> IntNumber \<Rightarrow> IntNumber go" where
  "Int_Rem a b = (if int_x b = 0 then Panic ''division by zero''
     else Ret \<lparr>int_x = TRem (int_x a) (int_x b)\<rparr>)"

text \<open>\<open>big.Int.Exp\<close> with a nil modulus returns 1 for an exponent that is not positive.\<close>

definition Int_Pow :: "IntNumber \<Rightarrow> IntNumber \<Rightarrow> IntNumber" where
  "Int_Pow a b = \<lparr>int_x = (if int_x b \<le> 0 then 1 else int_x a ^ nat (int_x b))\<rparr>"

text \<open>\<open>big.Int.Sqrt\<close>: the integer square root, found by counting up.\<close>

function isqrt_from :: "nat \<Rightarrow> nat \<Rightarrow> nat" where
  "isqrt_from n r = (if (r + 1) * (r + 1) \<le> n then isqrt_from n (r + 1) else r)"
  by pat_completeness auto
termination
proof (relation "measure (\<lambda>(n, r). n - r)")
  fix n r :: nat
  assume "(r + 1) * (r + 1) \<le> n"
  then have "r + 1 \<le> n" using le_square [of "r + 1"] by linarith
  then show "((n, r + 1), n, r) \<in> measure (\<lambda>(n, r). n - r)" by simp
qed simp

declare isqrt_from.simps [simp del]

definition Int_Sqrt :: "IntNumber \<Rightarrow> IntNumber go" where
  "Int_Sqrt a = (if int_x a < 0 then Panic ''square root of negative number''
     else Ret \<lparr>int_x = int (isqrt_from (nat (int_x a)) 0)\<rparr>)"

definition Int_Cmp :: "IntNumber \<Rightarrow> IntNumber \<Rightarrow> int" where
  "Int_Cmp a b = go_cmp (int_x a) (int_x b)"

definition Int_Lsh :: "IntNumber \<Rightarrow> nat \<Rightarrow> IntNumber" where
  "Int_Lsh a n = \<lparr>int_x = push_bit n (int_x a)\<rparr>"

definition Int_Rsh :: "IntNumber \<Rightarrow> nat \<Rightarrow> IntNumber" where
  "Int_Rsh a n = \<lparr>int_x = drop_bit n (int_x a)\<rparr>"

definition Int_Abs :: "IntNumber \<Rightarrow> IntNumber" where
  "Int_Abs a = \<lparr>int_x = \<bar>int_x a\<bar>\<rparr>"

definition Int_Neg :: "IntNumber \<Rightarrow> IntNumber" where
  "Int_Neg a = \<lparr>int_x = - int_x a\<rparr>"

subsection \<open>Lemmas\<close>

lemma isqrt_from_spec:
  "r * r \<le> n \<Longrightarrow> isqrt_from n r * isqrt_from n r \<le> n \<and> n < (isqrt_from n r + 1) * (isqrt_from n r + 1)"
proof (induction n r rule: isqrt_from.induct)
  case (1 n r)
  show ?case
  proof (cases "(r + 1) * (r + 1) \<le> n")
    case True
    with 1 show ?thesis by (simp add: isqrt_from.simps [of n r])
  next
    case False
    with 1 show ?thesis by (simp add: isqrt_from.simps [of n r])
  qed
qed

lemma EDiv_pos [go_int]: "0 < y \<Longrightarrow> EDiv x y = x div y"
  by (simp add: EDiv_def)

lemma ceiling_div_pos:
  fixes a b :: int
  assumes "0 < b"
  shows "\<lceil>of_int a / (of_int b :: rat)\<rceil> = a div b + (if a mod b = 0 then 0 else 1)"
proof -
  have "\<lceil>of_int a / (of_int b :: rat)\<rceil> = - ((- a) div b)"
    by (rule ceiling_divide_eq_div)
  also have "\<dots> = a div b + (if a mod b = 0 then 0 else 1)"
    using assms by (simp add: zdiv_zminus1_eq_if)
  finally show ?thesis .
qed

text \<open>
  \<open>IntNumber.DivRoundUp\<close> is the exact quotient rounded up to an integer, for a
  dividend that is not negative and a positive divisor.
\<close>

theorem DivRoundUp_ceiling:
  assumes "0 \<le> int_x a" "0 < int_x b"
  shows "Int_DivRoundUp a b = Ret \<lparr>int_x = \<lceil>of_int (int_x a) / (of_int (int_x b) :: rat)\<rceil>\<rparr>"
  using assms by (auto simp: Int_DivRoundUp_def ceiling_div_pos go_int)
    (smt (verit) pos_mod_sign)

theorem DivRoundUp_ceiling_witness:
  "Int_DivRoundUp \<lparr>int_x = 123\<rparr> \<lparr>int_x = 50\<rparr> = Ret \<lparr>int_x = \<lceil>of_int 123 / (of_int 50 :: rat)\<rceil>\<rparr>"
  using DivRoundUp_ceiling [of "\<lparr>int_x = 123\<rparr>" "\<lparr>int_x = 50\<rparr>"] by simp

text \<open>
  Outside that range it does not round up: \<open>-7 / 2\<close> gives \<open>-4\<close> (rounded up it is
  \<open>-3\<close>) and \<open>7 / -2\<close> gives \<open>-2\<close> (rounded up it is \<open>-3\<close>).
\<close>

lemma DivRoundUp_negative:
  "Int_DivRoundUp \<lparr>int_x = -7\<rparr> \<lparr>int_x = 2\<rparr> = Ret \<lparr>int_x = -4\<rparr>"
  "Int_DivRoundUp \<lparr>int_x = 7\<rparr> \<lparr>int_x = -2\<rparr> = Ret \<lparr>int_x = -2\<rparr>"
  by (simp_all add: Int_DivRoundUp_def TRem_def Quo_def EDiv_def)

lemma Int_Sqrt_spec:
  assumes "int_x a = int n"
  shows "\<exists>r. Int_Sqrt a = Ret \<lparr>int_x = int r\<rparr> \<and> r * r \<le> n \<and> n < (r + 1) * (r + 1)"
  using isqrt_from_spec [of 0 n] assms
  by (intro exI [of _ "isqrt_from n 0"]) (simp add: Int_Sqrt_def)

end
