(* ===== verification/Bn_Fixed.thy ===== *)
theory Bn_Fixed
  imports Bn_Int
begin

text \<open>
  \<open>DecFixedPointNumber\<close> (\<open>src/bn/decfixedpoint.go\<close>): an integer scaled by a power of
  ten. The \<open>uint8\<close> precision is a \<open>nat\<close> with the invariant \<open>fix_ok\<close> (at most 255):
  every sum of precisions the code forms is a \<open>uint32\<close> and stays below \<open>2 ^ 32\<close>, so no
  arithmetic on precisions wraps around.

  The value of a number is the rational \<open>fix_val\<close>. \<open>rnd n q\<close> is the rounding the code
  performs when it stores \<open>q\<close> with \<open>n\<close> decimals: half up for \<open>q \<ge> 0\<close>, towards zero
  for \<open>q < 0\<close>. Every arithmetic method is shown to be the exact rational operation
  followed by \<open>rnd\<close> (\<open>bigIntSetPrec_rnd\<close> carries all of them).
\<close>

record DecFixedPointNumber =
  fix_p :: nat
  fix_x :: int

definition MaxDecPointPrecision :: nat where "MaxDecPointPrecision = 255"
definition decGuardDigits :: nat where "decGuardDigits = 2"
definition divPrecisionIncrease :: nat where "divPrecisionIncrease = 16"

definition fix_ok :: "DecFixedPointNumber \<Rightarrow> bool" where
  "fix_ok a \<longleftrightarrow> fix_p a \<le> MaxDecPointPrecision"

subsection \<open>Definitions\<close>

definition pow10 :: "nat \<Rightarrow> int" where
  "pow10 n = 10 ^ n"

definition bigIntDivRound :: "int \<Rightarrow> int \<Rightarrow> int" where
  "bigIntDivRound a b =
     (let quo = Quo a b; rm = TRem a b in
      if rm = 0 then quo
      else if Quo b 2 \<le> rm then quo + 1
      else quo)"

definition bigIntSetPrec :: "int \<Rightarrow> nat \<Rightarrow> nat \<Rightarrow> int" where
  "bigIntSetPrec a currPrec newPrec =
     (if currPrec = newPrec \<or> a = 0 then a
      else if currPrec < newPrec then a * 10 ^ (newPrec - currPrec)
      else bigIntDivRound a (10 ^ (currPrec - newPrec)))"

definition DecFixedPointFromRawBigInt :: "int \<Rightarrow> nat \<Rightarrow> DecFixedPointNumber" where
  "DecFixedPointFromRawBigInt v n = \<lparr>fix_p = n, fix_x = v\<rparr>"

definition convertIntToDecFixedPoint :: "IntNumber \<Rightarrow> nat \<Rightarrow> DecFixedPointNumber" where
  "convertIntToDecFixedPoint v n = \<lparr>fix_p = n, fix_x = bigIntSetPrec (int_x v) 0 n\<rparr>"

definition convertBigIntToDecFixedPoint :: "int \<Rightarrow> nat \<Rightarrow> DecFixedPointNumber" where
  "convertBigIntToDecFixedPoint v n = \<lparr>fix_p = n, fix_x = v * pow10 n\<rparr>"

definition convertInt64ToDecFixedPoint :: "64 word \<Rightarrow> nat \<Rightarrow> DecFixedPointNumber" where
  "convertInt64ToDecFixedPoint v n = \<lparr>fix_p = n, fix_x = sint v * pow10 n\<rparr>"

definition convertUint64ToDecFixedPoint :: "64 word \<Rightarrow> nat \<Rightarrow> DecFixedPointNumber" where
  "convertUint64ToDecFixedPoint v n = \<lparr>fix_p = n, fix_x = uint v * pow10 n\<rparr>"

definition Fix_RawBigInt :: "DecFixedPointNumber \<Rightarrow> int" where
  "Fix_RawBigInt a = fix_x a"

definition Fix_String :: "DecFixedPointNumber \<Rightarrow> string" where
  "Fix_String a =
     (if fix_x a = 0 then ''0''
      else if fix_p a = 0 then int_text 10 (fix_x a)
      else
        let n = int_text 10 \<bar>fix_x a\<bar>;
            s = (if fix_x a < 0 then ''-'' else [])
        in if length n \<le> fix_p a
           then s @ ''0.'' @ replicate (fix_p a - length n) (CHR ''0'') @ TrimRight n (CHR ''0'')
           else
             let intPart = take (length n - fix_p a) n;
                 fractPart = TrimRight (drop (length n - fix_p a) n) (CHR ''0'')
             in s @ intPart @ (if 0 < length fractPart then ''.'' @ fractPart else []))"

definition Fix_Prec :: "DecFixedPointNumber \<Rightarrow> nat" where
  "Fix_Prec a = fix_p a"

definition Fix_SetPrec :: "DecFixedPointNumber \<Rightarrow> nat \<Rightarrow> DecFixedPointNumber" where
  "Fix_SetPrec a prec =
     (if fix_p a = prec then a
      else if fix_x a = 0 then \<lparr>fix_p = prec, fix_x = 0\<rparr>
      else \<lparr>fix_p = prec, fix_x = bigIntSetPrec (fix_x a) (fix_p a) prec\<rparr>)"

definition Fix_Sign :: "DecFixedPointNumber \<Rightarrow> int" where
  "Fix_Sign a = sgn (fix_x a)"

definition Fix_Add :: "DecFixedPointNumber \<Rightarrow> DecFixedPointNumber \<Rightarrow> DecFixedPointNumber" where
  "Fix_Add a b =
     (let p = max (fix_p a) (fix_p b);
          xi = bigIntSetPrec (fix_x a) (fix_p a) p;
          yi = bigIntSetPrec (fix_x b) (fix_p b) p;
          z = bigIntSetPrec (xi + yi) p (fix_p a)
      in \<lparr>fix_p = fix_p a, fix_x = z\<rparr>)"

definition Fix_Sub :: "DecFixedPointNumber \<Rightarrow> DecFixedPointNumber \<Rightarrow> DecFixedPointNumber" where
  "Fix_Sub a b =
     (let p = max (fix_p a) (fix_p b);
          xi = bigIntSetPrec (fix_x a) (fix_p a) p;
          yi = bigIntSetPrec (fix_x b) (fix_p b) p;
          z = bigIntSetPrec (xi - yi) p (fix_p a)
      in \<lparr>fix_p = fix_p a, fix_x = z\<rparr>)"

definition Fix_Mul :: "DecFixedPointNumber \<Rightarrow> DecFixedPointNumber \<Rightarrow> DecFixedPointNumber" where
  "Fix_Mul a b =
     (let p = fix_p a + fix_p b;
          xi = bigIntSetPrec (fix_x a) (fix_p a) p;
          yi = bigIntSetPrec (fix_x b) (fix_p b) p;
          z = bigIntSetPrec (xi * yi) (p * 2) (fix_p a)
      in \<lparr>fix_p = fix_p a, fix_x = z\<rparr>)"

text \<open>
  \<open>DivPrec\<close>: a precision below that of the divisor can round the divisor to zero, and then
  \<open>big.Int.Quo\<close> panics.
\<close>

definition Fix_DivPrec :: "DecFixedPointNumber \<Rightarrow> DecFixedPointNumber \<Rightarrow> nat \<Rightarrow> DecFixedPointNumber go" where
  "Fix_DivPrec a b prec =
     (if fix_x b = 0 then Panic ''division by zero''
      else
        let xi = bigIntSetPrec (fix_x a) (fix_p a) prec;
            yi = bigIntSetPrec (fix_x b) (fix_p b) prec
        in if yi = 0 then Panic ''division by zero''
           else Ret \<lparr>fix_p = fix_p a, fix_x = bigIntSetPrec (Quo (xi * pow10 prec) yi) prec (fix_p a)\<rparr>)"

definition Fix_Div :: "DecFixedPointNumber \<Rightarrow> DecFixedPointNumber \<Rightarrow> DecFixedPointNumber go" where
  "Fix_Div a b = Fix_DivPrec a b (max (fix_p a) (fix_p b) + decGuardDigits)"

definition Fix_Cmp :: "DecFixedPointNumber \<Rightarrow> DecFixedPointNumber \<Rightarrow> int" where
  "Fix_Cmp a b = go_cmp (fix_x a) (bigIntSetPrec (fix_x b) (fix_p b) (fix_p a))"

definition Fix_Abs :: "DecFixedPointNumber \<Rightarrow> DecFixedPointNumber" where
  "Fix_Abs a = \<lparr>fix_p = fix_p a, fix_x = \<bar>fix_x a\<bar>\<rparr>"

definition Fix_Neg :: "DecFixedPointNumber \<Rightarrow> DecFixedPointNumber" where
  "Fix_Neg a = \<lparr>fix_p = fix_p a, fix_x = - fix_x a\<rparr>"

definition Fix_Inv :: "DecFixedPointNumber \<Rightarrow> DecFixedPointNumber go" where
  "Fix_Inv a =
     (if fix_x a = 0 then Panic ''division by zero''
      else Ret \<lparr>fix_p = fix_p a, fix_x = bigIntDivRound (pow10 (fix_p a * 2)) (fix_x a)\<rparr>)"

fun BitLen :: "nat \<Rightarrow> nat" where
  "BitLen n = (if n = 0 then 0 else Suc (BitLen (n div 2)))"

declare BitLen.simps [simp del]

definition Fix_MarshalBinary :: "DecFixedPointNumber \<Rightarrow> byte list" where
  "Fix_MarshalBinary a =
     (let m = nat \<bar>fix_x a\<bar> in
      [0, word_of_nat (fix_p a)] @ FillBytes ((BitLen m + 7) div 8) m)"

datatype unmarshal_error = InvalidLength | InvalidFormat

definition Fix_UnmarshalBinary :: "byte list \<Rightarrow> unmarshal_error + DecFixedPointNumber" where
  "Fix_UnmarshalBinary data =
     (if length data < 2 then Inl InvalidLength
      else if data ! 0 \<noteq> 0 then Inl InvalidFormat
      else Inr \<lparr>fix_p = unat (data ! 1), fix_x = int (SetBytes (drop 2 data))\<rparr>)"

text \<open>The specification side: the value of a number and the rounding of a stored one.\<close>

definition dec_unsigned :: "string \<Rightarrow> rat option" where
  "dec_unsigned t = (case split_on (CHR ''.'') t of
       [i] \<Rightarrow> map_option rat_of_nat (nat_parse 10 i)
     | [i, f] \<Rightarrow> (case (nat_parse 10 i, nat_parse 10 f) of
           (Some n, Some m) \<Rightarrow> Some (rat_of_nat n + rat_of_nat m / 10 ^ length f)
         | _ \<Rightarrow> None)
     | _ \<Rightarrow> None)"

text \<open>The rational a decimal string denotes: an optional sign, digits, an optional fraction.\<close>

definition dec_denote :: "string \<Rightarrow> rat option" where
  "dec_denote s = (case s of
       c # t \<Rightarrow> if c = CHR ''-'' then map_option uminus (dec_unsigned t) else dec_unsigned s
     | [] \<Rightarrow> None)"

definition fix_val :: "DecFixedPointNumber \<Rightarrow> rat" where
  "fix_val a = of_int (fix_x a) / 10 ^ fix_p a"

definition rnd :: "nat \<Rightarrow> rat \<Rightarrow> int" where
  "rnd n q = (if 0 \<le> q then \<lfloor>q * 10 ^ n + 1 / 2\<rfloor> else \<lceil>q * 10 ^ n\<rceil>)"

subsection \<open>Lemmas: rounding\<close>

lemma floor_half: "\<lfloor>1 / 2 :: rat\<rfloor> = 0"
  by (simp add: floor_eq_iff)

lemma rnd_int: "q * 10 ^ n = of_int i \<Longrightarrow> rnd n q = i"
  by (simp add: rnd_def floor_half)

lemma even_pow10: "0 < k \<Longrightarrow> even ((10::int) ^ k)"
  by simp

lemma DivRound_nonneg:
  fixes a d :: int
  assumes "0 \<le> a" "0 < d" "even d"
  shows "bigIntDivRound a d = \<lfloor>of_int a / of_int d + (1 / 2 :: rat)\<rfloor>"
proof -
  have d2: "Quo d 2 = d div 2" using assms by (simp add: Quo_nonneg)
  have m: "0 \<le> a mod d" "a mod d < d" using assms by simp_all
  have e: "of_int a / of_int d + (1 / 2 :: rat) = of_int (2 * a + d) / of_int (2 * d)"
    using assms by (simp add: field_simps)
  have "(2 * a + d) div (2 * d) = a div d + (2 * (a mod d) + d) div (2 * d)"
  proof -
    have eq: "2 * a + d = (2 * (a mod d) + d) + (a div d) * (2 * d)"
      using div_mult_mod_eq [of a d] by linarith
    show ?thesis unfolding eq using assms by (intro div_mult_self1) simp
  qed
  also have "(2 * (a mod d) + d) div (2 * d) = (if d div 2 \<le> a mod d then 1 else 0)"
  proof (cases "d div 2 \<le> a mod d")
    case True
    with assms(3) m have "2 * d \<le> 2 * (a mod d) + d" "2 * (a mod d) + d < 2 * (2 * d)" by auto
    then have "(2 * (a mod d) + d) div (2 * d) = 1"
      by (intro int_div_pos_eq [of _ _ _ "2 * (a mod d) - d"]) auto
    with True show ?thesis by simp
  next
    case False
    with assms(3) have "2 * (a mod d) + d < 2 * d" by auto
    with m assms(2) False show ?thesis by simp
  qed
  finally have "\<lfloor>of_int a / of_int d + (1 / 2 :: rat)\<rfloor> = a div d + (if d div 2 \<le> a mod d then 1 else 0)"
    unfolding e floor_divide_of_int_eq .
  moreover have "0 < d div 2" using assms by auto
  ultimately show ?thesis
    using assms by (auto simp: bigIntDivRound_def Let_def d2 go_int)
qed

lemma DivRound_neg:
  fixes a d :: int
  assumes "a < 0" "0 < d" "even d"
  shows "bigIntDivRound a d = \<lceil>of_int a / (of_int d :: rat)\<rceil>"
proof -
  have "0 < Quo d 2" using assms by (auto simp: Quo_nonneg)
  then have "\<not> Quo d 2 \<le> TRem a d" using TRem_sign_neg [of a d] assms by simp
  then have "bigIntDivRound a d = Quo a d" by (simp add: bigIntDivRound_def Let_def)
  also have "\<dots> = - Quo (- a) d" by (simp add: Quo_neg)
  also have "\<dots> = - ((- a) div d)" using assms by (simp add: Quo_nonneg)
  finally show ?thesis by (simp add: ceiling_divide_eq_div)
qed

lemma bigIntSetPrec_up:
  "c \<le> n \<Longrightarrow> bigIntSetPrec a c n = a * 10 ^ (n - c)"
  by (auto simp: bigIntSetPrec_def)

lemma scaled_down:
  assumes "n < c"
  shows "of_int a * 10 ^ n / 10 ^ c = of_int a / (10 ^ (c - n) :: rat)"
proof -
  have "(10::rat) ^ c = 10 ^ (c - n) * 10 ^ n" using assms by (simp flip: power_add)
  then show ?thesis by simp
qed

lemma scaled_up:
  assumes "c \<le> n"
  shows "of_int a / 10 ^ c * 10 ^ n = (of_int (a * 10 ^ (n - c)) :: rat)"
proof -
  have "(10::rat) ^ n = 10 ^ (n - c) * 10 ^ c" using assms by (simp flip: power_add)
  then show ?thesis by simp
qed

text \<open>Changing the precision is rounding the value: the lemma behind every method.\<close>

lemma bigIntSetPrec_rnd: "bigIntSetPrec a c n = rnd n (of_int a / 10 ^ c)"
proof (cases "c \<le> n")
  case True
  then show ?thesis by (simp only: bigIntSetPrec_up rnd_int [OF scaled_up])
next
  case False
  then have e: "even ((10::int) ^ (c - n))" by (intro even_pow10) simp
  consider "a = 0" | "0 < a" | "a < 0" by linarith
  then show ?thesis
  proof cases
    case 1
    then show ?thesis by (simp add: bigIntSetPrec_def rnd_def floor_half)
  next
    case 2
    then have "bigIntSetPrec a c n = bigIntDivRound a (10 ^ (c - n))"
      using False by (simp add: bigIntSetPrec_def)
    with 2 e False show ?thesis by (simp add: DivRound_nonneg rnd_def scaled_down)
  next
    case 3
    then have "bigIntSetPrec a c n = bigIntDivRound a (10 ^ (c - n))"
      using False by (simp add: bigIntSetPrec_def)
    moreover have "\<not> 0 \<le> rat_of_int a / 10 ^ c"
      using 3 by (simp add: divide_neg_pos not_le)
    ultimately show ?thesis using 3 e False by (simp add: DivRound_neg rnd_def scaled_down)
  qed
qed

lemma setPrec_val_up: "c \<le> n \<Longrightarrow> rat_of_int (bigIntSetPrec a c n) / 10 ^ n = of_int a / 10 ^ c"
proof -
  assume c: "c \<le> n"
  then have "(10::rat) ^ n = 10 ^ (n - c) * 10 ^ c" by (simp flip: power_add)
  with c show ?thesis by (simp add: bigIntSetPrec_up)
qed

lemma fix_p_ops [simp]:
  "fix_p (Fix_Add a b) = fix_p a" "fix_p (Fix_Sub a b) = fix_p a" "fix_p (Fix_Mul a b) = fix_p a"
  "fix_p (Fix_SetPrec a n) = n" "fix_p (Fix_Abs a) = fix_p a" "fix_p (Fix_Neg a) = fix_p a"
  by (simp_all add: Fix_Add_def Fix_Sub_def Fix_Mul_def Fix_SetPrec_def Fix_Abs_def Fix_Neg_def Let_def)

lemma setPrec_prod:
  "bigIntSetPrec (u * v) (s * 2) n = rnd n ((rat_of_int u / 10 ^ s) * (rat_of_int v / 10 ^ s))"
proof -
  have "rat_of_int (u * v) / 10 ^ (s * 2) = (rat_of_int u / 10 ^ s) * (rat_of_int v / 10 ^ s)"
    by (simp add: mult_2_right power_add)
  then show ?thesis by (simp only: bigIntSetPrec_rnd)
qed

lemma scaled_vals:
  "rat_of_int (bigIntSetPrec (fix_x a) (fix_p a) (max (fix_p a) n)) / 10 ^ max (fix_p a) n = fix_val a"
  "rat_of_int (bigIntSetPrec (fix_x a) (fix_p a) (max n (fix_p a))) / 10 ^ max n (fix_p a) = fix_val a"
  "rat_of_int (bigIntSetPrec (fix_x a) (fix_p a) (fix_p a + n)) / 10 ^ (fix_p a + n) = fix_val a"
  "rat_of_int (bigIntSetPrec (fix_x a) (fix_p a) (n + fix_p a)) / 10 ^ (n + fix_p a) = fix_val a"
  by (simp_all only: fix_val_def setPrec_val_up max.cobounded1 max.cobounded2 le_add1 le_add2)

lemma Fix_Add_rnd: "fix_x (Fix_Add a b) = rnd (fix_p a) (fix_val a + fix_val b)"
  by (simp add: Fix_Add_def Let_def bigIntSetPrec_rnd [of "_ + _"] add_divide_distrib scaled_vals)

lemma Fix_Sub_rnd: "fix_x (Fix_Sub a b) = rnd (fix_p a) (fix_val a - fix_val b)"
  by (simp add: Fix_Sub_def Let_def bigIntSetPrec_rnd [of "_ - _"] diff_divide_distrib scaled_vals)

lemma Fix_Mul_rnd: "fix_x (Fix_Mul a b) = rnd (fix_p a) (fix_val a * fix_val b)"
  unfolding Fix_Mul_def Let_def setPrec_prod scaled_vals by simp

lemma Fix_SetPrec_rnd: "fix_x (Fix_SetPrec a n) = rnd n (fix_val a)"
proof -
  have "fix_x (Fix_SetPrec a n) = bigIntSetPrec (fix_x a) (fix_p a) n"
    by (simp add: Fix_SetPrec_def bigIntSetPrec_def)
  then show ?thesis by (simp only: bigIntSetPrec_rnd fix_val_def)
qed

text \<open>Truncated division of integers is truncation of the rational quotient.\<close>

definition trunc_rat :: "rat \<Rightarrow> int" where
  "trunc_rat q = (if 0 \<le> q then \<lfloor>q\<rfloor> else \<lceil>q\<rceil>)"

lemma trunc_rat_minus [simp]: "trunc_rat (- q) = - trunc_rat q"
  by (auto simp: trunc_rat_def ceiling_def)

lemma Quo_trunc_pos: "0 \<le> u \<Longrightarrow> 0 < v \<Longrightarrow> Quo u v = trunc_rat (rat_of_int u / rat_of_int v)"
  by (simp add: Quo_nonneg trunc_rat_def floor_divide_of_int_eq)

lemma Quo_trunc:
  assumes "v \<noteq> 0"
  shows "Quo u v = trunc_rat (rat_of_int u / rat_of_int v)"
proof -
  have pos: "Quo u v = trunc_rat (rat_of_int u / rat_of_int v)" if "0 < v" for u v
  proof (cases "0 \<le> u")
    case False
    then have "Quo (- u) v = trunc_rat (rat_of_int (- u) / rat_of_int v)"
      using that by (intro Quo_trunc_pos) auto
    then show ?thesis by (simp add: Quo_neg)
  qed (use that in \<open>simp add: Quo_trunc_pos\<close>)
  show ?thesis
  proof (cases "0 < v")
    case False
    with assms have "Quo u (- v) = trunc_rat (rat_of_int u / rat_of_int (- v))"
      by (intro pos) simp
    then show ?thesis by (simp add: Quo_neg_right)
  qed (rule pos)
qed

lemma DivPrec_quo:
  assumes "fix_x b \<noteq> 0" "fix_p a \<le> w" "fix_p b \<le> w"
  shows "bigIntSetPrec (fix_x b) (fix_p b) w \<noteq> 0"
    and "Quo (bigIntSetPrec (fix_x a) (fix_p a) w * pow10 w) (bigIntSetPrec (fix_x b) (fix_p b) w)
       = trunc_rat (fix_val a / fix_val b * 10 ^ w)"
proof -
  let ?u = "bigIntSetPrec (fix_x a) (fix_p a) w" and ?v = "bigIntSetPrec (fix_x b) (fix_p b) w"
  have v: "fix_val a = rat_of_int ?u / 10 ^ w" "fix_val b = rat_of_int ?v / 10 ^ w"
    using assms by (simp_all only: setPrec_val_up fix_val_def)
  show nz: "?v \<noteq> 0" using assms by (simp add: bigIntSetPrec_up)
  have "rat_of_int (?u * pow10 w) / rat_of_int ?v = fix_val a / fix_val b * 10 ^ w"
    by (simp add: v pow10_def)
  with Quo_trunc [OF nz, of "?u * pow10 w"]
  show "Quo (?u * pow10 w) ?v = trunc_rat (fix_val a / fix_val b * 10 ^ w)" by simp
qed

lemma Fix_Div_rnd:
  assumes "fix_x b \<noteq> 0"
  shows "Fix_Div a b = Ret \<lparr>fix_p = fix_p a, fix_x =
    (let w = max (fix_p a) (fix_p b) + 2
     in rnd (fix_p a) (of_int (trunc_rat (fix_val a / fix_val b * 10 ^ w)) / 10 ^ w))\<rparr>"
  using assms DivPrec_quo [OF assms, of a "max (fix_p a) (fix_p b) + 2"]
  by (simp add: Fix_Div_def Fix_DivPrec_def Let_def decGuardDigits_def bigIntSetPrec_rnd [of "trunc_rat _"])

lemma rnd_bounds:
  shows "0 \<le> q \<Longrightarrow> \<bar>of_int (rnd n q) / 10 ^ n - q\<bar> \<le> 1 / (2 * 10 ^ n)"
    and "q < 0 \<Longrightarrow> q \<le> of_int (rnd n q) / 10 ^ n \<and> of_int (rnd n q) / 10 ^ n < q + 1 / 10 ^ n"
proof -
  have p: "(0::rat) < 10 ^ n" by simp
  {
    assume q: "0 \<le> q"
    let ?r = "rat_of_int (rnd n q)"
    have "?r \<le> q * 10 ^ n + 1 / 2" "q * 10 ^ n + 1 / 2 < ?r + 1"
      using q floor_correct [of "q * 10 ^ n + 1 / 2"] by (simp_all add: rnd_def)
    then have "\<bar>?r - q * 10 ^ n\<bar> \<le> 1 / 2" by linarith
    moreover have "?r / 10 ^ n - q = (?r - q * 10 ^ n) / 10 ^ n" using p by (simp add: field_simps)
    ultimately show "\<bar>?r / 10 ^ n - q\<bar> \<le> 1 / (2 * 10 ^ n)"
      using p by (simp add: abs_divide field_simps)
  next
    assume q: "q < 0"
    let ?r = "rat_of_int (rnd n q)"
    have "q * 10 ^ n \<le> ?r" "?r < q * 10 ^ n + 1"
      using q ceiling_correct [of "q * 10 ^ n"] by (simp_all add: rnd_def)
    with p show "q \<le> ?r / 10 ^ n \<and> ?r / 10 ^ n < q + 1 / 10 ^ n"
      by (simp add: field_simps)
  }
qed

lemma Fix_Cmp_exact:
  assumes "fix_p b \<le> fix_p a"
  shows "Fix_Cmp a b = (if fix_val a < fix_val b then -1 else if fix_val a = fix_val b then 0 else 1)"
proof -
  let ?v = "bigIntSetPrec (fix_x b) (fix_p b) (fix_p a)"
  have "fix_val b = rat_of_int ?v / 10 ^ fix_p a"
    using assms by (simp only: setPrec_val_up fix_val_def)
  moreover have "fix_val a = rat_of_int (fix_x a) / 10 ^ fix_p a" by (simp add: fix_val_def)
  ultimately have "fix_val a < fix_val b \<longleftrightarrow> fix_x a < ?v" "fix_val a = fix_val b \<longleftrightarrow> fix_x a = ?v"
    by (simp_all add: divide_less_cancel)
  then show ?thesis by (simp add: Fix_Cmp_def go_cmp_def)
qed

subsection \<open>Properties of the fixed-point methods\<close>

text \<open>
  C4: A fixed-point method is the exact rational operation followed by one rounding to the
  precision of the receiver: addition, subtraction, multiplication and change of precision.
\<close>

theorem Fix_arith_exact_then_rounded:
  "fix_x (Fix_Add a b) = rnd (fix_p a) (fix_val a + fix_val b) \<and>
   fix_x (Fix_Sub a b) = rnd (fix_p a) (fix_val a - fix_val b) \<and>
   fix_x (Fix_Mul a b) = rnd (fix_p a) (fix_val a * fix_val b) \<and>
   fix_x (Fix_SetPrec a n) = rnd n (fix_val a)"
  by (simp add: Fix_Add_rnd Fix_Sub_rnd Fix_Mul_rnd Fix_SetPrec_rnd)

text \<open>
  C26: \<open>Div\<close> panics exactly on a zero divisor; otherwise the exact quotient is truncated to
  two guard digits past the larger precision and then rounded to the receiver's precision.
\<close>

theorem Fix_Div_spec:
  "Fix_Div a b =
     (if fix_x b = 0 then Panic ''division by zero''
      else Ret \<lparr>fix_p = fix_p a, fix_x =
        (let w = max (fix_p a) (fix_p b) + 2
         in rnd (fix_p a) (of_int (trunc_rat (fix_val a / fix_val b * 10 ^ w)) / 10 ^ w))\<rparr>)"
proof (cases "fix_x b = 0")
  case True
  then show ?thesis by (simp add: Fix_Div_def Fix_DivPrec_def)
next
  case False
  then show ?thesis by (simp only: Fix_Div_rnd [OF False] if_False)
qed

text \<open>
  Storing a number with \<open>n\<close> decimals moves a non-negative value by at most half a unit
  in the last place, and a negative value up by less than one unit (it is truncated).
\<close>

theorem Fix_SetPrec_error:
  "\<bar>fix_val (Fix_SetPrec a n) - fix_val a\<bar> \<le> (if 0 \<le> fix_x a then 1 / (2 * 10 ^ n) else 1 / 10 ^ n)"
proof (cases "0 \<le> fix_x a")
  case True
  then have "0 \<le> fix_val a" by (simp add: fix_val_def)
  from rnd_bounds(1) [OF this, of n] True show ?thesis
    by (simp add: fix_val_def [of "Fix_SetPrec a n"] Fix_SetPrec_rnd)
next
  case False
  then have "fix_val a < 0" by (simp add: fix_val_def divide_neg_pos)
  from rnd_bounds(2) [OF this, of n] False show ?thesis
    by (simp add: fix_val_def [of "Fix_SetPrec a n"] Fix_SetPrec_rnd)
qed

text \<open>A negative number is truncated, not rounded: \<open>-1.9\<close> with no decimals becomes \<open>-1\<close>.\<close>

lemma SetPrec_truncates_negative:
  "Fix_SetPrec \<lparr>fix_p = 1, fix_x = -19\<rparr> 0 = \<lparr>fix_p = 0, fix_x = -1\<rparr>"
  "Fix_SetPrec \<lparr>fix_p = 1, fix_x = 19\<rparr> 0 = \<lparr>fix_p = 0, fix_x = 2\<rparr>"
  by (simp_all add: Fix_SetPrec_def bigIntSetPrec_def bigIntDivRound_def Quo_def TRem_def)

text \<open>
  \<open>Cmp\<close> orders two numbers by their values when the argument has no more decimals
  than the receiver.
\<close>

theorem Fix_Cmp_orders_values:
  assumes "fix_p b \<le> fix_p a"
  shows "Fix_Cmp a b = (if fix_val a < fix_val b then -1 else if fix_val a = fix_val b then 0 else 1)"
  using assms by (rule Fix_Cmp_exact)

theorem Fix_Cmp_orders_values_witness:
  "fix_p \<lparr>fix_p = 1, fix_x = 3\<rparr> \<le> fix_p \<lparr>fix_p = 2, fix_x = 25\<rparr> \<and>
   Fix_Cmp \<lparr>fix_p = 2, fix_x = 25\<rparr> \<lparr>fix_p = 1, fix_x = 3\<rparr> = -1"
  using Fix_Cmp_orders_values [of "\<lparr>fix_p = 1, fix_x = 3\<rparr>" "\<lparr>fix_p = 2, fix_x = 25\<rparr>"]
  by (simp add: fix_val_def)

text \<open>
  With more decimals in the argument, \<open>Cmp\<close> first rounds the argument to the
  receiver's precision: \<open>1\<close> compares equal to \<open>1.4\<close>, while \<open>1.4\<close> compares greater
  than \<open>1\<close>, so \<open>Cmp\<close> is not antisymmetric.
\<close>

theorem Fix_Cmp_rounds_argument:
  "Fix_Cmp \<lparr>fix_p = 0, fix_x = 1\<rparr> \<lparr>fix_p = 1, fix_x = 14\<rparr> = 0 \<and>
   Fix_Cmp \<lparr>fix_p = 1, fix_x = 14\<rparr> \<lparr>fix_p = 0, fix_x = 1\<rparr> = 1"
  by (simp add: Fix_Cmp_def bigIntSetPrec_def bigIntDivRound_def Quo_def TRem_def go_cmp_def)

text \<open>Binary encoding.\<close>

lemma BitLen_bound: "v < 2 ^ BitLen v"
proof (induction v rule: BitLen.induct)
  case (1 v)
  show ?case
  proof (cases "v = 0")
    case False
    with 1 have "v div 2 < 2 ^ BitLen (v div 2)" by simp
    with False show ?thesis by (simp add: BitLen.simps [of v])
  qed simp
qed

lemma BitLen_bytes: "v < 256 ^ ((BitLen v + 7) div 8)"
proof -
  have "BitLen v \<le> 8 * ((BitLen v + 7) div 8)" by simp
  then have "(2::nat) ^ BitLen v \<le> 2 ^ (8 * ((BitLen v + 7) div 8))" by (simp add: power_increasing)
  also have "\<dots> = 256 ^ ((BitLen v + 7) div 8)" by (simp add: power_mult)
  finally show ?thesis using BitLen_bound [of v] by linarith
qed

lemma Unmarshal_Marshal:
  assumes "fix_ok a"
  shows "Fix_UnmarshalBinary (Fix_MarshalBinary a) = Inr (Fix_Abs a)"
  using assms BitLen_bytes [of "nat \<bar>fix_x a\<bar>"]
  by (simp add: Fix_UnmarshalBinary_def Fix_MarshalBinary_def Let_def SetBytes_FillBytes
      Fix_Abs_def fix_ok_def MaxDecPointPrecision_def unat_of_nat)

text \<open>
  Decoding the binary form of a number gives back its precision and the magnitude of
  its value: the identity on numbers that are not negative, and the sign is lost otherwise.
\<close>

theorem Fix_binary_roundtrip:
  assumes "fix_ok a"
  shows "Fix_UnmarshalBinary (Fix_MarshalBinary a) = Inr \<lparr>fix_p = fix_p a, fix_x = \<bar>fix_x a\<bar>\<rparr>"
  using Unmarshal_Marshal [OF assms] by (simp add: Fix_Abs_def)

theorem Fix_binary_roundtrip_witness:
  "fix_ok \<lparr>fix_p = 2, fix_x = -10625\<rparr> \<and>
   Fix_UnmarshalBinary (Fix_MarshalBinary \<lparr>fix_p = 2, fix_x = -10625\<rparr>) = Inr \<lparr>fix_p = 2, fix_x = 10625\<rparr>"
  using Fix_binary_roundtrip [of "\<lparr>fix_p = 2, fix_x = -10625\<rparr>"]
  by (simp add: fix_ok_def MaxDecPointPrecision_def)

text \<open>\<open>Inv\<close> of an odd raw value rounds a third up: \<open>1 / 0.03\<close> gives \<open>33.34\<close>.\<close>

lemma Inv_rounds_up:
  "Fix_Inv \<lparr>fix_p = 2, fix_x = 3\<rparr> = Ret \<lparr>fix_p = 2, fix_x = 3334\<rparr>"
  by (simp add: Fix_Inv_def bigIntDivRound_def Quo_def TRem_def pow10_def)

subsection \<open>The printed form\<close>

lemma nat_parse_append:
  assumes "nat_parse b (xs @ ys) = Some v" "xs \<noteq> []" "ys \<noteq> []"
  shows "\<exists>n m. nat_parse b xs = Some n \<and> nat_parse b ys = Some m \<and> v = n * b ^ length ys + m"
proof -
  from assms obtain n where n: "nat_parse_from b 0 xs = Some n" "nat_parse_from b n ys = Some v"
    by (auto simp: nat_parse_def nat_parse_from_append split: option.splits)
  with nat_parse_from_value [of b n ys] obtain m
    where "nat_parse_from b 0 ys = Some m" "v = n * b ^ length ys + m"
    by (cases "nat_parse_from b 0 ys") auto
  with n assms show ?thesis by (auto simp: nat_parse_def)
qed

lemma digit_in_0 [simp]: "digit_in 10 (CHR ''0'') = Some 0"
  by (simp add: digit_in_def digit_val_def)

lemma parse_zeros_left:
  "nat_parse_from 10 0 (replicate k (CHR ''0'') @ s) = nat_parse_from 10 0 s"
  by (induction k) simp_all

lemma parse_zeros_right:
  "nat_parse_from 10 0 (t @ replicate k (CHR ''0'')) = map_option (\<lambda>v. v * 10 ^ k) (nat_parse_from 10 0 t)"
proof -
  have z: "nat_parse_from 10 0 (replicate k (CHR ''0'')) = Some 0"
    using parse_zeros_left [of k "[]"] by simp
  have "nat_parse_from 10 v (replicate k (CHR ''0'')) = Some (v * 10 ^ k)" for v
    using nat_parse_from_value [of 10 v "replicate k (CHR ''0'')"] by (simp add: z)
  then show ?thesis by (simp add: nat_parse_from_append split: option.splits)
qed

lemma TrimRight_split: "\<exists>k. s = TrimRight s c @ replicate k c"
proof -
  have "rev s = takeWhile (\<lambda>x. x = c) (rev s) @ dropWhile (\<lambda>x. x = c) (rev s)" by simp
  moreover have "takeWhile (\<lambda>x. x = c) (rev s) = replicate (length (takeWhile (\<lambda>x. x = c) (rev s))) c"
    by (rule replicate_eqI [symmetric, THEN sym]) (auto dest: set_takeWhileD)
  ultimately have "rev s = replicate (length (takeWhile (\<lambda>x. x = c) (rev s))) c @ dropWhile (\<lambda>x. x = c) (rev s)"
    by simp
  then have "s = TrimRight s c @ replicate (length (takeWhile (\<lambda>x. x = c) (rev s))) c"
    unfolding TrimRight_def by (metis rev_append rev_replicate rev_rev_ident)
  then show ?thesis ..
qed

text \<open>Digits with their trailing zeros trimmed denote the same fraction.\<close>

lemma trimmed_fraction:
  assumes "nat_parse 10 f = Some m" "TrimRight f (CHR ''0'') \<noteq> []"
  shows "\<exists>m'. nat_parse 10 (TrimRight f (CHR ''0'')) = Some m' \<and>
     rat_of_nat m' / 10 ^ length (TrimRight f (CHR ''0'')) = rat_of_nat m / 10 ^ length f"
proof -
  obtain k where k: "f = TrimRight f (CHR ''0'') @ replicate k (CHR ''0'')"
    using TrimRight_split by blast
  let ?t = "TrimRight f (CHR ''0'')"
  have "nat_parse_from 10 0 f = Some m" using assms(1) by (simp add: nat_parse_def split: if_splits)
  then obtain m' where m: "nat_parse_from 10 0 ?t = Some m'" "m = m' * 10 ^ k"
    using parse_zeros_right [of ?t k] k by (cases "nat_parse_from 10 0 ?t") auto
  have "length f = length ?t + k" by (subst k) simp
  with m have "rat_of_nat m' / 10 ^ length ?t = rat_of_nat m / 10 ^ length f"
    by (simp add: power_add)
  with m assms(2) show ?thesis by (auto simp: nat_parse_def)
qed

lemma digit_val_dot: "digit_val (CHR ''.'') = None" "digit_val (CHR ''-'') = None"
  by (simp_all add: digit_val_def)

lemma nat_parse_digits: "nat_parse 10 s = Some v \<Longrightarrow> c \<in> set s \<Longrightarrow> digit_val c \<noteq> None"
proof -
  have "nat_parse_from 10 acc s = Some v \<Longrightarrow> c \<in> set s \<Longrightarrow> digit_val c \<noteq> None" for acc
    by (induction s arbitrary: acc) (auto simp: digit_in_def split: option.splits)
  then show "nat_parse 10 s = Some v \<Longrightarrow> c \<in> set s \<Longrightarrow> digit_val c \<noteq> None"
    by (auto simp: nat_parse_def split: if_splits)
qed

lemma dec_unsigned_int: "nat_parse 10 i = Some n \<Longrightarrow> dec_unsigned i = Some (rat_of_nat n)"
proof -
  assume i: "nat_parse 10 i = Some n"
  then have "CHR ''.'' \<notin> set i" using nat_parse_digits digit_val_dot by blast
  with i show ?thesis by (simp add: dec_unsigned_def split_on_no_sep)
qed

lemma dec_unsigned_frac:
  assumes "nat_parse 10 i = Some n" "nat_parse 10 f = Some m"
  shows "dec_unsigned (i @ CHR ''.'' # f) = Some (rat_of_nat n + rat_of_nat m / 10 ^ length f)"
proof -
  have "CHR ''.'' \<notin> set i" "CHR ''.'' \<notin> set f"
    using nat_parse_digits assms digit_val_dot by blast+
  with assms show ?thesis by (simp add: dec_unsigned_def split_on_cons split_on_no_sep)
qed

text \<open>The magnitude part of \<open>String\<close>, and what it denotes.\<close>

definition mag_text :: "nat \<Rightarrow> nat \<Rightarrow> string" where
  "mag_text m p =
     (let n = nat_text 10 m in
      if length n \<le> p
      then ''0.'' @ replicate (p - length n) (CHR ''0'') @ TrimRight n (CHR ''0'')
      else
        let intPart = take (length n - p) n;
            fractPart = TrimRight (drop (length n - p) n) (CHR ''0'')
        in intPart @ (if 0 < length fractPart then ''.'' @ fractPart else []))"

lemma TrimRight_zero_pad:
  "TrimRight n (CHR ''0'') \<noteq> [] \<Longrightarrow>
   TrimRight (replicate k (CHR ''0'') @ n) (CHR ''0'') = replicate k (CHR ''0'') @ TrimRight n (CHR ''0'')"
  by (simp add: TrimRight_def dropWhile_append rev_replicate) (metis dropWhile_eq_Nil_conv)

lemma TrimRight_empty: "TrimRight s c = [] \<Longrightarrow> s = replicate (length s) c"
  using TrimRight_split [of s c] by auto

lemma nat_text_not_zeros: "0 < m \<Longrightarrow> TrimRight (nat_text 10 m) (CHR ''0'') \<noteq> []"
proof
  assume m: "0 < m" and t: "TrimRight (nat_text 10 m) (CHR ''0'') = []"
  from TrimRight_empty [OF t]
  have "nat_text 10 m = replicate (length (nat_text 10 m)) (CHR ''0'')" .
  then have "nat_parse_from 10 0 (nat_text 10 m) = Some 0"
    using parse_zeros_left [of _ "[]"] by (metis append_Nil2 nat_parse_from.simps(1))
  with m show False by (simp add: nat_parse_from_text)
qed

lemma mag_text_denotes:
  assumes "0 < m" "0 < p"
  shows "dec_unsigned (mag_text m p) = Some (rat_of_nat m / 10 ^ p)"
proof -
  let ?n = "nat_text 10 m"
  have pn: "nat_parse 10 ?n = Some m" by (simp add: nat_parse_text)
  show ?thesis
  proof (cases "length ?n \<le> p")
    case True
    let ?f = "replicate (p - length ?n) (CHR ''0'') @ ?n"
    have t: "TrimRight ?f (CHR ''0'') = replicate (p - length ?n) (CHR ''0'') @ TrimRight ?n (CHR ''0'')"
      using nat_text_not_zeros [OF assms(1)] by (rule TrimRight_zero_pad)
    have "nat_parse 10 ?f = Some m"
      using pn by (simp add: nat_parse_def parse_zeros_left)
    moreover have "TrimRight ?f (CHR ''0'') \<noteq> []"
      using t nat_text_not_zeros [OF assms(1)] by simp
    ultimately obtain m' where m': "nat_parse 10 (TrimRight ?f (CHR ''0'')) = Some m'"
      "rat_of_nat m' / 10 ^ length (TrimRight ?f (CHR ''0'')) = rat_of_nat m / 10 ^ length ?f"
      using trimmed_fraction by blast
    have "nat_parse 10 ''0'' = Some 0" by (simp add: nat_parse_def)
    from dec_unsigned_frac [OF this m'(1)] m'(2) True show ?thesis
      by (simp add: mag_text_def Let_def t)
  next
    case False
    let ?i = "take (length ?n - p) ?n" and ?f = "drop (length ?n - p) ?n"
    have ne: "?i \<noteq> []" "?f \<noteq> []" "length ?f = p" using False assms by auto
    obtain a b where ab: "nat_parse 10 ?i = Some a" "nat_parse 10 ?f = Some b" "m = a * 10 ^ p + b"
      using nat_parse_append [of 10 ?i ?f m] pn ne by auto
    then have v: "rat_of_nat m / 10 ^ p = rat_of_nat a + rat_of_nat b / 10 ^ p"
      by (simp add: add_divide_distrib)
    show ?thesis
    proof (cases "TrimRight ?f (CHR ''0'') = []")
      case True
      have z: "nat_parse_from 10 0 ?f = Some 0"
        using TrimRight_empty [OF True] parse_zeros_left [of _ "[]"]
        by (metis append_Nil2 nat_parse_from.simps(1))
      with ab(2) ne have "b = 0" by (simp add: nat_parse_def)
      with True False v dec_unsigned_int [OF ab(1)] show ?thesis by (simp add: mag_text_def Let_def)
    next
      case nt: False
      obtain b' where b': "nat_parse 10 (TrimRight ?f (CHR ''0'')) = Some b'"
        "rat_of_nat b' / 10 ^ length (TrimRight ?f (CHR ''0'')) = rat_of_nat b / 10 ^ p"
        using trimmed_fraction [OF ab(2) nt] ne by auto
      from dec_unsigned_frac [OF ab(1) b'(1)] b'(2) v False nt show ?thesis
        by (simp add: mag_text_def Let_def)
    qed
  qed
qed

lemma mag_text_hd: "0 < m \<Longrightarrow> 0 < p \<Longrightarrow> \<exists>c t. mag_text m p = c # t \<and> c \<noteq> CHR ''-''"
proof -
  assume "0 < p"
  obtain c t where n: "nat_text 10 m = c # t" by (cases "nat_text 10 m") auto
  have "c \<noteq> CHR ''-''"
    using nat_text_hd [of 10 "CHR ''-''" m] n by (simp add: digit_val_dot)
  then show ?thesis
    using n by (cases "length (c # t) - p") (auto simp: mag_text_def Let_def)
qed

lemma Fix_String_mag:
  "Fix_String a =
     (if fix_x a = 0 then ''0''
      else (if fix_x a < 0 then ''-'' else []) @
        (if fix_p a = 0 then nat_text 10 (nat \<bar>fix_x a\<bar>) else mag_text (nat \<bar>fix_x a\<bar>) (fix_p a)))"
  by (auto simp: Fix_String_def mag_text_def int_text_def Let_def)

lemma dec_denote_signed:
  "t = c # t' \<Longrightarrow> c \<noteq> CHR ''-'' \<Longrightarrow> dec_unsigned t = Some v \<Longrightarrow>
   dec_denote ((if neg then ''-'' else []) @ t) = Some (if neg then - v else v)"
  by (simp add: dec_denote_def)

text \<open>
  The string \<open>DecFixedPointNumber.String\<close> prints denotes exactly the value of the
  number: no digit is lost by trimming zeros, padding or placing the point.
\<close>

theorem Fix_String_denotes: "dec_denote (Fix_String a) = Some (fix_val a)"
proof (cases "fix_x a = 0")
  case True
  then show ?thesis
    by (simp add: Fix_String_def fix_val_def dec_denote_def dec_unsigned_int nat_parse_def)
next
  case nz: False
  let ?m = "nat \<bar>fix_x a\<bar>"
  let ?t = "if fix_p a = 0 then nat_text 10 ?m else mag_text ?m (fix_p a)"
  have m: "0 < ?m" using nz by simp
  have u: "dec_unsigned ?t = Some (rat_of_nat ?m / 10 ^ fix_p a)"
    using mag_text_denotes [OF m] by (simp add: dec_unsigned_int nat_parse_text)
  obtain c t' where t: "?t = c # t'" "c \<noteq> CHR ''-''"
  proof (cases "fix_p a = 0")
    case True
    obtain c t' where n: "nat_text 10 ?m = c # t'" by (cases "nat_text 10 ?m") auto
    with nat_text_hd [of 10 "CHR ''-''" ?m] have "c \<noteq> CHR ''-''" by (simp add: digit_val_dot)
    with n True that show ?thesis by simp
  next
    case False
    with mag_text_hd [OF m, of "fix_p a"] that show ?thesis by auto
  qed
  from dec_denote_signed [OF t u, of "fix_x a < 0"] nz show ?thesis
    by (auto simp: Fix_String_mag fix_val_def of_nat_nat simp flip: minus_divide_left)
qed

end
