(* ===== verification/Bn_Float.thy ===== *)
theory Bn_Float
  imports Bn_Fixed
begin

text \<open>
  \<open>DecFloatPointNumber\<close> (\<open>src/bn/decfloatpoint.go\<close>), a fixed-point number whose
  precision is lowered after every operation to the least that still holds the value
  (\<open>adjustPrec\<close>), and the rounding of a \<open>*big.Float\<close> to an integer in \<open>src/bn/bn.go\<close>.

  \<open>flt_norm\<close> is the normal form \<open>adjustPrec\<close> establishes. Two numbers in normal form
  with the same value are equal (\<open>flt_norm_unique\<close>), so laws of the rationals carry over
  to the records themselves.
\<close>

record DecFloatPointNumber =
  flt_x :: DecFixedPointNumber

subsection \<open>Definitions\<close>

definition convertDecFixedPointToDecFloatPoint :: "DecFixedPointNumber \<Rightarrow> DecFloatPointNumber" where
  "convertDecFixedPointToDecFloatPoint v = \<lparr>flt_x = v\<rparr>"

definition convertIntToDecFloatPoint :: "IntNumber \<Rightarrow> DecFloatPointNumber" where
  "convertIntToDecFloatPoint v = \<lparr>flt_x = convertIntToDecFixedPoint v 0\<rparr>"

definition convertBigIntToDecFloatPoint :: "int \<Rightarrow> DecFloatPointNumber" where
  "convertBigIntToDecFloatPoint v = \<lparr>flt_x = convertBigIntToDecFixedPoint v 0\<rparr>"

definition convertInt64ToDecFloatPoint :: "64 word \<Rightarrow> DecFloatPointNumber" where
  "convertInt64ToDecFloatPoint v = \<lparr>flt_x = convertInt64ToDecFixedPoint v 0\<rparr>"

definition convertUint64ToDecFloatPoint :: "64 word \<Rightarrow> DecFloatPointNumber" where
  "convertUint64ToDecFloatPoint v = \<lparr>flt_x = convertUint64ToDecFixedPoint v 0\<rparr>"

definition convertDecFloatPointToDecFixedPoint :: "DecFloatPointNumber \<Rightarrow> nat \<Rightarrow> DecFixedPointNumber" where
  "convertDecFloatPointToDecFixedPoint v n = Fix_SetPrec (flt_x v) n"

text \<open>
  The loop of \<open>adjustPrec\<close> from the last character of the printed integer: the index
  check, the check that all decimals are zeros, then the character.
\<close>

fun adjust_loop :: "nat \<Rightarrow> string \<Rightarrow> nat \<Rightarrow> nat" where
  "adjust_loop p [] z = p"
| "adjust_loop p (c # cs) z =
     (if p \<le> z then z else if c \<noteq> CHR ''0'' then z else adjust_loop p cs (z + 1))"

definition adjustPrec :: "DecFloatPointNumber \<Rightarrow> DecFloatPointNumber" where
  "adjustPrec a =
     (let n = flt_x a in
      if fix_x n = 0 then \<lparr>flt_x = \<lparr>fix_p = 0, fix_x = 0\<rparr>\<rparr>
      else
        let z = adjust_loop (fix_p n) (rev (int_text 10 (fix_x n))) 0;
            p = fix_p n - z
        in if fix_p n = p then a
           else \<lparr>flt_x = \<lparr>fix_p = p, fix_x = bigIntSetPrec (fix_x n) (fix_p n) p\<rparr>\<rparr>)"

definition Flt_String :: "DecFloatPointNumber \<Rightarrow> string" where
  "Flt_String a = Fix_String (flt_x a)"

definition Flt_Prec :: "DecFloatPointNumber \<Rightarrow> nat" where
  "Flt_Prec a = Fix_Prec (flt_x a)"

definition Flt_SetPrec :: "DecFloatPointNumber \<Rightarrow> nat \<Rightarrow> DecFloatPointNumber" where
  "Flt_SetPrec a n = (if n = fix_p (flt_x a) then a else \<lparr>flt_x = Fix_SetPrec (flt_x a) n\<rparr>)"

definition Flt_Sign :: "DecFloatPointNumber \<Rightarrow> int" where
  "Flt_Sign a = Fix_Sign (flt_x a)"

definition Flt_Add :: "DecFloatPointNumber \<Rightarrow> DecFloatPointNumber \<Rightarrow> DecFloatPointNumber" where
  "Flt_Add a b =
     (let p = max (fix_p (flt_x a)) (fix_p (flt_x b));
          xi = bigIntSetPrec (fix_x (flt_x a)) (fix_p (flt_x a)) p;
          yi = bigIntSetPrec (fix_x (flt_x b)) (fix_p (flt_x b)) p
      in adjustPrec \<lparr>flt_x = \<lparr>fix_p = p, fix_x = xi + yi\<rparr>\<rparr>)"

definition Flt_Sub :: "DecFloatPointNumber \<Rightarrow> DecFloatPointNumber \<Rightarrow> DecFloatPointNumber" where
  "Flt_Sub a b =
     (let p = max (fix_p (flt_x a)) (fix_p (flt_x b));
          xi = bigIntSetPrec (fix_x (flt_x a)) (fix_p (flt_x a)) p;
          yi = bigIntSetPrec (fix_x (flt_x b)) (fix_p (flt_x b)) p
      in adjustPrec \<lparr>flt_x = \<lparr>fix_p = p, fix_x = xi - yi\<rparr>\<rparr>)"

definition Flt_Mul :: "DecFloatPointNumber \<Rightarrow> DecFloatPointNumber \<Rightarrow> DecFloatPointNumber" where
  "Flt_Mul a b =
     (let wp = fix_p (flt_x a) + fix_p (flt_x b);
          rp = (if MaxDecPointPrecision < wp then MaxDecPointPrecision else wp);
          xi = bigIntSetPrec (fix_x (flt_x a)) (fix_p (flt_x a)) wp;
          yi = bigIntSetPrec (fix_x (flt_x b)) (fix_p (flt_x b)) wp;
          z = bigIntSetPrec (xi * yi) (wp * 2) rp
      in adjustPrec \<lparr>flt_x = \<lparr>fix_p = rp, fix_x = z\<rparr>\<rparr>)"

definition Flt_DivPrec :: "DecFloatPointNumber \<Rightarrow> DecFloatPointNumber \<Rightarrow> nat \<Rightarrow> DecFloatPointNumber go" where
  "Flt_DivPrec a b prec =
     (if fix_x (flt_x b) = 0 then Panic ''division by zero''
      else
        let rp = (if MaxDecPointPrecision < prec then MaxDecPointPrecision else prec);
            xi = bigIntSetPrec (fix_x (flt_x a)) (fix_p (flt_x a)) prec;
            yi = bigIntSetPrec (fix_x (flt_x b)) (fix_p (flt_x b)) prec
        in if yi = 0 then Panic ''division by zero''
           else Ret (adjustPrec
             \<lparr>flt_x = \<lparr>fix_p = rp, fix_x = bigIntSetPrec (Quo (xi * pow10 prec) yi) prec rp\<rparr>\<rparr>))"

definition Flt_Div :: "DecFloatPointNumber \<Rightarrow> DecFloatPointNumber \<Rightarrow> DecFloatPointNumber go" where
  "Flt_Div a b =
     (if fix_x (flt_x b) = 0 then Panic ''division by zero''
      else
        let p = max (fix_p (flt_x a)) (fix_p (flt_x b));
            wp = p + divPrecisionIncrease + decGuardDigits;
            rp0 = p + divPrecisionIncrease;
            rp = (if MaxDecPointPrecision < rp0 then MaxDecPointPrecision else rp0)
        in go_bind (Flt_DivPrec a b wp) (\<lambda>n.
             Ret (adjustPrec \<lparr>flt_x = \<lparr>fix_p = rp,
               fix_x = bigIntSetPrec (fix_x (flt_x n)) (fix_p (flt_x n)) rp\<rparr>\<rparr>)))"

definition Flt_Cmp :: "DecFloatPointNumber \<Rightarrow> DecFloatPointNumber \<Rightarrow> int" where
  "Flt_Cmp a b = Fix_Cmp (flt_x a) (flt_x b)"

definition Flt_Abs :: "DecFloatPointNumber \<Rightarrow> DecFloatPointNumber" where
  "Flt_Abs a = \<lparr>flt_x = Fix_Abs (flt_x a)\<rparr>"

definition Flt_Neg :: "DecFloatPointNumber \<Rightarrow> DecFloatPointNumber" where
  "Flt_Neg a = \<lparr>flt_x = Fix_Neg (flt_x a)\<rparr>"

definition Flt_Inv :: "DecFloatPointNumber \<Rightarrow> DecFloatPointNumber go" where
  "Flt_Inv a =
     (if fix_x (flt_x a) = 0 then Panic ''division by zero''
      else
        let wp = fix_p (flt_x a) + divPrecisionIncrease + decGuardDigits;
            rp0 = fix_p (flt_x a) + divPrecisionIncrease;
            rp = (if MaxDecPointPrecision < rp0 then MaxDecPointPrecision else rp0);
            z = bigIntSetPrec (fix_x (flt_x a)) (fix_p (flt_x a)) wp;
            z' = bigIntSetPrec (Quo (pow10 (wp * 2)) z) wp rp
        in Ret (adjustPrec \<lparr>flt_x = \<lparr>fix_p = rp, fix_x = z'\<rparr>\<rparr>))"

definition Flt_MarshalBinary :: "DecFloatPointNumber \<Rightarrow> byte list" where
  "Flt_MarshalBinary a = Fix_MarshalBinary (flt_x a)"

definition Flt_UnmarshalBinary :: "byte list \<Rightarrow> unmarshal_error + DecFloatPointNumber" where
  "Flt_UnmarshalBinary data = map_sum id (\<lambda>n. \<lparr>flt_x = n\<rparr>) (Fix_UnmarshalBinary data)"

definition flt_val :: "DecFloatPointNumber \<Rightarrow> rat" where
  "flt_val a = fix_val (flt_x a)"

definition flt_norm :: "DecFloatPointNumber \<Rightarrow> bool" where
  "flt_norm a \<longleftrightarrow> fix_p (flt_x a) = 0 \<or> fix_x (flt_x a) mod 10 \<noteq> 0"

text \<open>
  \<open>bigFloatToBigInt\<close> on a finite \<open>*big.Float\<close>, taken as the rational it denotes. The
  receiver of \<open>x.Sub(x, \<dots>)\<close> is the argument itself, so the function writes to its
  argument: the result is the integer and the value \<open>x\<close> holds afterwards. The
  subtraction of the integer part is exact at the precision of \<open>x\<close>.
\<close>

definition bigFloatToBigInt :: "rat \<Rightarrow> int \<times> rat" where
  "bigFloatToBigInt v =
     (let i = trunc_rat v in
      if of_int i = v then (i, v)
      else let f = v - of_int i in (if 1 / 2 \<le> f then i + 1 else i, f))"

text \<open>\<open>FloatNumber.BigInt\<close> passes its own \<open>big.Float\<close>; the number afterwards is returned too.\<close>

definition FloatNumber_BigInt :: "rat \<Rightarrow> int \<times> rat" where
  "FloatNumber_BigInt v = bigFloatToBigInt v"

subsection \<open>Lemmas: adjustPrec\<close>

lemma digit_char_0: "digit_char 0 = CHR ''0''"
proof -
  have "of_char (CHR ''0'') = (48::nat)" by simp
  then have "char_of (48::nat) = CHR ''0''" by (metis char_of_char)
  then show ?thesis by (simp add: digit_char_def)
qed

lemma digit_char_zero: "d < 10 \<Longrightarrow> digit_char d = CHR ''0'' \<longleftrightarrow> d = 0"
proof
  assume "d < 10" "digit_char d = CHR ''0''"
  with digit_char_0 show "d = 0" using digit_val_char [of d] digit_val_char [of 0] by simp
qed (simp add: digit_char_0)

lemma rev_nat_text:
  "rev (nat_text 10 n) = digit_char (n mod 10) # (if n < 10 then [] else rev (nat_text 10 (n div 10)))"
  by (subst nat_text.simps) simp

text \<open>The loop counts trailing zeros, no more than \<open>p\<close> of them.\<close>

lemma adjust_loop_spec:
  assumes "0 < m" "z \<le> p"
  shows "\<exists>k. adjust_loop p (rev (nat_text 10 m) @ s) z = z + k \<and> z + k \<le> p \<and> 10 ^ k dvd m \<and>
     (z + k = p \<or> \<not> 10 dvd m div 10 ^ k)"
  using assms
proof (induction m arbitrary: z rule: less_induct)
  case (less m)
  have z0: "digit_char (m mod 10) = CHR ''0'' \<longleftrightarrow> 10 dvd m"
    by (simp add: digit_char_zero dvd_eq_mod_eq_0)
  show ?case
  proof (cases "p \<le> z \<or> \<not> 10 dvd m")
    case True
    then have "adjust_loop p (rev (nat_text 10 m) @ s) z = z"
      using z0 by (subst rev_nat_text) auto
    with True less.prems show ?thesis by (intro exI [of _ 0]) auto
  next
    case False
    then have d: "10 dvd m" and zp: "z < p" by auto
    then have m: "\<not> m < 10" "0 < m div 10" "m div 10 < m"
      using less.prems by (auto elim!: dvdE)
    have "adjust_loop p (rev (nat_text 10 m) @ s) z = adjust_loop p (rev (nat_text 10 (m div 10)) @ s) (z + 1)"
      using z0 d zp m by (subst rev_nat_text) simp
    moreover obtain k where k: "adjust_loop p (rev (nat_text 10 (m div 10)) @ s) (z + 1) = z + 1 + k"
      "z + 1 + k \<le> p" "10 ^ k dvd m div 10" "z + 1 + k = p \<or> \<not> 10 dvd m div 10 div 10 ^ k"
      using less.IH [OF m(3,2), of "z + 1"] zp by auto
    moreover have "10 ^ Suc k dvd m" using k(3) d by (metis dvd_mult_div_cancel mult_dvd_mono dvd_refl power_Suc)
    ultimately show ?thesis by (intro exI [of _ "Suc k"]) (auto simp: div_mult2_eq)
  qed
qed

lemma adjust_count:
  assumes "v \<noteq> 0"
  obtains k where "adjust_loop p (rev (int_text 10 v)) 0 = k" "k \<le> p" "(10::int) ^ k dvd v"
    "k = p \<or> \<not> 10 dvd v div 10 ^ k"
proof -
  define m where "m = nat \<bar>v\<bar>"
  have m: "0 < m" "int m = \<bar>v\<bar>" using assms by (simp_all add: m_def)
  have "rev (int_text 10 v) = rev (nat_text 10 m) @ (if v < 0 then ''-'' else [])"
    by (simp add: int_text_def m_def)
  then obtain k where k: "adjust_loop p (rev (int_text 10 v)) 0 = k" "k \<le> p" "10 ^ k dvd m"
    "k = p \<or> \<not> 10 dvd m div 10 ^ k"
    using adjust_loop_spec [OF m(1), of 0 p] by fastforce
  have dv: "(10::int) ^ k dvd v"
    using k(3) m(2) by (metis abs_dvd_iff dvd_abs_iff int_dvd_int_iff of_nat_numeral of_nat_power)
  have "10 dvd v div 10 ^ k \<longleftrightarrow> 10 dvd int m div 10 ^ k"
    using dv m(2) by (auto simp: abs_if dvd_neg_div split: if_splits)
  also have "\<dots> \<longleftrightarrow> 10 dvd m div 10 ^ k"
    by (metis int_dvd_int_iff of_nat_numeral of_nat_power zdiv_int)
  finally show ?thesis using that k dv by blast
qed

lemma setPrec_exact:
  assumes "k \<le> p" "(10::int) ^ k dvd v" "v \<noteq> 0"
  shows "bigIntSetPrec v p (p - k) = v div 10 ^ k"
proof -
  obtain w where w: "v = 10 ^ k * w" using assms(2) by (elim dvdE)
  have "(10::rat) ^ p = 10 ^ (p - k) * 10 ^ k" using assms(1) by (simp flip: power_add)
  then have "rat_of_int v / 10 ^ p * 10 ^ (p - k) = of_int w" by (simp add: w)
  then show ?thesis by (simp only: bigIntSetPrec_rnd rnd_int w) simp
qed

lemma adjustPrec_spec:
  "flt_val (adjustPrec a) = flt_val a \<and> flt_norm (adjustPrec a) \<and>
   fix_p (flt_x (adjustPrec a)) \<le> fix_p (flt_x a)"
proof (cases "fix_x (flt_x a) = 0")
  case True
  then show ?thesis by (simp add: adjustPrec_def flt_val_def fix_val_def flt_norm_def)
next
  case False
  let ?v = "fix_x (flt_x a)" and ?p = "fix_p (flt_x a)"
  obtain k where k: "adjust_loop ?p (rev (int_text 10 ?v)) 0 = k" "k \<le> ?p" "(10::int) ^ k dvd ?v"
    "k = ?p \<or> \<not> 10 dvd ?v div 10 ^ k"
    using adjust_count [OF False] by blast
  have e: "adjustPrec a = \<lparr>flt_x = \<lparr>fix_p = ?p - k, fix_x = ?v div 10 ^ k\<rparr>\<rparr>"
  proof (cases "k = 0")
    case True
    with False k show ?thesis by (simp add: adjustPrec_def Let_def)
  next
    case nz: False
    with k(2) have "?p \<noteq> ?p - k" by simp
    with False k show ?thesis by (simp add: adjustPrec_def Let_def setPrec_exact)
  qed
  have "(10::rat) ^ ?p = 10 ^ (?p - k) * 10 ^ k" using k(2) by (simp flip: power_add)
  moreover have "rat_of_int ?v = of_int (?v div 10 ^ k) * 10 ^ k"
    using k(3) by (metis dvd_div_mult_self of_int_mult of_int_numeral of_int_power)
  ultimately have "flt_val (adjustPrec a) = flt_val a" by (simp add: e flt_val_def fix_val_def)
  moreover have "flt_norm (adjustPrec a)" using k by (auto simp: e flt_norm_def dvd_eq_mod_eq_0)
  ultimately show ?thesis by (simp add: e)
qed

lemmas adjustPrec_val [simp] = adjustPrec_spec [THEN conjunct1]
lemmas adjustPrec_norm [simp] = adjustPrec_spec [THEN conjunct2, THEN conjunct1]
lemmas adjustPrec_prec = adjustPrec_spec [THEN conjunct2, THEN conjunct2]

lemma flt_norm_le:
  assumes "flt_norm a" "flt_norm b" "flt_val a = flt_val b" "fix_p (flt_x a) \<le> fix_p (flt_x b)"
  shows "a = b"
proof -
  let ?p = "fix_p (flt_x a)" and ?q = "fix_p (flt_x b)"
  have "(10::rat) ^ ?q = 10 ^ (?q - ?p) * 10 ^ ?p" using assms(4) by (simp flip: power_add)
  then have "rat_of_int (fix_x (flt_x b)) = of_int (fix_x (flt_x a)) * 10 ^ (?q - ?p)"
    using assms(3) by (simp add: flt_val_def fix_val_def field_simps)
  then have "rat_of_int (fix_x (flt_x b)) = of_int (fix_x (flt_x a) * 10 ^ (?q - ?p))" by simp
  then have v: "fix_x (flt_x b) = fix_x (flt_x a) * 10 ^ (?q - ?p)" by (simp only: of_int_eq_iff)
  have "?q = ?p"
  proof (rule ccontr)
    assume "?q \<noteq> ?p"
    then obtain j where j: "?q - ?p = Suc j" using assms(4) by (metis Suc_diff_Suc le_neq_implies_less)
    then have "fix_x (flt_x b) mod 10 = 0" by (simp add: v)
    with assms(2) have "?q = 0" by (simp add: flt_norm_def)
    with j show False by simp
  qed
  with v show ?thesis by (simp add: DecFloatPointNumber.equality DecFixedPointNumber.equality)
qed

lemma flt_norm_unique: "flt_norm a \<Longrightarrow> flt_norm b \<Longrightarrow> flt_val a = flt_val b \<Longrightarrow> a = b"
  using flt_norm_le [of a b] flt_norm_le [of b a] by (metis nat_le_linear)

lemma flt_val_pair: "flt_val \<lparr>flt_x = \<lparr>fix_p = p, fix_x = v\<rparr>\<rparr> = of_int v / 10 ^ p"
  by (simp add: flt_val_def fix_val_def)

lemma Flt_Add_val: "flt_val (Flt_Add a b) = flt_val a + flt_val b"
  unfolding Flt_Add_def Let_def adjustPrec_val flt_val_pair of_int_add add_divide_distrib scaled_vals
  by (simp add: flt_val_def)

lemma Flt_Sub_val: "flt_val (Flt_Sub a b) = flt_val a - flt_val b"
  unfolding Flt_Sub_def Let_def adjustPrec_val flt_val_pair of_int_diff diff_divide_distrib scaled_vals
  by (simp add: flt_val_def)

lemma Flt_Mul_val:
  "flt_val (Flt_Mul a b) =
     (let rp = min (fix_p (flt_x a) + fix_p (flt_x b)) MaxDecPointPrecision
      in of_int (rnd rp (flt_val a * flt_val b)) / 10 ^ rp)"
  unfolding Flt_Mul_def Let_def adjustPrec_val flt_val_pair setPrec_prod scaled_vals
  by (simp add: flt_val_def min_def)

lemma Flt_norm_ops: "flt_norm (Flt_Add a b)" "flt_norm (Flt_Sub a b)" "flt_norm (Flt_Mul a b)"
  by (simp_all add: Flt_Add_def Flt_Sub_def Flt_Mul_def Let_def)

lemma rnd_product:
  assumes "fix_p a + fix_p b \<le> n"
  shows "of_int (rnd n (fix_val a * fix_val b)) / 10 ^ n = fix_val a * fix_val b"
proof -
  let ?i = "fix_x a * fix_x b * 10 ^ (n - (fix_p a + fix_p b))"
  have "(10::rat) ^ n = 10 ^ (n - (fix_p a + fix_p b)) * (10 ^ fix_p a * 10 ^ fix_p b)"
    using assms by (simp flip: power_add)
  then have e: "fix_val a * fix_val b * 10 ^ n = of_int ?i" by (simp add: fix_val_def)
  then have "rnd n (fix_val a * fix_val b) = ?i" by (rule rnd_int)
  with e show ?thesis by (simp add: field_simps)
qed

subsection \<open>Properties of the floating-point methods\<close>

text \<open>
  \<open>adjustPrec\<close> keeps the value, leaves no removable trailing zero, and never raises the
  precision.
\<close>

theorem adjustPrec_normalises:
  "flt_val (adjustPrec a) = flt_val a \<and> flt_norm (adjustPrec a) \<and>
   fix_p (flt_x (adjustPrec a)) \<le> fix_p (flt_x a)"
  by (rule adjustPrec_spec)

text \<open>
  C23: Addition and subtraction are exact whatever the precisions; multiplication is exact
  unless the sum of the precisions passes 255, and then the product is rounded to 255 decimals.
\<close>

theorem Flt_arith_exact:
  "flt_val (Flt_Add a b) = flt_val a + flt_val b \<and>
   flt_val (Flt_Sub a b) = flt_val a - flt_val b \<and>
   flt_val (Flt_Mul a b) =
     (if fix_p (flt_x a) + fix_p (flt_x b) \<le> MaxDecPointPrecision then flt_val a * flt_val b
      else of_int (rnd MaxDecPointPrecision (flt_val a * flt_val b)) / 10 ^ MaxDecPointPrecision)"
  using rnd_product [of "flt_x a" "flt_x b"]
  by (simp add: Flt_Add_val Flt_Sub_val Flt_Mul_val Let_def min_def flt_val_def [of a] flt_val_def [of b])

text \<open>
  Addition is commutative and associative on the records themselves, not only on the
  values they denote, because every result is in normal form.
\<close>

theorem Flt_Add_laws:
  "Flt_Add a b = Flt_Add b a \<and> Flt_Add (Flt_Add a b) c = Flt_Add a (Flt_Add b c)"
  by (intro conjI flt_norm_unique Flt_norm_ops) (simp_all add: Flt_Add_val)

lemma Flt_DivPrec_val:
  assumes "fix_x (flt_x b) \<noteq> 0" "fix_p (flt_x a) \<le> w" "fix_p (flt_x b) \<le> w"
  shows "\<exists>n. Flt_DivPrec a b w = Ret n \<and> flt_norm n \<and> fix_p (flt_x n) \<le> min w MaxDecPointPrecision \<and>
    flt_val n = (let r = min w MaxDecPointPrecision in
      of_int (rnd r (of_int (trunc_rat (flt_val a / flt_val b * 10 ^ w)) / 10 ^ w)) / 10 ^ r)"
proof -
  let ?r = "min w MaxDecPointPrecision"
  let ?n = "\<lparr>flt_x = \<lparr>fix_p = ?r,
    fix_x = bigIntSetPrec (trunc_rat (flt_val a / flt_val b * 10 ^ w)) w ?r\<rparr>\<rparr>"
  have "Flt_DivPrec a b w = Ret (adjustPrec ?n)"
    using assms DivPrec_quo [OF assms] by (auto simp: Flt_DivPrec_def Let_def flt_val_def min_def)
  moreover have "flt_val ?n = of_int (rnd ?r (of_int (trunc_rat (flt_val a / flt_val b * 10 ^ w)) / 10 ^ w)) / 10 ^ ?r"
    unfolding flt_val_pair bigIntSetPrec_rnd ..
  ultimately show ?thesis using adjustPrec_prec [of ?n] by (auto simp: Let_def)
qed

text \<open>
  \<open>DecFloatPointNumber.Div\<close> panics exactly on a zero divisor; otherwise the quotient,
  truncated to \<open>w = p + 18\<close> decimals (\<open>p\<close> the larger precision), is stored with at most
  255 decimals, rounded to \<open>p + 16\<close> (at most 255) and normalised.
\<close>

theorem Flt_Div_spec:
  "if fix_x (flt_x b) = 0 then Flt_Div a b = Panic ''division by zero''
   else \<exists>n. Flt_Div a b = Ret n \<and> flt_norm n \<and> flt_val n =
     (let p = max (fix_p (flt_x a)) (fix_p (flt_x b)); w = p + 18;
          r = min (p + 16) MaxDecPointPrecision; r' = min w MaxDecPointPrecision;
          t = of_int (trunc_rat (flt_val a / flt_val b * 10 ^ w)) / 10 ^ w
      in of_int (rnd r (of_int (rnd r' t) / 10 ^ r')) / 10 ^ r)"
proof (cases "fix_x (flt_x b) = 0")
  case True
  then show ?thesis by (simp add: Flt_Div_def)
next
  case False
  let ?p = "max (fix_p (flt_x a)) (fix_p (flt_x b))"
  let ?w = "?p + 18" and ?r = "min (?p + 16) MaxDecPointPrecision"
  have le: "fix_p (flt_x a) \<le> ?w" "fix_p (flt_x b) \<le> ?w" by linarith+
  obtain n where n: "Flt_DivPrec a b ?w = Ret n" "flt_val n = (let r = min ?w MaxDecPointPrecision in
      of_int (rnd r (of_int (trunc_rat (flt_val a / flt_val b * 10 ^ ?w)) / 10 ^ ?w)) / 10 ^ r)"
    using Flt_DivPrec_val [OF False le] by blast
  let ?m = "\<lparr>flt_x = \<lparr>fix_p = ?r, fix_x = bigIntSetPrec (fix_x (flt_x n)) (fix_p (flt_x n)) ?r\<rparr>\<rparr>"
  have "Flt_Div a b = Ret (adjustPrec ?m)"
    using False n(1) [folded add.commute [of 18]]
    by (simp add: Flt_Div_def Let_def divPrecisionIncrease_def decGuardDigits_def min_def)
  moreover have "flt_val ?m = of_int (rnd ?r (flt_val n)) / 10 ^ ?r"
    unfolding flt_val_pair bigIntSetPrec_rnd by (simp add: flt_val_def fix_val_def)
  ultimately show ?thesis using False n(2) by (simp add: Let_def)
qed

text \<open>
  Every operation keeps the precision in the range of its \<open>uint8\<close> field.
\<close>

theorem Flt_precision_invariant:
  assumes "fix_ok (flt_x a)" "fix_ok (flt_x b)"
  shows "fix_ok (flt_x (Flt_Add a b)) \<and> fix_ok (flt_x (Flt_Sub a b)) \<and> fix_ok (flt_x (Flt_Mul a b)) \<and>
    fix_ok (flt_x (Flt_Neg a)) \<and> fix_ok (flt_x (Flt_Abs a)) \<and>
    (case Flt_Div a b of Panic _ \<Rightarrow> True | Ret n \<Rightarrow> fix_ok (flt_x n)) \<and>
    (case Flt_Inv a of Panic _ \<Rightarrow> True | Ret n \<Rightarrow> fix_ok (flt_x n))"
proof -
  have adj: "p \<le> MaxDecPointPrecision \<Longrightarrow> fix_ok (flt_x (adjustPrec \<lparr>flt_x = \<lparr>fix_p = p, fix_x = v\<rparr>\<rparr>))" for p v
    using adjustPrec_prec [of "\<lparr>flt_x = \<lparr>fix_p = p, fix_x = v\<rparr>\<rparr>"] by (simp add: fix_ok_def)
  have "case Flt_Div a b of Panic _ \<Rightarrow> True | Ret n \<Rightarrow> fix_ok (flt_x n)"
  proof (cases "Flt_DivPrec a b (max (fix_p (flt_x a)) (fix_p (flt_x b)) + divPrecisionIncrease + decGuardDigits)")
    case (Panic m)
    then show ?thesis by (simp add: Flt_Div_def Let_def)
  next
    case (Ret n)
    then show ?thesis using adj by (simp add: Flt_Div_def Let_def)
  qed
  then show ?thesis using assms adj
    by (simp add: Flt_Add_def Flt_Sub_def Flt_Mul_def Flt_Neg_def Flt_Abs_def Fix_Neg_def Fix_Abs_def
        Flt_Inv_def Let_def fix_ok_def)
qed

theorem Flt_precision_invariant_witness:
  "fix_ok (flt_x \<lparr>flt_x = \<lparr>fix_p = 255, fix_x = 1\<rparr>\<rparr>) \<and>
   fix_ok (flt_x (Flt_Mul \<lparr>flt_x = \<lparr>fix_p = 255, fix_x = 1\<rparr>\<rparr> \<lparr>flt_x = \<lparr>fix_p = 255, fix_x = 1\<rparr>\<rparr>))"
  using Flt_precision_invariant [of "\<lparr>flt_x = \<lparr>fix_p = 255, fix_x = 1\<rparr>\<rparr>" "\<lparr>flt_x = \<lparr>fix_p = 255, fix_x = 1\<rparr>\<rparr>"]
  by (simp add: fix_ok_def MaxDecPointPrecision_def)

text \<open>
  \<open>Flt_Cmp\<close> inherits the rounding of its argument: \<open>1\<close> and \<open>1.4\<close>, both in normal form,
  compare equal one way and greater the other way.
\<close>

lemma Flt_Cmp_rounds_argument:
  "Flt_Cmp \<lparr>flt_x = \<lparr>fix_p = 0, fix_x = 1\<rparr>\<rparr> \<lparr>flt_x = \<lparr>fix_p = 1, fix_x = 14\<rparr>\<rparr> = 0"
  "Flt_Cmp \<lparr>flt_x = \<lparr>fix_p = 1, fix_x = 14\<rparr>\<rparr> \<lparr>flt_x = \<lparr>fix_p = 0, fix_x = 1\<rparr>\<rparr> = 1"
  by (simp_all add: Flt_Cmp_def Fix_Cmp_def bigIntSetPrec_def bigIntDivRound_def Quo_def TRem_def go_cmp_def)

text \<open>
  \<open>bigFloatToBigInt\<close> rounds half up for a value that is not negative and truncates a
  negative one, and it leaves in its argument the value itself when that is an integer and
  only the fractional part otherwise: \<open>FloatNumber.BigInt\<close> destroys a number that is not
  an integer.
\<close>

theorem bigFloatToBigInt_rounds_and_overwrites:
  "FloatNumber_BigInt v = (rnd 0 v, if of_int (trunc_rat v) = v then v else v - of_int (trunc_rat v))"
proof (cases "of_int (trunc_rat v) = v")
  case True
  then have "v * 10 ^ 0 = of_int (trunc_rat v)" by simp
  then have "rnd 0 v = trunc_rat v" by (rule rnd_int)
  with True show ?thesis by (simp add: FloatNumber_BigInt_def bigFloatToBigInt_def Let_def)
next
  case False
  have "rnd 0 v = (if 1 / 2 \<le> v - of_int (trunc_rat v) then trunc_rat v + 1 else trunc_rat v)"
  proof (cases "0 \<le> v")
    case True
    then have "trunc_rat v = \<lfloor>v\<rfloor>" by (simp add: trunc_rat_def)
    moreover have "\<lfloor>v + 1 / 2\<rfloor> = (if 1 / 2 \<le> v - of_int \<lfloor>v\<rfloor> then \<lfloor>v\<rfloor> + 1 else \<lfloor>v\<rfloor>)"
    proof -
      have "\<lfloor>v + 1 / 2\<rfloor> = \<lfloor>v\<rfloor> + 1" if "1 / 2 \<le> v - of_int \<lfloor>v\<rfloor>"
        using that floor_correct [of v] by (intro floor_unique; simp only: of_int_add of_int_1; linarith)
      moreover have "\<lfloor>v + 1 / 2\<rfloor> = \<lfloor>v\<rfloor>" if "\<not> 1 / 2 \<le> v - of_int \<lfloor>v\<rfloor>"
        using that floor_correct [of v] by (intro floor_unique) linarith+
      ultimately show ?thesis by simp
    qed
    ultimately show ?thesis using True by (simp add: rnd_def)
  next
    case neg: False
    then have "trunc_rat v = \<lceil>v\<rceil>" by (simp add: trunc_rat_def)
    moreover have "\<not> 1 / 2 \<le> v - of_int \<lceil>v\<rceil>" using ceiling_correct [of v] by linarith
    ultimately show ?thesis using neg by (simp add: rnd_def)
  qed
  with False show ?thesis by (simp add: FloatNumber_BigInt_def bigFloatToBigInt_def Let_def)
qed

lemma BigInt_twice: "fst (FloatNumber_BigInt (5 / 2)) = 3"
  "fst (FloatNumber_BigInt (snd (FloatNumber_BigInt (5 / 2)))) = 1"
proof -
  have f: "trunc_rat (5 / 2) = 2" "trunc_rat (1 / 2) = 0"
    by (simp_all add: trunc_rat_def floor_eq_iff)
  show "fst (FloatNumber_BigInt (5 / 2)) = 3"
    "fst (FloatNumber_BigInt (snd (FloatNumber_BigInt (5 / 2)))) = 1"
    by (simp_all add: FloatNumber_BigInt_def bigFloatToBigInt_def Let_def f)
qed

end
