(* ===== verification/Big_Float.thy ===== *)
theory Big_Float
  imports Complex_Main "HOL-Library.Log_Nat"
begin

text \<open>
  The rounding of \<open>big.Float\<close> (package \<open>math/big\<close>): a number of \<open>p\<close> bits is an integer of at most \<open>p\<close> bits times a power
  of two, and every operation gives the number of \<open>p\<close> bits that is nearest to the exact result, the even one of two.
\<close>

subsection \<open>Definitions\<close>

definition bitLen :: "int \<Rightarrow> nat" where
  "bitLen x = floorlog 2 (nat \<bar>x\<bar>)"

text \<open>The exponent of the power of two at or below a positive number.\<close>

definition ilog2 :: "rat \<Rightarrow> int" where
  "ilog2 r = (case quotient_of r of (n, d) \<Rightarrow>
     let k = int (bitLen n) - int (bitLen d) in if 2 powi k \<le> r then k else k - 1)"

text \<open>The nearest integer, the even one of two.\<close>

definition nearest :: "rat \<Rightarrow> int" where
  "nearest m = (let f = \<lfloor>m\<rfloor>; d = m - of_int f in if d < 1 / 2 then f else if 1 / 2 < d then f + 1 else if even f then f else f + 1)"

definition round_bits :: "nat \<Rightarrow> rat \<Rightarrow> rat" where
  "round_bits p r =
     (if r = 0 then 0 else let e = ilog2 \<bar>r\<bar> - (int p - 1) in of_int (nearest (r / 2 powi e)) * 2 powi e)"

definition has_bits :: "nat \<Rightarrow> rat \<Rightarrow> bool" where
  "has_bits p r \<longleftrightarrow> (\<exists>m e. \<bar>m\<bar> \<le> 2 ^ p \<and> r = of_int m * 2 powi e)"

subsection \<open>The exponent\<close>

lemma bitLen_bounds: "x \<noteq> 0 \<Longrightarrow> 2 ^ (bitLen x - 1) \<le> \<bar>x\<bar> \<and> \<bar>x\<bar> < 2 ^ bitLen x \<and> 0 < bitLen x"
proof -
  assume "x \<noteq> 0"
  then have n: "0 < nat \<bar>x\<bar>" by simp
  have b: "2 ^ (bitLen x - 1) \<le> nat \<bar>x\<bar>" "nat \<bar>x\<bar> < 2 ^ bitLen x" using floorlog_bounds [OF n, of 2] by (auto simp: bitLen_def)
  have "int (2 ^ (bitLen x - 1)) \<le> int (nat \<bar>x\<bar>)" "int (nat \<bar>x\<bar>) < int (2 ^ bitLen x)" using b by linarith+
  moreover have "0 < bitLen x" using b n by (cases "bitLen x") auto
  ultimately show ?thesis by simp
qed

lemma two_powi_pos [simp]: "(0 :: rat) < 2 powi e" "(2 :: rat) powi e \<noteq> 0"
  by simp_all

lemma two_powi_le_iff [simp]: "(2 :: rat) powi a \<le> 2 powi b \<longleftrightarrow> a \<le> b"
proof -
  have "(2 :: rat) powi m < 2 powi n" if "m < n" for m n :: int using that by (intro power_int_strict_increasing) auto
  from this [of a b] this [of b a] show ?thesis by (cases a b rule: linorder_cases) auto
qed

lemma ilog2_bounds:
  assumes "0 < r"
  shows "2 powi ilog2 r \<le> r \<and> r < 2 powi (ilog2 r + 1)"
proof -
  obtain n d where q: "quotient_of r = (n, d)" by force
  have r: "r = of_int n / of_int d" "0 < d" using q quotient_of_div quotient_of_denom_pos by blast+
  have n: "0 < n" using assms r by (simp add: zero_less_divide_iff)
  let ?N = "bitLen n" and ?D = "bitLen d"
  have N: "(2::rat) ^ (?N - 1) \<le> of_int n" "of_int n < (2::rat) ^ ?N" "0 < ?N"
  proof -
    have "2 ^ (?N - 1) \<le> n" "n < 2 ^ ?N" "0 < ?N" using bitLen_bounds [of n] n by auto
    then show "(2::rat) ^ (?N - 1) \<le> of_int n" "of_int n < (2::rat) ^ ?N" "0 < ?N"
      using of_int_le_iff [of "2 ^ (?N - 1)" n, where 'a = rat] of_int_less_iff [of n "2 ^ ?N", where 'a = rat] by auto
  qed
  have D: "(2::rat) ^ (?D - 1) \<le> of_int d" "of_int d < (2::rat) ^ ?D" "0 < ?D"
  proof -
    have "2 ^ (?D - 1) \<le> d" "d < 2 ^ ?D" "0 < ?D" using bitLen_bounds [of d] r(2) by auto
    then show "(2::rat) ^ (?D - 1) \<le> of_int d" "of_int d < (2::rat) ^ ?D" "0 < ?D"
      using of_int_le_iff [of "2 ^ (?D - 1)" d, where 'a = rat] of_int_less_iff [of d "2 ^ ?D", where 'a = rat] by auto
  qed
  define k where "k = int ?N - int ?D"
  have dpos: "(0::rat) < of_int d" using r(2) by simp
  have up: "r < 2 powi (k + 1)"
  proof -
    have "(2::rat) powi (k + 1) * 2 ^ (?D - 1) = 2 ^ ?N"
    proof -
      have "(2::rat) powi (k + 1) * 2 powi int (?D - 1) = 2 powi (k + 1 + int (?D - 1))" by (simp add: power_int_add)
      also have "k + 1 + int (?D - 1) = int ?N" using D(3) by (simp add: k_def of_nat_diff)
      finally show ?thesis by (simp add: power_int_of_nat)
    qed
    then have "of_int n < (2::rat) powi (k + 1) * 2 ^ (?D - 1)" using N(2) by simp
    also have "\<dots> \<le> 2 powi (k + 1) * of_int d" using D(1) by (intro mult_left_mono) auto
    finally show ?thesis using dpos r(1) by (simp add: divide_less_eq)
  qed
  have lo: "2 powi (k - 1) \<le> r"
  proof -
    have "(2::rat) powi (k - 1) * 2 ^ ?D = 2 ^ (?N - 1)"
    proof -
      have "(2::rat) powi (k - 1) * 2 powi int ?D = 2 powi (k - 1 + int ?D)" by (simp add: power_int_add)
      also have "k - 1 + int ?D = int (?N - 1)" using N(3) by (simp add: k_def of_nat_diff)
      finally show ?thesis by (simp add: power_int_of_nat)
    qed
    moreover have "(2::rat) powi (k - 1) * of_int d \<le> 2 powi (k - 1) * 2 ^ ?D" using D(2) by (intro mult_left_mono) auto
    ultimately have "(2::rat) powi (k - 1) * of_int d \<le> of_int n" using N(1) by linarith
    then show ?thesis using dpos r(1) by (simp add: le_divide_eq)
  qed
  show ?thesis using up lo by (auto simp: ilog2_def q k_def [symmetric] Let_def not_le)
qed

subsection \<open>Rounding\<close>

lemma nearest_close: "\<bar>of_int (nearest m) - m\<bar> \<le> 1 / 2"
proof -
  have "of_int \<lfloor>m\<rfloor> \<le> m" "m < of_int \<lfloor>m\<rfloor> + 1" using floor_correct [of m] by auto
  then show ?thesis by (simp add: nearest_def Let_def abs_le_iff)
qed

lemma nearest_best: "\<bar>of_int (nearest m) - m\<bar> \<le> \<bar>of_int i - m\<bar>"
proof (cases "i = nearest m")
  case False
  then have "(1::rat) \<le> \<bar>of_int i - of_int (nearest m)\<bar>"
    by (metis of_int_1_le_iff of_int_abs of_int_diff eq_iff_diff_eq_0 int_one_le_iff_zero_less zero_less_abs_iff)
  then show ?thesis using nearest_close [of m] by linarith
qed simp

lemma round_bits_eq:
  assumes "r \<noteq> 0" "e = ilog2 \<bar>r\<bar> - (int p - 1)"
  shows "round_bits p r = of_int (nearest (r / 2 powi e)) * 2 powi e"
  using assms by (simp add: round_bits_def Let_def)

lemma round_multiple:
  assumes "r \<noteq> 0" "e = ilog2 \<bar>r\<bar> - (int p - 1)"
  shows "\<bar>round_bits p r - r\<bar> \<le> \<bar>of_int i * 2 powi e - r\<bar>"
proof -
  have eq: "of_int i * 2 powi e - r = (of_int i - r / 2 powi e) * 2 powi e" for i by (simp add: left_diff_distrib)
  show ?thesis unfolding round_bits_eq [OF assms] eq abs_mult using nearest_best [of "r / 2 powi e" i] by (intro mult_right_mono) auto
qed

lemma round_error: "r \<noteq> 0 \<Longrightarrow> \<bar>round_bits p r - r\<bar> \<le> 2 powi (ilog2 \<bar>r\<bar> - int p)"
proof -
  assume r: "r \<noteq> 0"
  define e where "e = ilog2 \<bar>r\<bar> - (int p - 1)"
  have eq: "of_int i * 2 powi e - r = (of_int i - r / 2 powi e) * 2 powi e" for i by (simp add: left_diff_distrib)
  have "\<bar>round_bits p r - r\<bar> \<le> 1 / 2 * 2 powi e"
    unfolding round_bits_eq [OF r e_def] eq abs_mult using nearest_close [of "r / 2 powi e"] by (intro mult_mono) auto
  also have "1 / 2 * (2::rat) powi e = 2 powi (ilog2 \<bar>r\<bar> - int p)" by (simp add: e_def power_int_diff power_int_add algebra_simps)
  finally show ?thesis .
qed

text \<open>The relative error.\<close>

lemma round_relative: "\<bar>round_bits p r - r\<bar> \<le> \<bar>r\<bar> * 2 powi (- int p)"
proof (cases "r = 0")
  case False
  have "\<bar>round_bits p r - r\<bar> \<le> 2 powi ilog2 \<bar>r\<bar> * 2 powi (- int p)" using round_error [OF False] by (simp add: power_int_add [symmetric])
  also have "\<dots> \<le> \<bar>r\<bar> * 2 powi (- int p)" using ilog2_bounds [of "\<bar>r\<bar>"] False by (intro mult_right_mono) auto
  finally show ?thesis .
qed (simp add: round_bits_def)

text \<open>No number of \<open>p\<close> bits is closer.\<close>

lemma round_best:
  assumes "has_bits p y" "0 < p"
  shows "\<bar>round_bits p r - r\<bar> \<le> \<bar>y - r\<bar>"
proof (cases "r = 0")
  case False
  define l where "l = ilog2 \<bar>r\<bar>"
  define e where "e = l - (int p - 1)"
  have l: "2 powi l \<le> \<bar>r\<bar>" using ilog2_bounds [of "\<bar>r\<bar>"] False by (simp add: l_def)
  obtain m k where y: "\<bar>m\<bar> \<le> 2 ^ p" "y = of_int m * 2 powi k" using assms(1) by (auto simp: has_bits_def)
  show ?thesis
  proof (cases "e \<le> k")
    case True
    then have "(2::rat) powi k = of_int (2 ^ nat (k - e)) * 2 powi e"
      using power_int_add [of "2 :: rat" "k - e" e] by (simp add: power_int_def)
    then have "y = of_int (m * 2 ^ nat (k - e)) * 2 powi e" using y(2) by simp
    then show ?thesis using round_multiple [OF False, of e p "m * 2 ^ nat (k - e)"] by (simp add: e_def l_def)
  next
    case False2: False
    have "\<bar>y\<bar> \<le> of_int (2 ^ p) * 2 powi k" unfolding y(2) abs_mult using y(1) by (intro mult_mono) (auto simp: of_int_le_iff simp flip: of_int_abs)
    also have "\<dots> \<le> 2 powi int p * 2 powi (e - 1)" using False2 by (intro mult_mono) (auto simp: power_int_of_nat)
    also have "\<dots> = (2::rat) powi l" using power_int_add [of "2 :: rat" "int p" "l - int p"] by (simp add: e_def)
    finally have small: "\<bar>y\<bar> \<le> 2 powi l" .
    have "(2::rat) powi l = of_int (2 ^ (p - 1)) * 2 powi e" using assms(2)
      by (simp add: e_def power_int_of_nat [symmetric] power_int_add [symmetric] of_nat_diff)
    then have "\<bar>round_bits p r - r\<bar> \<le> \<bar>of_int (sgn (if 0 < r then 1 else -1)) * 2 powi l - r\<bar>"
      using round_multiple [OF False, of e p "(if 0 < r then 1 else -1) * 2 ^ (p - 1)"] by (auto simp: e_def l_def)
    also have "\<dots> = \<bar>r\<bar> - 2 powi l" using l by auto
    also have "\<dots> \<le> \<bar>y - r\<bar>" using small by linarith
    finally show ?thesis .
  qed
qed (simp add: round_bits_def)

corollary round_exact: "has_bits p r \<Longrightarrow> 0 < p \<Longrightarrow> round_bits p r = r"
  using round_best [of p r r] by simp

text \<open>The result has \<open>p\<close> bits.\<close>

lemma round_has_bits: "0 < p \<Longrightarrow> has_bits p (round_bits p r)"
proof (cases "r = 0")
  case False
  assume p: "0 < p"
  define e where "e = ilog2 \<bar>r\<bar> - (int p - 1)"
  let ?m = "r / 2 powi e"
  have "\<bar>r\<bar> < 2 powi (e + int p)" using ilog2_bounds [of "\<bar>r\<bar>"] False by (simp add: e_def)
  then have "\<bar>?m\<bar> < 2 ^ p" by (simp add: power_int_add divide_less_eq mult.commute)
  then have "?m < 2 ^ p" "- (2 ^ p) \<le> ?m" unfolding abs_less_iff by linarith+
  then have "\<lfloor>?m\<rfloor> < 2 ^ p" "- (2 ^ p) \<le> \<lfloor>?m\<rfloor>" by (simp_all add: floor_less_iff le_floor_iff)
  moreover have "\<lfloor>?m\<rfloor> \<le> nearest ?m" "nearest ?m \<le> \<lfloor>?m\<rfloor> + 1" by (auto simp: nearest_def Let_def)
  ultimately have "\<bar>nearest ?m\<bar> \<le> 2 ^ p" by linarith
  then show ?thesis unfolding has_bits_def round_bits_eq [OF False e_def] by blast
qed (auto simp: round_bits_def has_bits_def intro!: exI [of _ 0])

lemma int_has_bits: "bitLen i \<le> p \<Longrightarrow> has_bits p (of_int i)"
proof -
  assume "bitLen i \<le> p"
  then have "(2::int) ^ bitLen i \<le> 2 ^ p" by (intro power_increasing) auto
  then have "\<bar>i\<bar> \<le> 2 ^ p" using bitLen_bounds [of i] by (cases "i = 0") (simp, linarith)
  then show ?thesis unfolding has_bits_def by (intro exI [of _ i] exI [of _ 0]) simp
qed

end
