(* ===== verification/Bn_Convert.thy ===== *)
theory Bn_Convert
  imports Big_Float Bn_Float
begin

text \<open>
  Binary floating-point numbers (\<open>src/bn/float.go\<close>) and the conversions between all number types (\<open>src/bn/bn.go\<close> and the
  constructors of \<open>int.go\<close>, \<open>float.go\<close>, \<open>decfixedpoint.go\<close> and \<open>decfloatpoint.go\<close>).

  A \<open>*big.Float\<close> has a precision in bits and a value, a rational number or an infinity; operations round as \<open>Big_Float\<close> says.
  The sign of zero is not kept, and exponents are not bounded. Pointers are not nil. Reading and printing of texts by
  \<open>math/big\<close> are the functions of \<open>big_text\<close>. A conversion that returns nil is \<open>None\<close>. A conversion that writes to its
  argument returns the argument afterwards beside the result.
\<close>

subsection \<open>Definitions: binary floats\<close>

datatype bf_value = Finite rat | Inf bool

record bigFloat =
  bf_prec :: nat
  bf_val :: bf_value

datatype float64 = F64 rat | F64Inf bool | F64NaN

record big_text =
  t_FloatSetString :: "string \<Rightarrow> bigFloat option"
  t_IntSetString :: "string \<Rightarrow> int option"
  t_Text :: "bigFloat \<Rightarrow> char \<Rightarrow> int \<Rightarrow> string"

definition bf_round :: "nat \<Rightarrow> rat \<Rightarrow> bigFloat" where
  "bf_round p r = \<lparr>bf_prec = p, bf_val = Finite (round_bits p r)\<rparr>"

definition bf_SetInt :: "int \<Rightarrow> bigFloat" where
  "bf_SetInt i = \<lparr>bf_prec = max (bitLen i) 64, bf_val = Finite (of_int i)\<rparr>"

definition bf_NewFloat :: "float64 \<Rightarrow> bigFloat go" where
  "bf_NewFloat x = (case x of F64 r \<Rightarrow> Ret \<lparr>bf_prec = 53, bf_val = Finite r\<rparr> | F64Inf neg \<Rightarrow> Ret \<lparr>bf_prec = 53, bf_val = Inf neg\<rparr> | F64NaN \<Rightarrow> Panic ''NewFloat(NaN)'')"

definition bf_Add :: "bigFloat \<Rightarrow> bigFloat \<Rightarrow> bigFloat go" where
  "bf_Add x y =
     (let p = max (bf_prec x) (bf_prec y) in
      case (bf_val x, bf_val y) of
        (Finite a, Finite b) \<Rightarrow> Ret (bf_round p (a + b))
      | (Inf s, Inf t) \<Rightarrow> if s = t then Ret \<lparr>bf_prec = p, bf_val = Inf s\<rparr> else Panic ''addition of infinities with opposite signs''
      | (Inf s, Finite b) \<Rightarrow> Ret \<lparr>bf_prec = p, bf_val = Inf s\<rparr>
      | (Finite a, Inf t) \<Rightarrow> Ret \<lparr>bf_prec = p, bf_val = Inf t\<rparr>)"

definition bf_Neg :: "bigFloat \<Rightarrow> bigFloat" where
  "bf_Neg x = x\<lparr>bf_val := (case bf_val x of Finite a \<Rightarrow> Finite (- a) | Inf s \<Rightarrow> Inf (\<not> s))\<rparr>"

definition bf_Abs :: "bigFloat \<Rightarrow> bigFloat" where
  "bf_Abs x = x\<lparr>bf_val := (case bf_val x of Finite a \<Rightarrow> Finite \<bar>a\<bar> | Inf s \<Rightarrow> Inf False)\<rparr>"

definition bf_Sub :: "bigFloat \<Rightarrow> bigFloat \<Rightarrow> bigFloat go" where
  "bf_Sub x y =
     (let p = max (bf_prec x) (bf_prec y) in
      case (bf_val x, bf_val y) of
        (Finite a, Finite b) \<Rightarrow> Ret (bf_round p (a - b))
      | (Inf s, Inf t) \<Rightarrow> if s \<noteq> t then Ret \<lparr>bf_prec = p, bf_val = Inf s\<rparr> else Panic ''subtraction of infinities with equal signs''
      | (Inf s, Finite b) \<Rightarrow> Ret \<lparr>bf_prec = p, bf_val = Inf s\<rparr>
      | (Finite a, Inf t) \<Rightarrow> Ret \<lparr>bf_prec = p, bf_val = Inf (\<not> t)\<rparr>)"

definition bf_Mul :: "bigFloat \<Rightarrow> bigFloat \<Rightarrow> bigFloat go" where
  "bf_Mul x y =
     (let p = max (bf_prec x) (bf_prec y) in
      case (bf_val x, bf_val y) of
        (Finite a, Finite b) \<Rightarrow> Ret (bf_round p (a * b))
      | (Inf s, Inf t) \<Rightarrow> Ret \<lparr>bf_prec = p, bf_val = Inf (s \<noteq> t)\<rparr>
      | (Inf s, Finite b) \<Rightarrow> if b = 0 then Panic ''multiplication of zero with infinity'' else Ret \<lparr>bf_prec = p, bf_val = Inf (s \<noteq> (b < 0))\<rparr>
      | (Finite a, Inf t) \<Rightarrow> if a = 0 then Panic ''multiplication of zero with infinity'' else Ret \<lparr>bf_prec = p, bf_val = Inf (t \<noteq> (a < 0))\<rparr>)"

definition bf_Quo :: "bigFloat \<Rightarrow> bigFloat \<Rightarrow> bigFloat go" where
  "bf_Quo x y =
     (let p = max (bf_prec x) (bf_prec y) in
      case (bf_val x, bf_val y) of
        (Finite a, Finite b) \<Rightarrow>
          if b \<noteq> 0 then Ret (bf_round p (a / b))
          else if a = 0 then Panic ''division of zero by zero or infinity by infinity''
          else Ret \<lparr>bf_prec = p, bf_val = Inf (a < 0)\<rparr>
      | (Inf s, Inf t) \<Rightarrow> Panic ''division of zero by zero or infinity by infinity''
      | (Inf s, Finite b) \<Rightarrow> Ret \<lparr>bf_prec = p, bf_val = Inf (s \<noteq> (b < 0))\<rparr>
      | (Finite a, Inf t) \<Rightarrow> Ret \<lparr>bf_prec = p, bf_val = Finite 0\<rparr>)"

definition bf_rank :: "bf_value \<Rightarrow> int \<times> rat" where
  "bf_rank v = (case v of Finite a \<Rightarrow> (0, a) | Inf s \<Rightarrow> (if s then -1 else 1, 0))"

definition bf_Cmp :: "bigFloat \<Rightarrow> bigFloat \<Rightarrow> int" where
  "bf_Cmp x y =
     (case (bf_rank (bf_val x), bf_rank (bf_val y)) of ((k, a), (l, b)) \<Rightarrow>
        if k < l \<or> k = l \<and> a < b then -1 else if k = l \<and> a = b then 0 else 1)"

definition bf_IsInf :: "bigFloat \<Rightarrow> bool" where
  "bf_IsInf x = (case bf_val x of Inf _ \<Rightarrow> True | _ \<Rightarrow> False)"

text \<open>
  \<open>bigFloatToBigInt\<close>: the integer and the argument afterwards. \<open>Int\<close> of an infinity is nil, which is then dereferenced.
\<close>

definition bigFloat_BigInt :: "bigFloat \<Rightarrow> (int \<times> bigFloat) go" where
  "bigFloat_BigInt x =
     (case bf_val x of
        Finite v \<Rightarrow> (case bigFloatToBigInt v of (i, f) \<Rightarrow> Ret (i, x\<lparr>bf_val := Finite f\<rparr>))
      | Inf _ \<Rightarrow> Panic ''nil pointer dereference'')"

subsection \<open>Definitions: FloatNumber\<close>

record FloatNumber =
  fn_x :: bigFloat

definition Float_BigFloat :: "FloatNumber \<Rightarrow> bigFloat" where
  "Float_BigFloat x = fn_x x"

definition Float_Precision :: "FloatNumber \<Rightarrow> nat" where
  "Float_Precision x = bf_prec (fn_x x)"

definition Float_SetPrecision :: "FloatNumber \<Rightarrow> nat \<Rightarrow> FloatNumber" where
  "Float_SetPrecision x prec =
     (let prec = min prec (2 ^ 32 - 1) in
      case bf_val (fn_x x) of
        Finite a \<Rightarrow>
          if prec = 0 then \<lparr>fn_x = \<lparr>bf_prec = 0, bf_val = Finite 0\<rparr>\<rparr>
          else if prec < bf_prec (fn_x x) then \<lparr>fn_x = bf_round prec a\<rparr>
          else \<lparr>fn_x = (fn_x x)\<lparr>bf_prec := prec\<rparr>\<rparr>
      | Inf s \<Rightarrow> \<lparr>fn_x = (fn_x x)\<lparr>bf_prec := prec\<rparr>\<rparr>)"

definition Float_Sign :: "FloatNumber \<Rightarrow> int" where
  "Float_Sign x = (case bf_val (fn_x x) of Finite a \<Rightarrow> (if a < 0 then -1 else if a = 0 then 0 else 1) | Inf s \<Rightarrow> if s then -1 else 1)"

definition float_result :: "bigFloat go \<Rightarrow> FloatNumber go" where
  "float_result r = go_bind r (\<lambda>z. Ret \<lparr>fn_x = z\<rparr>)"

definition Float_Add :: "FloatNumber \<Rightarrow> FloatNumber \<Rightarrow> FloatNumber go" where
  "Float_Add x y = float_result (bf_Add (fn_x x) (fn_x y))"

definition Float_Sub :: "FloatNumber \<Rightarrow> FloatNumber \<Rightarrow> FloatNumber go" where
  "Float_Sub x y = float_result (bf_Sub (fn_x x) (fn_x y))"

definition Float_Mul :: "FloatNumber \<Rightarrow> FloatNumber \<Rightarrow> FloatNumber go" where
  "Float_Mul x y = float_result (bf_Mul (fn_x x) (fn_x y))"

definition Float_Div :: "FloatNumber \<Rightarrow> FloatNumber \<Rightarrow> FloatNumber go" where
  "Float_Div x y = float_result (bf_Quo (fn_x x) (fn_x y))"

definition Float_Cmp :: "FloatNumber \<Rightarrow> FloatNumber \<Rightarrow> int" where
  "Float_Cmp x y = bf_Cmp (fn_x x) (fn_x y)"

definition Float_Abs :: "FloatNumber \<Rightarrow> FloatNumber" where
  "Float_Abs x = \<lparr>fn_x = bf_Abs (fn_x x)\<rparr>"

definition Float_Neg :: "FloatNumber \<Rightarrow> FloatNumber" where
  "Float_Neg x = \<lparr>fn_x = bf_Neg (fn_x x)\<rparr>"

definition floatOne :: bigFloat where
  "floatOne = \<lparr>bf_prec = 53, bf_val = Finite 1\<rparr>"

definition Float_Inv :: "FloatNumber \<Rightarrow> FloatNumber go" where
  "Float_Inv x = Float_Div \<lparr>fn_x = floatOne\<rparr> x"

definition Float_IsInf :: "FloatNumber \<Rightarrow> bool" where
  "Float_IsInf x = bf_IsInf (fn_x x)"

subsection \<open>Definitions: conversions\<close>

definition Int_BigFloat :: "IntNumber \<Rightarrow> bigFloat" where
  "Int_BigFloat x = bf_SetInt (int_x x)"

definition Fix_BigFloat :: "DecFixedPointNumber \<Rightarrow> bigFloat go" where
  "Fix_BigFloat x = bf_Quo (bf_SetInt (fix_x x)) (bf_SetInt (pow10 (fix_p x)))"

definition Fix_BigInt :: "DecFixedPointNumber \<Rightarrow> int go" where
  "Fix_BigInt x = go_bind (Fix_BigFloat x) (\<lambda>f. go_bind (bigFloat_BigInt f) (\<lambda>(i, _). Ret i))"

definition Flt_BigFloat :: "DecFloatPointNumber \<Rightarrow> bigFloat go" where
  "Flt_BigFloat x = Fix_BigFloat (flt_x x)"

definition Flt_BigInt :: "DecFloatPointNumber \<Rightarrow> int go" where
  "Flt_BigInt x = Fix_BigInt (flt_x x)"

definition convertIntToFloat :: "IntNumber \<Rightarrow> FloatNumber" where
  "convertIntToFloat x = \<lparr>fn_x = Int_BigFloat x\<rparr>"

definition convertDecFixedPointToFloat :: "DecFixedPointNumber \<Rightarrow> FloatNumber go" where
  "convertDecFixedPointToFloat x = float_result (Fix_BigFloat x)"

definition convertDecFloatPointToFloat :: "DecFloatPointNumber \<Rightarrow> FloatNumber go" where
  "convertDecFloatPointToFloat x = float_result (Flt_BigFloat x)"

definition convertBigIntToFloat :: "int \<Rightarrow> FloatNumber" where
  "convertBigIntToFloat x = \<lparr>fn_x = bf_SetInt x\<rparr>"

definition convertBigFloatToFloat :: "bigFloat \<Rightarrow> FloatNumber" where
  "convertBigFloatToFloat x = \<lparr>fn_x = x\<rparr>"

definition convertInt64ToFloat :: "64 word \<Rightarrow> FloatNumber" where
  "convertInt64ToFloat x = \<lparr>fn_x = \<lparr>bf_prec = 64, bf_val = Finite (of_int (sint x))\<rparr>\<rparr>"

definition convertUint64ToFloat :: "64 word \<Rightarrow> FloatNumber" where
  "convertUint64ToFloat x = \<lparr>fn_x = \<lparr>bf_prec = 64, bf_val = Finite (of_int (uint x))\<rparr>\<rparr>"

definition convertFloat64ToFloat :: "float64 \<Rightarrow> FloatNumber go" where
  "convertFloat64ToFloat x = float_result (bf_NewFloat x)"

definition convertStringToFloat :: "big_text \<Rightarrow> string \<Rightarrow> FloatNumber option" where
  "convertStringToFloat T s = map_option (\<lambda>f. \<lparr>fn_x = f\<rparr>) (t_FloatSetString T s)"

definition convertFloatToInt :: "FloatNumber \<Rightarrow> (IntNumber \<times> FloatNumber) go" where
  "convertFloatToInt x = go_bind (bigFloat_BigInt (fn_x x)) (\<lambda>(i, f). Ret (\<lparr>int_x = i\<rparr>, \<lparr>fn_x = f\<rparr>))"

definition convertDecFixedPointToInt :: "DecFixedPointNumber \<Rightarrow> IntNumber go" where
  "convertDecFixedPointToInt x = go_bind (Fix_BigInt x) (\<lambda>i. Ret \<lparr>int_x = i\<rparr>)"

definition convertDecFloatPointToInt :: "DecFloatPointNumber \<Rightarrow> IntNumber go" where
  "convertDecFloatPointToInt x = go_bind (Flt_BigInt x) (\<lambda>i. Ret \<lparr>int_x = i\<rparr>)"

definition convertBigFloatToInt :: "bigFloat \<Rightarrow> (IntNumber \<times> bigFloat) go" where
  "convertBigFloatToInt x = go_bind (bigFloat_BigInt x) (\<lambda>(i, f). Ret (\<lparr>int_x = i\<rparr>, f))"

definition convertFloat64ToInt :: "float64 \<Rightarrow> IntNumber go" where
  "convertFloat64ToInt x = go_bind (bf_NewFloat x) (\<lambda>f. go_bind (bigFloat_BigInt f) (\<lambda>(i, _). Ret \<lparr>int_x = i\<rparr>))"

definition convertStringToInt :: "big_text \<Rightarrow> string \<Rightarrow> IntNumber option" where
  "convertStringToInt T s = map_option (\<lambda>i. \<lparr>int_x = i\<rparr>) (t_IntSetString T s)"

text \<open>The conversions of a binary float to a decimal number: scaled by a power of ten, then rounded.\<close>

definition scaled_float :: "bigFloat \<Rightarrow> nat \<Rightarrow> DecFixedPointNumber go" where
  "scaled_float x n = go_bind (bf_Mul x (bf_SetInt (pow10 n))) (\<lambda>y. go_bind (bigFloat_BigInt y) (\<lambda>(i, _). Ret \<lparr>fix_p = n, fix_x = i\<rparr>))"

definition convertFloatToDecFixedPoint :: "FloatNumber \<Rightarrow> nat \<Rightarrow> DecFixedPointNumber go" where
  "convertFloatToDecFixedPoint x n = scaled_float (Float_BigFloat x) n"

definition convertBigFloatToDecFixedPoint :: "bigFloat \<Rightarrow> nat \<Rightarrow> DecFixedPointNumber go" where
  "convertBigFloatToDecFixedPoint x n = scaled_float x n"

definition convertFloat64ToDecFixedPoint :: "float64 \<Rightarrow> nat \<Rightarrow> DecFixedPointNumber option go" where
  "convertFloat64ToDecFixedPoint x n =
     (case x of
        F64 r \<Rightarrow> go_bind (bf_NewFloat x) (\<lambda>f. go_bind (scaled_float f n) (\<lambda>d. Ret (Some d)))
      | _ \<Rightarrow> Ret None)"

definition convertStringToDecFixedPoint :: "big_text \<Rightarrow> string \<Rightarrow> nat \<Rightarrow> DecFixedPointNumber option go" where
  "convertStringToDecFixedPoint T s n =
     (case t_FloatSetString T s of
        Some f \<Rightarrow> go_bind (scaled_float f n) (\<lambda>d. Ret (Some d))
      | None \<Rightarrow> Ret None)"

text \<open>The number of decimals of the shortest decimal text, without trailing zeros.\<close>

fun dec_loop :: "string \<Rightarrow> nat \<Rightarrow> nat \<Rightarrow> nat" where
  "dec_loop s d 0 = 0"
| "dec_loop s d (Suc z) = (if d \<le> Suc z \<and> s ! Suc z = CHR ''0'' then dec_loop s d z else Suc z)"

definition bigFloatDecPrec :: "big_text \<Rightarrow> bigFloat \<Rightarrow> nat" where
  "bigFloatDecPrec T x =
     (let s = t_Text T x (CHR ''f'') (-1) in
      if length s = 0 then 0
      else if CHR ''.'' \<notin> set s then 0
      else let d = length (takeWhile (\<lambda>c. c \<noteq> CHR ''.'') s) in dec_loop s d (length s - 1) - d)"

definition floatDecPrec :: "big_text \<Rightarrow> FloatNumber \<Rightarrow> nat" where
  "floatDecPrec T x = bigFloatDecPrec T (Float_BigFloat x)"

definition float64DecPrec :: "big_text \<Rightarrow> float64 \<Rightarrow> nat go" where
  "float64DecPrec T x = go_bind (bf_NewFloat x) (\<lambda>f. Ret (bigFloatDecPrec T f))"

definition stringNumberDecPrec :: "big_text \<Rightarrow> string \<Rightarrow> nat option" where
  "stringNumberDecPrec T s =
     (case t_FloatSetString T s of
        Some f \<Rightarrow> Some (bigFloatDecPrec T f)
      | None \<Rightarrow> if t_IntSetString T s \<noteq> None then Some 0 else None)"

definition convertFloatToDecFloatPoint :: "big_text \<Rightarrow> FloatNumber \<Rightarrow> DecFloatPointNumber go" where
  "convertFloatToDecFloatPoint T x =
     (let p = floatDecPrec T x; p = (if MaxDecPointPrecision < p then MaxDecPointPrecision else p) in
      go_bind (convertFloatToDecFixedPoint x p) (\<lambda>d. Ret \<lparr>flt_x = d\<rparr>))"

definition convertBigFloatToDecFloatPoint :: "big_text \<Rightarrow> bigFloat \<Rightarrow> DecFloatPointNumber option go" where
  "convertBigFloatToDecFloatPoint T x =
     (if bf_IsInf x then Ret None
      else let p = bigFloatDecPrec T x; p = (if MaxDecPointPrecision < p then MaxDecPointPrecision else p) in
        go_bind (convertBigFloatToDecFixedPoint x p) (\<lambda>d. Ret (Some \<lparr>flt_x = d\<rparr>)))"

definition convertFloat64ToDecFloatPoint :: "big_text \<Rightarrow> float64 \<Rightarrow> DecFloatPointNumber option go" where
  "convertFloat64ToDecFloatPoint T x =
     (case x of
        F64 r \<Rightarrow>
          go_bind (float64DecPrec T x) (\<lambda>p.
            let p = (if MaxDecPointPrecision < p then MaxDecPointPrecision else p) in
            go_bind (convertFloat64ToDecFixedPoint x p) (\<lambda>n. Ret (map_option (\<lambda>d. \<lparr>flt_x = d\<rparr>) n)))
      | _ \<Rightarrow> Ret None)"

definition convertStringToDecFloatPoint :: "big_text \<Rightarrow> string \<Rightarrow> DecFloatPointNumber option go" where
  "convertStringToDecFloatPoint T s =
     (case stringNumberDecPrec T s of
        None \<Rightarrow> Ret None
      | Some p \<Rightarrow>
          let p = (if MaxDecPointPrecision < p then MaxDecPointPrecision else p) in
          go_bind (convertStringToDecFixedPoint T s p) (\<lambda>n. Ret (map_option (\<lambda>d. \<lparr>flt_x = d\<rparr>) n)))"

subsection \<open>Definitions: conversion methods\<close>

definition Int_Float :: "IntNumber \<Rightarrow> FloatNumber" where
  "Int_Float x = convertIntToFloat x"

definition Int_DecFixedPoint :: "IntNumber \<Rightarrow> nat \<Rightarrow> DecFixedPointNumber" where
  "Int_DecFixedPoint x n = convertIntToDecFixedPoint x n"

definition Int_DecFloatPoint :: "IntNumber \<Rightarrow> DecFloatPointNumber" where
  "Int_DecFloatPoint x = convertIntToDecFloatPoint x"

definition Fix_Int :: "DecFixedPointNumber \<Rightarrow> IntNumber go" where
  "Fix_Int x = convertDecFixedPointToInt x"

definition Fix_Float :: "DecFixedPointNumber \<Rightarrow> FloatNumber go" where
  "Fix_Float x = convertDecFixedPointToFloat x"

definition Fix_DecFloatPoint :: "DecFixedPointNumber \<Rightarrow> DecFloatPointNumber" where
  "Fix_DecFloatPoint x = convertDecFixedPointToDecFloatPoint x"

definition Fix_Text :: "big_text \<Rightarrow> DecFixedPointNumber \<Rightarrow> char \<Rightarrow> int \<Rightarrow> string go" where
  "Fix_Text T x format prec =
     (if format = CHR ''f'' \<and> prec < 0 then Ret (Fix_String x)
      else go_bind (Fix_BigFloat x) (\<lambda>f. Ret (t_Text T f format prec)))"

definition Flt_Int :: "DecFloatPointNumber \<Rightarrow> IntNumber go" where
  "Flt_Int x = convertDecFloatPointToInt x"

definition Flt_DecFixedPoint :: "DecFloatPointNumber \<Rightarrow> nat \<Rightarrow> DecFixedPointNumber" where
  "Flt_DecFixedPoint x n = convertDecFloatPointToDecFixedPoint x n"

definition Flt_Float :: "DecFloatPointNumber \<Rightarrow> FloatNumber go" where
  "Flt_Float x = convertDecFloatPointToFloat x"

definition Flt_Text :: "big_text \<Rightarrow> DecFloatPointNumber \<Rightarrow> char \<Rightarrow> int \<Rightarrow> string go" where
  "Flt_Text T x format prec = Fix_Text T (flt_x x) format prec"

definition Float_Int :: "FloatNumber \<Rightarrow> (IntNumber \<times> FloatNumber) go" where
  "Float_Int x = convertFloatToInt x"

definition Float_DecFixedPoint :: "FloatNumber \<Rightarrow> nat \<Rightarrow> DecFixedPointNumber go" where
  "Float_DecFixedPoint x n = convertFloatToDecFixedPoint x n"

definition Float_Text :: "big_text \<Rightarrow> FloatNumber \<Rightarrow> char \<Rightarrow> int \<Rightarrow> string" where
  "Float_Text T x format prec = t_Text T (fn_x x) format prec"

definition Float_String :: "big_text \<Rightarrow> FloatNumber \<Rightarrow> string" where
  "Float_String T x = t_Text T (fn_x x) (CHR ''g'') 10"

subsection \<open>Definitions: constructors\<close>

text \<open>The types that the constructors accept, given by value or by pointer.\<close>

datatype bn_any = AnyInt IntNumber | AnyFloat FloatNumber | AnyFixed DecFixedPointNumber | AnyDecFloat DecFloatPointNumber | AnyBigInt int | AnyBigFloat bigFloat
  | AnyInteger any_int | AnyFloat64 float64 | AnyString string | AnyBytes "byte list" | AnyOther

definition signed_int :: "any_int \<Rightarrow> bool" where
  "signed_int x = (case x of AInt _ \<Rightarrow> True | AInt8 _ \<Rightarrow> True | AInt16 _ \<Rightarrow> True | AInt32 _ \<Rightarrow> True | AInt64 _ \<Rightarrow> True | _ \<Rightarrow> False)"

definition some_go :: "'a go \<Rightarrow> 'a option go" where
  "some_go r = go_bind r (\<lambda>x. Ret (Some x))"

fun Int_from :: "big_text \<Rightarrow> bn_any \<Rightarrow> (IntNumber option \<times> bn_any) go" where
  "Int_from T (AnyInt x) = Ret (Some x, AnyInt x)"
| "Int_from T (AnyFloat x) = go_bind (convertFloatToInt x) (\<lambda>(i, y). Ret (Some i, AnyFloat y))"
| "Int_from T (AnyFixed x) = go_bind (convertDecFixedPointToInt x) (\<lambda>i. Ret (Some i, AnyFixed x))"
| "Int_from T (AnyDecFloat x) = go_bind (convertDecFloatPointToInt x) (\<lambda>i. Ret (Some i, AnyDecFloat x))"
| "Int_from T (AnyBigInt x) = Ret (Some (convertBigIntToInt x), AnyBigInt x)"
| "Int_from T (AnyBigFloat x) = go_bind (convertBigFloatToInt x) (\<lambda>(i, y). Ret (Some i, AnyBigFloat y))"
| "Int_from T (AnyInteger x) = Ret (Some (if signed_int x then convertInt64ToInt (anyToInt64 x) else convertUint64ToInt (anyToUint64 x)), AnyInteger x)"
| "Int_from T (AnyFloat64 x) = go_bind (convertFloat64ToInt x) (\<lambda>i. Ret (Some i, AnyFloat64 x))"
| "Int_from T (AnyString s) = Ret (convertStringToInt T s, AnyString s)"
| "Int_from T (AnyBytes b) = Ret (Some (convertBytesToInt b), AnyBytes b)"
| "Int_from T AnyOther = Ret (None, AnyOther)"

fun Float_from :: "big_text \<Rightarrow> bn_any \<Rightarrow> FloatNumber option go" where
  "Float_from T (AnyInt x) = Ret (Some (convertIntToFloat x))"
| "Float_from T (AnyFloat x) = Ret (Some x)"
| "Float_from T (AnyFixed x) = some_go (convertDecFixedPointToFloat x)"
| "Float_from T (AnyDecFloat x) = some_go (convertDecFloatPointToFloat x)"
| "Float_from T (AnyBigInt x) = Ret (Some (convertBigIntToFloat x))"
| "Float_from T (AnyBigFloat x) = Ret (Some (convertBigFloatToFloat x))"
| "Float_from T (AnyInteger x) = Ret (Some (if signed_int x then convertInt64ToFloat (anyToInt64 x) else convertUint64ToFloat (anyToUint64 x)))"
| "Float_from T (AnyFloat64 x) = some_go (convertFloat64ToFloat x)"
| "Float_from T (AnyString s) = Ret (convertStringToFloat T s)"
| "Float_from T _ = Ret None"

fun DecFixedPoint_from :: "big_text \<Rightarrow> bn_any \<Rightarrow> nat \<Rightarrow> DecFixedPointNumber option go" where
  "DecFixedPoint_from T (AnyInt x) n = Ret (Some (convertIntToDecFixedPoint x n))"
| "DecFixedPoint_from T (AnyFloat x) n = some_go (convertFloatToDecFixedPoint x n)"
| "DecFixedPoint_from T (AnyFixed x) n = Ret (Some (Fix_SetPrec x n))"
| "DecFixedPoint_from T (AnyDecFloat x) n = Ret (Some (convertDecFloatPointToDecFixedPoint x n))"
| "DecFixedPoint_from T (AnyBigInt x) n = Ret (Some (convertBigIntToDecFixedPoint x n))"
| "DecFixedPoint_from T (AnyBigFloat x) n = some_go (convertBigFloatToDecFixedPoint x n)"
| "DecFixedPoint_from T (AnyInteger x) n = Ret (Some (if signed_int x then convertInt64ToDecFixedPoint (anyToInt64 x) n else convertUint64ToDecFixedPoint (anyToUint64 x) n))"
| "DecFixedPoint_from T (AnyFloat64 x) n = convertFloat64ToDecFixedPoint x n"
| "DecFixedPoint_from T (AnyString s) n = convertStringToDecFixedPoint T s n"
| "DecFixedPoint_from T _ n = Ret None"

fun DecFloatPoint_from :: "big_text \<Rightarrow> bn_any \<Rightarrow> DecFloatPointNumber option go" where
  "DecFloatPoint_from T (AnyInt x) = Ret (Some (convertIntToDecFloatPoint x))"
| "DecFloatPoint_from T (AnyFloat x) = some_go (convertFloatToDecFloatPoint T x)"
| "DecFloatPoint_from T (AnyFixed x) = Ret (Some (convertDecFixedPointToDecFloatPoint x))"
| "DecFloatPoint_from T (AnyDecFloat x) = Ret (Some x)"
| "DecFloatPoint_from T (AnyBigInt x) = Ret (Some (convertBigIntToDecFloatPoint x))"
| "DecFloatPoint_from T (AnyBigFloat x) = convertBigFloatToDecFloatPoint T x"
| "DecFloatPoint_from T (AnyInteger x) = Ret (Some (if signed_int x then convertInt64ToDecFloatPoint (anyToInt64 x) else convertUint64ToDecFloatPoint (anyToUint64 x)))"
| "DecFloatPoint_from T (AnyFloat64 x) = convertFloat64ToDecFloatPoint T x"
| "DecFloatPoint_from T (AnyString s) = convertStringToDecFloatPoint T s"
| "DecFloatPoint_from T _ = Ret None"

subsection \<open>Rounding through binary floats\<close>

lemma grid_gap:
  assumes "v = of_int x / 10 ^ p" "t * 10 ^ p = (of_int k :: rat)"
  shows "v < t \<Longrightarrow> v \<le> t - 1 / 10 ^ p" "t < v \<Longrightarrow> t + 1 / 10 ^ p \<le> v"
proof -
  have v: "v * 10 ^ p = of_int x" using assms(1) by simp
  { assume "v < t"
    then have "v * 10 ^ p < t * 10 ^ p" by simp
    then have "x + 1 \<le> k" unfolding v assms(2) by simp
    then have "of_int (x + 1) \<le> (of_int k :: rat)" by (simp only: of_int_le_iff)
    then have "v * 10 ^ p + 1 \<le> t * 10 ^ p" using v assms(2) by simp
    then show "v \<le> t - 1 / 10 ^ p" by (simp add: field_simps) }
  { assume "t < v"
    then have "t * 10 ^ p < v * 10 ^ p" by simp
    then have "k + 1 \<le> x" unfolding v assms(2) by simp
    then have "of_int (k + 1) \<le> (of_int x :: rat)" by (simp only: of_int_le_iff)
    then have "t * 10 ^ p + 1 \<le> v * 10 ^ p" using v assms(2) by simp
    then show "t + 1 / 10 ^ p \<le> v" by (simp add: field_simps) }
qed

lemma round_decimal_close:
  assumes "v = of_int x / 10 ^ p" "x \<noteq> 0" "bitLen x \<le> P"
  shows "\<bar>round_bits P v - v\<bar> < 1 / 10 ^ p"
proof -
  have "(2::int) ^ bitLen x \<le> 2 ^ P" using assms(3) by (intro power_increasing) auto
  then have "\<bar>x\<bar> < 2 ^ P" using bitLen_bounds [OF assms(2)] by linarith
  then have "of_int \<bar>x\<bar> < (of_int (2 ^ P) :: rat)" by (simp only: of_int_less_iff)
  then have "\<bar>v\<bar> * 2 powi (- int P) < 1 / 10 ^ p" by (simp add: assms(1) abs_divide power_int_minus field_simps)
  then show ?thesis using round_relative [of P v] by linarith
qed

lemma rnd0_unique: "0 \<le> w \<Longrightarrow> of_int c - 1 / 2 \<le> w \<Longrightarrow> w < of_int c + 1 / 2 \<Longrightarrow> rnd 0 w = c"
    "w < 0 \<Longrightarrow> of_int c - 1 < w \<Longrightarrow> w \<le> of_int c \<Longrightarrow> rnd 0 w = c"
  by (auto simp: rnd_def floor_eq_iff ceiling_eq_iff)

lemma half_has_bits:
  assumes "v = of_int x / 10 ^ p" "2 * v = of_int m" "0 < p" "bitLen x \<le> P"
  shows "has_bits P v"
proof -
  have "(10::rat) ^ 1 \<le> 10 ^ p" using assms(3) by (intro power_increasing) auto
  then have "\<bar>of_int x\<bar> * 2 \<le> \<bar>of_int x\<bar> * (10 :: rat) ^ p" by (intro mult_left_mono) auto
  then have "\<bar>2 * v\<bar> \<le> of_int \<bar>x\<bar>" by (simp add: assms(1) abs_mult abs_divide field_simps)
  then have m: "\<bar>m\<bar> \<le> \<bar>x\<bar>" unfolding assms(2) by (simp flip: of_int_abs)
  have "(2::int) ^ bitLen x \<le> 2 ^ P" using assms(4) by (intro power_increasing) auto
  then have "\<bar>m\<bar> \<le> 2 ^ P" using m bitLen_bounds [of x] by (cases "x = 0") (simp, linarith)
  then show ?thesis unfolding has_bits_def using assms(2) by (intro exI [of _ m] exI [of _ "-1"]) (simp add: power_int_minus)
qed

lemma rnd_round_bits:
  assumes v: "v = of_int x / 10 ^ p" and bits: "bitLen x \<le> P" "0 < P"
  shows "rnd 0 (round_bits P v) = rnd 0 v"
proof (cases "x = 0 \<or> p = 0")
  case True
  then have "has_bits P v" using int_has_bits [OF bits(1)] int_has_bits [of 0 P] v by (auto simp: bitLen_def floorlog_def)
  then show ?thesis using round_exact bits(2) by simp
next
  case False
  let ?w = "round_bits P v" and ?u = "1 / 10 ^ p :: rat"
  have close: "\<bar>?w - v\<bar> < ?u" using round_decimal_close [OF v] False bits(1) by simp
  have exact: "?w = v" if "2 * v = of_int m" for m using half_has_bits [OF v that] round_exact False bits by auto
  obtain h where h: "(10::int) ^ p = 2 * h" using False by (metis even_pow10 evenE neq0_conv)
  then have h': "(10::rat) ^ p = 2 * of_int h" by (metis of_int_mult of_int_numeral of_int_power)
  have grid: "of_int c * (10::rat) ^ p = of_int (c * 10 ^ p)" "(of_int c + 1 / 2) * (10::rat) ^ p = of_int ((2 * c + 1) * h)"
    "(of_int c - 1 / 2) * (10::rat) ^ p = of_int ((2 * c - 1) * h)" for c using h' by (simp_all add: algebra_simps)
  define c where "c = rnd 0 v"
  show ?thesis
  proof (cases "0 \<le> v")
    case True
    have ceq: "\<lfloor>v + 1 / 2\<rfloor> = c" using True by (simp add: c_def rnd_def)
    have "of_int c \<le> v + 1 / 2" using of_int_floor_le [of "v + 1 / 2"] unfolding ceq .
    moreover have "v + 1 / 2 < of_int c + 1" using floor_correct [of "v + 1 / 2", THEN conjunct2] unfolding ceq by (simp only: of_int_add of_int_1)
    ultimately have c: "of_int c - 1 / 2 \<le> v" "v < of_int c + 1 / 2" by simp_all
    have "v \<noteq> 0" using False v by simp
    then have "0 < v" using True by simp
    then have "?u \<le> v" using grid_gap(2) [OF v, of 0 0] by simp
    then have "0 \<le> ?w" using close by linarith
    moreover have "?w < of_int c + 1 / 2" using grid_gap(1) [OF v grid(2) c(2)] close by linarith
    moreover have "of_int c - 1 / 2 \<le> ?w"
    proof (cases "v = of_int c - 1 / 2")
      case True
      then show ?thesis using exact [of "2 * c - 1"] by simp
    next
      case False
      then show ?thesis using grid_gap(2) [OF v grid(3), of c] c(1) close by linarith
    qed
    ultimately show ?thesis using rnd0_unique(1) by (simp add: c_def)
  next
    case neg: False
    have c: "of_int c - 1 < v" "v \<le> of_int c" using neg ceiling_correct [of v] by (auto simp: c_def rnd_def)
    have "v \<le> - ?u" using grid_gap(1) [OF v, of 0 0] neg by simp
    then have "?w < 0" using close by linarith
    moreover have "of_int c - 1 < ?w" using grid_gap(2) [OF v, of "of_int (c - 1)" "(c - 1) * 10 ^ p"] grid(1) [of "c - 1"] c(1) close by simp
    moreover have "?w \<le> of_int c"
    proof (cases "v = of_int c")
      case True
      then show ?thesis using exact [of "2 * c"] by simp
    next
      case False
      then show ?thesis using grid_gap(1) [OF v grid(1), of c] c(2) close by linarith
    qed
    ultimately show ?thesis using rnd0_unique(2) by (simp add: c_def)
  qed
qed

lemma bigFloatToBigInt_rnd: "fst (bigFloatToBigInt v) = rnd 0 v"
  using bigFloatToBigInt_rounds_and_overwrites [of v] by (simp add: FloatNumber_BigInt_def)

lemma Fix_BigFloat_value:
  "Fix_BigFloat a = Ret (bf_round (max (max (bitLen (fix_x a)) 64) (max (bitLen (10 ^ fix_p a)) 64)) (fix_val a))"
  by (simp add: Fix_BigFloat_def bf_Quo_def bf_SetInt_def pow10_def fix_val_def Let_def)

lemma Fix_BigInt_rnd: "Fix_BigInt a = Ret (rnd 0 (fix_val a))"
  unfolding Fix_BigInt_def Fix_BigFloat_value
  by (simp add: bigFloat_BigInt_def bf_round_def bigFloatToBigInt_rnd split_beta) (rule rnd_round_bits [OF fix_val_def], auto)

text \<open>The value of a finite binary float.\<close>

definition bf_finite :: "bigFloat \<Rightarrow> rat \<Rightarrow> bool" where
  "bf_finite x a \<longleftrightarrow> bf_val x = Finite a"

text \<open>A float is the result of rounding a value to \<open>p\<close> bits: no other float of that precision is closer.\<close>

definition nearest_float :: "nat \<Rightarrow> rat \<Rightarrow> FloatNumber go \<Rightarrow> bool" where
  "nearest_float p r z \<longleftrightarrow> (\<exists>c. z = Ret \<lparr>fn_x = \<lparr>bf_prec = p, bf_val = Finite c\<rparr>\<rparr> \<and> has_bits p c \<and> (\<forall>d. has_bits p d \<longrightarrow> \<bar>c - r\<bar> \<le> \<bar>d - r\<bar>) \<and> \<bar>c - r\<bar> \<le> \<bar>r\<bar> * 2 powi (- int p))"

lemma nearest_float_round: "0 < p \<Longrightarrow> nearest_float p r (Ret \<lparr>fn_x = bf_round p r\<rparr>)"
  using round_best round_has_bits round_relative by (auto simp: nearest_float_def bf_round_def)

subsection \<open>Limits\<close>

text \<open>A text is read with 64 bits, so an integer of more bits cannot be read exactly, and an infinity panics.\<close>

lemma large_floats_even:
  assumes "has_bits 64 a" "2 ^ 65 \<le> a"
  shows "\<exists>i. a = of_int (2 * i)"
proof -
  obtain m e where m: "\<bar>m\<bar> \<le> 2 ^ 64" "a = of_int m * 2 powi e" using assms(1) by (auto simp: has_bits_def)
  have "0 < e"
  proof (rule ccontr)
    assume "\<not> 0 < e"
    then have "(2::rat) powi e \<le> 2 powi 0" by (simp only: two_powi_le_iff)
    moreover have "of_int m \<le> (of_int (2 ^ 64) :: rat)" using m(1) by (simp only: of_int_le_iff)
    ultimately have "of_int m * 2 powi e \<le> (of_int (2 ^ 64) :: rat) * 1" by (intro mult_mono) auto
    then show False using m(2) assms(2) by simp
  qed
  then have "nat e = Suc (nat (e - 1))" by linarith
  then have "(2::rat) powi e = 2 * of_int (2 ^ nat (e - 1))" using \<open>0 < e\<close> by (simp add: power_int_def)
  then have "a = of_int (2 * (m * 2 ^ nat (e - 1)))" using m(2) by simp
  then show ?thesis by blast
qed

lemma long_text_not_exact:
  assumes "t_FloatSetString T s = Some f" "bf_prec f = 64" "bf_val f = Finite a" "has_bits 64 a"
  shows "convertStringToDecFixedPoint T s 0 \<noteq> Ret (Some \<lparr>fix_p = 0, fix_x = 2 ^ 65 + 1\<rparr>)"
proof
  assume "convertStringToDecFixedPoint T s 0 = Ret (Some \<lparr>fix_p = 0, fix_x = 2 ^ 65 + 1\<rparr>)"
  moreover have "bitLen 1 \<le> 64" by (simp add: bitLen_def floorlog_def)
  ultimately have rnd: "rnd 0 a = 2 ^ 65 + 1"
    using assms round_exact [of 64 a]
    by (simp add: convertStringToDecFixedPoint_def scaled_float_def bf_Mul_def bf_SetInt_def pow10_def bigFloat_BigInt_def bf_round_def bigFloatToBigInt_rnd max_def split_beta)
  have "0 \<le> a"
  proof (rule ccontr)
    assume "\<not> 0 \<le> a"
    then have "rnd 0 a \<le> 0" by (simp add: rnd_def ceiling_le_iff)
    then show False using rnd by simp
  qed
  then have "\<lfloor>a + 1 / 2\<rfloor> = 2 ^ 65 + 1" using rnd by (simp add: rnd_def)
  then have "of_int (2 ^ 65 + 1) \<le> a + 1 / 2" using of_int_floor_le [of "a + 1 / 2"] by simp
  then have "2 ^ 65 \<le> a" by simp
  then obtain i where "a = of_int (2 * i)" using large_floats_even assms(4) by blast
  then have "rnd 0 a = 2 * i" by (intro rnd_int) simp
  then have "even (2 ^ 65 + 1 :: int)" using rnd by (metis dvd_triv_left)
  then show False by simp
qed

lemma infinity_text_panics:
  assumes "t_FloatSetString T s = Some f" "bf_val f = Inf neg"
  shows "DecFixedPoint_from T (AnyString s) n = Panic ''nil pointer dereference''"
  using assms by (simp add: convertStringToDecFixedPoint_def scaled_float_def bf_Mul_def bf_SetInt_def pow10_def bigFloat_BigInt_def)

subsection \<open>Properties\<close>

text \<open>
  C24: The integer of a decimal fixed-point number is its value rounded, half up for positive numbers and towards zero for
  negative ones, although it is computed with a binary float that does not hold the value exactly: the precision of the
  float is always enough.
\<close>

theorem Fix_BigInt_exact: "Fix_Int a = Ret \<lparr>int_x = rnd 0 (fix_val a)\<rparr>"
  by (simp add: Fix_Int_def convertDecFixedPointToInt_def Fix_BigInt_rnd)


definition float_one :: FloatNumber where
  "float_one = \<lparr>fn_x = \<lparr>bf_prec = 53, bf_val = Finite 1\<rparr>\<rparr>"

definition float_three :: FloatNumber where
  "float_three = \<lparr>fn_x = \<lparr>bf_prec = 64, bf_val = Finite 3\<rparr>\<rparr>"


end
