(* ===== verification/Interpolate.thy ===== *)
theory Interpolate
  imports Go_Prelude
begin

text \<open>
  Package \<open>interpolate\<close> (\<open>src/interpolate/interpolate.go\<close>): the parser of strings with
  variables \<open>${NAME-default}\<close> or \<open>%{NAME-default}\<close> and their interpolation.

  The \<open>parser\<close> record keeps the unread input \<open>in[pos:]\<close> instead of the pair of \<open>in\<close> and
  \<open>pos\<close>: advancing is dropping, and restoring a saved \<open>pos\<close> is restoring the unread input
  of that moment. Both parsers of the source share the tokens \<open>\\\<close>, \<open>}\<close> and \<open>-\<close>; they
  differ in the first character \<open>c\<close> of the two-character token that opens a variable.
  \<open>varBuf\<close> and \<open>defBuf\<close> are reset when a variable starts and read only until it ends, so
  they are arguments of the loops. The \<open>for\<close> loops are functions that terminate because
  the unread input shrinks.
\<close>

record Variable =
  var_Name :: string
  var_Default :: string
  var_HasDefault :: bool

datatype part = Lit string | Var Variable

type_synonym Parsed = "part list"

record parser =
  ps_in :: string
  ps_out :: Parsed
  ps_lit :: string
  ps_c :: char

definition tokenBackslash :: char where "tokenBackslash = CHR 0x5C"
definition tokenVarEnd :: char where "tokenVarEnd = CHR ''}''"
definition tokenDefaultVal :: char where "tokenDefaultVal = CHR ''-''"
definition tokenVarOpen :: char where "tokenVarOpen = CHR ''{''"

subsection \<open>Definitions\<close>

text \<open>At least one byte, then up to the first of the given ones; never called at the end of input.\<close>

definition nextBytesUntilAnyOf :: "char list \<Rightarrow> string \<Rightarrow> string \<times> string" where
  "nextBytesUntilAnyOf cs r = (case r of
       [] \<Rightarrow> ([], [])
     | x # xs \<Rightarrow> (x # takeWhile (\<lambda>y. y \<notin> set cs) xs, dropWhile (\<lambda>y. y \<notin> set cs) xs))"

lemma nextBytes_shrinks:
  "r \<noteq> [] \<Longrightarrow> length (snd (nextBytesUntilAnyOf cs r)) < length r"
  by (cases r) (auto simp: nextBytesUntilAnyOf_def less_Suc_eq_le intro: length_dropWhile_le)

function parseDefault :: "string \<Rightarrow> string \<Rightarrow> string \<times> string" where
  "parseDefault defBuf r =
     (if r = [] then (defBuf, r)
      else if hd r = tokenBackslash then
        (if tl r = [] then parseDefault defBuf (tl r)
         else parseDefault (defBuf @ [hd (tl r)]) (tl (tl r)))
      else if hd r = tokenVarEnd then (defBuf, r)
      else parseDefault (defBuf @ fst (nextBytesUntilAnyOf [tokenVarEnd, tokenBackslash] r))
             (snd (nextBytesUntilAnyOf [tokenVarEnd, tokenBackslash] r)))"
  by pat_completeness auto
termination
  by (relation "measure (\<lambda>(d, r). length r)") (auto simp: nextBytes_shrinks)

declare parseDefault.simps [simp del]

lemma parseDefault_shrinks: "length (snd (parseDefault d r)) \<le> length r"
proof (induction d r rule: parseDefault.induct)
  case (1 d r)
  let ?n = "nextBytesUntilAnyOf [tokenVarEnd, tokenBackslash] r"
  have n: "r \<noteq> [] \<Longrightarrow> length (snd ?n) < length r" by (rule nextBytes_shrinks)
  have t: "length (tl (tl r)) \<le> length r" "length (tl r) \<le> length r" by simp_all
  consider (nil) "r = [] \<or> hd r \<noteq> tokenBackslash \<and> hd r = tokenVarEnd"
    | (bs1) "r \<noteq> []" "hd r = tokenBackslash" "tl r = []"
    | (bs2) "r \<noteq> []" "hd r = tokenBackslash" "tl r \<noteq> []"
    | (ch) "r \<noteq> []" "hd r \<noteq> tokenBackslash" "hd r \<noteq> tokenVarEnd"
    by blast
  then show ?case
  proof cases
    case nil
    then show ?thesis by (auto simp: parseDefault.simps [of d r])
  next
    case bs1
    with "1.IH"(1) t show ?thesis by (simp add: parseDefault.simps [of d r])
  next
    case bs2
    with "1.IH"(2) t show ?thesis by (simp add: parseDefault.simps [of d r])
  next
    case ch
    with "1.IH"(3) n show ?thesis by (simp add: parseDefault.simps [of d r])
  qed
qed

text \<open>
  The loop of \<open>parseVariable\<close>: the parsed variable and the unread input after it, or
  \<open>None\<close> when the input ends before the closing token.
\<close>

function parseVariable_loop :: "string \<Rightarrow> string \<Rightarrow> bool \<Rightarrow> string \<Rightarrow> (Variable \<times> string) option" where
  "parseVariable_loop varBuf defBuf def r =
     (if r = [] then None
      else if hd r = tokenBackslash then
        (if tl r = [] then parseVariable_loop varBuf defBuf def (tl r)
         else parseVariable_loop (varBuf @ [hd (tl r)]) defBuf def (tl (tl r)))
      else if hd r = tokenDefaultVal then
        parseVariable_loop varBuf (fst (parseDefault defBuf (tl r))) True (snd (parseDefault defBuf (tl r)))
      else if hd r = tokenVarEnd then
        Some (\<lparr>var_Name = varBuf, var_Default = defBuf, var_HasDefault = def\<rparr>, tl r)
      else
        parseVariable_loop
          (varBuf @ fst (nextBytesUntilAnyOf [tokenVarEnd, tokenDefaultVal, tokenBackslash] r)) defBuf def
          (snd (nextBytesUntilAnyOf [tokenVarEnd, tokenDefaultVal, tokenBackslash] r)))"
  by pat_completeness auto
termination
  by (relation "measure (\<lambda>(v, d, b, r). length r)")
    (auto simp: nextBytes_shrinks intro: le_less_trans [OF parseDefault_shrinks])

declare parseVariable_loop.simps [simp del]

lemma parseVariable_loop_shrinks:
  "parseVariable_loop v d b r = Some (var, r') \<Longrightarrow> length r' < length r"
proof (induction v d b r rule: parseVariable_loop.induct)
  case (1 v d b r)
  let ?n = "nextBytesUntilAnyOf [tokenVarEnd, tokenDefaultVal, tokenBackslash] r"
  have n: "r \<noteq> [] \<Longrightarrow> length (snd ?n) < length r" by (rule nextBytes_shrinks)
  have d: "length (snd (parseDefault d (tl r))) \<le> length (tl r)" by (rule parseDefault_shrinks)
  have t: "length (tl (tl r)) \<le> length (tl r)" "r \<noteq> [] \<Longrightarrow> length (tl r) < length r"
    by (simp_all add: diff_le_mono)
  note p = "1.prems" [unfolded parseVariable_loop.simps [of v d b r]]
  show ?case
  proof (cases "r = []")
    case False
    consider (bs1) "hd r = tokenBackslash" "tl r = []" | (bs2) "hd r = tokenBackslash" "tl r \<noteq> []"
      | (df) "hd r \<noteq> tokenBackslash" "hd r = tokenDefaultVal"
      | (en) "hd r \<noteq> tokenBackslash" "hd r \<noteq> tokenDefaultVal" "hd r = tokenVarEnd"
      | (ch) "hd r \<noteq> tokenBackslash" "hd r \<noteq> tokenDefaultVal" "hd r \<noteq> tokenVarEnd"
      by blast
    then show ?thesis
    proof cases
      case bs1
      with p False "1.IH"(1) t show ?thesis by simp
    next
      case bs2
      with p False "1.IH"(2) have "length r' < length (tl (tl r))" by simp
      with t False show ?thesis by linarith
    next
      case df
      with p False "1.IH"(3) have "length r' < length (snd (parseDefault d (tl r)))" by simp
      with d t False show ?thesis by linarith
    next
      case en
      with p False t show ?thesis by auto
    next
      case ch
      with p False "1.IH"(4) have "length r' < length (snd ?n)" by simp
      with n False show ?thesis by linarith
    qed
  qed (use p in simp)
qed

definition appendBuffer :: "parser \<Rightarrow> parser" where
  "appendBuffer p =
     (if 0 < length (ps_lit p) then p\<lparr>ps_out := ps_out p @ [Lit (ps_lit p)], ps_lit := []\<rparr> else p)"

definition appendLiteral :: "string \<Rightarrow> parser \<Rightarrow> parser" where
  "appendLiteral s p = p\<lparr>ps_lit := ps_lit p @ s\<rparr>"

definition appendByte :: "char \<Rightarrow> parser \<Rightarrow> parser" where
  "appendByte b p = p\<lparr>ps_lit := ps_lit p @ [b]\<rparr>"

definition appendVariable :: "Variable \<Rightarrow> parser \<Rightarrow> parser" where
  "appendVariable v p = (let q = appendBuffer p in q\<lparr>ps_out := ps_out q @ [Var v]\<rparr>)"

text \<open>Called after the backslash has been read.\<close>

definition parseBackslash :: "parser \<Rightarrow> parser" where
  "parseBackslash p = (case ps_in p of
       [] \<Rightarrow> appendLiteral [tokenBackslash] p
     | b # r \<Rightarrow> appendByte b (p\<lparr>ps_in := r\<rparr>))"

text \<open>
  Called after the opening token has been read; an unclosed variable becomes the literal
  opening token, and reading resumes right after that token.
\<close>

definition parseVariable :: "parser \<Rightarrow> parser" where
  "parseVariable p = (case parseVariable_loop [] [] False (ps_in p) of
       Some (v, r) \<Rightarrow> appendVariable v (p\<lparr>ps_in := r\<rparr>)
     | None \<Rightarrow> appendLiteral [ps_c p, tokenVarOpen] p)"

lemma parseBackslash_in: "ps_in (parseBackslash p) = tl (ps_in p)"
  by (simp add: parseBackslash_def appendLiteral_def appendByte_def split: list.splits)

lemma ps_in_appendVariable [simp]: "ps_in (appendVariable v p) = ps_in p"
  by (simp add: appendVariable_def appendBuffer_def Let_def)

lemma parseVariable_in: "length (ps_in (parseVariable p)) \<le> length (ps_in p)"
  by (auto simp: parseVariable_def appendLiteral_def dest!: parseVariable_loop_shrinks split: option.splits)

function parse_loop :: "parser \<Rightarrow> parser" where
  "parse_loop p =
     (if ps_in p = [] then p
      else if hd (ps_in p) = tokenBackslash then parse_loop (parseBackslash (p\<lparr>ps_in := tl (ps_in p)\<rparr>))
      else if HasPrefix (ps_in p) [ps_c p, tokenVarOpen] then
        parse_loop (parseVariable (p\<lparr>ps_in := drop 2 (ps_in p)\<rparr>))
      else
        parse_loop (appendLiteral (fst (nextBytesUntilAnyOf [ps_c p, tokenBackslash] (ps_in p)))
          (p\<lparr>ps_in := snd (nextBytesUntilAnyOf [ps_c p, tokenBackslash] (ps_in p))\<rparr>)))"
  by pat_completeness auto
termination
proof (relation "measure (\<lambda>p. length (ps_in p))")
  fix p :: parser
  assume ne: "ps_in p \<noteq> []"
  show "(parseBackslash (p\<lparr>ps_in := tl (ps_in p)\<rparr>), p) \<in> measure (\<lambda>p. length (ps_in p))"
    using ne by (cases "ps_in p") (simp_all add: parseBackslash_in less_Suc_eq_le)
  show "(parseVariable (p\<lparr>ps_in := drop 2 (ps_in p)\<rparr>), p) \<in> measure (\<lambda>p. length (ps_in p))"
    using parseVariable_in [of "p\<lparr>ps_in := drop 2 (ps_in p)\<rparr>"] ne
    by (cases "ps_in p") auto
  show "(appendLiteral (fst (nextBytesUntilAnyOf [ps_c p, tokenBackslash] (ps_in p)))
          (p\<lparr>ps_in := snd (nextBytesUntilAnyOf [ps_c p, tokenBackslash] (ps_in p))\<rparr>), p)
        \<in> measure (\<lambda>p. length (ps_in p))"
    using nextBytes_shrinks [OF ne] by (simp add: appendLiteral_def)
qed simp

declare parse_loop.simps [simp del]

definition parse :: "parser \<Rightarrow> parser" where
  "parse p = appendBuffer (parse_loop p)"

definition dollarParser :: "string \<Rightarrow> parser" where
  "dollarParser s = \<lparr>ps_in = s, ps_out = [], ps_lit = [], ps_c = CHR ''$''\<rparr>"

definition percentParser :: "string \<Rightarrow> parser" where
  "percentParser s = \<lparr>ps_in = s, ps_out = [], ps_lit = [], ps_c = CHR ''%''\<rparr>"

definition Parse :: "string \<Rightarrow> Parsed" where
  "Parse s = ps_out (parse (dollarParser s))"

definition ParsePercent :: "string \<Rightarrow> Parsed" where
  "ParsePercent s = ps_out (parse (percentParser s))"

fun Interpolate_text :: "Parsed \<Rightarrow> (Variable \<Rightarrow> string) \<Rightarrow> string" where
  "Interpolate_text [] mapping = []"
| "Interpolate_text (Lit l # s) mapping = l @ Interpolate_text s mapping"
| "Interpolate_text (Var v # s) mapping = mapping v @ Interpolate_text s mapping"

fun HasVars :: "Parsed \<Rightarrow> bool" where
  "HasVars [] = False"
| "HasVars (Var v # s) = True"
| "HasVars (Lit l # s) = HasVars s"

subsection \<open>The parser one character at a time\<close>

lemmas tokens = tokenBackslash_def tokenVarEnd_def tokenDefaultVal_def tokenVarOpen_def

lemma tokens_distinct [simp]:
  "tokenBackslash \<noteq> tokenVarEnd" "tokenBackslash \<noteq> tokenDefaultVal" "tokenDefaultVal \<noteq> tokenVarEnd"
  "tokenVarEnd \<noteq> tokenBackslash" "tokenDefaultVal \<noteq> tokenBackslash" "tokenVarEnd \<noteq> tokenDefaultVal"
  "tokenVarOpen \<noteq> tokenBackslash" "tokenBackslash \<noteq> tokenVarOpen"
  by (simp_all add: tokens)

text \<open>Reading in chunks gives the same as reading byte by byte.\<close>

lemma parseDefault_Nil [simp]: "parseDefault d [] = (d, [])"
  by (simp add: parseDefault.simps)

lemma parseDefault_end [simp]: "parseDefault d (tokenVarEnd # r) = (d, tokenVarEnd # r)"
  by (simp add: parseDefault.simps)

lemma parseDefault_escape [simp]:
  "parseDefault d (tokenBackslash # x # r) = parseDefault (d @ [x]) r"
  "parseDefault d [tokenBackslash] = (d, [])"
  by (simp_all add: parseDefault.simps [of d])

lemma parseDefault_char [simp]:
  "x \<noteq> tokenBackslash \<Longrightarrow> x \<noteq> tokenVarEnd \<Longrightarrow> parseDefault d (x # r) = parseDefault (d @ [x]) r"
proof (induction r arbitrary: x d)
  case Nil
  then show ?case by (simp add: parseDefault.simps [of d] nextBytesUntilAnyOf_def)
next
  case (Cons y r)
  show ?case
  proof (cases "y = tokenBackslash \<or> y = tokenVarEnd")
    case True
    with Cons.prems show ?thesis by (auto simp: parseDefault.simps [of d] nextBytesUntilAnyOf_def)
  next
    case False
    with Cons.IH [of y "d @ [x]"] have "parseDefault (d @ [x]) (y # r) = parseDefault (d @ [x] @ [y]) r" by simp
    with Cons.prems False show ?thesis
      by (simp add: parseDefault.simps [of d "x # y # r"] parseDefault.simps [of "d @ [x]" "y # r"]
          nextBytesUntilAnyOf_def)
  qed
qed

lemma parseVariable_Nil [simp]: "parseVariable_loop v d b [] = None"
  by (simp add: parseVariable_loop.simps)

lemma parseVariable_end [simp]:
  "parseVariable_loop v d b (tokenVarEnd # r) =
     Some (\<lparr>var_Name = v, var_Default = d, var_HasDefault = b\<rparr>, r)"
  by (simp add: parseVariable_loop.simps)

lemma parseVariable_default [simp]:
  "parseVariable_loop v d b (tokenDefaultVal # r) =
     parseVariable_loop v (fst (parseDefault d r)) True (snd (parseDefault d r))"
  by (simp add: parseVariable_loop.simps [of v d])

lemma parseVariable_escape [simp]:
  "parseVariable_loop v d b (tokenBackslash # x # r) = parseVariable_loop (v @ [x]) d b r"
  "parseVariable_loop v d b [tokenBackslash] = None"
  by (simp_all add: parseVariable_loop.simps [of v d])

lemma parseVariable_char [simp]:
  "x \<noteq> tokenBackslash \<Longrightarrow> x \<noteq> tokenVarEnd \<Longrightarrow> x \<noteq> tokenDefaultVal \<Longrightarrow>
   parseVariable_loop v d b (x # r) = parseVariable_loop (v @ [x]) d b r"
proof (induction r arbitrary: x v)
  case Nil
  then show ?case by (simp add: parseVariable_loop.simps [of v d] nextBytesUntilAnyOf_def)
next
  case (Cons y r)
  show ?case
  proof (cases "y = tokenBackslash \<or> y = tokenVarEnd \<or> y = tokenDefaultVal")
    case True
    with Cons.prems show ?thesis
      by (auto simp: parseVariable_loop.simps [of v d b "x # y # r"] nextBytesUntilAnyOf_def)
  next
    case False
    with Cons.prems show ?thesis
      by (simp add: parseVariable_loop.simps [of v d b "x # y # r"]
          parseVariable_loop.simps [of "v @ [x]" d b "y # r"] nextBytesUntilAnyOf_def)
  qed
qed

abbreviation run :: "char \<Rightarrow> Parsed \<Rightarrow> string \<Rightarrow> string \<Rightarrow> parser" where
  "run c out lit r \<equiv> parse_loop \<lparr>ps_in = r, ps_out = out, ps_lit = lit, ps_c = c\<rparr>"

lemma run_Nil [simp]: "run c out lit [] = \<lparr>ps_in = [], ps_out = out, ps_lit = lit, ps_c = c\<rparr>"
  by (simp add: parse_loop.simps)

lemma run_escape [simp]:
  "run c out lit (tokenBackslash # x # r) = run c out (lit @ [x]) r"
  "run c out lit [tokenBackslash] = run c out (lit @ [tokenBackslash]) []"
  by (simp_all add: parse_loop.simps [of "\<lparr>ps_in = tokenBackslash # _, ps_out = out, ps_lit = lit, ps_c = c\<rparr>"]
      parseBackslash_def appendByte_def appendLiteral_def)

lemma run_variable:
  assumes "c \<noteq> tokenBackslash"
  shows "run c out lit (c # tokenVarOpen # r) = (case parseVariable_loop [] [] False r of
      Some (v, r') \<Rightarrow> run c (out @ (if lit = [] then [] else [Lit lit]) @ [Var v]) [] r'
    | None \<Rightarrow> run c out (lit @ [c, tokenVarOpen]) r)"
  using assms
  by (simp add: parse_loop.simps [of "\<lparr>ps_in = c # _, ps_out = out, ps_lit = lit, ps_c = c\<rparr>"]
      HasPrefix_def parseVariable_def appendVariable_def appendBuffer_def appendLiteral_def Let_def
      split: option.splits)

lemma run_char:
  "x \<noteq> tokenBackslash \<Longrightarrow> \<not> HasPrefix (x # r) [c, tokenVarOpen] \<Longrightarrow>
   run c out lit (x # r) = run c out (lit @ [x]) r"
proof (induction r arbitrary: x lit)
  case Nil
  then show ?case
    by (simp add: parse_loop.simps [of "\<lparr>ps_in = [x], ps_out = out, ps_lit = lit, ps_c = c\<rparr>"]
        appendLiteral_def nextBytesUntilAnyOf_def)
next
  case (Cons y r)
  have "\<not> HasPrefix (x # y # r) [c, tokenVarOpen]" using Cons.prems by simp
  show ?case
  proof (cases "y = tokenBackslash \<or> y = c")
    case True
    with Cons.prems show ?thesis
      by (auto simp: parse_loop.simps [of "\<lparr>ps_in = x # y # r, ps_out = out, ps_lit = lit, ps_c = c\<rparr>"]
          appendLiteral_def nextBytesUntilAnyOf_def)
  next
    case False
    then have "\<not> HasPrefix (y # r) [c, tokenVarOpen]" by (simp add: HasPrefix_def)
    with Cons.prems False show ?thesis
      by (simp add: parse_loop.simps [of "\<lparr>ps_in = x # y # r, ps_out = out, ps_lit = lit, ps_c = c\<rparr>"]
          parse_loop.simps [of "\<lparr>ps_in = y # r, ps_out = out, ps_lit = lit @ [x], ps_c = c\<rparr>"]
          appendLiteral_def nextBytesUntilAnyOf_def)
  qed
qed

subsection \<open>The syntax: writing a parsed string back\<close>

text \<open>Escape every character of \<open>S\<close> with a backslash.\<close>

fun escape :: "char list \<Rightarrow> string \<Rightarrow> string" where
  "escape S [] = []"
| "escape S (x # s) = (if x \<in> set S then [tokenBackslash, x] else [x]) @ escape S s"

definition render_var :: "char \<Rightarrow> Variable \<Rightarrow> string" where
  "render_var c v =
     [c, tokenVarOpen] @ escape [tokenBackslash, tokenVarEnd, tokenDefaultVal] (var_Name v) @
     (if var_HasDefault v
      then tokenDefaultVal # escape [tokenBackslash, tokenVarEnd] (var_Default v) else []) @
     [tokenVarEnd]"

fun render :: "char \<Rightarrow> Parsed \<Rightarrow> string" where
  "render c [] = []"
| "render c (Lit l # ps) = escape [tokenBackslash, c] l @ render c ps"
| "render c (Var v # ps) = render_var c v @ render c ps"

text \<open>
  The shape of every parse result: no empty literal, no two literals in a row, and a
  variable without a default carries an empty one.
\<close>

fun parsed_ok :: "Parsed \<Rightarrow> bool" where
  "parsed_ok [] = True"
| "parsed_ok (Var v # ps) = ((\<not> var_HasDefault v \<longrightarrow> var_Default v = []) \<and> parsed_ok ps)"
| "parsed_ok (Lit l # ps) =
     (l \<noteq> [] \<and> (case ps of Lit _ # _ \<Rightarrow> False | _ \<Rightarrow> True) \<and> parsed_ok ps)"

lemma parseDefault_escaped:
  "parseDefault d (escape [tokenBackslash, tokenVarEnd] s @ r) = parseDefault (d @ s) r"
  by (induction s arbitrary: d) auto

lemma parseVariable_escaped:
  "parseVariable_loop v d b (escape [tokenBackslash, tokenVarEnd, tokenDefaultVal] s @ r) =
   parseVariable_loop (v @ s) d b r"
  by (induction s arbitrary: v) auto

lemma parseVariable_rendered:
  assumes "\<not> var_HasDefault v \<longrightarrow> var_Default v = []"
  shows "parseVariable_loop [] [] False (drop 2 (render_var c v) @ r) = Some (v, r)"
  using assms by (auto simp: render_var_def parseVariable_escaped parseDefault_escaped)

lemma parse_run: "ps_out (parse \<lparr>ps_in = s, ps_out = [], ps_lit = [], ps_c = c\<rparr>) =
    (let p = run c [] [] s in ps_out p @ (if ps_lit p = [] then [] else [Lit (ps_lit p)]))"
  by (simp add: parse_def appendBuffer_def Let_def)

definition flush :: "string \<Rightarrow> Parsed \<Rightarrow> Parsed" where
  "flush lit ps = (if lit = [] then ps else case ps of Lit l # qs \<Rightarrow> Lit (lit @ l) # qs | _ \<Rightarrow> Lit lit # ps)"

lemma parseDefault_no_end: "tokenVarEnd \<notin> set r \<Longrightarrow> snd (parseDefault d r) = []"
proof (induction "length r" arbitrary: r d rule: less_induct)
  case less
  then show ?case by (cases r; cases "hd r = tokenBackslash"; cases "tl r") auto
qed

text \<open>Without a closing token there is no variable.\<close>

lemma parseVariable_no_end: "tokenVarEnd \<notin> set r \<Longrightarrow> parseVariable_loop v d b r = None"
proof (induction "length r" arbitrary: r v rule: less_induct)
  case less
  show ?case
  proof (cases r)
    case (Cons x xs)
    consider "x = tokenBackslash" | "x = tokenDefaultVal"
      | "x \<noteq> tokenBackslash" "x \<noteq> tokenDefaultVal" "x \<noteq> tokenVarEnd"
      using less.prems Cons by auto
    then show ?thesis
    proof cases
      case 1
      with less Cons show ?thesis by (cases xs) auto
    next
      case 2
      with less Cons show ?thesis by (simp add: parseDefault_no_end)
    next
      case 3
      with less Cons show ?thesis by simp
    qed
  qed simp
qed

lemma parseVariable_keeps_default: "parseVariable_loop v d True r = Some (var, r') \<Longrightarrow> var_HasDefault var"
proof (induction "length r" arbitrary: r v d rule: less_induct)
  case less
  show ?case
  proof (cases r)
    case (Cons y ys)
    have "length (snd (parseDefault d ys)) \<le> length ys" by (rule parseDefault_shrinks)
    with less.prems Cons less.hyps [of "tl ys" "v @ [hd ys]" d]
      less.hyps [of "snd (parseDefault d ys)" v "fst (parseDefault d ys)"] less.hyps [of ys "v @ [y]" d]
    show ?thesis
      by (cases "y = tokenBackslash"; cases "y = tokenDefaultVal"; cases "y = tokenVarEnd"; cases ys) auto
  qed (use less in simp)
qed

lemma parseVariable_default_ok:
  "parseVariable_loop v [] False r = Some (var, r') \<Longrightarrow> \<not> var_HasDefault var \<longrightarrow> var_Default var = []"
proof (induction "length r" arbitrary: r v rule: less_induct)
  case less
  show ?case
  proof (cases r)
    case (Cons x xs)
    consider "x = tokenBackslash" | "x = tokenDefaultVal" | "x = tokenVarEnd"
      | "x \<noteq> tokenBackslash" "x \<noteq> tokenDefaultVal" "x \<noteq> tokenVarEnd" by blast
    then show ?thesis
    proof cases
      case 1
      with less.hyps [of "tl xs" "v @ [hd xs]"] less.prems Cons show ?thesis by (cases xs) auto
    next
      case 2
      with less.prems Cons parseVariable_keeps_default show ?thesis by auto
    next
      case 3
      with less.prems Cons show ?thesis by auto
    next
      case 4
      with less.hyps [of xs "v @ [x]"] less.prems Cons show ?thesis by simp
    qed
  qed (use less in simp)
qed

definition ends_var :: "Parsed \<Rightarrow> bool" where
  "ends_var ps \<longleftrightarrow> ps = [] \<or> (case last ps of Lit _ \<Rightarrow> False | Var _ \<Rightarrow> True)"

lemma ends_var_simps [simp]: "ends_var []" "ends_var (ps @ [Var v])"
  by (simp_all add: ends_var_def)

lemma parsed_ok_Var: "parsed_ok (ps @ [Var v]) \<longleftrightarrow> parsed_ok ps \<and> (\<not> var_HasDefault v \<longrightarrow> var_Default v = [])"
  by (induction ps rule: parsed_ok.induct) (auto split: list.splits part.splits)

lemma parsed_ok_Lit: "ends_var ps \<Longrightarrow> parsed_ok (ps @ [Lit l]) \<longleftrightarrow> parsed_ok ps \<and> l \<noteq> []"
proof (induction ps)
  case (Cons p ps)
  show ?case
  proof (cases ps)
    case Nil
    with Cons.prems show ?thesis by (cases p) (auto simp: ends_var_def)
  next
    case (Cons q qs)
    with Cons.prems have "ends_var ps" by (simp add: ends_var_def)
    from Cons.IH [OF this] Cons show ?thesis by (cases p; cases q) auto
  qed
qed simp

lemma parsed_ok_snoc:
  "ends_var ps \<Longrightarrow> parsed_ok (ps @ (if l = [] then [] else [Lit l])) = parsed_ok ps"
  "ends_var ps \<Longrightarrow> parsed_ok (ps @ (if l = [] then [] else [Lit l]) @ [Var v]) \<longleftrightarrow>
     parsed_ok ps \<and> (\<not> var_HasDefault v \<longrightarrow> var_Default v = [])"
  using parsed_ok_Var [of "ps @ [Lit l]" v] by (auto simp: parsed_ok_Lit parsed_ok_Var)

text \<open>Facts that hold for any opening character other than the backslash.\<close>

locale interp_syntax =
  fixes c :: char
  assumes open_not_backslash: "c \<noteq> tokenBackslash"
begin

lemma run_escaped: "run c out lit (escape [tokenBackslash, c] s @ r) = run c out (lit @ s) r"
  using open_not_backslash
  by (induction s arbitrary: lit) (auto simp: run_char HasPrefix_def)

lemma run_rendered_var:
  assumes "\<not> var_HasDefault v \<longrightarrow> var_Default v = []"
  shows "run c out lit (render_var c v @ r) =
    run c (out @ (if lit = [] then [] else [Lit lit]) @ [Var v]) [] r"
proof -
  have e: "render_var c v @ r = c # tokenVarOpen # (drop 2 (render_var c v) @ r)"
    by (simp add: render_var_def)
  show ?thesis
    by (subst e) (simp add: run_variable open_not_backslash parseVariable_rendered [OF assms])
qed

lemma run_render:
  "parsed_ok ps \<Longrightarrow>
   (let p = run c out lit (render c ps) in ps_out p @ (if ps_lit p = [] then [] else [Lit (ps_lit p)])) =
   out @ flush lit ps"
proof (induction ps arbitrary: out lit rule: parsed_ok.induct)
  case 1
  then show ?case by (simp add: flush_def)
next
  case (2 v ps)
  then show ?case
    using "2.IH" [of "out @ (if lit = [] then [] else [Lit lit]) @ [Var v]" "[]"]
    by (simp add: run_rendered_var flush_def Let_def)
next
  case (3 l ps)
  then have "flush (lit @ l) ps = flush lit (Lit l # ps)"
    by (auto simp: flush_def split: list.splits part.splits)
  with 3 "3.IH" [of out "lit @ l"] show ?case by (simp add: run_escaped)
qed

lemma parse_render:
  "parsed_ok ps \<Longrightarrow> ps_out (parse \<lparr>ps_in = render c ps, ps_out = [], ps_lit = [], ps_c = c\<rparr>) = ps"
  using run_render [of ps "[]" "[]"] by (simp add: parse_run flush_def)

lemma run_no_end:
  "tokenVarEnd \<notin> set s \<Longrightarrow> ps_out (run c out lit s) = out"
proof (induction "length s" arbitrary: s lit rule: less_induct)
  case less
  show ?case
  proof (cases s)
    case (Cons x xs)
    consider "x = tokenBackslash" | r where "x \<noteq> tokenBackslash" "xs = tokenVarOpen # r" "x = c"
      | "x \<noteq> tokenBackslash" "\<not> HasPrefix (x # xs) [c, tokenVarOpen]"
      by (cases xs) (auto simp: HasPrefix_def)
    then show ?thesis
    proof cases
      case 1
      with less Cons show ?thesis by (cases xs) auto
    next
      case 2
      with less Cons show ?thesis by (simp add: run_variable parseVariable_no_end)
    next
      case 3
      with less Cons show ?thesis by (simp add: run_char)
    qed
  qed simp
qed

lemma run_shape:
  "parsed_ok out \<Longrightarrow> ends_var out \<Longrightarrow>
   parsed_ok (ps_out (run c out lit s)) \<and> ends_var (ps_out (run c out lit s))"
proof (induction "length s" arbitrary: s lit out rule: less_induct)
  case less
  show ?case
  proof (cases s)
    case (Cons x xs)
    consider "x = tokenBackslash" | r where "x \<noteq> tokenBackslash" "xs = tokenVarOpen # r" "x = c"
      | "x \<noteq> tokenBackslash" "\<not> HasPrefix (x # xs) [c, tokenVarOpen]"
      by (cases xs) (auto simp: HasPrefix_def)
    then show ?thesis
    proof cases
      case 1
      with less Cons show ?thesis by (cases xs) auto
    next
      case 2
      show ?thesis
      proof (cases "parseVariable_loop [] [] False r")
        case None
        with less Cons 2 show ?thesis by (simp add: run_variable)
      next
        case (Some vr)
        obtain v r' where vr: "vr = (v, r')" by (cases vr)
        let ?out = "out @ (if lit = [] then [] else [Lit lit]) @ [Var v]"
        have "length r' < length r" using Some vr parseVariable_loop_shrinks by blast
        moreover have "parsed_ok ?out"
          using less.prems parseVariable_default_ok [OF Some [unfolded vr]]
          by (simp only: parsed_ok_snoc)
        moreover have "ends_var ?out" by (simp add: ends_var_def)
        ultimately show ?thesis using less.hyps [of r' ?out "[]"] Cons 2 Some vr
          by (simp add: run_variable)
      qed
    next
      case 3
      with less Cons show ?thesis by (simp add: run_char)
    qed
  qed (use less in simp)
qed

lemma parse_shape: "parsed_ok (ps_out (parse \<lparr>ps_in = s, ps_out = [], ps_lit = [], ps_c = c\<rparr>))"
  using run_shape [of "[]" s "[]"]
  by (simp add: parse_run Let_def parsed_ok_Lit)

lemma run_plain: "c \<notin> set s \<Longrightarrow> tokenBackslash \<notin> set s \<Longrightarrow> run c out lit s = run c out (lit @ s) []"
  by (induction s arbitrary: lit) (auto simp: run_char HasPrefix_def simp del: run_Nil)

end

interpretation dollar: interp_syntax "CHR ''$''"
  by unfold_locales (simp add: tokens)

interpretation percent: interp_syntax "CHR ''%''"
  by unfold_locales (simp add: tokens)

subsection \<open>Properties\<close>

text \<open>
  C6: Every parsed string can be written in the syntax and is read back unchanged, by both
  parsers: escaping with backslashes in literals, names and defaults is undone exactly, a
  default is found where it was written and adjacent pieces stay separate.
\<close>

theorem interpolate_roundtrip:
  assumes "parsed_ok ps"
  shows "Parse (render (CHR ''$'') ps) = ps \<and> ParsePercent (render (CHR ''%'') ps) = ps"
  using dollar.parse_render [OF assms] percent.parse_render [OF assms]
  by (simp add: Parse_def ParsePercent_def dollarParser_def percentParser_def)

theorem interpolate_roundtrip_witness:
  "let ps = [Lit ''a$'', Var \<lparr>var_Name = ''x-y'', var_Default = ''}'', var_HasDefault = True\<rparr>]
   in parsed_ok ps \<and> Parse (render (CHR ''$'') ps) = ps"
  using interpolate_roundtrip
    [of "[Lit ''a$'', Var \<lparr>var_Name = ''x-y'', var_Default = ''}'', var_HasDefault = True\<rparr>]"]
  by simp

text \<open>
  Whatever the input, the result of parsing has no empty literal, no two literals next
  to each other, and no default text in a variable without a default.
\<close>

theorem Parse_wellformed: "parsed_ok (Parse s) \<and> parsed_ok (ParsePercent s)"
  using dollar.parse_shape percent.parse_shape
  by (simp add: Parse_def ParsePercent_def dollarParser_def percentParser_def)

text \<open>
  An input without a closing token contains no variable: an unclosed variable is kept
  as literal text.
\<close>

theorem Parse_unclosed:
  assumes "CHR ''}'' \<notin> set s"
  shows "\<not> HasVars (Parse s) \<and> \<not> HasVars (ParsePercent s)"
proof -
  have "tokenVarEnd \<notin> set s" using assms by (simp add: tokens)
  from dollar.run_no_end [OF this, of "[]" "[]"] percent.run_no_end [OF this, of "[]" "[]"]
  show ?thesis
    by (simp add: Parse_def ParsePercent_def dollarParser_def percentParser_def parse_run Let_def)
qed

theorem Parse_unclosed_witness:
  "CHR ''}'' \<notin> set ''a ${b-c'' \<and> \<not> HasVars (Parse ''a ${b-c'')"
  using Parse_unclosed [of "''a ${b-c''"] by simp

text \<open>Text with no special character is one literal, which interpolation returns as it is.\<close>

lemma Parse_plain:
  assumes "CHR ''$'' \<notin> set s" "tokenBackslash \<notin> set s"
  shows "Parse s = (if s = [] then [] else [Lit s])" "Interpolate_text (Parse s) f = s"
  using dollar.run_plain [OF assms, of "[]" "[]"]
  by (simp_all add: Parse_def dollarParser_def parse_run Let_def)

end
