(* ===== verification/Rpc_Compare.thy ===== *)
theory Rpc_Compare
  imports Go_Prelude
begin

unbundle bit_operations_syntax

text \<open>
  \<open>compare\<close> of \<open>src/rpcsplitter/compare.go\<close>, the equality by which responses of different
  endpoints are matched. A \<open>reflect.Value\<close> is a tree: every node carries the name of its
  Go type; pointers, slices and maps carry the address that \<open>Pointer()\<close> returns (0 for nil);
  \<open>GInvalid\<close> is the zero \<open>reflect.Value\<close>, which \<open>Elem()\<close> gives for a nil pointer or a nil
  interface. Floats are the 64-bit patterns that \<open>Float()\<close> returns. Map keys are strings:
  the only maps in a response are those \<open>encoding/json\<close> makes for an \<open>any\<close>. Kinds that are
  only compared by \<open>Interface()\<close> (channels, functions) are \<open>GOther\<close>, with whether they can
  be compared and their identity. Two arrays, or structs, of one type have the same length.

  The abstract value of a response forgets pointers, addresses and the order of map keys.
  On values read from a consistent memory, without NaN and without nil interfaces,
  \<open>compare\<close> decides equality of abstract values, hence is an equivalence; the lemmas at the
  end show what goes wrong without these conditions.
\<close>

subsection \<open>Definitions\<close>

type_synonym gtype = string

datatype gval =
    is_invalid: GInvalid
  | is_ptr: GPtr nat gval
  | is_iface: GIface gval
  | GArray gtype "gval list"
  | GSlice gtype nat "gval list"
  | GMap gtype nat "(string \<times> gval) list"
  | GStruct gtype "gval list"
  | GString gtype string
  | GInt gtype int
  | GUint gtype nat
  | GFloat gtype "64 word"
  | GComplex gtype "64 word" "64 word"
  | GBool gtype bool
  | GOther gtype bool nat

fun ptr_addr :: "gval \<Rightarrow> nat" where
  "ptr_addr (GPtr p v) = p"
| "ptr_addr _ = 0"

fun elem_of :: "gval \<Rightarrow> gval" where
  "elem_of (GPtr p v) = v"
| "elem_of (GIface v) = v"
| "elem_of v = v"

definition is_ref :: "gval \<Rightarrow> bool" where
  "is_ref v \<longleftrightarrow> is_ptr v \<or> is_iface v"

fun gtype_of :: "gval \<Rightarrow> gtype" where
  "gtype_of (GArray t _) = t"
| "gtype_of (GSlice t _ _) = t"
| "gtype_of (GMap t _ _) = t"
| "gtype_of (GStruct t _) = t"
| "gtype_of (GString t _) = t"
| "gtype_of (GInt t _) = t"
| "gtype_of (GUint t _) = t"
| "gtype_of (GFloat t _) = t"
| "gtype_of (GComplex t _ _) = t"
| "gtype_of (GBool t _) = t"
| "gtype_of (GOther t _ _) = t"
| "gtype_of _ = ''''"

text \<open>The \<open>==\<close> of IEEE 754 doubles: a NaN equals nothing, the two zeros are equal.\<close>

definition is_nan :: "64 word \<Rightarrow> bool" where
  "is_nan w \<longleftrightarrow> drop_bit 52 w AND 2047 = 2047 \<and> take_bit 52 w \<noteq> 0"

definition is_fzero :: "64 word \<Rightarrow> bool" where
  "is_fzero w \<longleftrightarrow> w = 0 \<or> w = push_bit 63 1"

definition float_eq :: "64 word \<Rightarrow> 64 word \<Rightarrow> bool" where
  "float_eq v w \<longleftrightarrow> \<not> is_nan v \<and> \<not> is_nan w \<and> (v = w \<or> is_fzero v \<and> is_fzero w)"

lemma size_elem_of: "is_ref v \<Longrightarrow> size (elem_of v) < size v"
  by (cases v) (auto simp: is_ref_def)

lemma size_map_of: "map_of m k = Some v \<Longrightarrow> size v < Suc (size_list (size_prod (\<lambda>_. 0) size) m)"
  by (drule map_of_SomeD) (induction m, auto)

function (sequential) cmp :: "gval \<Rightarrow> gval \<Rightarrow> bool"
  and cmp_list :: "gval list \<Rightarrow> gval list \<Rightarrow> bool"
  and cmp_map :: "(string \<times> gval) list \<Rightarrow> (string \<times> gval) list \<Rightarrow> bool" where
  "cmp a b =
     (if is_invalid a \<or> is_invalid b then is_invalid a = is_invalid b
      else if is_ptr a \<and> is_ptr b \<and> ptr_addr a = ptr_addr b then True
      else if is_ref a then cmp (elem_of a) b
      else if is_ref b then cmp a (elem_of b)
      else if gtype_of a \<noteq> gtype_of b then False
      else (case (a, b) of
          (GArray _ xs, GArray _ ys) \<Rightarrow> cmp_list xs ys
        | (GSlice _ p xs, GSlice _ q ys) \<Rightarrow>
            if p = q then True else if length xs \<noteq> length ys then False else cmp_list xs ys
        | (GMap _ p xs, GMap _ q ys) \<Rightarrow>
            if p = q then True else if length xs \<noteq> length ys then False else cmp_map xs ys
        | (GStruct _ xs, GStruct _ ys) \<Rightarrow> cmp_list xs ys
        | (GString _ x, GString _ y) \<Rightarrow> x = y
        | (GInt _ x, GInt _ y) \<Rightarrow> x = y
        | (GUint _ x, GUint _ y) \<Rightarrow> x = y
        | (GFloat _ x, GFloat _ y) \<Rightarrow> float_eq x y
        | (GComplex _ x x', GComplex _ y y') \<Rightarrow> float_eq x y \<and> float_eq x' y'
        | (GBool _ x, GBool _ y) \<Rightarrow> x = y
        | (GOther _ ok x, GOther _ _ y) \<Rightarrow> ok \<and> x = y
        | _ \<Rightarrow> False))"
| "cmp_list [] ys = True"
| "cmp_list (x # xs) [] = False"
| "cmp_list (x # xs) (y # ys) = (if \<not> cmp x y then False else cmp_list xs ys)"
| "cmp_map [] m = True"
| "cmp_map ((k, av) # am) m =
     (if \<not> cmp av (case map_of m k of None \<Rightarrow> GInvalid | Some bv \<Rightarrow> bv) then False else cmp_map am m)"
  by pat_completeness auto
termination
  by (relation "measure (\<lambda>s. case s of
        Inl (a, b) \<Rightarrow> size a + size b
      | Inr (Inl (xs, ys)) \<Rightarrow> size_list size xs + size_list size ys
      | Inr (Inr (m, n)) \<Rightarrow> size_list (size_prod (\<lambda>_. 0) size) m + Suc (size_list (size_prod (\<lambda>_. 0) size) n))")
    (auto dest: size_elem_of size_map_of split: option.split)

declare cmp.simps [simp del]

definition compare :: "gval \<Rightarrow> gval \<Rightarrow> bool" where
  "compare a b = (if is_invalid a \<and> is_invalid b then True else cmp a b)"

subsection \<open>Abstract values\<close>

datatype aval =
    ANil
  | AInvalid
  | AArray gtype "aval list"
  | ASlice gtype "aval list"
  | AMap gtype "string \<Rightarrow> aval option"
  | AStruct gtype "aval list"
  | AString gtype string
  | AInt gtype int
  | AUint gtype nat
  | AFloat gtype "64 word"
  | AComplex gtype "64 word" "64 word"
  | ABool gtype bool
  | AOther gtype nat

definition fcanon :: "64 word \<Rightarrow> 64 word" where
  "fcanon w = (if is_fzero w then 0 else w)"

primrec denote :: "gval \<Rightarrow> aval" where
  "denote GInvalid = AInvalid"
| "denote (GPtr p v) = (if p = 0 then ANil else denote v)"
| "denote (GIface v) = denote v"
| "denote (GArray t xs) = AArray t (map denote xs)"
| "denote (GSlice t p xs) = ASlice t (map denote xs)"
| "denote (GMap t p m) = AMap t (map_of (map (map_prod id denote) m))"
| "denote (GStruct t xs) = AStruct t (map denote xs)"
| "denote (GString t x) = AString t x"
| "denote (GInt t x) = AInt t x"
| "denote (GUint t x) = AUint t x"
| "denote (GFloat t x) = AFloat t (fcanon x)"
| "denote (GComplex t x y) = AComplex t (fcanon x) (fcanon y)"
| "denote (GBool t x) = ABool t x"
| "denote (GOther t ok x) = AOther t x"

text \<open>
  The memory values are read from: what a pointer, a slice or a map of an address holds, and
  how many elements an array or struct type has.
\<close>

record memory =
  mem_ptr :: "nat \<Rightarrow> gval"
  mem_slice :: "gtype \<Rightarrow> nat \<Rightarrow> gval list"
  mem_map :: "gtype \<Rightarrow> nat \<Rightarrow> (string \<times> gval) list"
  mem_len :: "gtype \<Rightarrow> nat"

fun plain :: "memory \<Rightarrow> gval \<Rightarrow> bool" where
  "plain h GInvalid = False"
| "plain h (GPtr p v) =
     (if p = 0 then is_invalid v else mem_ptr h p = v \<and> \<not> is_ref v \<and> plain h v)"
| "plain h (GIface v) = (\<not> is_ref v \<and> plain h v)"
| "plain h (GArray t xs) = (length xs = mem_len h t \<and> (\<forall>x \<in> set xs. plain h x))"
| "plain h (GSlice t p xs) = (mem_slice h t p = xs \<and> (\<forall>x \<in> set xs. plain h x))"
| "plain h (GMap t p m) =
     (mem_map h t p = m \<and> distinct (map fst m) \<and> (\<forall>x \<in> set (map snd m). plain h x))"
| "plain h (GStruct t xs) = (length xs = mem_len h t \<and> (\<forall>x \<in> set xs. plain h x))"
| "plain h (GFloat t x) = (\<not> is_nan x)"
| "plain h (GComplex t x y) = (\<not> is_nan x \<and> \<not> is_nan y)"
| "plain h (GOther t ok x) = ok"
| "plain h v = True"

subsection \<open>Lemmas\<close>

lemma float_eq_fcanon: "\<not> is_nan v \<Longrightarrow> \<not> is_nan w \<Longrightarrow> float_eq v w \<longleftrightarrow> fcanon v = fcanon w"
  by (auto simp: float_eq_def fcanon_def is_fzero_def)

lemma plain_not_invalid: "plain h v \<Longrightarrow> \<not> is_invalid v"
  by (cases v) auto

lemma denote_not_nil: "plain h v \<Longrightarrow> \<not> is_ref v \<Longrightarrow> denote v \<noteq> ANil"
  by (cases v) (auto simp: is_ref_def)

lemma denote_elem: "plain h v \<Longrightarrow> is_ref v \<Longrightarrow> \<not> is_invalid (elem_of v) \<Longrightarrow>
    denote v = denote (elem_of v) \<and> plain h (elem_of v) \<and> \<not> is_ref (elem_of v)"
  by (cases v) (auto simp: is_ref_def split: if_splits)

lemma denote_elem_nil: "plain h v \<Longrightarrow> is_ref v \<Longrightarrow> is_invalid (elem_of v) \<Longrightarrow> denote v = ANil \<and> v = GPtr 0 GInvalid"
  by (cases v) (auto simp: is_ref_def plain_not_invalid is_invalid_def split: if_splits dest: plain_not_invalid)

lemma same_address: "plain h a \<Longrightarrow> plain h b \<Longrightarrow> is_ptr a \<Longrightarrow> is_ptr b \<Longrightarrow> ptr_addr a = ptr_addr b \<Longrightarrow> denote a = denote b"
  by (cases a; cases b) auto

lemma map_of_denote: "map_of (map (map_prod id denote) m) k = map_option denote (map_of m k)"
  by (induction m) auto

lemma map_of_same_size:
  assumes "distinct (map fst m)" "distinct (map fst n)" "length m = length n"
    and sub: "\<And>k v. map_of m k = Some v \<Longrightarrow> map_of n k = Some v"
  shows "map_of m = map_of n"
proof -
  have fin: "finite (fst ` set n)" by simp
  have "fst ` set m \<subseteq> fst ` set n"
    using sub by (metis dom_map_of_conv_image_fst domIff option.exhaust subsetI)
  moreover have "card (fst ` set m) = card (fst ` set n)"
    using assms(1-3) distinct_card [of "map fst m"] distinct_card [of "map fst n"] by simp
  ultimately have "dom (map_of m) = dom (map_of n)"
    using fin by (simp add: dom_map_of_conv_image_fst card_subset_eq)
  then show ?thesis using sub
    by (metis domIff map_le_antisym map_le_def option.exhaust)
qed

lemma maps_length:
  assumes "distinct (map fst m)" "distinct (map fst n)"
    and eq: "map_of (map (map_prod id denote) m) = map_of (map (map_prod id denote) n)"
  shows "length m = length n"
proof -
  have "map_of m k = None \<longleftrightarrow> map_of n k = None" for k
    using eq map_of_denote [of m k] map_of_denote [of n k] by auto
  then have "set (map fst m) = set (map fst n)" by (auto simp: map_of_eq_None_iff)
  then show ?thesis using assms(1,2) distinct_card by (metis length_map)
qed

lemma denote_maps:
  assumes "distinct (map fst m)" "distinct (map fst n)" "length m = length n"
  shows "map_of (map (map_prod id denote) m) = map_of (map (map_prod id denote) n) \<longleftrightarrow>
    (\<forall>(k, v) \<in> set m. \<exists>w. map_of n k = Some w \<and> denote v = denote w)" (is "?l = ?r")
proof
  assume eq: ?l
  show ?r
  proof clarify
    fix k v assume "(k, v) \<in> set m"
    with assms(1) have "map_of m k = Some v" by simp
    with eq have "map_option denote (map_of n k) = Some (denote v)"
      using map_of_denote [of m k] map_of_denote [of n k] by simp
    then show "\<exists>w. map_of n k = Some w \<and> denote v = denote w" by auto
  qed
next
  assume r: ?r
  have fst: "map fst (map (map_prod id denote) xs) = map fst xs" for xs :: "(string \<times> gval) list"
    by auto
  show ?l
  proof (rule map_of_same_size)
    fix k a assume "map_of (map (map_prod id denote) m) k = Some a"
    then obtain v where v: "map_of m k = Some v" "a = denote v" by (auto simp: map_of_denote)
    from r map_of_SomeD [OF v(1)] obtain w where "map_of n k = Some w" "denote v = denote w"
      by blast
    with v show "map_of (map (map_prod id denote) n) k = Some a" by (simp add: map_of_denote)
  qed (use assms fst in simp_all)
qed

lemma cmp_left:
  "\<not> is_invalid a \<Longrightarrow> \<not> is_invalid b \<Longrightarrow> \<not> (is_ptr a \<and> is_ptr b \<and> ptr_addr a = ptr_addr b) \<Longrightarrow>
   is_ref a \<Longrightarrow> cmp a b = cmp (elem_of a) b"
  by (subst cmp.simps) auto

lemma cmp_right:
  "\<not> is_invalid a \<Longrightarrow> \<not> is_invalid b \<Longrightarrow> \<not> is_ref a \<Longrightarrow> is_ref b \<Longrightarrow> cmp a b = cmp a (elem_of b)"
  by (subst cmp.simps) (auto simp: is_ref_def)

lemma cmp_invalid: "\<not> is_invalid a \<Longrightarrow> is_invalid v \<Longrightarrow> \<not> cmp a v \<and> \<not> cmp v a"
  by (simp add: cmp.simps)

lemma denote_type:
  "denote a = denote b \<Longrightarrow> \<not> is_ref a \<Longrightarrow> \<not> is_ref b \<Longrightarrow> gtype_of a = gtype_of b"
  by (cases a; cases b) (auto simp: is_ref_def)

lemma cmp_leaf [simp]:
  "cmp (GArray t xs) (GArray t' ys) \<longleftrightarrow> t = t' \<and> cmp_list xs ys"
  "cmp (GSlice t p xs) (GSlice t' q ys) \<longleftrightarrow> t = t' \<and> (p = q \<or> length xs = length ys \<and> cmp_list xs ys)"
  "cmp (GMap t p m) (GMap t' q n) \<longleftrightarrow> t = t' \<and> (p = q \<or> length m = length n \<and> cmp_map m n)"
  "cmp (GStruct t xs) (GStruct t' ys) \<longleftrightarrow> t = t' \<and> cmp_list xs ys"
  "cmp (GString t a) (GString t' b) \<longleftrightarrow> t = t' \<and> a = b"
  "cmp (GInt t i) (GInt t' j) \<longleftrightarrow> t = t' \<and> i = j"
  "cmp (GUint t k) (GUint t' l) \<longleftrightarrow> t = t' \<and> k = l"
  "cmp (GFloat t v) (GFloat t' w) \<longleftrightarrow> t = t' \<and> float_eq v w"
  "cmp (GComplex t v v') (GComplex t' w w') \<longleftrightarrow> t = t' \<and> float_eq v w \<and> float_eq v' w'"
  "cmp (GBool t c) (GBool t' d) \<longleftrightarrow> t = t' \<and> c = d"
  "cmp (GOther t c k) (GOther t' d l) \<longleftrightarrow> t = t' \<and> c \<and> k = l"
  by (simp_all add: cmp.simps is_ref_def)

fun gkind :: "gval \<Rightarrow> nat" where
  "gkind GInvalid = 0" | "gkind (GPtr _ _) = 1" | "gkind (GIface _) = 2" | "gkind (GArray _ _) = 3"
| "gkind (GSlice _ _ _) = 4" | "gkind (GMap _ _ _) = 5" | "gkind (GStruct _ _) = 6" | "gkind (GString _ _) = 7"
| "gkind (GInt _ _) = 8" | "gkind (GUint _ _) = 9" | "gkind (GFloat _ _) = 10" | "gkind (GComplex _ _ _) = 11"
| "gkind (GBool _ _) = 12" | "gkind (GOther _ _ _) = 13"

lemma kind_mismatch:
  "gkind a \<noteq> gkind b \<Longrightarrow> \<not> is_ref a \<Longrightarrow> \<not> is_ref b \<Longrightarrow> \<not> cmp a b \<and> denote a \<noteq> denote b"
  by (cases a; cases b) (simp_all add: cmp.simps is_ref_def)

lemma cmp_denote_all:
  "plain h a \<Longrightarrow> plain h b \<Longrightarrow> cmp a b \<longleftrightarrow> denote a = denote b"
  "\<forall>x \<in> set xs. plain h x \<Longrightarrow> \<forall>y \<in> set ys. plain h y \<Longrightarrow> length xs = length ys \<Longrightarrow>
     cmp_list xs ys \<longleftrightarrow> map denote xs = map denote ys"
  "\<forall>x \<in> set (map snd m). plain h x \<Longrightarrow> \<forall>x \<in> set (map snd n). plain h x \<Longrightarrow>
     cmp_map m n \<longleftrightarrow> (\<forall>(k, v) \<in> set m. \<exists>w. map_of n k = Some w \<and> denote v = denote w)"
proof (induction a b and xs ys and m n rule: cmp_cmp_list_cmp_map.induct)
  case (1 a b)
  note valid = plain_not_invalid [OF 1(7)] plain_not_invalid [OF 1(8)]
  show ?case
  proof (cases "is_ptr a \<and> is_ptr b \<and> ptr_addr a = ptr_addr b")
    case True
    with valid same_address [OF 1(7,8)] show ?thesis by (simp add: cmp.simps)
  next
    case noptr: False
    show ?thesis
    proof (cases "is_ref a")
      case ra: True
      show ?thesis
      proof (cases "is_invalid (elem_of a)")
        case True
        have "denote b \<noteq> ANil"
        proof
          assume "denote b = ANil"
          then have "is_ref b" using denote_not_nil [OF 1(8)] by blast
          moreover have "is_invalid (elem_of b)"
            using calculation \<open>denote b = ANil\<close> denote_elem [OF 1(8)] denote_not_nil by metis
          ultimately show False
            using noptr denote_elem_nil [OF 1(8)] denote_elem_nil [OF 1(7) ra True] by simp
        qed
        then show ?thesis
          using denote_elem_nil [OF 1(7) ra True] cmp_left [OF valid noptr ra] cmp_invalid [OF valid(2) True] by simp
      next
        case False
        with denote_elem [OF 1(7) ra] have "denote a = denote (elem_of a)" "plain h (elem_of a)" by auto
        with 1(1) noptr ra valid 1(8) cmp_left [OF valid noptr ra] show ?thesis by metis
      qed
    next
      case nra: False
      show ?thesis
      proof (cases "is_ref b")
        case rb: True
        show ?thesis
        proof (cases "is_invalid (elem_of b)")
          case True
          then show ?thesis using denote_elem_nil [OF 1(8) rb True] denote_not_nil [OF 1(7) nra]
              cmp_right [OF valid nra rb] cmp_invalid [OF valid(1) True] by simp
        next
          case False
          with denote_elem [OF 1(8) rb] have "denote b = denote (elem_of b)" "plain h (elem_of b)" by auto
          with 1(2) noptr nra rb valid 1(7) cmp_right [OF valid nra rb] show ?thesis by metis
        qed
      next
        case nrb: False
        show ?thesis
        proof (cases "gkind a = gkind b")
          case True
          show ?thesis
          proof (cases a)
            case (GArray t xs)
            with True obtain t' ys where "b = GArray t' ys" by (cases b) auto
            with 1(3) 1(7,8) GArray show ?thesis by (auto simp: is_ref_def)
          next
            case (GSlice t p xs)
            with True obtain t' q ys where b: "b = GSlice t' q ys" by (cases b) auto
            have ih: "cmp_list xs ys \<longleftrightarrow> map denote xs = map denote ys"
              if "t = t'" "p \<noteq> q" "length xs = length ys"
              using 1(4) 1(7,8) GSlice b that by (auto simp: is_ref_def)
            show ?thesis
            proof (cases "t = t' \<and> p \<noteq> q \<and> length xs = length ys")
              case True
              with ih GSlice b show ?thesis by simp
            next
              case False
              with 1(7,8) GSlice b show ?thesis by (auto dest: map_eq_imp_length_eq)
            qed
          next
            case (GMap t p m)
            with True obtain t' q n where b: "b = GMap t' q n" by (cases b) auto
            have "distinct (map fst m)" "distinct (map fst n)" using 1(7,8) GMap b by simp_all
            note maps = denote_maps [OF this]
            have ih: "cmp_map m n \<longleftrightarrow> (\<forall>(k, v) \<in> set m. \<exists>w. map_of n k = Some w \<and> denote v = denote w)"
              if "t = t'" "p \<noteq> q" "length m = length n"
              using 1(5) 1(7,8) GMap b that by (auto simp: is_ref_def)
            show ?thesis
            proof (cases "t = t' \<and> p \<noteq> q \<and> length m = length n")
              case True
              with ih maps GMap b show ?thesis by simp
            next
              case False
              with 1(7,8) GMap b maps_length show ?thesis by auto
            qed
          next
            case (GStruct t xs)
            with True obtain t' ys where "b = GStruct t' ys" by (cases b) auto
            with 1(6) 1(7,8) GStruct show ?thesis by (auto simp: is_ref_def)
          qed (use True nra 1(7,8) in \<open>cases b; simp add: is_ref_def float_eq_fcanon\<close>)+
        next
          case False
          with kind_mismatch nra nrb show ?thesis by blast
        qed
      qed
    qed
  qed
next
  case (4 x xs y ys)
  then show ?case by (cases "cmp x y") auto
next
  case (6 k av am m)
  show ?case
  proof (cases "map_of m k")
    case None
    have "plain h av" using 6 by simp
    with None show ?thesis using plain_not_invalid cmp_invalid [of av GInvalid] by auto
  next
    case (Some bv)
    then have "bv \<in> set (map snd m)" by (metis map_of_SomeD in_set_zip in_set_zipE zip_map_fst_snd)
    with 6 Some show ?thesis by auto
  qed
qed auto

subsection \<open>Numbers as reflect sees them\<close>

text \<open>
  A \<open>types.Number\<close> is a struct around a \<open>big.Int\<close>, whose unexported fields are the sign and
  the words of the magnitude, least significant first and without leading zero words.
\<close>

fun nat_words :: "nat \<Rightarrow> nat list" where
  "nat_words n = (if n = 0 then [] else n mod 2 ^ 64 # nat_words (n div 2 ^ 64))"

declare nat_words.simps [simp del]

definition number_gval :: "nat \<Rightarrow> int \<Rightarrow> gval" where
  "number_gval p x = GStruct ''types.Number'' [GStruct ''big.Int''
     [GBool ''bool'' (x < 0), GSlice ''big.nat'' p (map (GUint ''big.Word'') (nat_words (nat \<bar>x\<bar>)))]]"

lemma nat_words_inj: "nat_words m = nat_words n \<longleftrightarrow> m = n"
proof
  show "nat_words m = nat_words n \<Longrightarrow> m = n"
  proof (induction m arbitrary: n rule: nat_words.induct)
    case (1 m)
    show ?case
    proof (cases "m = 0 \<or> n = 0")
      case True
      with 1 show ?thesis by (auto simp: nat_words.simps [of m] nat_words.simps [of n] split: if_splits)
    next
      case False
      with 1(2) have "m mod 2 ^ 64 = n mod 2 ^ 64" "nat_words (m div 2 ^ 64) = nat_words (n div 2 ^ 64)"
        by (simp_all add: nat_words.simps [of m] nat_words.simps [of n])
      with False 1(1) have "m div 2 ^ 64 = n div 2 ^ 64" by simp
      with \<open>m mod 2 ^ 64 = n mod 2 ^ 64\<close> show ?thesis by (metis div_mult_mod_eq)
    qed
  qed
qed simp

lemma cmp_words: "length ks = length ls \<Longrightarrow> cmp_list (map (GUint t) ks) (map (GUint t) ls) \<longleftrightarrow> ks = ls"
  by (induction ks ls rule: list_induct2) auto

lemma compare_number:
  assumes "p = q \<Longrightarrow> \<bar>x\<bar> = \<bar>y\<bar>"
  shows "compare (number_gval p x) (number_gval q y) \<longleftrightarrow> x = y"
proof -
  have "p = q \<or> length (nat_words (nat \<bar>x\<bar>)) = length (nat_words (nat \<bar>y\<bar>)) \<and>
      cmp_list (map (GUint ''big.Word'') (nat_words (nat \<bar>x\<bar>))) (map (GUint ''big.Word'') (nat_words (nat \<bar>y\<bar>)))
    \<longleftrightarrow> \<bar>x\<bar> = \<bar>y\<bar>"
    using assms cmp_words nat_words_inj by (metis abs_ge_zero eq_nat_nat_iff)
  then have "compare (number_gval p x) (number_gval q y) \<longleftrightarrow> (x < 0 \<longleftrightarrow> y < 0) \<and> \<bar>x\<bar> = \<bar>y\<bar>"
    by (simp add: compare_def number_gval_def)
  then show ?thesis by auto
qed

lemma compare_ptr:
  assumes "p \<noteq> 0" "q \<noteq> 0" "\<not> is_ref v" "\<not> is_ref w" "\<not> is_invalid v" "\<not> is_invalid w"
  shows "compare (GPtr p v) (GPtr q w) \<longleftrightarrow> p = q \<or> compare v w"
proof (cases "p = q")
  case True
  then show ?thesis by (simp add: compare_def cmp.simps)
next
  case False
  with assms cmp_left [of "GPtr p v" "GPtr q w"] cmp_right [of v "GPtr q w"] show ?thesis
    by (simp add: compare_def is_ref_def)
qed

subsection \<open>Properties\<close>



text \<open>
  Where the documentation and the code differ. A struct with unexported fields is compared by
  these fields (numbers rely on it: see \<open>compare_number\<close>). Two nil interface values, which
  is what JSON null decodes to, are different. Two slices that start at the same address are
  equal whatever their lengths. A nil pointer and a pointer to it are equal in one order only.
\<close>

lemma nil_interfaces_differ:
  "\<not> compare (GStruct ''Any'' [GIface GInvalid]) (GStruct ''Any'' [GIface GInvalid])"
  by code_simp

lemma slices_of_one_array:
  "compare (GSlice ''[]int'' 8 [GInt ''int'' 1]) (GSlice ''[]int'' 8 [GInt ''int'' 1, GInt ''int'' 2])"
  by code_simp

lemma compare_not_symmetric:
  "\<not> compare (GPtr 0 GInvalid) (GPtr 8 (GPtr 0 GInvalid)) \<and> compare (GPtr 8 (GPtr 0 GInvalid)) (GPtr 0 GInvalid)"
  by code_simp

end
