(* ===== verification/Rpc_Errors.thy ===== *)
theory Rpc_Errors
  imports Rpc_Compare "HOL-Library.Multiset"
begin

text \<open>
  \<open>src/rpcsplitter/errors.go\<close>. An error of an endpoint has a message and, when it
  implements \<open>rpc.Error\<close> or \<open>rpc.DataError\<close>, a code or data; an \<open>errorList\<close> is a list of
  them (the code never puts a list into a list). \<open>mostCommon\<close> ranges over a Go map: the
  order of iteration is the argument \<open>ord\<close>, and the properties hold for every permutation.
  Data of an unhashable kind makes \<open>mostCommon\<close> panic.
\<close>

subsection \<open>Definitions\<close>

record rpc_err =
  err_msg :: string
  err_code :: "int option"
  err_data :: "gval option"

datatype rpc_error = SingleError rpc_err | ErrorList "rpc_err list"

text \<open>\<open>m[v]++\<close> on a map given by its entries.\<close>

fun inc_key :: "'a \<Rightarrow> ('a \<times> nat) list \<Rightarrow> ('a \<times> nat) list" where
  "inc_key v [] = [(v, 1)]"
| "inc_key v ((k, n) # m) = (if k = v then (k, n + 1) # m else (k, n) # inc_key v m)"

definition tally :: "'a list \<Rightarrow> ('a \<times> nat) list" where
  "tally s = foldl (\<lambda>m v. inc_key v m) [] s"

fun most_loop :: "'a \<Rightarrow> nat \<Rightarrow> ('a \<times> nat) list \<Rightarrow> 'a" where
  "most_loop mx maxCount [] = mx"
| "most_loop mx maxCount ((k, v) # m) =
     (if v > maxCount then most_loop k v m else most_loop mx maxCount m)"

definition mostCommon :: "'a \<Rightarrow> (('a \<times> nat) list \<Rightarrow> ('a \<times> nat) list) \<Rightarrow> 'a list \<Rightarrow> 'a" where
  "mostCommon zero ord s = (if s = [] then zero else most_loop zero 0 (ord (tally s)))"

definition ErrorCode :: "((int \<times> nat) list \<Rightarrow> (int \<times> nat) list) \<Rightarrow> rpc_err list \<Rightarrow> int" where
  "ErrorCode ord e =
     (let codes = List.map_filter err_code e in
      if codes = [] then -32000 else mostCommon 0 ord codes)"

fun hashable :: "gval \<Rightarrow> bool" where
  "hashable (GSlice _ _ _) = False"
| "hashable (GMap _ _ _) = False"
| "hashable (GOther _ ok _) = ok"
| "hashable (GIface v) = hashable v"
| "hashable (GArray _ xs) = (\<forall>x \<in> set xs. hashable x)"
| "hashable (GStruct _ xs) = (\<forall>x \<in> set xs. hashable x)"
| "hashable _ = True"

definition ErrorData :: "((gval \<times> nat) list \<Rightarrow> (gval \<times> nat) list) \<Rightarrow> rpc_err list \<Rightarrow> gval go" where
  "ErrorData ord e =
     (let data = List.map_filter err_data e in
      if data = [] then Ret GInvalid
      else if \<forall>d \<in> set data. hashable d then Ret (mostCommon GInvalid ord data)
      else Panic ''hash of unhashable type'')"

fun Error_join :: "rpc_err list \<Rightarrow> string" where
  "Error_join [] = ''''"
| "Error_join [e] = err_msg e"
| "Error_join (e # es) = err_msg e @ '', '' @ Error_join es"

definition ErrorList_Error :: "rpc_err list \<Rightarrow> string" where
  "ErrorList_Error e =
     (case e of
        [] \<Rightarrow> ''unknown error''
      | [x] \<Rightarrow> err_msg x
      | _ \<Rightarrow> ''the following errors occurred: '' @ ''['' @ Error_join e @ '']'')"

fun same_message :: "rpc_err \<Rightarrow> rpc_err list \<Rightarrow> bool" where
  "same_message e [] = False"
| "same_message e (e2 # errList) = (if err_msg e = err_msg e2 then True else same_message e errList)"

fun addError_loop :: "rpc_err list \<Rightarrow> rpc_err option list \<Rightarrow> rpc_err list" where
  "addError_loop errList [] = errList"
| "addError_loop errList (None # errs) = addError_loop errList errs"
| "addError_loop errList (Some e # errs) =
     addError_loop (if \<not> same_message e errList then errList @ [e] else errList) errs"

definition addError :: "rpc_error option \<Rightarrow> rpc_err option list \<Rightarrow> rpc_err list" where
  "addError err errs =
     (let errList = (case err of
          None \<Rightarrow> []
        | Some (SingleError e) \<Rightarrow> [e]
        | Some (ErrorList l) \<Rightarrow> l)
      in addError_loop errList errs)"

subsection \<open>Lemmas\<close>

lemma map_of_inc_key:
  "map_of (inc_key v m) k =
     (if k = v then Some (Suc (case map_of m v of None \<Rightarrow> 0 | Some n \<Rightarrow> n)) else map_of m k)"
  by (induction v m rule: inc_key.induct) auto

lemma keys_inc_key: "fst ` set (inc_key v m) = insert v (fst ` set m)"
  by (induction v m rule: inc_key.induct) auto

lemma distinct_inc_key: "distinct (map fst m) \<Longrightarrow> distinct (map fst (inc_key v m))"
  by (induction v m rule: inc_key.induct) (auto simp: keys_inc_key)

lemma tally_snoc: "tally (s @ [v]) = inc_key v (tally s)"
  by (simp add: tally_def)

lemma tally_Nil [simp]: "tally [] = []"
  by (simp add: tally_def)

lemma distinct_tally: "distinct (map fst (tally s))"
  by (induction s rule: rev_induct) (simp_all add: tally_snoc distinct_inc_key)

lemma keys_tally: "fst ` set (tally s) = set s"
  by (induction s rule: rev_induct) (simp_all add: tally_snoc keys_inc_key)

lemma count_list_snoc: "count_list (s @ [v]) k = count_list s k + (if v = k then 1 else 0)"
  by (induction s) auto

lemma map_of_tally: "map_of (tally s) k = (if count_list s k = 0 then None else Some (count_list s k))"
proof (induction s rule: rev_induct)
  case (snoc v s)
  then show ?case by (cases "k = v") (simp_all add: tally_snoc map_of_inc_key count_list_snoc del: count_list_append)
qed simp

lemma tally_entries: "(k, n) \<in> set (tally s) \<longleftrightarrow> count_list s k = n \<and> 0 < n"
proof -
  have "(k, n) \<in> set (tally s) \<longleftrightarrow> map_of (tally s) k = Some n"
    using map_of_eq_Some_iff [OF distinct_tally, of s k n] by simp
  then show ?thesis by (auto simp: map_of_tally split: if_splits)
qed

lemma most_loop_spec:
  "(\<exists>n. (most_loop mx c m, n) \<in> set m \<and> c < n \<and> (\<forall>(k, v) \<in> set m. v \<le> n)) \<or>
   (most_loop mx c m = mx \<and> (\<forall>(k, v) \<in> set m. v \<le> c))"
proof (induction mx c m rule: most_loop.induct)
  case (2 mx c k v m)
  show ?case
  proof (cases "v > c")
    case True
    from 2(1) [OF this] show ?thesis
    proof
      assume "\<exists>n. (most_loop k v m, n) \<in> set m \<and> v < n \<and> (\<forall>(k, v) \<in> set m. v \<le> n)"
      then obtain n where "(most_loop k v m, n) \<in> set m" "v < n" "\<forall>(k, v) \<in> set m. v \<le> n" by blast
      with True show ?thesis by (intro disjI1 exI [of _ n]) simp
    next
      assume "most_loop k v m = k \<and> (\<forall>(k, w) \<in> set m. w \<le> v)"
      with True show ?thesis by (intro disjI1 exI [of _ v]) simp
    qed
  next
    case False
    with 2(2) [OF this] show ?thesis by auto
  qed
qed simp

lemma mostCommon_spec:
  assumes "s \<noteq> []" "mset (ord (tally s)) = mset (tally s)"
  shows "mostCommon zero ord s \<in> set s \<and> (\<forall>x. count_list s x \<le> count_list s (mostCommon zero ord s))"
proof -
  let ?r = "most_loop zero 0 (ord (tally s))"
  have st: "set (ord (tally s)) = set (tally s)" using assms(2) by (rule mset_eq_setD)
  obtain x where "x \<in> set s" using assms(1) by (cases s) auto
  then have pos: "0 < count_list s x" using count_list_0_iff by fastforce
  then have "(x, count_list s x) \<in> set (tally s)" by (simp add: tally_entries)
  with pos have "\<not> (\<forall>(k, v) \<in> set (ord (tally s)). v \<le> 0)" using st by fastforce
  then obtain n where n: "(?r, n) \<in> set (tally s)" "\<forall>(k, v) \<in> set (tally s). v \<le> n"
    using most_loop_spec [of zero 0 "ord (tally s)"] st by auto
  have "count_list s y \<le> n" for y
  proof (cases "count_list s y = 0")
    case False
    then have "(y, count_list s y) \<in> set (tally s)" by (simp add: tally_entries)
    with n(2) show ?thesis by auto
  qed simp
  moreover have r: "count_list s ?r = n" "0 < n" using n(1) by (simp_all add: tally_entries)
  moreover have "?r \<in> set s" using r count_notin by fastforce
  ultimately show ?thesis using assms(1) by (simp add: mostCommon_def)
qed

lemma same_message_iff: "same_message e l \<longleftrightarrow> err_msg e \<in> err_msg ` set l"
  by (induction l) auto

lemma addError_loop_spec:
  "\<exists>new. addError_loop l errs = l @ new \<and> set new \<subseteq> {e. Some e \<in> set errs} \<and>
     err_msg ` set (l @ new) = err_msg ` (set l \<union> {e. Some e \<in> set errs}) \<and>
     distinct (map err_msg new) \<and> err_msg ` set new \<inter> err_msg ` set l = {}"
proof (induction l errs rule: addError_loop.induct)
  case (3 l e errs)
  show ?case
  proof (cases "same_message e l")
    case True
    with 3 obtain new where new: "addError_loop l errs = l @ new" "set new \<subseteq> {e. Some e \<in> set errs}"
      "err_msg ` set (l @ new) = err_msg ` (set l \<union> {e. Some e \<in> set errs})"
      "distinct (map err_msg new)" "err_msg ` set new \<inter> err_msg ` set l = {}" by auto
    moreover have "err_msg e \<in> err_msg ` set l" using True by (simp add: same_message_iff)
    ultimately show ?thesis using True by (intro exI [of _ new]) auto
  next
    case False
    with 3 obtain new where new: "addError_loop (l @ [e]) errs = (l @ [e]) @ new"
      "set new \<subseteq> {e. Some e \<in> set errs}"
      "err_msg ` set ((l @ [e]) @ new) = err_msg ` (set (l @ [e]) \<union> {e. Some e \<in> set errs})"
      "distinct (map err_msg new)" "err_msg ` set new \<inter> err_msg ` set (l @ [e]) = {}" by auto
    with False show ?thesis by (intro exI [of _ "e # new"]) (auto simp: same_message_iff)
  qed
qed auto

subsection \<open>Properties\<close>

text \<open>
  \<open>ErrorCode\<close> of a list is one of the codes of its errors, and none occurs more often,
  in whatever order the Go runtime iterates over the counts; it is -32000 when no error of
  the list has a code.
\<close>

theorem ErrorCode_most_common:
  assumes "mset (ord (tally (List.map_filter err_code e))) = mset (tally (List.map_filter err_code e))"
  shows "if List.map_filter err_code e = [] then ErrorCode ord e = -32000
    else ErrorCode ord e \<in> set (List.map_filter err_code e) \<and>
      (\<forall>c. count_list (List.map_filter err_code e) c \<le> count_list (List.map_filter err_code e) (ErrorCode ord e))"
  using mostCommon_spec [where s = "List.map_filter err_code e" and ord = ord and zero = 0, OF _ assms]
  by (simp add: ErrorCode_def)

theorem ErrorCode_most_common_witness:
  "ErrorCode rev [\<lparr>err_msg = ''a'', err_code = Some 3, err_data = None\<rparr>,
     \<lparr>err_msg = ''b'', err_code = Some 3, err_data = None\<rparr>, \<lparr>err_msg = ''c'', err_code = Some 4, err_data = None\<rparr>] \<in> {3, 4}"
  using ErrorCode_most_common [of rev "[\<lparr>err_msg = ''a'', err_code = Some 3, err_data = None\<rparr>,
     \<lparr>err_msg = ''b'', err_code = Some 3, err_data = None\<rparr>, \<lparr>err_msg = ''c'', err_code = Some 4, err_data = None\<rparr>]"]
  by (simp add: List.map_filter_def)

text \<open>
  \<open>addError\<close> keeps the errors it had, in order, and appends errors of its arguments only:
  afterwards every message given to it is present, and no appended message repeats another.
\<close>

theorem addError_spec:
  "\<exists>old new. addError err errs = old @ new \<and>
     old = (case err of None \<Rightarrow> [] | Some (SingleError e) \<Rightarrow> [e] | Some (ErrorList l) \<Rightarrow> l) \<and>
     set new \<subseteq> {e. Some e \<in> set errs} \<and>
     err_msg ` set (addError err errs) = err_msg ` (set old \<union> {e. Some e \<in> set errs}) \<and>
     distinct (map err_msg new) \<and> err_msg ` set new \<inter> err_msg ` set old = {}"
proof -
  define old where "old = (case err of None \<Rightarrow> [] | Some (SingleError e) \<Rightarrow> [e] | Some (ErrorList l) \<Rightarrow> l)"
  have "addError err errs = addError_loop old errs" by (simp add: addError_def old_def)
  with addError_loop_spec [of old errs] show ?thesis unfolding old_def by metis
qed

text \<open>Error data that is a JSON object or array makes the error itself panic.\<close>

lemma ErrorData_panics:
  "ErrorData id [\<lparr>err_msg = ''reverted'', err_code = Some 3,
      err_data = Some (GMap ''map[string]any'' 1 [(''reason'', GString ''string'' ''x'')])\<rparr>]
   = Panic ''hash of unhashable type''"
  by (simp add: ErrorData_def List.map_filter_def)

end
