(* ===== verification/Rpc_Types.thy ===== *)
theory Rpc_Types
  imports Go_Prelude
begin

unbundle bit_operations_syntax

text \<open>
  Package \<open>rpcsplitter/types\<close> (\<open>util.go\<close>, \<open>number.go\<close>, \<open>blocknumber.go\<close>, \<open>address.go\<close>,
  \<open>hash.go\<close>, \<open>nonce.go\<close>, \<open>bloom.go\<close>, \<open>bytes.go\<close>): the hexadecimal encodings of the
  Ethereum JSON-RPC interface. Texts are strings (one character per byte), binary data are
  lists of 8-bit words, \<open>*big.Int\<close> values are integers. An \<open>Unmarshal\<close> method takes the
  old value of its receiver and returns the new one with the error, because Go leaves the
  receiver as it is on some errors and overwrites part of it on others.

  The contract of the four fixed-size types is the locale \<open>fixed_bytes\<close>; it is interpreted
  on \<open>Address\<close>, \<open>Hash\<close>, \<open>Nonce\<close> and \<open>Bloom\<close>.
\<close>

subsection \<open>Definitions: hexadecimal text (util.go)\<close>

datatype hex_error = EmptyHex | InvalidHex | InvalidByte char | HexTooLong nat nat | BlockTooLarge

definition has0xPrefix :: "string \<Rightarrow> bool" where
  "has0xPrefix h \<longleftrightarrow> length h \<ge> 2 \<and> h ! 0 = CHR ''0'' \<and> (h ! 1 = CHR ''x'' \<or> h ! 1 = CHR ''X'')"

text \<open>\<open>hex.Encode\<close>: two lower-case digits for every byte.\<close>

fun hex_Encode :: "byte list \<Rightarrow> string" where
  "hex_Encode [] = []"
| "hex_Encode (b # bs) = digit_char (unat b div 16) # digit_char (unat b mod 16) # hex_Encode bs"

text \<open>
  \<open>hex.Decode\<close> into a buffer of half the length: it stops at the first byte that is not a
  digit, with the bytes decoded so far in the buffer and zeros after them.
\<close>

fun hex_Decode :: "string \<Rightarrow> byte list \<times> hex_error option" where
  "hex_Decode (p # q # h) =
     (case digit_in 16 p of
        None \<Rightarrow> (replicate (Suc (length h div 2)) 0, Some (InvalidByte p))
      | Some a \<Rightarrow>
          (case digit_in 16 q of
             None \<Rightarrow> (replicate (Suc (length h div 2)) 0, Some (InvalidByte q))
           | Some b \<Rightarrow>
               (case hex_Decode h of (r, e) \<Rightarrow> ((push_bit 4 (word_of_nat a) OR word_of_nat b) # r, e))))"
| "hex_Decode h = ([], None)"

definition bytesToHex :: "byte list \<Rightarrow> string" where
  "bytesToHex b = ''0x'' @ hex_Encode b"

definition hexToBytes :: "string \<Rightarrow> byte list \<times> hex_error option" where
  "hexToBytes h =
     (if h = ''0x0'' then ([0], None)
      else
        let h1 = (if has0xPrefix h then drop 2 h else h);
            h2 = (if odd (length h1) then CHR ''0'' # h1 else h1)
        in hex_Decode h2)"

definition bigIntToHex :: "int \<Rightarrow> string" where
  "bigIntToHex x =
     (if sgn x = 0 then ''0x0''
      else if sgn x > 0 then ''0x'' @ int_text 16 x
      else ''-0x'' @ drop 1 (int_text 16 x))"

definition hexToBigInt :: "string \<Rightarrow> hex_error + int" where
  "hexToBigInt h =
     (if h = ''0x0'' then Inr 0
      else
        let isNeg = (length h > 1 \<and> h ! 0 = CHR ''-'');
            h1 = (if isNeg then drop 1 h else h);
            h2 = (if has0xPrefix h1 then drop 2 h1 else h1)
        in if h2 = [] then Inl EmptyHex
           else (case set_string 16 h2 of
                   None \<Rightarrow> Inl InvalidHex
                 | Some x \<Rightarrow> Inr (if isNeg then - x else x)))"

definition naiveQuote :: "string \<Rightarrow> string" where
  "naiveQuote i = [CHR 0x22] @ i @ [CHR 0x22]"

definition naiveUnquote :: "string \<Rightarrow> string" where
  "naiveUnquote i =
     (if length i \<ge> 2 \<and> i ! 0 = CHR 0x22 \<and> i ! (length i - 1) = CHR 0x22
      then take (length i - 2) (drop 1 i) else i)"

definition bytesMarshalText :: "byte list \<Rightarrow> string" where
  "bytesMarshalText input = bytesToHex input"

definition bytesMarshalJSON :: "byte list \<Rightarrow> string" where
  "bytesMarshalJSON input = naiveQuote (bytesMarshalText input)"

definition bytesUnmarshalText :: "string \<Rightarrow> byte list \<Rightarrow> byte list \<times> hex_error option" where
  "bytesUnmarshalText input output = hexToBytes input"

definition bytesUnmarshalJSON :: "string \<Rightarrow> byte list \<Rightarrow> byte list \<times> hex_error option" where
  "bytesUnmarshalJSON input output =
     (if input = ''null'' then (output, None) else bytesUnmarshalText (naiveUnquote input) output)"

definition fixedBytesUnmarshalText :: "string \<Rightarrow> byte list \<Rightarrow> byte list \<times> hex_error option" where
  "fixedBytesUnmarshalText input output =
     (case hexToBytes input of
        (data, Some e) \<Rightarrow> (output, Some e)
      | (data, None) \<Rightarrow>
          if length data > length output
          then (output, Some (HexTooLong (length data) (length output)))
          else (take (length output - length data) output @ data, None))"

definition fixedBytesUnmarshalJSON :: "string \<Rightarrow> byte list \<Rightarrow> byte list \<times> hex_error option" where
  "fixedBytesUnmarshalJSON input output =
     (if input = ''null'' then (output, None) else fixedBytesUnmarshalText (naiveUnquote input) output)"

definition numberMarshalText :: "int \<Rightarrow> string" where
  "numberMarshalText input = bigIntToHex input"

definition numberMarshalJSON :: "int \<Rightarrow> string" where
  "numberMarshalJSON input = naiveQuote (numberMarshalText input)"

definition numberUnmarshalText :: "string \<Rightarrow> int \<Rightarrow> int \<times> hex_error option" where
  "numberUnmarshalText input output =
     (case hexToBigInt input of Inl e \<Rightarrow> (output, Some e) | Inr data \<Rightarrow> (data, None))"

definition numberUnmarshalJSON :: "string \<Rightarrow> int \<Rightarrow> int \<times> hex_error option" where
  "numberUnmarshalJSON input output = numberUnmarshalText (naiveUnquote input) output"

subsection \<open>Definitions: Number\<close>

record Number =
  num_x :: int

definition Number_UnmarshalText :: "string \<Rightarrow> Number \<Rightarrow> Number \<times> hex_error option" where
  "Number_UnmarshalText input t =
     (case numberUnmarshalText input (num_x t) of (x, e) \<Rightarrow> (t\<lparr>num_x := x\<rparr>, e))"

definition Number_UnmarshalJSON :: "string \<Rightarrow> Number \<Rightarrow> Number \<times> hex_error option" where
  "Number_UnmarshalJSON input t =
     (case numberUnmarshalJSON input (num_x t) of (x, e) \<Rightarrow> (t\<lparr>num_x := x\<rparr>, e))"

definition HexToNumber :: "string \<Rightarrow> Number" where
  "HexToNumber hex = fst (Number_UnmarshalText hex \<lparr>num_x = 0\<rparr>)"

definition BigToNumber :: "int \<Rightarrow> Number" where
  "BigToNumber x = \<lparr>num_x = x\<rparr>"

definition Uint64ToNumber :: "64 word \<Rightarrow> Number" where
  "Uint64ToNumber x = \<lparr>num_x = uint x\<rparr>"

definition Number_Big :: "Number \<Rightarrow> int" where
  "Number_Big t = num_x t"

definition Number_String :: "Number option \<Rightarrow> string" where
  "Number_String t = (case t of None \<Rightarrow> '''' | Some n \<Rightarrow> ''0x'' @ int_text 16 (Number_Big n))"

definition Number_MarshalJSON :: "Number \<Rightarrow> string" where
  "Number_MarshalJSON t = numberMarshalJSON (Number_Big t)"

definition Number_MarshalText :: "Number \<Rightarrow> string" where
  "Number_MarshalText t = numberMarshalText (Number_Big t)"

subsection \<open>Definitions: BlockNumber\<close>

record BlockNumber =
  blk_x :: int

definition earliestBlockNumber :: int where "earliestBlockNumber = -1"
definition latestBlockNumber :: int where "latestBlockNumber = -2"
definition pendingBlockNumber :: int where "pendingBlockNumber = -3"

text \<open>\<open>big.Int.Int64\<close>: the low 64 bits, read as a signed number.\<close>

definition Int64 :: "int \<Rightarrow> int" where
  "Int64 x = sint (word_of_int x :: 64 word)"

definition Block_Big :: "BlockNumber \<Rightarrow> int" where
  "Block_Big t = blk_x t"

definition IsEarliest :: "BlockNumber \<Rightarrow> bool" where
  "IsEarliest t \<longleftrightarrow> Int64 (Block_Big t) = earliestBlockNumber"

definition IsLatest :: "BlockNumber \<Rightarrow> bool" where
  "IsLatest t \<longleftrightarrow> Int64 (Block_Big t) = latestBlockNumber"

definition IsPending :: "BlockNumber \<Rightarrow> bool" where
  "IsPending t \<longleftrightarrow> Int64 (Block_Big t) = pendingBlockNumber"

definition IsTag :: "BlockNumber \<Rightarrow> bool" where
  "IsTag t \<longleftrightarrow> sgn (Block_Big t) < 0"

definition Block_MarshalText :: "BlockNumber \<Rightarrow> string" where
  "Block_MarshalText t =
     (if IsEarliest t then ''earliest''
      else if IsLatest t then ''latest''
      else if IsPending t then ''pending''
      else bigIntToHex (blk_x t))"

definition Block_MarshalJSON :: "BlockNumber \<Rightarrow> string" where
  "Block_MarshalJSON t = naiveQuote (Block_MarshalText t)"

definition Block_String :: "BlockNumber \<Rightarrow> string" where
  "Block_String t =
     (if IsEarliest t then ''earliest''
      else if IsLatest t then ''latest''
      else if IsPending t then ''pending''
      else ''0x'' @ int_text 16 (blk_x t))"

definition Block_UnmarshalText :: "string \<Rightarrow> BlockNumber \<Rightarrow> BlockNumber \<times> hex_error option" where
  "Block_UnmarshalText input t =
     (let w = TrimSpace input in
      if w = ''earliest'' then (\<lparr>blk_x = earliestBlockNumber\<rparr>, None)
      else if w = ''latest'' then (\<lparr>blk_x = latestBlockNumber\<rparr>, None)
      else if w = ''pending'' then (\<lparr>blk_x = pendingBlockNumber\<rparr>, None)
      else (case hexToBigInt input of
              Inl e \<Rightarrow> (t, Some e)
            | Inr u \<Rightarrow>
                if u > 2 ^ 63 - 1 then (t, Some BlockTooLarge) else (\<lparr>blk_x = u\<rparr>, None)))"

definition Block_UnmarshalJSON :: "string \<Rightarrow> BlockNumber \<Rightarrow> BlockNumber \<times> hex_error option" where
  "Block_UnmarshalJSON input t = Block_UnmarshalText (naiveUnquote input) t"

definition StringToBlockNumber :: "string \<Rightarrow> BlockNumber" where
  "StringToBlockNumber str = fst (Block_UnmarshalText str \<lparr>blk_x = 0\<rparr>)"

definition BigToBlockNumber :: "int \<Rightarrow> BlockNumber" where
  "BigToBlockNumber x = \<lparr>blk_x = x\<rparr>"

definition Uint64ToBlockNumber :: "64 word \<Rightarrow> BlockNumber" where
  "Uint64ToBlockNumber x = \<lparr>blk_x = uint x\<rparr>"

subsection \<open>Definitions: Address, Hash, Nonce, Bloom, Bytes\<close>

type_synonym Address = "byte list"
type_synonym Hash = "byte list"
type_synonym Nonce = "byte list"
type_synonym Bloom = "byte list"

definition AddressLength :: nat where "AddressLength = 20"
definition HashLength :: nat where "HashLength = 32"
definition NonceLength :: nat where "NonceLength = 8"
definition BloomLength :: nat where "BloomLength = 256"

text \<open>The zero value of an array type.\<close>

definition zero_array :: "nat \<Rightarrow> byte list" where
  "zero_array n = replicate n 0"

definition HexToAddress :: "string \<Rightarrow> Address" where
  "HexToAddress hex = fst (fixedBytesUnmarshalText hex (zero_array AddressLength))"

definition BytesToAddress :: "byte list \<Rightarrow> Address" where
  "BytesToAddress bts =
     (let a = zero_array AddressLength in
      if length bts > length a then a else take (AddressLength - length bts) a @ bts)"

definition Address_String :: "Address option \<Rightarrow> string" where
  "Address_String t = (case t of None \<Rightarrow> '''' | Some a \<Rightarrow> bytesToHex a)"

definition Address_MarshalJSON :: "Address \<Rightarrow> string" where
  "Address_MarshalJSON t = bytesMarshalJSON t"

definition Address_UnmarshalJSON :: "string \<Rightarrow> Address \<Rightarrow> Address \<times> hex_error option" where
  "Address_UnmarshalJSON input t = fixedBytesUnmarshalJSON input t"

definition Address_MarshalText :: "Address \<Rightarrow> string" where
  "Address_MarshalText t = bytesMarshalText t"

definition Address_UnmarshalText :: "string \<Rightarrow> Address \<Rightarrow> Address \<times> hex_error option" where
  "Address_UnmarshalText input t = fixedBytesUnmarshalText input t"

definition HexToAddresses :: "string list \<Rightarrow> Address list" where
  "HexToAddresses addresses = map HexToAddress addresses"

definition HexToHash :: "string \<Rightarrow> Hash" where
  "HexToHash hex = fst (fixedBytesUnmarshalText hex (zero_array HashLength))"

definition BytesToHash :: "byte list \<Rightarrow> Hash" where
  "BytesToHash bts =
     (let h = zero_array HashLength in
      if length bts > length h then h else take (HashLength - length bts) h @ bts)"

definition Hash_String :: "Hash option \<Rightarrow> string" where
  "Hash_String t = (case t of None \<Rightarrow> '''' | Some a \<Rightarrow> bytesToHex a)"

definition Hash_MarshalJSON :: "Hash \<Rightarrow> string" where
  "Hash_MarshalJSON t = bytesMarshalJSON t"

definition Hash_UnmarshalJSON :: "string \<Rightarrow> Hash \<Rightarrow> Hash \<times> hex_error option" where
  "Hash_UnmarshalJSON input t = fixedBytesUnmarshalJSON input t"

definition Hash_MarshalText :: "Hash \<Rightarrow> string" where
  "Hash_MarshalText t = bytesMarshalText t"

definition Hash_UnmarshalText :: "string \<Rightarrow> Hash \<Rightarrow> Hash \<times> hex_error option" where
  "Hash_UnmarshalText input t = fixedBytesUnmarshalText input t"

definition HexToHashes :: "string list \<Rightarrow> Hash list" where
  "HexToHashes hashes = map HexToHash hashes"

definition HexToNonce :: "string \<Rightarrow> Nonce" where
  "HexToNonce hex = fst (fixedBytesUnmarshalText hex (zero_array NonceLength))"

definition BytesToNonce :: "byte list \<Rightarrow> Nonce" where
  "BytesToNonce b =
     (let n = zero_array NonceLength in
      if length b > length n then n else take (NonceLength - length b) n @ b)"

definition Nonce_String :: "Nonce option \<Rightarrow> string" where
  "Nonce_String t = (case t of None \<Rightarrow> '''' | Some a \<Rightarrow> bytesToHex a)"

definition Nonce_MarshalJSON :: "Nonce \<Rightarrow> string" where
  "Nonce_MarshalJSON t = bytesMarshalJSON t"

definition Nonce_UnmarshalJSON :: "string \<Rightarrow> Nonce \<Rightarrow> Nonce \<times> hex_error option" where
  "Nonce_UnmarshalJSON input t = fixedBytesUnmarshalJSON input t"

definition Nonce_MarshalText :: "Nonce \<Rightarrow> string" where
  "Nonce_MarshalText t = bytesMarshalText t"

definition Nonce_UnmarshalText :: "string \<Rightarrow> Nonce \<Rightarrow> Nonce \<times> hex_error option" where
  "Nonce_UnmarshalText input t = fixedBytesUnmarshalText input t"

definition BytesToBloom :: "byte list \<Rightarrow> Bloom" where
  "BytesToBloom bts =
     (let b = zero_array BloomLength in
      if length bts > length b then b else take (BloomLength - length bts) b @ bts)"

definition Bloom_String :: "Bloom option \<Rightarrow> string" where
  "Bloom_String t = (case t of None \<Rightarrow> '''' | Some a \<Rightarrow> bytesToHex a)"

definition Bloom_MarshalJSON :: "Bloom \<Rightarrow> string" where
  "Bloom_MarshalJSON t = bytesMarshalJSON t"

definition Bloom_UnmarshalJSON :: "string \<Rightarrow> Bloom \<Rightarrow> Bloom \<times> hex_error option" where
  "Bloom_UnmarshalJSON input t = fixedBytesUnmarshalJSON input t"

definition Bloom_MarshalText :: "Bloom \<Rightarrow> string" where
  "Bloom_MarshalText t = bytesMarshalText t"

definition Bloom_UnmarshalText :: "string \<Rightarrow> Bloom \<Rightarrow> Bloom \<times> hex_error option" where
  "Bloom_UnmarshalText input t = fixedBytesUnmarshalText input t"

definition HexToBytes :: "string \<Rightarrow> byte list" where
  "HexToBytes hex = fst (bytesUnmarshalText hex [])"

definition Bytes_String :: "byte list option \<Rightarrow> string" where
  "Bytes_String t = (case t of None \<Rightarrow> '''' | Some b \<Rightarrow> bytesToHex b)"

definition Bytes_MarshalJSON :: "byte list \<Rightarrow> string" where
  "Bytes_MarshalJSON t = bytesMarshalJSON t"

definition Bytes_UnmarshalJSON :: "string \<Rightarrow> byte list \<Rightarrow> byte list \<times> hex_error option" where
  "Bytes_UnmarshalJSON input t = bytesUnmarshalJSON input t"

definition Bytes_MarshalText :: "byte list \<Rightarrow> string" where
  "Bytes_MarshalText t = bytesMarshalText t"

definition Bytes_UnmarshalText :: "string \<Rightarrow> byte list \<Rightarrow> byte list \<times> hex_error option" where
  "Bytes_UnmarshalText input t = bytesUnmarshalText input t"

subsection \<open>Lemmas: hexadecimal text\<close>

lemmas types_defs =
  bytesMarshalText_def bytesMarshalJSON_def bytesUnmarshalText_def bytesUnmarshalJSON_def
  fixedBytesUnmarshalJSON_def numberMarshalText_def numberMarshalJSON_def
  numberUnmarshalText_def numberUnmarshalJSON_def

lemma nibbles_val:
  assumes "a < 16" "b < 16"
  shows "push_bit 4 (word_of_nat a) OR word_of_nat b = (word_of_nat (a * 16 + b) :: byte)"
proof -
  have "\<forall>a \<in> set [0..<16]. \<forall>b \<in> set [0..<16].
     push_bit 4 (word_of_nat a) OR word_of_nat b = (word_of_nat (a * 16 + b) :: byte)"
    by code_simp
  with assms show ?thesis by simp
qed

lemma byte_nibbles: "unat (b :: byte) div 16 < 16" "unat b mod 16 < 16"
  using unsigned_less [where 'a = nat, of b] by (simp_all add: less_mult_imp_div_less)

lemma nibbles_byte: "push_bit 4 (word_of_nat (unat b div 16)) OR word_of_nat (unat b mod 16) = (b :: byte)"
  by (simp add: nibbles_val byte_nibbles div_mult_mod_eq)

lemma hex_roundtrip [go_text]: "hex_Decode (hex_Encode b) = (b, None)"
proof (induction b)
  case (Cons b bs)
  then show ?case by (simp add: go_text nibbles_byte byte_nibbles)
qed simp

lemma even_length_hex_Encode [simp]: "even (length (hex_Encode b))"
  by (induction b) auto

lemma hexToBytes_bytesToHex [go_text]: "hexToBytes (bytesToHex b) = (b, None)"
proof -
  have "bytesToHex b \<noteq> ''0x0''"
  proof
    assume "bytesToHex b = ''0x0''"
    then have "hex_Encode b = ''0''" by (simp add: bytesToHex_def)
    then show False using even_length_hex_Encode [of b] by simp
  qed
  then show ?thesis
    by (simp add: hexToBytes_def has0xPrefix_def bytesToHex_def hex_roundtrip)
qed

lemma naiveUnquote_Quote [simp, go_text]: "naiveUnquote (naiveQuote s) = s"
  by (simp add: naiveUnquote_def naiveQuote_def nth_append)

lemma naiveQuote_not_null [simp]: "naiveQuote s \<noteq> ''null''"
  by (simp add: naiveQuote_def)

lemma hexToBigInt_bigIntToHex [go_text]: "hexToBigInt (bigIntToHex x) = Inr x"
proof (cases "x = 0")
  case True
  then show ?thesis by (simp add: hexToBigInt_def bigIntToHex_def)
next
  case False
  define t where "t = nat_text 16 (nat \<bar>x\<bar>)"
  have t: "set_string 16 t = Some \<bar>x\<bar>"
    using set_string_text [of 16 "\<bar>x\<bar>"] by (simp add: int_text_def t_def)
  have ne: "t \<noteq> []" "t \<noteq> ''0''"
    using False t by (auto simp: t_def set_string_def nat_parse_def digit_in_def digit_val_def)
  have "bigIntToHex x = (if x < 0 then ''-0x'' @ t else ''0x'' @ t)"
    using False by (simp add: bigIntToHex_def int_text_def t_def sgn_if)
  then show ?thesis using False t ne by (simp add: hexToBigInt_def has0xPrefix_def)
qed

lemma digit_in_less: "digit_in b c = Some d \<Longrightarrow> d < b"
  by (auto simp: digit_in_def split: option.splits if_splits)

lemma SetBytes_Cons: "SetBytes (b # bs) = unat b * 256 ^ length bs + SetBytes bs"
  by (induction bs rule: rev_induct) (simp_all add: SetBytes_def algebra_simps)

lemma hex_Decode_value:
  "even (length ds) \<Longrightarrow> nat_parse_from 16 0 ds = Some v \<Longrightarrow>
   \<exists>r. hex_Decode ds = (r, None) \<and> SetBytes r = v \<and> 2 * length r = length ds"
proof (induction ds arbitrary: v rule: hex_Decode.induct)
  case (1 p q h)
  then obtain a b where ab: "digit_in 16 p = Some a" "digit_in 16 q = Some b"
    and v: "nat_parse_from 16 (a * 16 + b) h = Some v" by (auto split: option.splits)
  then obtain k where k: "nat_parse_from 16 0 h = Some k" "v = (a * 16 + b) * 16 ^ length h + k"
    using nat_parse_from_value [of 16 "a * 16 + b" h] by auto
  have less: "a < 16" "b < 16" using ab digit_in_less by blast+
  have "even (length h)" using 1 by simp
  from 1(1) [OF ab this k(1)]
  obtain r where r: "hex_Decode h = (r, None)" "SetBytes r = k" "2 * length r = length h" by blast
  have "unat (word_of_nat (a * 16 + b) :: byte) = a * 16 + b"
    using less by (simp add: unat_of_nat del: of_nat_add of_nat_mult)
  moreover have "(256 :: nat) ^ length r = 16 ^ length h"
    using r(3) power_mult [of "16 :: nat" 2 "length r"] by simp
  ultimately show ?case using ab r k less by (simp add: nibbles_val SetBytes_Cons)
qed auto

lemma hexToBytes_value:
  assumes "nat_parse 16 ds = Some v"
  shows "\<exists>r. hexToBytes (''0x'' @ ds) = (r, None) \<and> SetBytes r = v \<and> length r = (length ds + 1) div 2"
proof (cases "ds = ''0''")
  case True
  with assms show ?thesis
    by (auto simp: hexToBytes_def nat_parse_def digit_in_def digit_val_def SetBytes_def)
next
  case False
  define es where "es = (if odd (length ds) then CHR ''0'' # ds else ds)"
  have even_es: "even (length es)" by (simp add: es_def)
  have "nat_parse_from 16 0 es = Some v"
    using assms by (auto simp: es_def nat_parse_def digit_in_def digit_val_def split: if_splits)
  then obtain r where r: "hex_Decode es = (r, None)" "SetBytes r = v" "2 * length r = length es"
    using hex_Decode_value [of es v] even_es by auto
  moreover have "hexToBytes (''0x'' @ ds) = hex_Decode es"
    using False by (simp add: hexToBytes_def has0xPrefix_def es_def)
  moreover have "length es = (if odd (length ds) then length ds + 1 else length ds)"
    by (simp add: es_def)
  ultimately show ?thesis by (auto split: if_splits)
qed

lemma set_string_digits: "nat_parse 16 ds = Some v \<Longrightarrow> set_string 16 ds = Some (int v)"
  by (cases ds) (auto simp: set_string_def nat_parse_def digit_in_def digit_val_def split: if_splits)

lemma hexToBigInt_value: "nat_parse 16 ds = Some v \<Longrightarrow> hexToBigInt (''0x'' @ ds) = Inr (int v)"
proof -
  assume a: "nat_parse 16 ds = Some v"
  then have "ds \<noteq> []" by (auto simp: nat_parse_def)
  moreover from a have "v = 0" if "ds = ''0''"
    using that by (simp add: nat_parse_def digit_in_def digit_val_def)
  ultimately show ?thesis using set_string_digits [OF a]
    by (auto simp: hexToBigInt_def has0xPrefix_def)
qed

subsection \<open>Lemmas: block numbers\<close>

lemma Int64_id: "- (2 ^ 63) \<le> x \<Longrightarrow> x < 2 ^ 63 \<Longrightarrow> Int64 x = x"
  by (simp add: Int64_def int_word_sint)

lemma TrimSpace_Cons: "\<not> is_space c \<Longrightarrow> \<exists>t. TrimSpace (c # s) = c # t"
  by (simp add: TrimSpace_def dropWhile_append3)

lemma Block_UnmarshalText_hex:
  assumes "s = CHR ''0'' # t \<or> s = CHR ''-'' # t"
  shows "Block_UnmarshalText s b =
    (case hexToBigInt s of Inl e \<Rightarrow> (b, Some e)
     | Inr u \<Rightarrow> if u > 2 ^ 63 - 1 then (b, Some BlockTooLarge) else (\<lparr>blk_x = u\<rparr>, None))"
proof -
  have "\<exists>t'. TrimSpace s = CHR ''0'' # t' \<or> TrimSpace s = CHR ''-'' # t'"
    using assms TrimSpace_Cons [of "CHR ''0''" t] TrimSpace_Cons [of "CHR ''-''" t]
    by (auto simp: is_space_def)
  then show ?thesis by (auto simp: Block_UnmarshalText_def Let_def)
qed

lemma bigIntToHex_head: "\<exists>t. bigIntToHex x = CHR ''0'' # t \<or> bigIntToHex x = CHR ''-'' # t"
  by (simp add: bigIntToHex_def)

lemma Block_text_roundtrip:
  assumes "- (2 ^ 63) \<le> x" "x < 2 ^ 63"
  shows "Block_UnmarshalText (Block_MarshalText \<lparr>blk_x = x\<rparr>) b = (\<lparr>blk_x = x\<rparr>, None)"
proof -
  have tags: "IsEarliest \<lparr>blk_x = x\<rparr> \<longleftrightarrow> x = -1" "IsLatest \<lparr>blk_x = x\<rparr> \<longleftrightarrow> x = -2"
    "IsPending \<lparr>blk_x = x\<rparr> \<longleftrightarrow> x = -3"
    using Int64_id [OF assms]
    by (simp_all add: IsEarliest_def IsLatest_def IsPending_def Block_Big_def
        earliestBlockNumber_def latestBlockNumber_def pendingBlockNumber_def)
  have trim: "TrimSpace ''earliest'' = ''earliest''" "TrimSpace ''latest'' = ''latest''"
    "TrimSpace ''pending'' = ''pending''" by code_simp+
  obtain t where "bigIntToHex x = CHR ''0'' # t \<or> bigIntToHex x = CHR ''-'' # t"
    using bigIntToHex_head by blast
  from Block_UnmarshalText_hex [OF this, of b] assms
  have hex: "Block_UnmarshalText (bigIntToHex x) b = (\<lparr>blk_x = x\<rparr>, None)"
    by (simp add: hexToBigInt_bigIntToHex)
  have "Block_MarshalText \<lparr>blk_x = x\<rparr> =
    (if x = -1 then ''earliest'' else if x = -2 then ''latest'' else if x = -3 then ''pending'' else bigIntToHex x)"
    by (simp only: Block_MarshalText_def tags BlockNumber.simps)
  then show ?thesis
    by (auto simp: hex) (simp_all add: Block_UnmarshalText_def trim
      earliestBlockNumber_def latestBlockNumber_def pendingBlockNumber_def)
qed

subsection \<open>The contract of the fixed-size types\<close>

lemma fixedBytes_length: "length (fst (fixedBytesUnmarshalText i t)) = length t"
  by (auto simp: fixedBytesUnmarshalText_def split: prod.splits option.splits)

lemma fixedBytes_error: "snd (fixedBytesUnmarshalText i t) \<noteq> None \<Longrightarrow> fst (fixedBytesUnmarshalText i t) = t"
  by (auto simp: fixedBytesUnmarshalText_def split: prod.splits option.splits if_splits)

lemma fixedBytes_roundtrip:
  "length t = length old \<Longrightarrow> fixedBytesUnmarshalText (bytesToHex t) old = (t, None)"
  by (simp add: fixedBytesUnmarshalText_def hexToBytes_bytesToHex)

lemma zero_array_pad:
  "take (n - length b) (zero_array n) @ b = replicate (n - length b) 0 @ b"
  by (simp add: zero_array_def take_replicate)

text \<open>
  A fixed-size array type of \<open>n\<close> bytes with its text and JSON methods: the laws say what
  text is written, that reading it back restores the bytes whatever the receiver held, that
  reading never changes the size and leaves the receiver alone on an error.
\<close>

locale fixed_bytes =
  fixes n :: nat
    and from_bytes :: "byte list \<Rightarrow> byte list"
    and to_string :: "byte list option \<Rightarrow> string"
    and marshal_text :: "byte list \<Rightarrow> string"
    and unmarshal_text :: "string \<Rightarrow> byte list \<Rightarrow> byte list \<times> hex_error option"
    and marshal_json :: "byte list \<Rightarrow> string"
    and unmarshal_json :: "string \<Rightarrow> byte list \<Rightarrow> byte list \<times> hex_error option"
  assumes from_bytes: "from_bytes b = (if length b > n then replicate n 0 else replicate (n - length b) 0 @ b)"
    and to_string: "to_string (Some t) = marshal_text t"
    and text_roundtrip: "length t = n \<Longrightarrow> length old = n \<Longrightarrow> unmarshal_text (marshal_text t) old = (t, None)"
    and text_length: "length (fst (unmarshal_text i t)) = length t"
    and text_error: "snd (unmarshal_text i t) \<noteq> None \<Longrightarrow> fst (unmarshal_text i t) = t"
    and json_text: "marshal_json t = naiveQuote (marshal_text t)"
    and json_null: "unmarshal_json ''null'' t = (t, None)"
    and json_quoted: "i \<noteq> ''null'' \<Longrightarrow> unmarshal_json i t = unmarshal_text (naiveUnquote i) t"
begin

lemma json_roundtrip: "length t = n \<Longrightarrow> length old = n \<Longrightarrow> unmarshal_json (marshal_json t) old = (t, None)"
  by (simp add: json_quoted json_text text_roundtrip)

lemma json_length: "length (fst (unmarshal_json i t)) = length t"
  by (cases "i = ''null''") (simp_all add: json_null json_quoted text_length)

lemma json_error: "snd (unmarshal_json i t) \<noteq> None \<Longrightarrow> fst (unmarshal_json i t) = t"
  by (cases "i = ''null''") (simp_all add: json_null json_quoted text_error)

lemma from_bytes_length: "length (from_bytes b) = n"
  by (simp add: from_bytes)

lemma from_bytes_value: "length b \<le> n \<Longrightarrow> SetBytes (from_bytes b) = SetBytes b"
proof -
  have "SetBytes (replicate k 0 @ b) = SetBytes b" for k
    by (induction k) (simp_all add: SetBytes_Cons)
  then show "length b \<le> n \<Longrightarrow> SetBytes (from_bytes b) = SetBytes b" by (simp add: from_bytes)
qed

text \<open>A value read from any sequence of JSON documents keeps its size.\<close>

lemma json_sequence_length: "length (foldl (\<lambda>t i. fst (unmarshal_json i t)) t is) = length t"
  by (induction "is" arbitrary: t) (simp_all add: json_length)

lemma methods_agree:
  assumes "length t = n" "length old = n"
  shows "unmarshal_text (to_string (Some t)) old = (t, None)"
    "unmarshal_json (marshal_json t) old = (t, None)"
    "from_bytes t = t"
  using assms by (simp_all add: to_string text_roundtrip json_roundtrip from_bytes)

end

interpretation address: fixed_bytes AddressLength BytesToAddress Address_String
    Address_MarshalText Address_UnmarshalText Address_MarshalJSON Address_UnmarshalJSON
  by unfold_locales
    (simp_all add: Address_MarshalText_def Address_UnmarshalText_def Address_MarshalJSON_def
      Address_UnmarshalJSON_def Address_String_def BytesToAddress_def types_defs Let_def
      zero_array_pad fixedBytes_length fixedBytes_error fixedBytes_roundtrip, simp_all add: zero_array_def)

interpretation hash: fixed_bytes HashLength BytesToHash Hash_String
    Hash_MarshalText Hash_UnmarshalText Hash_MarshalJSON Hash_UnmarshalJSON
  by unfold_locales
    (simp_all add: Hash_MarshalText_def Hash_UnmarshalText_def Hash_MarshalJSON_def
      Hash_UnmarshalJSON_def Hash_String_def BytesToHash_def types_defs Let_def
      zero_array_pad fixedBytes_length fixedBytes_error fixedBytes_roundtrip, simp_all add: zero_array_def)

interpretation nonce: fixed_bytes NonceLength BytesToNonce Nonce_String
    Nonce_MarshalText Nonce_UnmarshalText Nonce_MarshalJSON Nonce_UnmarshalJSON
  by unfold_locales
    (simp_all add: Nonce_MarshalText_def Nonce_UnmarshalText_def Nonce_MarshalJSON_def
      Nonce_UnmarshalJSON_def Nonce_String_def BytesToNonce_def types_defs Let_def
      zero_array_pad fixedBytes_length fixedBytes_error fixedBytes_roundtrip, simp_all add: zero_array_def)

interpretation bloom: fixed_bytes BloomLength BytesToBloom Bloom_String
    Bloom_MarshalText Bloom_UnmarshalText Bloom_MarshalJSON Bloom_UnmarshalJSON
  by unfold_locales
    (simp_all add: Bloom_MarshalText_def Bloom_UnmarshalText_def Bloom_MarshalJSON_def
      Bloom_UnmarshalJSON_def Bloom_String_def BytesToBloom_def types_defs Let_def
      zero_array_pad fixedBytes_length fixedBytes_error fixedBytes_roundtrip, simp_all add: zero_array_def)

subsection \<open>Properties\<close>

text \<open>
  The text and JSON forms of numbers (of any sign and size) and of byte strings are
  read back unchanged, whatever the receiver held before.
\<close>

theorem number_and_bytes_roundtrip:
  "Number_UnmarshalText (Number_MarshalText x) n = (n\<lparr>num_x := num_x x\<rparr>, None) \<and>
   Number_UnmarshalJSON (Number_MarshalJSON x) n = (n\<lparr>num_x := num_x x\<rparr>, None) \<and>
   Bytes_UnmarshalText (Bytes_MarshalText b) old = (b, None) \<and>
   Bytes_UnmarshalJSON (Bytes_MarshalJSON b) old = (b, None)"
  by (simp add: Number_UnmarshalText_def Number_MarshalText_def Number_UnmarshalJSON_def
      Number_MarshalJSON_def Bytes_UnmarshalText_def Bytes_MarshalText_def Bytes_UnmarshalJSON_def
      Bytes_MarshalJSON_def Number_Big_def types_defs go_text)

text \<open>
  Addresses, hashes, nonces and blooms of their size are read back unchanged from their
  text and their JSON form, and the conversion from bytes keeps them.
\<close>

theorem fixed_types_roundtrip:
  assumes "length a = AddressLength" "length a' = AddressLength" "length h = HashLength"
    "length h' = HashLength" "length n = NonceLength" "length n' = NonceLength"
    "length b = BloomLength" "length b' = BloomLength"
  shows "Address_UnmarshalText (Address_String (Some a)) a' = (a, None) \<and>
    Address_UnmarshalJSON (Address_MarshalJSON a) a' = (a, None) \<and> BytesToAddress a = a \<and>
    Hash_UnmarshalText (Hash_String (Some h)) h' = (h, None) \<and>
    Hash_UnmarshalJSON (Hash_MarshalJSON h) h' = (h, None) \<and> BytesToHash h = h \<and>
    Nonce_UnmarshalText (Nonce_String (Some n)) n' = (n, None) \<and>
    Nonce_UnmarshalJSON (Nonce_MarshalJSON n) n' = (n, None) \<and> BytesToNonce n = n \<and>
    Bloom_UnmarshalText (Bloom_String (Some b)) b' = (b, None) \<and>
    Bloom_UnmarshalJSON (Bloom_MarshalJSON b) b' = (b, None) \<and> BytesToBloom b = b"
  by (intro conjI) (simp_all only: address.methods_agree [OF assms(1,2)] hash.methods_agree [OF assms(3,4)]
      nonce.methods_agree [OF assms(5,6)] bloom.methods_agree [OF assms(7,8)])

theorem fixed_types_roundtrip_witness:
  "Address_UnmarshalJSON (Address_MarshalJSON (replicate AddressLength 7)) (replicate AddressLength 1)
     = (replicate AddressLength 7, None)"
  using fixed_types_roundtrip [of "replicate AddressLength 7" "replicate AddressLength 1"
      "replicate HashLength 0" "replicate HashLength 0" "replicate NonceLength 0"
      "replicate NonceLength 0" "replicate BloomLength 0" "replicate BloomLength 0"]
  by (simp only: length_replicate simp_thms)

text \<open>
  The two hexadecimal decoders agree: on any non-empty digit string \<open>hexToBigInt\<close> gives
  its value and \<open>hexToBytes\<close> gives half as many bytes, rounded up, that denote the same value.
\<close>

theorem hex_decoders_agree:
  assumes "nat_parse 16 ds = Some v"
  shows "hexToBigInt (''0x'' @ ds) = Inr (int v) \<and>
    snd (hexToBytes (''0x'' @ ds)) = None \<and>
    SetBytes (fst (hexToBytes (''0x'' @ ds))) = v \<and>
    length (fst (hexToBytes (''0x'' @ ds))) = (length ds + 1) div 2"
  using hexToBigInt_value [OF assms] hexToBytes_value [OF assms] by auto

theorem hex_decoders_agree_witness:
  "hexToBigInt ''0x1Ff'' = Inr 511 \<and> fst (hexToBytes ''0x1Ff'') = [1, 255]"
proof -
  have p: "nat_parse 16 ''1Ff'' = Some 511" by code_simp
  have "fst (hexToBytes ''0x1Ff'') = [1, 255]" by code_simp
  with hex_decoders_agree [OF p] show ?thesis by simp
qed

text \<open>
  A block number in the range of \<open>int64\<close>, a tag or not, is read back unchanged from its
  text and JSON form, and a number that is not negative is no tag.
\<close>

theorem block_number_roundtrip:
  assumes "- (2 ^ 63) \<le> x" "x < 2 ^ 63"
  shows "Block_UnmarshalText (Block_MarshalText (BigToBlockNumber x)) b = (BigToBlockNumber x, None) \<and>
    Block_UnmarshalJSON (Block_MarshalJSON (BigToBlockNumber x)) b = (BigToBlockNumber x, None) \<and>
    StringToBlockNumber (Block_MarshalText (BigToBlockNumber x)) = BigToBlockNumber x \<and>
    (IsTag (BigToBlockNumber x) \<longleftrightarrow> x < 0)"
  using Block_text_roundtrip [OF assms]
  by (simp add: BigToBlockNumber_def Block_UnmarshalJSON_def Block_MarshalJSON_def
      StringToBlockNumber_def IsTag_def Block_Big_def)

theorem block_number_roundtrip_witness:
  "Block_UnmarshalJSON (Block_MarshalJSON (BigToBlockNumber (-2))) \<lparr>blk_x = 5\<rparr> = (\<lparr>blk_x = -2\<rparr>, None)"
  using block_number_roundtrip [of "-2" "\<lparr>blk_x = 5\<rparr>"] by (simp add: BigToBlockNumber_def)

text \<open>
  Reading into a fixed-size array never changes its size; on an error the array is as it
  was; decoded data shorter than the array replaces its end only, so the bytes before it
  keep the old contents and are zero only when they were.
\<close>

theorem fixed_bytes_overwrites_suffix:
  "length (fst (fixedBytesUnmarshalText i t)) = length t \<and>
   (case fixedBytesUnmarshalText i t of
      (t', Some e) \<Rightarrow> t' = t
    | (t', None) \<Rightarrow> \<exists>data. hexToBytes i = (data, None) \<and> length data \<le> length t \<and>
        t' = take (length t - length data) t @ data)"
  by (auto simp: fixedBytesUnmarshalText_def split: prod.splits option.splits)

text \<open>
  The sign may stand where the format has none: after the prefix, or twice. A second sign
  turns a number with a leading minus into a positive one.
\<close>

lemma hexToBigInt_accepts_inner_sign:
  "hexToBigInt ''0x-5'' = Inr (-5)" "hexToBigInt ''-0x-5'' = Inr 5" "hexToBigInt ''--5'' = Inr 5"
  by code_simp+

text \<open>A reused address keeps the high bytes of its old value.\<close>

lemma Address_stale_prefix:
  "Address_UnmarshalJSON (naiveQuote ''0x01'') (replicate 20 7) = (replicate 19 7 @ [1], None)"
  by code_simp

text \<open>\<open>Number.String\<close> puts the sign of a negative number after the prefix, \<open>MarshalText\<close> before.\<close>

lemma Number_String_sign:
  "Number_String (Some \<lparr>num_x = -5\<rparr>) = ''0x-5''" "Number_MarshalText \<lparr>num_x = -5\<rparr> = ''-0x5''"
  by code_simp+

text \<open>A large number is taken for a tag, because only its low 64 bits are looked at.\<close>

lemma huge_number_is_latest:
  "IsLatest (BigToBlockNumber (2 ^ 64 - 2))" "Block_MarshalText (BigToBlockNumber (2 ^ 64 - 2)) = ''latest''"
  by code_simp+

end
