(* ===== verification/Rpc_Resolver.thy ===== *)
theory Rpc_Resolver
  imports Rpc_Errors Rpc_Types
begin

text \<open>
  \<open>src/rpcsplitter/resolver.go\<close>: the three resolvers that turn the responses of the
  endpoints into one. A response is an error, a \<open>*types.Number\<close> or another value; the
  identity of a number's pointer is dropped, since \<open>compare\<close> does not depend on it
  (\<open>compare_number\<close>, \<open>compare_ptr\<close>). A resolver returns \<open>Panic\<close> where the code indexes
  an empty slice.

  The locale \<open>votes\<close> proves what the counting loop of \<open>defaultResolver\<close> computes for any
  equivalence of responses and is interpreted on \<open>compare\<close>; the locale \<open>resolver_contract\<close>
  is what the server relies on and is interpreted on all three resolvers.
\<close>

subsection \<open>Definitions\<close>

datatype resp = RErr rpc_err | RNum Number | RVal gval

definition resp_gval :: "resp \<Rightarrow> gval" where
  "resp_gval r = (case r of
       RErr _ \<Rightarrow> GInvalid
     | RNum n \<Rightarrow> number_gval (nat \<bar>num_x n\<bar>) (num_x n)
     | RVal v \<Rightarrow> v)"

definition compare_resp :: "resp \<Rightarrow> resp \<Rightarrow> bool" where
  "compare_resp a b = compare (resp_gval a) (resp_gval b)"

definition errNotEnoughResponses :: rpc_err where
  "errNotEnoughResponses =
     \<lparr>err_msg = ''not enough responses from RPC servers'', err_code = None, err_data = None\<rparr>"

definition errDifferentResponses :: rpc_err where
  "errDifferentResponses =
     \<lparr>err_msg = ''RPC servers returned different responses'', err_code = None, err_data = None\<rparr>"

fun extractErrors_loop :: "resp list \<Rightarrow> rpc_err list \<Rightarrow> resp list \<Rightarrow> resp list \<times> rpc_err list" where
  "extractErrors_loop filtered errs [] = (filtered, errs)"
| "extractErrors_loop filtered errs (r # resps) =
     (case r of
        RErr e \<Rightarrow> extractErrors_loop filtered (errs @ [e]) resps
      | _ \<Rightarrow> extractErrors_loop (filtered @ [r]) errs resps)"

definition extractErrors :: "resp list \<Rightarrow> resp list \<times> rpc_err list" where
  "extractErrors resps = extractErrors_loop [] [] resps"

fun filterNumber_loop :: "Number list \<Rightarrow> resp list \<Rightarrow> Number list" where
  "filterNumber_loop s [] = s"
| "filterNumber_loop s (r # resps) =
     (case r of RNum t \<Rightarrow> filterNumber_loop (s @ [t]) resps | _ \<Rightarrow> filterNumber_loop s resps)"

definition filterByNumberType :: "resp list \<Rightarrow> Number list" where
  "filterByNumberType resps = filterNumber_loop [] resps"

definition bigToNumberPtr :: "int \<Rightarrow> resp" where
  "bigToNumberPtr x = RNum (BigToNumber x)"

type_synonym resolved = "(rpc_err list + resp) go"

record defaultResolver =
  dr_minResponses :: int

fun count_equal :: "('a \<Rightarrow> 'a \<Rightarrow> bool) \<Rightarrow> 'a \<Rightarrow> nat \<Rightarrow> 'a list \<Rightarrow> nat" where
  "count_equal eq a counter [] = counter"
| "count_equal eq a counter (b # resps) = count_equal eq a (if eq a b then counter + 1 else counter) resps"

text \<open>The loop over the responses: the most common one so far, its count, and \<open>multiple\<close>.\<close>

fun most_common_loop :: "('a \<Rightarrow> 'a \<Rightarrow> bool) \<Rightarrow> 'a list \<Rightarrow> 'a \<Rightarrow> nat \<Rightarrow> bool \<Rightarrow> 'a list \<Rightarrow> 'a \<times> nat \<times> bool" where
  "most_common_loop eq resps mostCommonResp mostCommonCounter multiple [] =
     (mostCommonResp, mostCommonCounter, multiple)"
| "most_common_loop eq resps mostCommonResp mostCommonCounter multiple (a # as) =
     (let counter = count_equal eq a 0 resps;
          (resp1, counter1, multiple1) =
            (if counter > mostCommonCounter then (a, counter, False)
             else (mostCommonResp, mostCommonCounter, multiple));
          multiple2 = (if counter = counter1 \<and> \<not> eq resp1 a then True else multiple1)
      in most_common_loop eq resps resp1 counter1 multiple2 as)"

definition default_resolve :: "defaultResolver \<Rightarrow> resp list \<Rightarrow> resolved" where
  "default_resolve r resps0 =
     (case extractErrors resps0 of (resps, errs) \<Rightarrow>
        if int (length resps) < dr_minResponses r
        then Ret (Inl (addError (Some (SingleError errNotEnoughResponses)) (map Some errs)))
        else (case resps of
            [] \<Rightarrow> Panic ''index out of range''
          | [x] \<Rightarrow> Ret (Inr x)
          | x # _ \<Rightarrow>
              (case most_common_loop compare_resp resps x 0 False resps of
                 (mostCommonResp, mostCommonCounter, multiple) \<Rightarrow>
                   if multiple \<or> int mostCommonCounter < dr_minResponses r
                   then Ret (Inl (addError (Some (SingleError errDifferentResponses)) (map Some errs)))
                   else Ret (Inr mostCommonResp))))"

record gasValueResolver =
  gr_minResponses :: int

definition gas_resolve :: "gasValueResolver \<Rightarrow> resp list \<Rightarrow> resolved" where
  "gas_resolve r resps0 =
     (case extractErrors resps0 of (resps, errs) \<Rightarrow>
        let ns = filterByNumberType resps in
        if int (length ns) < gr_minResponses r
        then Ret (Inl (addError (Some (SingleError errNotEnoughResponses)) (map Some errs)))
        else if length ns = 1 then Ret (Inr (resps ! 0))
        else if length ns = 2 then
          (let a = Number_Big (ns ! 0); b = Number_Big (ns ! 1) in
           if go_cmp a b > 0 then Ret (Inr (bigToNumberPtr b)) else Ret (Inr (bigToNumberPtr a)))
        else
          (let ns1 = sort_key Number_Big ns in
           if even (length ns1) then
             (let m = length ns1 div 2 in
              if m = 0 then Panic ''index out of range''
              else Ret (Inr (bigToNumberPtr (EDiv (Number_Big (ns1 ! (m - 1)) + Number_Big (ns1 ! m)) 2))))
           else Ret (Inr (RNum (ns1 ! (length ns1 div 2))))))"

record blockNumberResolver =
  br_minResponses :: int
  br_maxBlocksBehind :: int

fun high_loop :: "int \<Rightarrow> Number list \<Rightarrow> int" where
  "high_loop high [] = high"
| "high_loop high (n # ns) =
     (let nb = Number_Big n in high_loop (if go_cmp high nb < 0 then nb else high) ns)"

fun block_loop :: "int \<Rightarrow> int \<Rightarrow> int \<Rightarrow> Number list \<Rightarrow> int" where
  "block_loop high behind block [] = block"
| "block_loop high behind block (n # ns) =
     (let nb = Number_Big n in
      block_loop high behind
        (if go_cmp (high - nb) behind \<le> 0 \<and> go_cmp nb block < 0 then nb else block) ns)"

definition block_resolve :: "blockNumberResolver \<Rightarrow> resp list \<Rightarrow> resolved" where
  "block_resolve r resps0 =
     (case extractErrors resps0 of (resps, errs) \<Rightarrow>
        let ns = filterByNumberType resps in
        if int (length ns) < br_minResponses r
        then Ret (Inl (addError (Some (SingleError errNotEnoughResponses)) (map Some errs)))
        else if length ns = 1 then Ret (Inr (RNum (ns ! 0)))
        else (case ns of
            [] \<Rightarrow> Panic ''index out of range''
          | n # _ \<Rightarrow>
              let high = high_loop (Number_Big n) ns in
              Ret (Inr (bigToNumberPtr (block_loop high (br_maxBlocksBehind r) high ns)))))"

subsection \<open>Lemmas: splitting responses\<close>

definition is_err :: "resp \<Rightarrow> bool" where
  "is_err r = (case r of RErr _ \<Rightarrow> True | _ \<Rightarrow> False)"

definition vals :: "resp list \<Rightarrow> resp list" where
  "vals rs = filter (\<lambda>r. \<not> is_err r) rs"

definition errs_of :: "resp list \<Rightarrow> rpc_err list" where
  "errs_of rs = List.map_filter (\<lambda>r. case r of RErr e \<Rightarrow> Some e | _ \<Rightarrow> None) rs"

definition nums :: "resp list \<Rightarrow> int list" where
  "nums rs = List.map_filter (\<lambda>r. case r of RNum n \<Rightarrow> Some (num_x n) | _ \<Rightarrow> None) rs"

lemma extractErrors_loop_eq: "extractErrors_loop vs es rs = (vs @ vals rs, es @ errs_of rs)"
  by (induction vs es rs rule: extractErrors_loop.induct)
    (auto simp: vals_def errs_of_def is_err_def List.map_filter_def split: resp.splits)

lemma extractErrors_eq: "extractErrors rs = (vals rs, errs_of rs)"
  by (simp add: extractErrors_def extractErrors_loop_eq)

lemma filterNumber_loop_eq: "map num_x (filterNumber_loop s rs) = map num_x s @ nums rs"
  by (induction s rs rule: filterNumber_loop.induct)
    (auto simp: nums_def List.map_filter_def split: resp.splits)

lemma filterByNumberType_eq: "map num_x (filterByNumberType rs) = nums rs"
  by (simp add: filterByNumberType_def filterNumber_loop_eq)

lemma nums_vals: "nums (vals rs) = nums rs"
  by (induction rs) (auto simp: nums_def vals_def is_err_def List.map_filter_def split: resp.splits)

lemma length_nums: "length (filterByNumberType (vals rs)) = length (nums rs)"
  using filterByNumberType_eq [of "vals rs"] nums_vals by (metis length_map)

lemma nth_nums:
  "i < length (nums rs) \<Longrightarrow> num_x (filterByNumberType (vals rs) ! i) = nums rs ! i"
  using filterByNumberType_eq [of "vals rs"] nums_vals by (metis length_map nth_map)

lemma nums_le_vals: "length (nums rs) \<le> length (vals rs)"
  by (induction rs) (auto simp: nums_def vals_def is_err_def List.map_filter_def split: resp.splits)

subsection \<open>Counting votes\<close>

definition votes_for :: "('a \<Rightarrow> 'a \<Rightarrow> bool) \<Rightarrow> 'a list \<Rightarrow> 'a \<Rightarrow> nat" where
  "votes_for eq rs a = length (filter (eq a) rs)"

text \<open>\<open>w\<close> has at least \<open>m\<close> votes and more than any response different from it.\<close>

definition winner :: "('a \<Rightarrow> 'a \<Rightarrow> bool) \<Rightarrow> int \<Rightarrow> 'a list \<Rightarrow> 'a \<Rightarrow> bool" where
  "winner eq m rs w \<longleftrightarrow> w \<in> set rs \<and> m \<le> int (votes_for eq rs w) \<and>
     (\<forall>a \<in> set rs. \<not> eq w a \<longrightarrow> votes_for eq rs a < votes_for eq rs w)"

lemma count_equal_eq: "count_equal eq a c rs = c + votes_for eq rs a"
  by (induction rs arbitrary: c) (auto simp: votes_for_def)

lemma votes_two: "(\<And>x. x \<in> set rs \<Longrightarrow> \<not> (eq a x \<and> eq b x)) \<Longrightarrow> votes_for eq rs a + votes_for eq rs b \<le> length rs"
proof (induction rs)
  case (Cons x rs)
  have "votes_for eq rs a + votes_for eq rs b \<le> length rs" by (rule Cons.IH) (use Cons.prems in simp)
  moreover have "\<not> (eq a x \<and> eq b x)" using Cons.prems by simp
  ultimately show ?case by (auto simp: votes_for_def)
qed (simp add: votes_for_def)

lemma votes_for_le: "votes_for eq rs a \<le> length rs"
  by (simp add: votes_for_def)

lemma votes_mset: "mset rs = mset rs' \<Longrightarrow> votes_for eq rs a = votes_for eq rs' a"
  by (metis mset_filter size_mset votes_for_def)

locale votes =
  fixes eq :: "'a \<Rightarrow> 'a \<Rightarrow> bool" and S :: "'a set"
  assumes eq_refl: "x \<in> S \<Longrightarrow> eq x x"
    and eq_sym: "x \<in> S \<Longrightarrow> y \<in> S \<Longrightarrow> eq x y \<Longrightarrow> eq y x"
    and eq_trans: "x \<in> S \<Longrightarrow> y \<in> S \<Longrightarrow> z \<in> S \<Longrightarrow> eq x y \<Longrightarrow> eq y z \<Longrightarrow> eq x z"
begin

lemma votes_cong:
  assumes "set rs \<subseteq> S" "x \<in> S" "y \<in> S" "eq x y"
  shows "votes_for eq rs x = votes_for eq rs y"
proof -
  have "filter (eq x) rs = filter (eq y) rs"
    by (rule filter_cong) (use assms eq_sym eq_trans in blast)+
  then show ?thesis by (simp add: votes_for_def)
qed

lemma votes_pos: "set rs \<subseteq> S \<Longrightarrow> x \<in> set rs \<Longrightarrow> 0 < votes_for eq rs x"
  using eq_refl by (auto simp: votes_for_def filter_empty_conv)

definition loop_inv :: "'a list \<Rightarrow> 'a list \<Rightarrow> 'a \<Rightarrow> nat \<Rightarrow> bool \<Rightarrow> bool" where
  "loop_inv rs seen r c multiple \<longleftrightarrow>
     r \<in> set seen \<and> c = votes_for eq rs r \<and> (\<forall>a \<in> set seen. votes_for eq rs a \<le> c) \<and>
     (multiple \<longleftrightarrow> (\<exists>a \<in> set seen. votes_for eq rs a = c \<and> \<not> eq r a))"

lemma loop_step:
  assumes "loop_inv rs seen r c mul" "a \<in> S"
  shows "if votes_for eq rs a > c then loop_inv rs (seen @ [a]) a (votes_for eq rs a) False
    else loop_inv rs (seen @ [a]) r c (if votes_for eq rs a = c \<and> \<not> eq r a then True else mul)"
  using assms eq_refl [OF assms(2)] unfolding loop_inv_def by (auto; force)

lemma loop_result:
  assumes "set rest \<subseteq> S" "loop_inv rs seen r c mul"
  shows "case most_common_loop eq rs r c mul rest of (r', c', mul') \<Rightarrow> loop_inv rs (seen @ rest) r' c' mul'"
  using assms
proof (induction rest arbitrary: seen r c mul)
  case (Cons a rest)
  have a: "a \<in> S" using Cons.prems by simp
  show ?case
  proof (cases "votes_for eq rs a > c")
    case True
    with loop_step [OF Cons.prems(2) a] Cons.IH [of "seen @ [a]" a "votes_for eq rs a" False] Cons.prems eq_refl [OF a]
    show ?thesis by (simp add: count_equal_eq)
  next
    case False
    with loop_step [OF Cons.prems(2) a]
      Cons.IH [of "seen @ [a]" r c "if votes_for eq rs a = c \<and> \<not> eq r a then True else mul"] Cons.prems
    show ?thesis by (simp add: count_equal_eq split del: if_split)
  qed
qed simp

lemma loop_start:
  assumes "set rs \<subseteq> S" "rs = x # xs"
  shows "case most_common_loop eq rs x 0 False rs of (r, c, mul) \<Rightarrow> loop_inv rs rs r c mul"
proof -
  have x: "x \<in> S" "0 < votes_for eq rs x" using assms votes_pos [OF assms(1)] by auto
  have "loop_inv rs [x] x (votes_for eq rs x) False" using eq_refl [OF x(1)] by (simp add: loop_inv_def)
  from loop_result [OF _ this, of xs] assms x eq_refl [OF x(1)] show ?thesis
    by (simp add: count_equal_eq)
qed

lemma winner_max:
  assumes "set rs \<subseteq> S" "winner eq m rs w" "a \<in> set rs"
  shows "votes_for eq rs a \<le> votes_for eq rs w"
  using assms votes_cong [OF assms(1), of w a] unfolding winner_def by (metis less_imp_le order_refl subsetD)

lemma winner_iff:
  assumes "set rs \<subseteq> S" "loop_inv rs rs r c mul"
  shows "(\<not> mul \<and> m \<le> int c \<longrightarrow> winner eq m rs r) \<and> (mul \<or> int c < m \<longrightarrow> (\<nexists>w. winner eq m rs w))"
proof (intro conjI impI)
  assume "\<not> mul \<and> m \<le> int c"
  with assms(2) show "winner eq m rs r"
    unfolding winner_def loop_inv_def by (metis order_le_imp_less_or_eq)
next
  assume bad: "mul \<or> int c < m"
  show "\<nexists>w. winner eq m rs w"
  proof
    assume "\<exists>w. winner eq m rs w"
    then obtain w where w: "winner eq m rs w" by blast
    have r: "r \<in> set rs" "c = votes_for eq rs r" and top: "\<And>a. a \<in> set rs \<Longrightarrow> votes_for eq rs a \<le> c"
      using assms(2) by (auto simp: loop_inv_def)
    have w_in: "w \<in> set rs" "m \<le> int (votes_for eq rs w)" using w by (auto simp: winner_def)
    have c: "votes_for eq rs w = c" using top [OF w_in(1)] winner_max [OF assms(1) w r(1)] r(2) by simp
    with bad w_in obtain a where a: "a \<in> set rs" "votes_for eq rs a = c" "\<not> eq r a"
      using assms(2) by (auto simp: loop_inv_def)
    have "eq w a" "eq w r" using w a r c unfolding winner_def by (metis order_less_irrefl)+
    then have "eq r a" using a(1) r(1) w_in(1) assms(1) eq_sym eq_trans by (meson subsetD)
    with a(3) show False by simp
  qed
qed

lemma winner_majority:
  assumes "set rs \<subseteq> S" "v \<in> set rs" "length rs < 2 * votes_for eq rs v" "m \<le> int (votes_for eq rs v)"
  shows "winner eq m rs v" and "winner eq m rs w \<Longrightarrow> eq v w"
proof -
  have two: "votes_for eq rs a + votes_for eq rs b \<le> length rs"
    if "a \<in> set rs" "b \<in> set rs" "\<not> eq a b" for a b
    using that assms(1) eq_sym eq_trans by (intro votes_two) (meson subsetD)
  have big: "\<not> eq v a \<Longrightarrow> votes_for eq rs a < votes_for eq rs v" if "a \<in> set rs" for a
    using two [OF assms(2) that] assms(3) by linarith
  then show win: "winner eq m rs v" using assms by (simp add: winner_def)
  show "eq v w" if w: "winner eq m rs w"
    using big [of w] winner_max [OF assms(1) w assms(2)] w by (auto simp: winner_def)
qed

end

definition plain_resp :: "memory \<Rightarrow> resp \<Rightarrow> bool" where
  "plain_resp h r \<longleftrightarrow> plain h (resp_gval r)"

lemma compare_resp_denote:
  "plain_resp h a \<Longrightarrow> plain_resp h b \<Longrightarrow> compare_resp a b \<longleftrightarrow> denote (resp_gval a) = denote (resp_gval b)"
  unfolding compare_resp_def compare_def plain_resp_def using cmp_denote_all(1) plain_not_invalid by metis

interpretation resp_votes: votes compare_resp "{r. plain_resp h r}" for h
  by unfold_locales (simp_all add: compare_resp_denote)

lemma compare_resp_numbers: "compare_resp (RNum a) (RNum b) \<longleftrightarrow> num_x a = num_x b"
  unfolding compare_resp_def resp_gval_def by (simp add: compare_number)

subsection \<open>Lemmas: the default resolver\<close>

lemma default_resolve_cases:
  assumes "\<forall>r \<in> set (vals rs). plain_resp h r"
  shows "case default_resolve d rs of
      Panic _ \<Rightarrow> vals rs = [] \<and> dr_minResponses d \<le> 0
    | Ret (Inr w) \<Rightarrow> winner compare_resp (dr_minResponses d) (vals rs) w
    | Ret (Inl e) \<Rightarrow> (\<nexists>w. winner compare_resp (dr_minResponses d) (vals rs) w)"
proof (cases "int (length (vals rs)) < dr_minResponses d")
  case True
  have "\<not> winner compare_resp (dr_minResponses d) (vals rs) w" for w
    using True votes_for_le [of compare_resp "vals rs" w] by (auto simp: winner_def)
  with True show ?thesis by (simp add: default_resolve_def extractErrors_eq)
next
  case enough: False
  have S: "set (vals rs) \<subseteq> {r. plain_resp h r}" using assms by auto
  show ?thesis
  proof (cases "vals rs")
    case Nil
    with enough show ?thesis by (simp add: default_resolve_def extractErrors_eq)
  next
    case (Cons x xs)
    have x: "plain_resp h x" using S Cons by simp
    show ?thesis
    proof (cases xs)
      case Nil
      have "compare_resp x x" using resp_votes.eq_refl [of x h] x by simp
      with Nil Cons enough show ?thesis
        by (simp add: default_resolve_def extractErrors_eq winner_def votes_for_def)
    next
      case (Cons y ys)
      obtain r c mul where loop: "most_common_loop compare_resp (vals rs) x 0 False (vals rs) = (r, c, mul)"
        by (metis prod_cases3)
      have inv: "resp_votes.loop_inv (vals rs) (vals rs) r c mul"
        using resp_votes.loop_start [OF S \<open>vals rs = x # xs\<close>] loop by simp
      have "default_resolve d rs = (if mul \<or> int c < dr_minResponses d
          then Ret (Inl (addError (Some (SingleError errDifferentResponses)) (map Some (errs_of rs))))
          else Ret (Inr r))"
        using enough loop \<open>vals rs = x # xs\<close> Cons by (simp add: default_resolve_def extractErrors_eq)
      with resp_votes.winner_iff [OF S inv, of "dr_minResponses d"] show ?thesis by auto
    qed
  qed
qed

lemma vals_mset: "mset rs = mset rs' \<Longrightarrow> mset (vals rs) = mset (vals rs')"
  by (simp add: vals_def)

lemma winner_mset: "mset rs = mset rs' \<Longrightarrow> winner eq m rs w = winner eq m rs' w"
  using votes_mset [of rs rs' eq] mset_eq_setD [of rs rs'] by (simp add: winner_def)

subsection \<open>Lemmas: the median\<close>

lemma sorted_above:
  "sorted xs \<Longrightarrow> length (filter (\<lambda>x. x < lo) xs) \<le> i \<Longrightarrow> i < length xs \<Longrightarrow> lo \<le> xs ! i"
  for lo :: "'a :: linorder"
proof (rule ccontr)
  assume a: "sorted xs" "length (filter (\<lambda>x. x < lo) xs) \<le> i" "i < length xs" "\<not> lo \<le> xs ! i"
  then have "\<forall>x \<in> set (take (Suc i) xs). x < lo"
    by (auto simp: in_set_conv_nth) (meson le_less_trans less_Suc_eq_le not_le sorted_nth_mono)
  then have "filter (\<lambda>x. x < lo) (take (Suc i) xs) = take (Suc i) xs" by simp
  moreover have "filter (\<lambda>x. x < lo) xs = filter (\<lambda>x. x < lo) (take (Suc i) xs) @ filter (\<lambda>x. x < lo) (drop (Suc i) xs)"
    by (metis append_take_drop_id filter_append)
  ultimately have "Suc i \<le> length (filter (\<lambda>x. x < lo) xs)" using a(3) by simp
  with a(2) show False by simp
qed

lemma sorted_below:
  "sorted xs \<Longrightarrow> length (filter (\<lambda>x. hi < x) xs) < length xs - i \<Longrightarrow> i < length xs \<Longrightarrow> xs ! i \<le> hi"
  for hi :: "'a :: linorder"
proof (rule ccontr)
  assume a: "sorted xs" "length (filter (\<lambda>x. hi < x) xs) < length xs - i" "i < length xs" "\<not> xs ! i \<le> hi"
  have "hi < xs ! (i + j)" if "j < length xs - i" for j
  proof -
    have "i + j < length xs" using that by linarith
    with sorted_nth_mono [of xs i "i + j"] a(1) have "xs ! i \<le> xs ! (i + j)" by simp
    with a(4) show ?thesis by simp
  qed
  then have "\<forall>x \<in> set (drop i xs). hi < x" by (auto simp: in_set_conv_nth)
  then have "filter (\<lambda>x. hi < x) (drop i xs) = drop i xs" by simp
  moreover have "filter (\<lambda>x. hi < x) xs = filter (\<lambda>x. hi < x) (take i xs) @ filter (\<lambda>x. hi < x) (drop i xs)"
    by (metis append_take_drop_id filter_append)
  ultimately have "length xs - i \<le> length (filter (\<lambda>x. hi < x) xs)" by simp
  with a(2) show False by simp
qed

definition in_range :: "int \<Rightarrow> int \<Rightarrow> int list \<Rightarrow> nat" where
  "in_range lo hi xs = length (filter (\<lambda>x. lo \<le> x \<and> x \<le> hi) xs)"

lemma in_range_split:
  "in_range lo hi xs + length (filter (\<lambda>x. x < lo) xs) \<le> length xs"
  "in_range lo hi xs + length (filter (\<lambda>x. hi < x) xs) \<le> length xs"
  by (induction xs) (auto simp: in_range_def)

lemma middle_in_range:
  fixes xs :: "int list"
  assumes "sorted xs" "length xs < 2 * in_range lo hi xs"
  shows "length xs = 2 * k + 1 \<Longrightarrow> lo \<le> xs ! k \<and> xs ! k \<le> hi"
    and "length xs = 2 * k \<Longrightarrow> 0 < k \<Longrightarrow> lo \<le> xs ! (k - 1) \<and> xs ! k \<le> hi"
proof -
  note split = in_range_split [of lo hi xs]
  show "lo \<le> xs ! k \<and> xs ! k \<le> hi" if "length xs = 2 * k + 1"
    using that assms split by (intro conjI sorted_above sorted_below) auto
  show "lo \<le> xs ! (k - 1) \<and> xs ! k \<le> hi" if "length xs = 2 * k" "0 < k"
    using that assms split by (intro conjI sorted_above sorted_below) auto
qed

lemma gas_sorted:
  fixes ns :: "Number list"
  defines "ss \<equiv> sort_key Number_Big ns"
  shows "map num_x ss = sort (map num_x ns)" "length ss = length ns"
proof -
  have "sorted (map num_x ss)" unfolding ss_def using sorted_sort_key [of Number_Big ns]
    by (simp add: Number_Big_def [abs_def])
  moreover have "mset (map num_x ss) = mset (map num_x ns)" by (simp add: ss_def)
  ultimately show "map num_x ss = sort (map num_x ns)" by (metis properties_for_sort)
  show "length ss = length ns" by (simp add: ss_def)
qed

text \<open>The value the gas resolver computes from the numbers of the responses.\<close>

definition gas_value :: "int list \<Rightarrow> int" where
  "gas_value xs = (let ss = sort xs; k = length xs div 2 in
     if length xs = 2 then ss ! 0
     else if even (length xs) then (ss ! (k - 1) + ss ! k) div 2 else ss ! k)"

lemma EDiv_two: "EDiv x 2 = x div 2"
  by (simp add: EDiv_def)

lemma gas_resolve_many:
  assumes "2 < length (nums rs)" "gr_minResponses g \<le> int (length (nums rs))"
  shows "\<exists>n. gas_resolve g rs = Ret (Inr (RNum n)) \<and> num_x n = gas_value (nums rs)"
proof -
  define ns where "ns = filterByNumberType (vals rs)"
  define ss where "ss = sort_key Number_Big ns"
  have len: "length ns = length (nums rs)" by (simp add: ns_def length_nums)
  have eq: "map num_x ns = nums rs" by (simp add: ns_def filterByNumberType_eq nums_vals)
  have ss: "map num_x ss = sort (nums rs)" "length ss = length (nums rs)"
    using gas_sorted [of ns] eq len by (simp_all add: ss_def)
  have nth: "num_x (ss ! i) = sort (nums rs) ! i" if "i < length (nums rs)" for i
    using ss that by (metis nth_map)
  show ?thesis
  proof (cases "even (length (nums rs))")
    case True
    let ?k = "length (nums rs) div 2"
    have "0 < ?k" "?k < length (nums rs)" using assms(1) by auto
    then have "gas_resolve g rs = Ret (Inr (bigToNumberPtr ((sort (nums rs) ! (?k - 1) + sort (nums rs) ! ?k) div 2)))"
      using assms True len nth [of ?k] nth [of "?k - 1"] ss(2)
      by (simp add: gas_resolve_def extractErrors_eq Let_def EDiv_two Number_Big_def flip: ns_def ss_def Number_Big_def)
    then show ?thesis using assms True
      by (simp add: bigToNumberPtr_def BigToNumber_def gas_value_def Let_def)
  next
    case False
    let ?k = "length (nums rs) div 2"
    have "?k < length (nums rs)" using assms(1) by auto
    moreover have "gas_resolve g rs = Ret (Inr (RNum (ss ! ?k)))"
      using assms False len ss(2) by (simp add: gas_resolve_def extractErrors_eq Let_def flip: ns_def ss_def)
    ultimately show ?thesis using assms False nth [of ?k] by (simp add: gas_value_def Let_def)
  qed
qed

lemma gas_resolve_two:
  assumes "length (nums rs) = 2" "gr_minResponses g \<le> 2"
  shows "\<exists>n. gas_resolve g rs = Ret (Inr (RNum n)) \<and> num_x n = gas_value (nums rs)"
proof -
  obtain x y where xy: "nums rs = [x, y]" using assms(1) by (auto simp: length_Suc_conv numeral_2_eq_2)
  have "num_x (filterByNumberType (vals rs) ! 0) = x" "num_x (filterByNumberType (vals rs) ! 1) = y"
    using nth_nums [of 0 rs] nth_nums [of 1 rs] xy by simp_all
  then show ?thesis using assms length_nums [of rs] xy
    by (simp add: gas_resolve_def extractErrors_eq Let_def Number_Big_def go_cmp_def
        bigToNumberPtr_def BigToNumber_def gas_value_def)
qed

lemma gas_resolve_one:
  assumes "nums rs = [x]" "vals rs = [v]" "gr_minResponses g \<le> 1"
  shows "\<exists>n. gas_resolve g rs = Ret (Inr (RNum n)) \<and> num_x n = gas_value (nums rs)"
proof -
  have "nums (vals rs) = [x]" using assms(1) nums_vals [of rs] by (simp only:)
  then obtain n where "v = RNum n" "num_x n = x"
    using assms(2) by (auto simp: nums_def List.map_filter_def split: resp.splits if_splits)
  then show ?thesis using assms length_nums [of rs]
    by (simp add: gas_resolve_def extractErrors_eq Let_def gas_value_def)
qed

lemma gas_value_in_range:
  assumes "xs \<noteq> []" "length xs < 2 * in_range lo hi xs"
  shows "lo \<le> gas_value xs \<and> gas_value xs \<le> hi"
proof -
  have ir: "in_range lo hi (sort xs) = in_range lo hi xs"
    unfolding in_range_def by (metis mset_filter mset_sort size_mset)
  note mid = middle_in_range [of "sort xs" lo hi, unfolded ir length_sort, OF sorted_sort assms(2)]
  consider "length xs = 2" | "length xs \<noteq> 2" "even (length xs)" | "odd (length xs)" by blast
  then show ?thesis
  proof cases
    case 1
    then have "lo \<le> sort xs ! 0 \<and> sort xs ! 1 \<le> hi" using mid(2) [of 1] by simp
    moreover have "sort xs ! 0 \<le> sort xs ! 1" using 1 by (intro sorted_nth_mono) auto
    ultimately show ?thesis using 1 by (simp add: gas_value_def Let_def)
  next
    case 2
    then obtain k where k: "length xs = 2 * k" by (elim evenE)
    have "k \<noteq> 1" using k 2(1) by auto
    moreover have "k \<noteq> 0" using k assms(1) by (metis length_0_conv mult_0_right)
    ultimately have 2: "length xs = 2 * k" "k > 1" using k by simp_all
    then have "lo \<le> sort xs ! (k - 1) \<and> sort xs ! k \<le> hi" using mid(2) [of k] by simp
    moreover have "sort xs ! (k - 1) \<le> sort xs ! k" using 2 by (intro sorted_nth_mono) auto
    moreover have "gas_value xs = (sort xs ! (k - 1) + sort xs ! k) div 2"
      using 2 by (simp add: gas_value_def Let_def)
    ultimately show ?thesis by linarith
  next
    case 3
    then obtain k where "length xs = 2 * k + 1" by (elim oddE)
    then show ?thesis using mid(1) [of k] by (simp add: gas_value_def Let_def)
  qed
qed

subsection \<open>Lemmas: the block number\<close>

lemma high_loop_step: "high_loop high (n # ns) = high_loop (max high (num_x n)) ns"
  by (simp add: Number_Big_def go_cmp_def Let_def max_def)

lemma block_loop_step:
  "block_loop high behind block (n # ns) =
     block_loop high behind (if high - num_x n \<le> behind then min block (num_x n) else block) ns"
  by (auto simp: Number_Big_def go_cmp_def Let_def min_def)

lemma high_loop_eq: "high_loop high ns = Max (insert high (num_x ` set ns))"
proof (induction ns arbitrary: high)
  case (Cons n ns)
  have "Max (insert high (num_x ` set (n # ns))) = Max (insert (max high (num_x n)) (num_x ` set ns))"
    by (cases "num_x ` set ns = {}") (simp_all add: insert_commute max.assoc)
  with Cons show ?case by (simp only: high_loop_step)
qed simp

definition recent :: "int \<Rightarrow> int \<Rightarrow> int set \<Rightarrow> int set" where
  "recent high behind A = {x \<in> A. high - x \<le> behind}"

lemma block_loop_eq:
  "block_loop high behind block ns = Min (insert block (recent high behind (num_x ` set ns)))"
proof (induction ns arbitrary: block)
  case (Cons n ns)
  let ?R = "recent high behind (num_x ` set ns)"
  have fin: "finite ?R" by (simp add: recent_def)
  have "recent high behind (num_x ` set (n # ns)) = (if high - num_x n \<le> behind then insert (num_x n) ?R else ?R)"
    by (auto simp: recent_def)
  moreover have "Min (insert block (insert (num_x n) ?R)) = Min (insert (min block (num_x n)) ?R)"
    using fin by (cases "?R = {}") (simp_all add: min.assoc)
  ultimately show ?case by (simp add: Cons block_loop_step del: block_loop.simps)
qed (simp add: recent_def)

lemma set_numbers: "num_x ` set (filterByNumberType (vals rs)) = set (nums rs)"
  using filterByNumberType_eq [of "vals rs"] nums_vals by (metis set_map)

lemma block_resolve_value:
  assumes "nums rs \<noteq> []" "br_minResponses b \<le> int (length (nums rs))"
  shows "\<exists>n. block_resolve b rs = Ret (Inr (RNum n)) \<and>
    num_x n = Min (insert (Max (set (nums rs))) (recent (Max (set (nums rs))) (br_maxBlocksBehind b) (set (nums rs))))"
proof (cases "length (nums rs) = 1")
  case True
  then obtain x where x: "nums rs = [x]" by (auto simp: length_Suc_conv)
  have "num_x (filterByNumberType (vals rs) ! 0) = x" using nth_nums [of 0 rs] x by simp
  moreover have "Min (insert x (recent x (br_maxBlocksBehind b) {x})) = x"
  proof -
    have "insert x (recent x (br_maxBlocksBehind b) {x}) = {x}" by (auto simp: recent_def)
    then show ?thesis by (simp only: Min_singleton)
  qed
  ultimately show ?thesis using assms True length_nums [of rs] x
    by (simp add: block_resolve_def extractErrors_eq Let_def)
next
  case False
  define ns where "ns = filterByNumberType (vals rs)"
  have len: "length ns = length (nums rs)" by (simp add: ns_def length_nums)
  with assms(1) obtain n rest where n: "ns = n # rest" by (cases ns) auto
  have im: "num_x ` set ns = set (nums rs)" by (simp add: ns_def set_numbers)
  have "insert (num_x n) (set (nums rs)) = set (nums rs)" using im n by auto
  then have high: "high_loop (Number_Big n) ns = Max (set (nums rs))"
    using im by (simp add: high_loop_eq Number_Big_def)
  have "block_resolve b rs = Ret (Inr (bigToNumberPtr
      (block_loop (high_loop (Number_Big n) ns) (br_maxBlocksBehind b) (high_loop (Number_Big n) ns) ns)))"
    using assms False len n by (simp add: block_resolve_def extractErrors_eq Let_def flip: ns_def)
  then show ?thesis by (simp add: high block_loop_eq im bigToNumberPtr_def BigToNumber_def)
qed

subsection \<open>The contract of a resolver\<close>

locale resolver_contract =
  fixes resolve :: "resp list \<Rightarrow> resolved" and m :: int
  assumes no_panic: "0 < m \<Longrightarrow> \<not> panics (resolve rs)"
    and enough: "resolve rs = Ret (Inr x) \<Longrightarrow> m \<le> int (length (vals rs))"
    and keeps_errors: "resolve rs = Ret (Inl es) \<Longrightarrow> err_msg ` set (errs_of rs) \<subseteq> err_msg ` set es"
begin

lemma too_few: "0 < m \<Longrightarrow> int (length (vals rs)) < m \<Longrightarrow>
    \<exists>es. resolve rs = Ret (Inl es) \<and> err_msg ` set (errs_of rs) \<subseteq> err_msg ` set es"
  using no_panic [of rs] enough [of rs] keeps_errors [of rs]
  by (cases "resolve rs") (auto simp: panics_def split: sum.splits, metis not_less sum.exhaust)

end

lemma addError_keeps: "err_msg ` set es \<subseteq> err_msg ` set (addError err (map Some es))"
proof -
  obtain old where "err_msg ` set (addError err (map Some es)) = err_msg ` (set old \<union> {e. Some e \<in> set (map Some es)})"
    unfolding addError_def Let_def using addError_loop_spec by metis
  then show ?thesis by auto
qed

lemma addError_keepsD: "e \<in> set es \<Longrightarrow> err_msg e \<in> err_msg ` set (addError err (map Some es))"
  using addError_keeps by blast

interpretation default_contract: resolver_contract "default_resolve d" "dr_minResponses d" for d
proof
  show "0 < dr_minResponses d \<Longrightarrow> \<not> panics (default_resolve d rs)" for rs
    by (auto simp: default_resolve_def extractErrors_eq panics_def split: list.splits prod.splits if_splits)
  show "default_resolve d rs = Ret (Inr x) \<Longrightarrow> dr_minResponses d \<le> int (length (vals rs))" for rs x
    by (simp add: default_resolve_def extractErrors_eq split: if_splits)
  show "default_resolve d rs = Ret (Inl es) \<Longrightarrow> err_msg ` set (errs_of rs) \<subseteq> err_msg ` set es" for rs es
    by (auto intro: addError_keepsD simp: default_resolve_def extractErrors_eq split: list.splits prod.splits if_splits)
qed

interpretation gas_contract: resolver_contract "gas_resolve g" "gr_minResponses g" for g
proof
  show "0 < gr_minResponses g \<Longrightarrow> \<not> panics (gas_resolve g rs)" for rs
    by (auto simp: gas_resolve_def extractErrors_eq panics_def Let_def split: if_splits)
  show "gas_resolve g rs = Ret (Inr x) \<Longrightarrow> gr_minResponses g \<le> int (length (vals rs))" for rs x
    using nums_le_vals [of rs] length_nums [of rs]
    by (auto simp: gas_resolve_def extractErrors_eq Let_def split: if_splits)
  show "gas_resolve g rs = Ret (Inl es) \<Longrightarrow> err_msg ` set (errs_of rs) \<subseteq> err_msg ` set es" for rs es
    by (auto intro: addError_keepsD simp: gas_resolve_def extractErrors_eq Let_def split: if_splits)
qed

interpretation block_contract: resolver_contract "block_resolve b" "br_minResponses b" for b
proof
  show "0 < br_minResponses b \<Longrightarrow> \<not> panics (block_resolve b rs)" for rs
    by (auto simp: block_resolve_def extractErrors_eq panics_def Let_def split: list.splits if_splits)
  show "block_resolve b rs = Ret (Inr x) \<Longrightarrow> br_minResponses b \<le> int (length (vals rs))" for rs x
    using nums_le_vals [of rs] length_nums [of rs]
    by (auto simp: block_resolve_def extractErrors_eq Let_def split: list.splits if_splits)
  show "block_resolve b rs = Ret (Inl es) \<Longrightarrow> err_msg ` set (errs_of rs) \<subseteq> err_msg ` set es" for rs es
    by (auto intro: addError_keepsD simp: block_resolve_def extractErrors_eq Let_def split: list.splits if_splits)
qed

subsection \<open>Properties\<close>

text \<open>
  C2: \<open>defaultResolver\<close> returns a response exactly when one is the strict plurality: it
  occurs at least \<open>minResponses\<close> times and more often than every response different from
  it. Otherwise it is an error, and the only panic is that of no response at all where none
  is required.
\<close>

theorem default_resolver_plurality:
  assumes "\<forall>r \<in> set (vals rs). plain_resp h r"
  shows "case default_resolve d rs of
      Panic _ \<Rightarrow> vals rs = [] \<and> dr_minResponses d \<le> 0
    | Ret (Inr w) \<Rightarrow> winner compare_resp (dr_minResponses d) (vals rs) w
    | Ret (Inl e) \<Rightarrow> (\<nexists>w. winner compare_resp (dr_minResponses d) (vals rs) w)"
  by (rule default_resolve_cases [OF assms])

theorem default_resolver_plurality_witness:
  "winner compare_resp 2 [RVal (GString ''s'' ''x''), RVal (GString ''s'' ''y''), RVal (GString ''s'' ''x'')]
     (RVal (GString ''s'' ''x''))"
proof -
  let ?rs = "[RVal (GString ''s'' ''x''), RVal (GString ''s'' ''y''), RVal (GString ''s'' ''x'')]"
  have vals: "vals ?rs = ?rs" by code_simp
  have "\<forall>r \<in> set (vals ?rs). plain_resp \<lparr>mem_ptr = \<lambda>_. GInvalid, mem_slice = \<lambda>_ _. [],
      mem_map = \<lambda>_ _. [], mem_len = \<lambda>_. 0\<rparr> r"
    by (simp add: vals plain_resp_def resp_gval_def)
  note plurality = default_resolver_plurality [OF this, of "\<lparr>dr_minResponses = 2\<rparr>"]
  have d: "default_resolve \<lparr>dr_minResponses = 2\<rparr> ?rs = Ret (Inr (RVal (GString ''s'' ''x'')))" by code_simp
  show ?thesis using plurality unfolding d vals by simp
qed

text \<open>
  A response that more than half of the valid responses agree with, and at least
  \<open>minResponses\<close> of them, is the one returned, whatever the other endpoints answer.
\<close>

theorem default_resolver_majority:
  assumes plain: "\<forall>r \<in> set (vals rs). plain_resp h r"
    and v: "v \<in> set (vals rs)" "length (vals rs) < 2 * votes_for compare_resp (vals rs) v"
      "dr_minResponses d \<le> int (votes_for compare_resp (vals rs) v)"
  shows "\<exists>w. default_resolve d rs = Ret (Inr w) \<and> compare_resp v w"
proof -
  have S: "set (vals rs) \<subseteq> {r. plain_resp h r}" using plain by auto
  note maj = resp_votes.winner_majority [OF S v(1,2,3)]
  have "vals rs \<noteq> []" using v(1) by auto
  with default_resolve_cases [OF plain, of d] maj show ?thesis
    by (auto split: go.splits sum.splits)
qed

theorem default_resolver_majority_witness:
  "\<exists>w. default_resolve \<lparr>dr_minResponses = 2\<rparr>
      [RVal (GBool ''bool'' True), RErr errNotEnoughResponses, RVal (GBool ''bool'' True), RVal (GBool ''bool'' False)] = Ret (Inr w) \<and>
    compare_resp (RVal (GBool ''bool'' True)) w"
proof (rule default_resolver_majority)
  let ?rs = "[RVal (GBool ''bool'' True), RErr errNotEnoughResponses, RVal (GBool ''bool'' True), RVal (GBool ''bool'' False)]"
  let ?m = "\<lparr>mem_ptr = \<lambda>_. GInvalid, mem_slice = \<lambda>_ _. [], mem_map = \<lambda>_ _. [], mem_len = \<lambda>_. 0\<rparr>"
  have vals: "vals ?rs = [RVal (GBool ''bool'' True), RVal (GBool ''bool'' True), RVal (GBool ''bool'' False)]"
    by code_simp
  show "\<forall>r \<in> set (vals ?rs). plain_resp ?m r" by (simp add: vals plain_resp_def resp_gval_def)
  show "RVal (GBool ''bool'' True) \<in> set (vals ?rs)" by (simp add: vals)
  show "length (vals ?rs) < 2 * votes_for compare_resp (vals ?rs) (RVal (GBool ''bool'' True))" by code_simp
  show "dr_minResponses \<lparr>dr_minResponses = 2\<rparr> \<le> int (votes_for compare_resp (vals ?rs) (RVal (GBool ''bool'' True)))"
    by code_simp
qed

text \<open>
  The order in which the responses arrive does not matter: for two orders of the same
  responses \<open>defaultResolver\<close> either fails for both, or returns values that compare equal.
\<close>

theorem default_resolver_order:
  assumes plain: "\<forall>r \<in> set (vals rs). plain_resp h r" and perm: "mset rs = mset rs'"
  shows "(\<exists>w w'. default_resolve d rs = Ret (Inr w) \<and> default_resolve d rs' = Ret (Inr w') \<and> compare_resp w w') \<or>
    (\<exists>e e'. default_resolve d rs = Ret (Inl e) \<and> default_resolve d rs' = Ret (Inl e')) \<or>
    (panics (default_resolve d rs) \<and> panics (default_resolve d rs'))"
proof -
  have vm: "mset (vals rs) = mset (vals rs')" using perm by (rule vals_mset)
  from mset_eq_setD [OF vm] have sets: "set (vals rs') = set (vals rs)" by (rule sym)
  have plain': "\<forall>r \<in> set (vals rs'). plain_resp h r" using plain sets by simp
  have S: "set (vals rs) \<subseteq> {r. plain_resp h r}" using plain by auto
  have uniq: "compare_resp w w'" if "winner compare_resp m (vals rs) w" "winner compare_resp m (vals rs) w'" for m w w'
    using resp_votes.winner_max [OF S that(2), of w] that unfolding winner_def by (meson not_less)
  have empty: "vals rs = [] \<longleftrightarrow> vals rs' = []" using vm by (metis mset_zero_iff)
  note c = default_resolve_cases [OF plain, of d]
  note c' = default_resolve_cases [OF plain', of d, folded winner_mset [OF vm]]
  show ?thesis
  proof (cases "vals rs = [] \<and> dr_minResponses d \<le> 0")
    case True
    with empty show ?thesis by (simp add: default_resolve_def extractErrors_eq panics_def)
  next
    case False
    then obtain x x' where x: "default_resolve d rs = Ret x" "default_resolve d rs' = Ret x'"
      using c c' empty by (cases "default_resolve d rs"; cases "default_resolve d rs'") auto
    show ?thesis
    proof (cases "\<exists>w. winner compare_resp (dr_minResponses d) (vals rs) w")
      case True
      with c c' x obtain w w' where "x = Inr w" "x' = Inr w'"
        "winner compare_resp (dr_minResponses d) (vals rs) w" "winner compare_resp (dr_minResponses d) (vals rs) w'"
        by (cases x; cases x') auto
      with uniq x show ?thesis by blast
    next
      case False
      with c c' x show ?thesis by (cases x; cases x') auto
    qed
  qed
qed

theorem default_resolver_order_witness:
  "(\<exists>w w'. default_resolve \<lparr>dr_minResponses = 1\<rparr> [RVal (GInt ''int'' 1), RVal (GInt ''int'' 2)] = Ret (Inr w) \<and>
      default_resolve \<lparr>dr_minResponses = 1\<rparr> [RVal (GInt ''int'' 2), RVal (GInt ''int'' 1)] = Ret (Inr w') \<and> compare_resp w w') \<or>
    (\<exists>e e'. default_resolve \<lparr>dr_minResponses = 1\<rparr> [RVal (GInt ''int'' 1), RVal (GInt ''int'' 2)] = Ret (Inl e) \<and>
      default_resolve \<lparr>dr_minResponses = 1\<rparr> [RVal (GInt ''int'' 2), RVal (GInt ''int'' 1)] = Ret (Inl e')) \<or>
    (panics (default_resolve \<lparr>dr_minResponses = 1\<rparr> [RVal (GInt ''int'' 1), RVal (GInt ''int'' 2)]) \<and>
      panics (default_resolve \<lparr>dr_minResponses = 1\<rparr> [RVal (GInt ''int'' 2), RVal (GInt ''int'' 1)]))"
  by (rule default_resolver_order [where h = "\<lparr>mem_ptr = \<lambda>_. GInvalid, mem_slice = \<lambda>_ _. [], mem_map = \<lambda>_ _. [], mem_len = \<lambda>_. 0\<rparr>"])
    (simp_all add: vals_def is_err_def plain_resp_def resp_gval_def)

text \<open>
  C15: The gas resolver is robust: when all valid responses are numbers and more than half of
  them lie between two bounds, so does the number it returns, whatever the others are (one
  response is returned as it is, of two the lower, of more the median).
\<close>

theorem gas_resolver_robust:
  assumes "nums rs \<noteq> []" "length (vals rs) = length (nums rs)" "gr_minResponses g \<le> int (length (nums rs))"
    and "length (nums rs) < 2 * in_range lo hi (nums rs)"
  shows "\<exists>n. gas_resolve g rs = Ret (Inr (RNum n)) \<and> num_x n = gas_value (nums rs) \<and>
    lo \<le> num_x n \<and> num_x n \<le> hi"
proof -
  have "\<exists>n. gas_resolve g rs = Ret (Inr (RNum n)) \<and> num_x n = gas_value (nums rs)"
  proof (cases "nums rs")
    case (Cons x xs)
    consider "xs = []" | "length (nums rs) = 2" | "2 < length (nums rs)"
      using Cons by (cases xs; cases "tl xs") auto
    then show ?thesis
    proof cases
      case 1
      then obtain v where "vals rs = [v]" using assms(2) Cons by (auto simp: length_Suc_conv)
      with 1 Cons assms gas_resolve_one show ?thesis by auto
    next
      case 2
      with assms(3) gas_resolve_two show ?thesis by auto
    next
      case 3
      with assms(3) gas_resolve_many show ?thesis by blast
    qed
  qed (use assms(1) in simp)
  with gas_value_in_range [OF assms(1,4)] show ?thesis by auto
qed

theorem gas_resolver_robust_witness:
  "\<exists>n. gas_resolve \<lparr>gr_minResponses = 2\<rparr> [RNum \<lparr>num_x = 10\<rparr>, RNum \<lparr>num_x = 99999\<rparr>, RNum \<lparr>num_x = 12\<rparr>] = Ret (Inr (RNum n)) \<and>
    num_x n = gas_value [10, 99999, 12] \<and> 10 \<le> num_x n \<and> num_x n \<le> 12"
  using gas_resolver_robust [of "[RNum \<lparr>num_x = 10\<rparr>, RNum \<lparr>num_x = 99999\<rparr>, RNum \<lparr>num_x = 12\<rparr>]" "\<lparr>gr_minResponses = 2\<rparr>" 10 12]
  by (simp add: nums_def vals_def is_err_def in_range_def List.map_filter_def)

text \<open>
  C39: The block resolver returns the lowest of the block numbers that are at most
  \<open>maxBlocksBehind\<close> behind the highest one; with a negative limit, the highest.
\<close>

theorem block_resolver_lowest_recent:
  assumes "nums rs \<noteq> []" "br_minResponses b \<le> int (length (nums rs))"
  shows "\<exists>n. block_resolve b rs = Ret (Inr (RNum n)) \<and> num_x n \<in> set (nums rs) \<and>
    Max (set (nums rs)) - num_x n \<le> max 0 (br_maxBlocksBehind b) \<and>
    (\<forall>x \<in> set (nums rs). Max (set (nums rs)) - x \<le> br_maxBlocksBehind b \<longrightarrow> num_x n \<le> x)"
proof -
  let ?A = "set (nums rs)" and ?h = "Max (set (nums rs))"
  let ?R = "insert ?h (recent ?h (br_maxBlocksBehind b) ?A)"
  obtain n where n: "block_resolve b rs = Ret (Inr (RNum n))" "num_x n = Min ?R"
    using block_resolve_value [OF assms] by blast
  have "finite ?R" by (simp add: recent_def)
  then have "num_x n \<in> ?R" "\<And>x. x \<in> ?R \<Longrightarrow> num_x n \<le> x" using n(2) Min_in [of ?R] by auto
  moreover have "?h \<in> ?A" using assms(1) by simp
  ultimately show ?thesis using n(1) by (intro exI [of _ n]) (auto simp: recent_def)
qed

theorem block_resolver_lowest_recent_witness:
  "\<exists>n. block_resolve \<lparr>br_minResponses = 2, br_maxBlocksBehind = 3\<rparr>
       [RNum \<lparr>num_x = 100\<rparr>, RNum \<lparr>num_x = 98\<rparr>, RNum \<lparr>num_x = 90\<rparr>] = Ret (Inr (RNum n)) \<and> num_x n = 98"
proof -
  let ?rs = "[RNum \<lparr>num_x = 100\<rparr>, RNum \<lparr>num_x = 98\<rparr>, RNum \<lparr>num_x = 90\<rparr>]"
  have "nums ?rs = [100, 98, 90]" by (simp add: nums_def List.map_filter_def)
  with block_resolver_lowest_recent [of ?rs "\<lparr>br_minResponses = 2, br_maxBlocksBehind = 3\<rparr>"]
  obtain n where "block_resolve \<lparr>br_minResponses = 2, br_maxBlocksBehind = 3\<rparr> ?rs = Ret (Inr (RNum n))"
    "num_x n \<in> {100, 98, 90}" "100 - num_x n \<le> 3" "num_x n \<le> 98" by auto
  then show ?thesis by auto
qed

text \<open>With one number among other values the gas resolver returns the first response of any type.\<close>

lemma gas_resolve_first_response:
  "gas_resolve \<lparr>gr_minResponses = 1\<rparr> [RVal (GString ''string'' ''x''), RNum \<lparr>num_x = 7\<rparr>]
   = Ret (Inr (RVal (GString ''string'' ''x'')))"
  by code_simp

end
