(* ===== verification/Rpc_Server.thy ===== *)
theory Rpc_Server
  imports Rpc_Resolver
begin

text \<open>
  \<open>src/rpcsplitter/server.go\<close> and \<open>options.go\<close>: the proxy that sends a request to all
  endpoints and merges their answers.

  The goroutines of \<open>call\<close>, the buffered channel and the timer appear as the sequence of
  events the \<open>select\<close> receives: an answer of an endpoint (an error included) or the expiry
  of the graceful timeout. Any interleaving is some sequence. A call that has consumed its
  events and still waits is \<open>CallBlocked\<close>; a panic caught by the deferred \<open>recover\<close> is
  \<open>CallRecovered\<close>: \<open>call\<close> then returns a nil error and leaves the result untouched.
  The \<open>result\<close> argument is always a pointer in this program, so the first check of \<open>call\<close>
  never fails. The world holds the event sequences of the calls to come and the requests sent
  so far (method and arguments; each goes to every endpoint). Logging is left out.
  \<open>gethRPC\<close> (third-party code) is a parameter: whether registering a name and dialling an
  endpoint succeed.
\<close>

subsection \<open>Definitions: the server and its options\<close>

record server =
  sv_callers :: "string list option"
  sv_totalTimeout :: int
  sv_gracefulTimeout :: int
  sv_requirements :: bool
  sv_default :: defaultResolver
  sv_gas :: gasValueResolver
  sv_block :: blockNumberResolver

definition defaultTotalTimeout :: int where "defaultTotalTimeout = 10 * 10 ^ 9"
definition defaultGracefulTimeout :: int where "defaultGracefulTimeout = 1 * 10 ^ 9"

record geth =
  geth_RegisterName :: "string \<Rightarrow> bool"
  geth_Dial :: "string \<Rightarrow> bool"

datatype server_error =
    RegisterFailed string | OptionFailed string | EndpointsRequired | RequirementsRequired | NilMapWrite

datatype server_option =
    WithEndpoints "string list"
  | WithRequirements int int
  | WithTotalTimeout int
  | WithGracefulTimeout int
  | WithLogger
  | WithCallers "string list option"

fun add_endpoints :: "geth \<Rightarrow> string list \<Rightarrow> server \<Rightarrow> server_error + server" where
  "add_endpoints g [] s = Inr s"
| "add_endpoints g (e # endpoints) s =
     (if \<not> geth_Dial g e then Inl (OptionFailed e)
      else (case sv_callers s of
          None \<Rightarrow> Inl NilMapWrite
        | Some cs \<Rightarrow> add_endpoints g endpoints (s\<lparr>sv_callers := Some (List.insert e cs)\<rparr>)))"

fun apply_option :: "geth \<Rightarrow> server_option \<Rightarrow> server \<Rightarrow> server_error + server" where
  "apply_option g (WithEndpoints endpoints) s = add_endpoints g endpoints s"
| "apply_option g (WithRequirements minResponses maxBlockBehind) s =
     Inr (s\<lparr>sv_requirements := True,
            sv_default := \<lparr>dr_minResponses = minResponses\<rparr>,
            sv_gas := \<lparr>gr_minResponses = minResponses\<rparr>,
            sv_block := \<lparr>br_minResponses = minResponses, br_maxBlocksBehind = maxBlockBehind\<rparr>\<rparr>)"
| "apply_option g (WithTotalTimeout t) s = Inr (s\<lparr>sv_totalTimeout := t\<rparr>)"
| "apply_option g (WithGracefulTimeout t) s = Inr (s\<lparr>sv_gracefulTimeout := t\<rparr>)"
| "apply_option g WithLogger s = Inr s"
| "apply_option g (WithCallers callers) s = Inr (s\<lparr>sv_callers := callers\<rparr>)"

fun apply_options :: "geth \<Rightarrow> server_option list \<Rightarrow> server \<Rightarrow> server_error + server" where
  "apply_options g [] s = Inr s"
| "apply_options g (opt # opts) s =
     (case apply_option g opt s of Inl e \<Rightarrow> Inl e | Inr s' \<Rightarrow> apply_options g opts s')"

definition new_server :: server where
  "new_server = \<lparr>sv_callers = Some [], sv_totalTimeout = 0, sv_gracefulTimeout = 0,
     sv_requirements = False, sv_default = \<lparr>dr_minResponses = 0\<rparr>, sv_gas = \<lparr>gr_minResponses = 0\<rparr>,
     sv_block = \<lparr>br_minResponses = 0, br_maxBlocksBehind = 0\<rparr>\<rparr>"

definition NewServer :: "geth \<Rightarrow> server_option list \<Rightarrow> server_error + server" where
  "NewServer g opts =
     (if \<not> geth_RegisterName g ''eth'' then Inl (RegisterFailed ''eth'')
      else if \<not> geth_RegisterName g ''net'' then Inl (RegisterFailed ''net'')
      else (case apply_options g opts new_server of
          Inl e \<Rightarrow> Inl e
        | Inr h \<Rightarrow>
            if sv_callers h = None then Inl EndpointsRequired
            else if \<not> sv_requirements h then Inl RequirementsRequired
            else
              let h1 = (if sv_totalTimeout h = 0 then h\<lparr>sv_totalTimeout := defaultTotalTimeout\<rparr> else h);
                  h2 = (if sv_gracefulTimeout h1 = 0 then h1\<lparr>sv_gracefulTimeout := defaultGracefulTimeout\<rparr> else h1)
              in Inr h2))"

definition n_callers :: "server \<Rightarrow> nat" where
  "n_callers s = (case sv_callers s of None \<Rightarrow> 0 | Some cs \<Rightarrow> length cs)"

subsection \<open>Definitions: call\<close>

record FilterLogsQuery =
  flq_Address :: "Address list"
  flq_FromBlock :: "BlockNumber option"
  flq_ToBlock :: "BlockNumber option"
  flq_Topics :: "Hash list list"
  flq_BlockHash :: "Hash option"

datatype arg =
    ArgNil
  | ArgHash Hash
  | ArgAddress Address
  | ArgBytes "byte list"
  | ArgNumber Number
  | ArgBlock BlockNumber
  | ArgBool bool
  | ArgAny gval
  | ArgAnyPtr "gval option"
  | ArgFilter FilterLogsQuery

definition isNil :: "arg \<Rightarrow> bool" where
  "isNil v = (case v of ArgNil \<Rightarrow> True | ArgAnyPtr p \<Rightarrow> p = None | _ \<Rightarrow> False)"

text \<open>The loop at index \<open>i\<close>, here \<open>Suc i\<close>; 0 is the end of the loop.\<close>

fun removeTrailing_loop :: "arg list \<Rightarrow> nat \<Rightarrow> arg list" where
  "removeTrailing_loop params 0 = []"
| "removeTrailing_loop params (Suc i) =
     (if isNil (params ! i) then removeTrailing_loop params i else take (i + 1) params)"

definition removeTrailingNilArgs :: "arg list \<Rightarrow> arg list" where
  "removeTrailingNilArgs params = removeTrailing_loop params (length params)"

datatype event = Answer resp | GracefulTimer

datatype call_end = CallOk resp | CallErr "rpc_err list" | CallRecovered | CallBlocked

fun call_loop :: "(resp list \<Rightarrow> resolved) \<Rightarrow> nat \<Rightarrow> resp list \<Rightarrow> event list \<Rightarrow> call_end" where
  "call_loop resolve n rs [] = CallBlocked"
| "call_loop resolve n rs (ev # evs) =
     (let (rs1, wait) = (case ev of Answer r \<Rightarrow> (rs @ [r], True) | GracefulTimer \<Rightarrow> (rs, False));
          wait1 = (if length rs1 = n then False else wait)
      in if \<not> wait1 then
           (case resolve rs1 of
              Panic _ \<Rightarrow> CallRecovered
            | Ret (Inr res) \<Rightarrow> CallOk res
            | Ret (Inl err) \<Rightarrow>
                if length rs1 \<ge> n then CallErr err else call_loop resolve n rs1 evs)
         else call_loop resolve n rs1 evs)"

datatype reply = ZeroReply string | Resolved resp

datatype hres = Blocked | Returned "reply option" "rpc_error option"

record world =
  w_events :: "event list list"
  w_sent :: "(string \<times> arg list) list"

definition run_call :: "server \<Rightarrow> (resp list \<Rightarrow> resolved) \<Rightarrow> string \<Rightarrow> arg list \<Rightarrow> world \<Rightarrow> call_end \<times> world" where
  "run_call s resolve method args w =
     (let evs = (case w_events w of [] \<Rightarrow> [] | e # _ \<Rightarrow> e) in
      (call_loop resolve (n_callers s) [] evs,
       w\<lparr>w_events := tl (w_events w), w_sent := w_sent w @ [(method, removeTrailingNilArgs args)]\<rparr>))"

text \<open>\<open>res := &T\{}; err := call(...); return res, err\<close>.\<close>

definition call :: "server \<Rightarrow> (resp list \<Rightarrow> resolved) \<Rightarrow> string \<Rightarrow> string \<Rightarrow> arg list \<Rightarrow> world \<Rightarrow> hres \<times> world" where
  "call s resolve zero method args w =
     (case run_call s resolve method args w of (e, w') \<Rightarrow>
        (case e of
           CallOk r \<Rightarrow> Returned (Some (Resolved r)) None
         | CallErr err \<Rightarrow> Returned (Some (ZeroReply zero)) (Some (ErrorList err))
         | CallRecovered \<Rightarrow> Returned (Some (ZeroReply zero)) None
         | CallBlocked \<Rightarrow> Blocked, w'))"

datatype tag_result = TagOk BlockNumber | TagErr rpc_error | TagBlocked

definition errEarliest :: rpc_error where
  "errEarliest = SingleError \<lparr>err_msg = ''earliest tag is not supported'', err_code = None, err_data = None\<rparr>"

definition taggedBlockToNumber :: "server \<Rightarrow> BlockNumber \<Rightarrow> world \<Rightarrow> tag_result \<times> world" where
  "taggedBlockToNumber s blockID w =
     (if n_callers s = 1 then (TagOk blockID, w)
      else if \<not> IsTag blockID then (TagOk blockID, w)
      else if IsEarliest blockID then (TagErr errEarliest, w)
      else (case run_call s (block_resolve (sv_block s)) ''eth_blockNumber'' [] w of (e, w') \<Rightarrow>
        (case e of
           CallOk (RNum n) \<Rightarrow> TagOk \<lparr>blk_x = num_x n\<rparr>
         | CallOk _ \<Rightarrow> TagOk \<lparr>blk_x = 0\<rparr>
         | CallErr err \<Rightarrow> TagErr (ErrorList err)
         | CallRecovered \<Rightarrow> TagOk \<lparr>blk_x = 0\<rparr>
         | CallBlocked \<Rightarrow> TagBlocked, w')))"

text \<open>The block number of a tag, then the rest of a handler; an error is returned with a nil result.\<close>

definition with_block :: "server \<Rightarrow> BlockNumber \<Rightarrow> (BlockNumber \<Rightarrow> world \<Rightarrow> hres \<times> world) \<Rightarrow> world \<Rightarrow> hres \<times> world" where
  "with_block s blockID k w =
     (case taggedBlockToNumber s blockID w of
        (TagOk blockNumber, w') \<Rightarrow> k blockNumber w'
      | (TagErr err, w') \<Rightarrow> (Returned None (Some err), w')
      | (TagBlocked, w') \<Rightarrow> (Blocked, w'))"

subsection \<open>Definitions: the handlers\<close>

definition Eth_BlockNumber :: "server \<Rightarrow> world \<Rightarrow> hres \<times> world" where
  "Eth_BlockNumber s = call s (block_resolve (sv_block s)) ''types.Number'' ''eth_blockNumber'' []"

definition Eth_GetBlockByHash :: "server \<Rightarrow> Hash \<Rightarrow> bool \<Rightarrow> world \<Rightarrow> hres \<times> world" where
  "Eth_GetBlockByHash s blockHash obj =
     call s (default_resolve (sv_default s)) (if obj then ''types.BlockTxObjects'' else ''types.BlockTxHashes'')
       ''eth_getBlockByHash'' [ArgHash blockHash, ArgBool obj]"

definition Eth_GetBlockByNumber :: "server \<Rightarrow> Number \<Rightarrow> bool \<Rightarrow> world \<Rightarrow> hres \<times> world" where
  "Eth_GetBlockByNumber s blockNumber obj =
     call s (default_resolve (sv_default s)) (if obj then ''types.BlockTxObjects'' else ''types.BlockTxHashes'')
       ''eth_getBlockByNumber'' [ArgNumber blockNumber, ArgBool obj]"

definition Eth_GetTransactionByHash :: "server \<Rightarrow> Hash \<Rightarrow> world \<Rightarrow> hres \<times> world" where
  "Eth_GetTransactionByHash s txHash =
     call s (default_resolve (sv_default s)) ''types.Transaction'' ''eth_getTransactionByHash'' [ArgHash txHash]"

definition Eth_GetTransactionCount :: "server \<Rightarrow> Address \<Rightarrow> BlockNumber \<Rightarrow> world \<Rightarrow> hres \<times> world" where
  "Eth_GetTransactionCount s addr blockID =
     with_block s blockID (\<lambda>blockNumber.
       call s (default_resolve (sv_default s)) ''types.Number'' ''eth_getTransactionCount''
         [ArgAddress addr, ArgBlock blockNumber])"

definition Eth_GetTransactionReceipt :: "server \<Rightarrow> Hash \<Rightarrow> world \<Rightarrow> hres \<times> world" where
  "Eth_GetTransactionReceipt s txHash =
     call s (default_resolve (sv_default s)) ''types.TransactionReceiptType'' ''eth_getTransactionReceipt''
       [ArgHash txHash]"

definition Eth_SendRawTransaction :: "server \<Rightarrow> byte list \<Rightarrow> world \<Rightarrow> hres \<times> world" where
  "Eth_SendRawTransaction s data =
     call s (default_resolve (sv_default s)) ''types.Hash'' ''eth_sendRawTransaction'' [ArgBytes data]"

definition Eth_GetBalance :: "server \<Rightarrow> Address \<Rightarrow> BlockNumber \<Rightarrow> world \<Rightarrow> hres \<times> world" where
  "Eth_GetBalance s addr blockID =
     with_block s blockID (\<lambda>blockNumber.
       call s (default_resolve (sv_default s)) ''types.Number'' ''eth_getBalance''
         [ArgAddress addr, ArgBlock blockNumber])"

definition Eth_GetCode :: "server \<Rightarrow> Address \<Rightarrow> BlockNumber \<Rightarrow> world \<Rightarrow> hres \<times> world" where
  "Eth_GetCode s addr blockID =
     with_block s blockID (\<lambda>blockNumber.
       call s (default_resolve (sv_default s)) ''types.Bytes'' ''eth_getCode''
         [ArgAddress addr, ArgBlock blockNumber])"

definition Eth_GetStorageAt :: "server \<Rightarrow> Address \<Rightarrow> Number \<Rightarrow> BlockNumber \<Rightarrow> world \<Rightarrow> hres \<times> world" where
  "Eth_GetStorageAt s data pos blockID =
     with_block s blockID (\<lambda>blockNumber.
       call s (default_resolve (sv_default s)) ''types.Hash'' ''eth_getStorageAt''
         [ArgAddress data, ArgNumber pos, ArgBlock blockNumber])"

definition Eth_Call :: "server \<Rightarrow> gval \<Rightarrow> BlockNumber \<Rightarrow> gval option \<Rightarrow> world \<Rightarrow> hres \<times> world" where
  "Eth_Call s args blockID overrides =
     with_block s blockID (\<lambda>blockNumber.
       call s (default_resolve (sv_default s)) ''types.Bytes'' ''eth_call''
         [ArgAny args, ArgBlock blockNumber, ArgAnyPtr overrides])"

definition replace_block :: "server \<Rightarrow> BlockNumber option \<Rightarrow> world \<Rightarrow> (tag_result + BlockNumber option) \<times> world" where
  "replace_block s b w =
     (case b of
        None \<Rightarrow> (Inr None, w)
      | Some blockID \<Rightarrow>
          (case taggedBlockToNumber s blockID w of
             (TagOk blockNumber, w') \<Rightarrow> (Inr (Some blockNumber), w')
           | (r, w') \<Rightarrow> (Inl r, w')))"

definition tag_failure :: "tag_result \<Rightarrow> hres" where
  "tag_failure r = (case r of TagErr err \<Rightarrow> Returned None (Some err) | _ \<Rightarrow> Blocked)"

definition Eth_GetLogs :: "server \<Rightarrow> FilterLogsQuery \<Rightarrow> world \<Rightarrow> hres \<times> world" where
  "Eth_GetLogs s logFilter w =
     (case replace_block s (flq_FromBlock logFilter) w of
        (Inl r, w1) \<Rightarrow> (tag_failure r, w1)
      | (Inr from, w1) \<Rightarrow>
          let logFilter1 = logFilter\<lparr>flq_FromBlock := from\<rparr> in
          (case replace_block s (flq_ToBlock logFilter1) w1 of
             (Inl r, w2) \<Rightarrow> (tag_failure r, w2)
           | (Inr to, w2) \<Rightarrow>
               let logFilter2 = logFilter1\<lparr>flq_ToBlock := to\<rparr> in
               call s (default_resolve (sv_default s)) ''[]types.Log'' ''eth_getLogs'' [ArgFilter logFilter2] w2))"

definition Eth_GasPrice :: "server \<Rightarrow> world \<Rightarrow> hres \<times> world" where
  "Eth_GasPrice s = call s (gas_resolve (sv_gas s)) ''types.Number'' ''eth_gasPrice'' []"

definition Eth_EstimateGas :: "server \<Rightarrow> gval \<Rightarrow> BlockNumber \<Rightarrow> world \<Rightarrow> hres \<times> world" where
  "Eth_EstimateGas s args blockID =
     with_block s blockID (\<lambda>blockNumber.
       call s (gas_resolve (sv_gas s)) ''types.Number'' ''eth_estimateGas'' [ArgAny args, ArgBlock blockNumber])"

definition Eth_FeeHistory :: "server \<Rightarrow> Number \<Rightarrow> BlockNumber \<Rightarrow> gval \<Rightarrow> world \<Rightarrow> hres \<times> world" where
  "Eth_FeeHistory s cnt newestBlockID percentiles =
     with_block s newestBlockID (\<lambda>blockNumber.
       call s (default_resolve (sv_default s)) ''types.FeeHistory'' ''eth_feeHistory''
         [ArgNumber cnt, ArgBlock blockNumber, ArgAny percentiles])"

definition Eth_MaxPriorityFeePerGas :: "server \<Rightarrow> world \<Rightarrow> hres \<times> world" where
  "Eth_MaxPriorityFeePerGas s = call s (gas_resolve (sv_gas s)) ''types.Number'' ''eth_maxPriorityFeePerGas'' []"

definition Eth_ChainId :: "server \<Rightarrow> world \<Rightarrow> hres \<times> world" where
  "Eth_ChainId s = call s (default_resolve (sv_default s)) ''types.Number'' ''eth_chainId'' []"

definition Net_Version :: "server \<Rightarrow> world \<Rightarrow> hres \<times> world" where
  "Net_Version s = call s (default_resolve (sv_default s)) ''Any'' ''net_version'' []"

subsection \<open>Lemmas: the event loop\<close>

text \<open>What a call makes of the answers once it stops waiting.\<close>

definition settle :: "resolved \<Rightarrow> call_end" where
  "settle r = (case r of Panic _ \<Rightarrow> CallRecovered | Ret (Inr x) \<Rightarrow> CallOk x | Ret (Inl e) \<Rightarrow> CallErr e)"

definition answers :: "event list \<Rightarrow> resp list" where
  "answers evs = List.map_filter (\<lambda>e. case e of Answer r \<Rightarrow> Some r | GracefulTimer \<Rightarrow> None) evs"

lemma answers_simps [simp]:
  "answers [] = []" "answers (Answer r # evs) = r # answers evs" "answers (GracefulTimer # evs) = answers evs"
  by (simp_all add: answers_def List.map_filter_def)

lemma call_loop_answer:
  "call_loop f n rs (Answer r # evs) =
     (if length rs + 1 = n then settle (f (rs @ [r]))
      else call_loop f n (rs @ [r]) evs)"
  by (simp add: settle_def split: go.splits sum.splits)

lemma call_loop_timer:
  "call_loop f n rs (GracefulTimer # evs) =
     (case f rs of Ret (Inl e) \<Rightarrow> if n \<le> length rs then CallErr e else call_loop f n rs evs | r \<Rightarrow> settle r)"
  by (simp add: settle_def split: go.splits sum.splits)

lemma call_loop_answers:
  "length rs < n \<Longrightarrow> length rs + length bs = n \<Longrightarrow> call_loop f n rs (map Answer bs) = settle (f (rs @ bs))"
  by (induction bs arbitrary: rs) (auto simp: call_loop_answer simp del: call_loop.simps)

lemma call_loop_prefix:
  "length rs + length as < n \<Longrightarrow> call_loop f n rs (map Answer as @ evs) = call_loop f n (rs @ as) evs"
  by (induction as arbitrary: rs) (simp_all add: call_loop_answer del: call_loop.simps)

lemma call_loop_returns:
  "length rs < n \<Longrightarrow> n \<le> length rs + length (answers evs) \<Longrightarrow> call_loop f n rs evs \<noteq> CallBlocked"
proof (induction evs arbitrary: rs)
  case (Cons e evs)
  show ?case
  proof (cases e)
    case (Answer r)
    with Cons.IH [of "rs @ [r]"] Cons.prems show ?thesis
      by (auto simp: call_loop_answer settle_def simp del: call_loop.simps split: go.splits sum.splits)
  next
    case GracefulTimer
    with Cons.IH [of rs] Cons.prems show ?thesis
      by (auto simp: call_loop_timer settle_def simp del: call_loop.simps split: go.splits sum.splits)
  qed
qed simp

text \<open>Whatever a call returns, it is what the resolver made of the first \<open>k\<close> answers.\<close>

lemma call_loop_source:
  "call_loop f n rs evs \<noteq> CallBlocked \<Longrightarrow>
   \<exists>k \<le> length (answers evs). call_loop f n rs evs = settle (f (rs @ take k (answers evs)))"
proof (induction evs arbitrary: rs)
  case (Cons e evs)
  show ?case
  proof (cases e)
    case (Answer r)
    show ?thesis
    proof (cases "length rs + 1 = n")
      case True
      with Answer show ?thesis
        by (intro exI [of _ 1]) (simp add: call_loop_answer del: call_loop.simps)
    next
      case False
      with Cons.prems Answer obtain k where "k \<le> length (answers evs)"
        "call_loop f n rs (e # evs) = settle (f ((rs @ [r]) @ take k (answers evs)))"
        using Cons.IH [of "rs @ [r]"] by (auto simp: call_loop_answer simp del: call_loop.simps)
      with Answer show ?thesis by (intro exI [of _ "Suc k"]) (simp del: call_loop.simps)
    qed
  next
    case GracefulTimer
    show ?thesis
    proof (cases "\<exists>err. f rs = Ret (Inl err) \<and> \<not> n \<le> length rs")
      case True
      with Cons GracefulTimer show ?thesis by (auto simp: call_loop_timer simp del: call_loop.simps)
    next
      case False
      with GracefulTimer show ?thesis
        by (intro exI [of _ 0])
          (auto simp: call_loop_timer settle_def simp del: call_loop.simps split: go.splits sum.splits)
    qed
  qed
qed simp

text \<open>What the contract of a resolver gives for a call.\<close>

context resolver_contract
begin

lemma call_never_recovers: "0 < m \<Longrightarrow> call_loop resolve n [] evs \<noteq> CallRecovered"
proof
  assume "0 < m" "call_loop resolve n [] evs = CallRecovered"
  then obtain k where "settle (resolve (take k (answers evs))) = CallRecovered"
    using call_loop_source [of resolve n "[]" evs] by (metis append_Nil call_end.distinct(11))
  with no_panic [OF \<open>0 < m\<close>, of "take k (answers evs)"] show False
    by (auto simp: settle_def panics_def split: go.splits sum.splits)
qed

lemma call_ok_enough: "call_loop resolve n [] evs = CallOk x \<Longrightarrow> m \<le> int (length (vals (answers evs)))"
proof -
  assume ok: "call_loop resolve n [] evs = CallOk x"
  then obtain k where "settle (resolve (take k (answers evs))) = CallOk x"
    using call_loop_source [of resolve n "[]" evs] by auto
  then have "m \<le> int (length (vals (take k (answers evs))))"
    by (intro enough) (auto simp: settle_def split: go.splits sum.splits)
  also have "length (vals (take k (answers evs))) \<le> length (vals (answers evs))"
    unfolding vals_def by (metis append_take_drop_id filter_append le_add1 length_append)
  finally show ?thesis by simp
qed

end

subsection \<open>Lemmas: arguments, tags and options\<close>

lemma removeTrailing_spec:
  "i \<le> length params \<Longrightarrow> \<exists>k \<le> i. removeTrailing_loop params i = take k params \<and>
     (\<forall>j. k \<le> j \<longrightarrow> j < i \<longrightarrow> isNil (params ! j)) \<and> (0 < k \<longrightarrow> \<not> isNil (params ! (k - 1)))"
proof (induction i)
  case (Suc i)
  show ?case
  proof (cases "isNil (params ! i)")
    case True
    with Suc obtain k where "k \<le> i" "removeTrailing_loop params i = take k params"
      "\<forall>j. k \<le> j \<longrightarrow> j < i \<longrightarrow> isNil (params ! j)" "0 < k \<longrightarrow> \<not> isNil (params ! (k - 1))" by auto
    with True show ?thesis by (intro exI [of _ k]) (auto simp: less_Suc_eq)
  next
    case False
    then show ?thesis by (intro exI [of _ "Suc i"]) auto
  qed
qed simp

definition arg_tagged :: "arg \<Rightarrow> bool" where
  "arg_tagged a = (case a of
       ArgBlock b \<Rightarrow> IsTag b
     | ArgFilter q \<Rightarrow> (case flq_FromBlock q of None \<Rightarrow> False | Some b \<Rightarrow> IsTag b) \<or>
         (case flq_ToBlock q of None \<Rightarrow> False | Some b \<Rightarrow> IsTag b)
     | _ \<Rightarrow> False)"

text \<open>No request of the list carries a block tag.\<close>

definition untagged :: "(string \<times> arg list) list \<Rightarrow> bool" where
  "untagged reqs \<longleftrightarrow> (\<forall>(m, args) \<in> set reqs. \<forall>a \<in> set args. \<not> arg_tagged a)"

text \<open>All numbers in the answers to come are non-negative, as block numbers are.\<close>

definition sane_events :: "world \<Rightarrow> bool" where
  "sane_events w \<longleftrightarrow> (\<forall>evs \<in> set (w_events w). \<forall>x \<in> set (nums (answers evs)). 0 \<le> x)"

lemma set_removeTrailing: "set (removeTrailingNilArgs args) \<subseteq> set args"
  using removeTrailing_spec [of "length args" args] set_take_subset [of _ args]
  unfolding removeTrailingNilArgs_def by force

lemma run_call_world:
  "run_call s f method args w = (e, w') \<Longrightarrow>
   w_sent w' = w_sent w @ [(method, removeTrailingNilArgs args)] \<and> w_events w' = tl (w_events w)"
  by (auto simp: run_call_def Let_def)

lemma sane_events_tl: "sane_events w \<Longrightarrow> w_events w' = tl (w_events w) \<Longrightarrow> sane_events w'"
  unfolding sane_events_def by (cases "w_events w") auto

lemma call_sent: "w_sent (snd (call s f zero method args w)) = w_sent w @ [(method, removeTrailingNilArgs args)]"
  by (auto simp: call_def run_call_def Let_def)

lemma nums_append: "nums (rs @ rs') = nums rs @ nums rs'"
  by (simp add: nums_def List.map_filter_def)

lemma nums_take: "set (nums (take k rs)) \<subseteq> set (nums rs)"
  using nums_append [of "take k rs" "drop k rs"] by simp

lemma block_resolve_in:
  assumes "block_resolve b rs = Ret (Inr (RNum n))"
  shows "num_x n \<in> set (nums rs)"
proof -
  have enough: "br_minResponses b \<le> int (length (nums rs))"
    using assms by (auto simp: block_resolve_def extractErrors_eq length_nums Let_def split: if_splits)
  have ne: "nums rs \<noteq> []"
    using assms length_nums [of rs]
    by (auto simp: block_resolve_def extractErrors_eq Let_def split: if_splits list.splits)
  let ?h = "Max (set (nums rs))"
  have "num_x n = Min (insert ?h (recent ?h (br_maxBlocksBehind b) (set (nums rs))))"
    using block_resolve_value [OF ne enough] assms by auto
  moreover have "finite (insert ?h (recent ?h (br_maxBlocksBehind b) (set (nums rs))))"
    by (simp add: recent_def)
  ultimately have "num_x n \<in> insert ?h (recent ?h (br_maxBlocksBehind b) (set (nums rs)))"
    by (metis Min_in insert_not_empty)
  then show ?thesis using ne by (auto simp: recent_def)
qed

lemma run_call_block:
  assumes "run_call s (block_resolve b) method args w = (CallOk (RNum n), w')" "sane_events w"
  shows "0 \<le> num_x n"
proof (cases "w_events w")
  case Nil
  with assms(1) show ?thesis by (simp add: run_call_def)
next
  case (Cons evs rest)
  with assms(1) have ok: "call_loop (block_resolve b) (n_callers s) [] evs = CallOk (RNum n)"
    by (simp add: run_call_def Let_def)
  then obtain k where "settle (block_resolve b (take k (answers evs))) = CallOk (RNum n)"
    using call_loop_source [of "block_resolve b" "n_callers s" "[]" evs] by auto
  then have "block_resolve b (take k (answers evs)) = Ret (Inr (RNum n))"
    by (auto simp: settle_def split: go.splits sum.splits)
  from block_resolve_in [OF this] nums_take show ?thesis
    using assms(2) Cons unfolding sane_events_def by fastforce
qed

lemma untagged_snoc: "untagged (reqs @ [(m, args)]) \<longleftrightarrow> untagged reqs \<and> (\<forall>a \<in> set args. \<not> arg_tagged a)"
  by (auto simp: untagged_def)

lemma taggedBlock_untagged:
  assumes "taggedBlockToNumber s b w = (r, w')" "sane_events w" "n_callers s \<noteq> 1" "untagged (w_sent w)"
  shows "untagged (w_sent w') \<and> sane_events w' \<and> (case r of TagOk b' \<Rightarrow> \<not> IsTag b' | _ \<Rightarrow> True)"
proof (cases "IsTag b \<and> \<not> IsEarliest b")
  case True
  obtain e w1 where call: "run_call s (block_resolve (sv_block s)) ''eth_blockNumber'' [] w = (e, w1)"
    by (metis surj_pair)
  note world = run_call_world [OF call]
  have "w' = w1" and r: "r = (case e of CallOk (RNum n) \<Rightarrow> TagOk \<lparr>blk_x = num_x n\<rparr> | CallOk _ \<Rightarrow> TagOk \<lparr>blk_x = 0\<rparr>
      | CallErr err \<Rightarrow> TagErr (ErrorList err) | CallRecovered \<Rightarrow> TagOk \<lparr>blk_x = 0\<rparr> | CallBlocked \<Rightarrow> TagBlocked)"
    using assms(1,3) True call by (simp_all add: taggedBlockToNumber_def)
  moreover have "untagged (w_sent w1)" using world assms(4) set_removeTrailing [of "[]"]
    by (auto simp: untagged_snoc)
  moreover have "sane_events w1" using sane_events_tl [OF assms(2)] world by simp
  moreover have "case r of TagOk b' \<Rightarrow> \<not> IsTag b' | _ \<Rightarrow> True"
    using r run_call_block [of s "sv_block s" "''eth_blockNumber''" "[]" w _ w1] assms(2) call
    by (fastforce simp: IsTag_def Block_Big_def split: call_end.splits resp.splits)
  ultimately show ?thesis by simp
next
  case False
  with assms show ?thesis by (cases "IsTag b") (auto simp: taggedBlockToNumber_def)
qed

lemma call_untagged:
  "untagged (w_sent w) \<Longrightarrow> \<forall>a \<in> set args. \<not> arg_tagged a \<Longrightarrow> untagged (w_sent (snd (call s f zero method args w)))"
  using set_removeTrailing [of args] by (auto simp: call_sent untagged_snoc)

lemma with_block_untagged:
  assumes "sane_events w" "n_callers s \<noteq> 1" "untagged (w_sent w)"
    and "\<And>b' w'. \<not> IsTag b' \<Longrightarrow> untagged (w_sent w') \<Longrightarrow> untagged (w_sent (snd (k b' w')))"
  shows "untagged (w_sent (snd (with_block s b k w)))"
proof -
  obtain r w' where t: "taggedBlockToNumber s b w = (r, w')" by (metis surj_pair)
  from taggedBlock_untagged [OF t assms(1-3)] assms(4) t show ?thesis
    by (auto simp: with_block_def split: tag_result.splits)
qed

lemma replace_block_untagged:
  assumes "replace_block s b w = (r, w')" "sane_events w" "n_callers s \<noteq> 1" "untagged (w_sent w)"
  shows "untagged (w_sent w') \<and> sane_events w' \<and> (\<forall>b'. r = Inr (Some b') \<longrightarrow> \<not> IsTag b')"
proof (cases b)
  case None
  with assms show ?thesis by (auto simp: replace_block_def)
next
  case (Some blockID)
  obtain t w1 where t: "taggedBlockToNumber s blockID w = (t, w1)" by (metis surj_pair)
  from taggedBlock_untagged [OF t assms(2-4)] assms(1) Some t show ?thesis
    by (auto simp: replace_block_def split: tag_result.splits)
qed

lemma GetLogs_untagged:
  assumes "sane_events w" "n_callers s \<noteq> 1" "untagged (w_sent w)"
  shows "untagged (w_sent (snd (Eth_GetLogs s q w)))"
proof -
  obtain r w1 where r: "replace_block s (flq_FromBlock q) w = (r, w1)" by (metis surj_pair)
  obtain r' w2 where r': "replace_block s (flq_ToBlock q) w1 = (r', w2)" by (metis surj_pair)
  note one = replace_block_untagged [OF r assms]
  note two = replace_block_untagged [OF r' _ assms(2)]
  show ?thesis
  proof (cases "\<exists>x y. r = Inr x \<and> r' = Inr y")
    case True
    then obtain x y where xy: "r = Inr x" "r' = Inr y" by blast
    have "untagged (w_sent w2)" using one two by blast
    moreover have "\<not> arg_tagged (ArgFilter (q\<lparr>flq_FromBlock := x, flq_ToBlock := y\<rparr>))"
      using one two xy by (auto simp: arg_tagged_def split: option.splits)
    ultimately show ?thesis using r r' xy
      by (auto simp: Eth_GetLogs_def Let_def intro: call_untagged)
  next
    case False
    with one two r r' show ?thesis by (cases r; cases r') (auto simp: Eth_GetLogs_def Let_def)
  qed
qed

lemma add_endpoints_eq:
  "sv_callers s = Some cs \<Longrightarrow> add_endpoints g es s =
     (case find (\<lambda>e. \<not> geth_Dial g e) es of
        Some e \<Rightarrow> Inl (OptionFailed e)
      | None \<Rightarrow> Inr (s\<lparr>sv_callers := Some (fold List.insert es cs)\<rparr>))"
  by (induction es arbitrary: s cs) (auto split: option.splits)

lemma fold_insert: "distinct cs \<Longrightarrow> distinct (fold List.insert es cs) \<and> set (fold List.insert es cs) = set es \<union> set cs"
  by (induction es arbitrary: cs) auto

subsection \<open>Properties\<close>

text \<open>
  C17: A call ends: when every endpoint of a server with at least one endpoint answers (an
  error counts), the call returns, wherever the timer fires among the answers.
\<close>

theorem call_terminates:
  assumes "0 < n_callers s" "n_callers s \<le> length (answers evs)"
  shows "fst (run_call s f method args (w\<lparr>w_events := evs # rest\<rparr>)) \<noteq> CallBlocked"
  using call_loop_returns [of "[]" "n_callers s" evs f] assms by (simp add: run_call_def Let_def)

theorem call_terminates_witness:
  "fst (run_call (new_server\<lparr>sv_callers := Some [''a'']\<rparr>) (default_resolve \<lparr>dr_minResponses = 1\<rparr>) ''eth_chainId'' []
     (\<lparr>w_events = [], w_sent = []\<rparr>\<lparr>w_events := [GracefulTimer, Answer (RNum \<lparr>num_x = 1\<rparr>)] # []\<rparr>)) \<noteq> CallBlocked"
  by (rule call_terminates) (simp_all add: n_callers_def new_server_def)

text \<open>
  C3: The outcome of a call for every position of the timer. Without it, the resolver sees
  all answers. When it fires after the answers \<open>as\<close>, their resolution is returned if it is
  no error; otherwise the call waits for all the remaining answers and resolves once more
  with all of them: later answers that would complete a valid response are not looked at
  before the last endpoint has answered.
\<close>

theorem call_outcome:
  assumes "length as + length bs = n" "length as < n"
  shows "call_loop f n [] (map Answer (as @ bs)) = settle (f (as @ bs)) \<and>
    call_loop f n [] (map Answer as @ GracefulTimer # map Answer bs) =
      (case f as of Ret (Inl e) \<Rightarrow> settle (f (as @ bs)) | r \<Rightarrow> settle r)"
proof
  show "call_loop f n [] (map Answer (as @ bs)) = settle (f (as @ bs))"
    using call_loop_answers [of "[]" n "as @ bs" f] assms by simp
  show "call_loop f n [] (map Answer as @ GracefulTimer # map Answer bs) =
      (case f as of Ret (Inl e) \<Rightarrow> settle (f (as @ bs)) | r \<Rightarrow> settle r)"
    using call_loop_prefix [of "[]" as n f] call_loop_answers [of as n bs f] assms
    by (simp add: call_loop_timer del: call_loop.simps split: go.splits sum.splits)
qed

theorem call_outcome_witness:
  "call_loop (default_resolve \<lparr>dr_minResponses = 2\<rparr>) 2 []
     [Answer (RVal (GBool ''bool'' True)), GracefulTimer, Answer (RVal (GBool ''bool'' True))] = CallOk (RVal (GBool ''bool'' True))"
proof -
  have f: "default_resolve \<lparr>dr_minResponses = 2\<rparr> [RVal (GBool ''bool'' True)] = Ret (Inl [errNotEnoughResponses])"
    "settle (default_resolve \<lparr>dr_minResponses = 2\<rparr> [RVal (GBool ''bool'' True), RVal (GBool ''bool'' True)]) = CallOk (RVal (GBool ''bool'' True))"
    by code_simp+
  from call_outcome [of "[RVal (GBool ''bool'' True)]" "[RVal (GBool ''bool'' True)]" 2 "default_resolve \<lparr>dr_minResponses = 2\<rparr>"] f
  show ?thesis by (simp del: call_loop.simps)
qed

text \<open>
  C18: With a positive \<open>minResponses\<close> no resolver panics inside a call, and a call succeeds
  only after at least \<open>minResponses\<close> endpoints have answered without an error.
\<close>

theorem call_needs_min_responses:
  assumes "0 < dr_minResponses d" "0 < gr_minResponses g" "0 < br_minResponses b"
  shows "call_loop (default_resolve d) n [] evs \<noteq> CallRecovered \<and>
    call_loop (gas_resolve g) n [] evs \<noteq> CallRecovered \<and>
    call_loop (block_resolve b) n [] evs \<noteq> CallRecovered \<and>
    (call_loop (default_resolve d) n [] evs = CallOk x \<longrightarrow> dr_minResponses d \<le> int (length (vals (answers evs)))) \<and>
    (call_loop (gas_resolve g) n [] evs = CallOk x \<longrightarrow> gr_minResponses g \<le> int (length (vals (answers evs)))) \<and>
    (call_loop (block_resolve b) n [] evs = CallOk x \<longrightarrow> br_minResponses b \<le> int (length (vals (answers evs))))"
  using default_contract.call_never_recovers [OF assms(1)] gas_contract.call_never_recovers [OF assms(2)]
    block_contract.call_never_recovers [OF assms(3)] default_contract.call_ok_enough
    gas_contract.call_ok_enough block_contract.call_ok_enough
  by blast

theorem call_needs_min_responses_witness:
  "(2 :: int) \<le> int (length (vals (answers [Answer (RNum \<lparr>num_x = 3\<rparr>), Answer (RNum \<lparr>num_x = 4\<rparr>)])))"
proof -
  have "call_loop (block_resolve \<lparr>br_minResponses = 2, br_maxBlocksBehind = 1\<rparr>) 2 []
      [Answer (RNum \<lparr>num_x = 3\<rparr>), Answer (RNum \<lparr>num_x = 4\<rparr>)] = CallOk (RNum \<lparr>num_x = 3\<rparr>)" by code_simp
  with call_needs_min_responses [of "\<lparr>dr_minResponses = 2\<rparr>" "\<lparr>gr_minResponses = 2\<rparr>"
      "\<lparr>br_minResponses = 2, br_maxBlocksBehind = 1\<rparr>" 2 "[Answer (RNum \<lparr>num_x = 3\<rparr>), Answer (RNum \<lparr>num_x = 4\<rparr>)]"
      "RNum \<lparr>num_x = 3\<rparr>"]
  show ?thesis by simp
qed



text \<open>
  \<open>removeTrailingNilArgs\<close> cuts exactly the nil arguments at the end: the result is a
  prefix that does not end in a nil, and everything after it is nil.
\<close>

theorem removeTrailingNilArgs_spec:
  "\<exists>cut. params = removeTrailingNilArgs params @ cut \<and> list_all isNil cut \<and>
     (if removeTrailingNilArgs params = [] then True else \<not> isNil (last (removeTrailingNilArgs params)))"
proof -
  obtain k where k: "k \<le> length params" "removeTrailingNilArgs params = take k params"
    "\<forall>j. k \<le> j \<longrightarrow> j < length params \<longrightarrow> isNil (params ! j)" "0 < k \<longrightarrow> \<not> isNil (params ! (k - 1))"
    using removeTrailing_spec [of "length params" params] unfolding removeTrailingNilArgs_def by blast
  have "list_all isNil (drop k params)" unfolding list_all_iff
  proof
    fix a assume "a \<in> set (drop k params)"
    then obtain j where "j < length params - k" "a = params ! (k + j)" by (auto simp: in_set_conv_nth)
    with k(3) show "isNil a" by simp
  qed
  moreover have "last (take k params) = params ! (k - 1)" if "0 < k"
  proof -
    have "take k params \<noteq> []" "length (take k params) = k" using that k(1) by auto
    with that show ?thesis by (simp add: last_conv_nth)
  qed
  ultimately show ?thesis using k by (intro exI [of _ "drop k params"]) auto
qed

text \<open>
  \<open>NewServer\<close> with endpoints and requirements fails with the first endpoint that cannot
  be dialled, and otherwise has one caller for each different endpoint, the given limits in
  all three resolvers, and the default timeouts.
\<close>

theorem NewServer_spec:
  "NewServer \<lparr>geth_RegisterName = \<lambda>_. True, geth_Dial = dial\<rparr> [WithEndpoints es, WithRequirements m k] =
     (case find (\<lambda>e. \<not> dial e) es of
        Some e \<Rightarrow> Inl (OptionFailed e)
      | None \<Rightarrow> Inr \<lparr>sv_callers = Some (fold List.insert es []), sv_totalTimeout = defaultTotalTimeout,
          sv_gracefulTimeout = defaultGracefulTimeout, sv_requirements = True, sv_default = \<lparr>dr_minResponses = m\<rparr>,
          sv_gas = \<lparr>gr_minResponses = m\<rparr>, sv_block = \<lparr>br_minResponses = m, br_maxBlocksBehind = k\<rparr>\<rparr>) \<and>
   length (fold List.insert es []) = card (set es)"
proof
  show "length (fold List.insert es []) = card (set es)"
    using fold_insert [of "[]" es] distinct_card [of "fold List.insert es []"] by simp
qed (simp add: NewServer_def new_server_def Let_def add_endpoints_eq [of _ "[]"] split: option.splits)

text \<open>
  A server without endpoints passes the checks of \<open>NewServer\<close>: the map of callers is never
  nil, so the error that asks for \<open>WithEndpoints\<close> is unreachable.
\<close>

lemma NewServer_without_endpoints:
  "\<exists>s. NewServer \<lparr>geth_RegisterName = \<lambda>_. True, geth_Dial = \<lambda>_. True\<rparr> [WithRequirements 1 10] = Inr s \<and> n_callers s = 0"
  by (simp add: NewServer_def new_server_def n_callers_def Let_def)

text \<open>
  \<open>minResponses = 0\<close> is accepted; when every endpoint fails, the resolver panics and the
  call reports success with a zero result. A tag then becomes block 0.
\<close>

lemma failed_call_reports_success:
  "fst (Eth_GasPrice (new_server\<lparr>sv_callers := Some [''a'']\<rparr>)
     \<lparr>w_events = [[Answer (RErr errNotEnoughResponses)]], w_sent = []\<rparr>) = Returned (Some (ZeroReply ''types.Number'')) None"
  by code_simp

text \<open>
  After the graceful timeout three equal answers of four, with two required, are not returned
  until the fourth endpoint answers.
\<close>

lemma late_answers_wait:
  "call_loop (default_resolve \<lparr>dr_minResponses = 2\<rparr>) 4 []
     [Answer (RVal (GBool ''bool'' True)), GracefulTimer, Answer (RVal (GBool ''bool'' True)), Answer (RVal (GBool ''bool'' True))] = CallBlocked"
  by code_simp

text \<open>Any negative number but -1 is taken for "latest".\<close>

lemma negative_block_is_latest:
  "fst (taggedBlockToNumber (new_server\<lparr>sv_callers := Some [''a'', ''b'']\<rparr>) \<lparr>blk_x = -77\<rparr>
     \<lparr>w_events = [[Answer (RNum \<lparr>num_x = 3\<rparr>), Answer (RNum \<lparr>num_x = 4\<rparr>)]], w_sent = []\<rparr>) = TagOk \<lparr>blk_x = 4\<rparr>"
  by code_simp

end
