(* ===== verification/Schedule_Spec.thy ===== *)
theory Schedule_Spec
  imports Slice_Util
begin

text \<open>
  The schedule format of \<open>ScheduledTicker\<close> (\<open>src/timeutil/scheduler.go\<close>): reading a
  specification such as \<open>0s 0,30m *h 1d jan,jul *\<close> into the six lists of the ticker and
  writing it back. \<open>parse\<close> takes the ticker it is called on and returns it updated with the
  error, because it assigns the fields one after the other, sets a field to nil when its part
  is invalid, and leaves the fields of omitted parts alone. \<open>sort.Slice\<close> of integers is
  \<open>sort\<close>. The text of an error is not modelled, only its kind and the offending part.

  The contract of one field (its part parser and its printer) is the locale \<open>sched_field\<close>,
  interpreted on all six fields.
\<close>

subsection \<open>Definitions: parsing\<close>

definition secondsInMinute :: int where "secondsInMinute = 60"
definition minutesInHour :: int where "minutesInHour = 60"
definition hoursInDay :: int where "hoursInDay = 24"
definition daysInWeek :: int where "daysInWeek = 7"
definition maxDaysInMonth :: int where "maxDaysInMonth = 31"
definition monthsInYear :: int where "monthsInYear = 12"

record ScheduledTicker =
  st_seconds :: "int list"
  st_minutes :: "int list"
  st_hours :: "int list"
  st_days :: "int list"
  st_months :: "int list"
  st_weekdays :: "int list"

datatype sched_error =
    SpecEmpty | InvalidSpec string | InvalidSecond string | InvalidMinute string
  | InvalidHour string | InvalidDay string | InvalidMonth string | InvalidWeekday string

definition parseSecond :: "string \<Rightarrow> sched_error + int" where
  "parseSecond s = (case Atoi s of
       None \<Rightarrow> Inl (InvalidSecond s)
     | Some i \<Rightarrow> if i < 0 \<or> i \<ge> secondsInMinute then Inl (InvalidSecond s) else Inr i)"

definition parseMinute :: "string \<Rightarrow> sched_error + int" where
  "parseMinute s = (case Atoi s of
       None \<Rightarrow> Inl (InvalidMinute s)
     | Some i \<Rightarrow> if i < 0 \<or> i \<ge> minutesInHour then Inl (InvalidMinute s) else Inr i)"

definition parseHour :: "string \<Rightarrow> sched_error + int" where
  "parseHour s = (case Atoi s of
       None \<Rightarrow> Inl (InvalidHour s)
     | Some i \<Rightarrow> if i < 0 \<or> i \<ge> hoursInDay then Inl (InvalidHour s) else Inr i)"

definition parseDay :: "string \<Rightarrow> sched_error + int" where
  "parseDay s = (case Atoi s of
       None \<Rightarrow> Inl (InvalidDay s)
     | Some i \<Rightarrow> if i \<le> 0 \<or> i > maxDaysInMonth then Inl (InvalidDay s) else Inr i)"

definition parseMonth :: "string \<Rightarrow> sched_error + int" where
  "parseMonth s =
     (if s \<in> {''1'', ''jan'', ''january''} then Inr 1
      else if s \<in> {''2'', ''feb'', ''february''} then Inr 2
      else if s \<in> {''3'', ''mar'', ''march''} then Inr 3
      else if s \<in> {''4'', ''apr'', ''april''} then Inr 4
      else if s \<in> {''5'', ''may''} then Inr 5
      else if s \<in> {''6'', ''jun'', ''june''} then Inr 6
      else if s \<in> {''7'', ''jul'', ''july''} then Inr 7
      else if s \<in> {''8'', ''aug'', ''august''} then Inr 8
      else if s \<in> {''9'', ''sep'', ''september''} then Inr 9
      else if s \<in> {''10'', ''oct'', ''october''} then Inr 10
      else if s \<in> {''11'', ''nov'', ''november''} then Inr 11
      else if s \<in> {''12'', ''dec'', ''december''} then Inr 12
      else Inl (InvalidMonth s))"

definition parseWeekday :: "string \<Rightarrow> sched_error + int" where
  "parseWeekday s =
     (if s \<in> {''sun'', ''sunday''} then Inr 0
      else if s \<in> {''mon'', ''monday''} then Inr 1
      else if s \<in> {''tue'', ''tuesday''} then Inr 2
      else if s \<in> {''wed'', ''wednesday''} then Inr 3
      else if s \<in> {''thu'', ''thursday''} then Inr 4
      else if s \<in> {''fri'', ''friday''} then Inr 5
      else if s \<in> {''sat'', ''saturday''} then Inr 6
      else Inl (InvalidWeekday s))"

fun parsePart_loop :: "(string \<Rightarrow> sched_error + int) \<Rightarrow> int list \<Rightarrow> string list \<Rightarrow> sched_error + int list" where
  "parsePart_loop fn nums [] = Inr nums"
| "parsePart_loop fn nums (part # parts) =
     (case fn part of Inl err \<Rightarrow> Inl err | Inr num \<Rightarrow> parsePart_loop fn (nums @ [num]) parts)"

definition parsePart :: "string \<Rightarrow> string \<Rightarrow> (string \<Rightarrow> sched_error + int) \<Rightarrow> sched_error + int list" where
  "parsePart part0 suf fn =
     (let part = TrimSuffix part0 suf in
      if part = ''*'' then Inr []
      else (case parsePart_loop fn [] (split_on (CHR '','') part) of
          Inl err \<Rightarrow> Inl err
        | Inr nums \<Rightarrow> if length nums = 1 then Inr nums else Inr (Unique [sort nums])))"

text \<open>
  The six assignments of \<open>parse\<close>: the result of a part (nil when it is invalid) goes into its
  field. The last step replaces a list of all values by the empty one.
\<close>

definition set_part :: "sched_error + int list \<Rightarrow> (int list \<Rightarrow> ScheduledTicker) \<Rightarrow>
    (ScheduledTicker \<Rightarrow> ScheduledTicker \<times> sched_error option) \<Rightarrow> ScheduledTicker \<times> sched_error option" where
  "set_part r upd k = (case r of Inl err \<Rightarrow> (upd [], Some err) | Inr nums \<Rightarrow> k (upd nums))"

definition drop_full :: "int \<Rightarrow> int list \<Rightarrow> int list" where
  "drop_full n xs = (if int (length xs) = n then [] else xs)"

definition compact :: "ScheduledTicker \<Rightarrow> ScheduledTicker" where
  "compact s =
     \<lparr>st_seconds = drop_full secondsInMinute (st_seconds s),
      st_minutes = drop_full minutesInHour (st_minutes s),
      st_hours = drop_full hoursInDay (st_hours s),
      st_days = drop_full maxDaysInMonth (st_days s),
      st_months = drop_full monthsInYear (st_months s),
      st_weekdays = drop_full daysInWeek (st_weekdays s)\<rparr>"

definition parse_spec :: "string \<Rightarrow> ScheduledTicker \<Rightarrow> ScheduledTicker \<times> sched_error option" where
  "parse_spec spec s =
     (if spec = [] then (s, Some SpecEmpty)
      else
        let parts = split_on (CHR '' '') spec in
        if length parts > 6 then (s, Some (InvalidSpec spec))
        else
          set_part (parsePart (parts ! 0) ''s'' parseSecond) (\<lambda>v. s\<lparr>st_seconds := v\<rparr>) (\<lambda>s1.
          (if length parts \<ge> 2
           then set_part (parsePart (parts ! 1) ''m'' parseMinute) (\<lambda>v. s1\<lparr>st_minutes := v\<rparr>)
           else (\<lambda>k. k s1)) (\<lambda>s2.
          (if length parts \<ge> 3
           then set_part (parsePart (parts ! 2) ''h'' parseHour) (\<lambda>v. s2\<lparr>st_hours := v\<rparr>)
           else (\<lambda>k. k s2)) (\<lambda>s3.
          (if length parts \<ge> 4
           then set_part (parsePart (parts ! 3) ''d'' parseDay) (\<lambda>v. s3\<lparr>st_days := v\<rparr>)
           else (\<lambda>k. k s3)) (\<lambda>s4.
          (if length parts \<ge> 5
           then set_part (parsePart (parts ! 4) '''' parseMonth) (\<lambda>v. s4\<lparr>st_months := v\<rparr>)
           else (\<lambda>k. k s4)) (\<lambda>s5.
          (if length parts \<ge> 6
           then set_part (parsePart (parts ! 5) '''' parseWeekday) (\<lambda>v. s5\<lparr>st_weekdays := v\<rparr>)
           else (\<lambda>k. k s5)) (\<lambda>s6. (compact s6, None))))))))"

definition empty_ticker :: ScheduledTicker where
  "empty_ticker = \<lparr>st_seconds = [], st_minutes = [], st_hours = [], st_days = [], st_months = [], st_weekdays = []\<rparr>"

definition NewScheduledTicker :: "string \<Rightarrow> sched_error + ScheduledTicker" where
  "NewScheduledTicker spec =
     (case parse_spec spec empty_ticker of (s, Some err) \<Rightarrow> Inl err | (s, None) \<Rightarrow> Inr s)"

definition ST_UnmarshalText :: "string \<Rightarrow> ScheduledTicker \<Rightarrow> ScheduledTicker \<times> sched_error option" where
  "ST_UnmarshalText text s = parse_spec text s"

subsection \<open>Definitions: printing\<close>

definition writeNums :: "int list \<Rightarrow> string" where
  "writeNums nums = (if length nums = 0 then ''*'' else join_with (CHR '','') (map (int_text 10) nums))"

definition weekday_name :: "int \<Rightarrow> string" where
  "weekday_name w =
     (if w = 0 then ''sun'' else if w = 1 then ''mon'' else if w = 2 then ''tue''
      else if w = 3 then ''wed'' else if w = 4 then ''thu'' else if w = 5 then ''fri''
      else if w = 6 then ''sat'' else '''')"

definition month_name :: "int \<Rightarrow> string" where
  "month_name m =
     (if m = 1 then ''jan'' else if m = 2 then ''feb'' else if m = 3 then ''mar''
      else if m = 4 then ''apr'' else if m = 5 then ''may'' else if m = 6 then ''jun''
      else if m = 7 then ''jul'' else if m = 8 then ''aug'' else if m = 9 then ''sep''
      else if m = 10 then ''oct'' else if m = 11 then ''nov'' else if m = 12 then ''dec''
      else '''')"

definition writeWeekdays :: "int list \<Rightarrow> string" where
  "writeWeekdays weekdays =
     (if length weekdays = 0 then ''*'' else join_with (CHR '','') (map weekday_name weekdays))"

definition writeMonths :: "int list \<Rightarrow> string" where
  "writeMonths months = (if length months = 0 then ''*'' else join_with (CHR '','') (map month_name months))"

definition ST_String :: "ScheduledTicker \<Rightarrow> string" where
  "ST_String s =
     writeNums (st_seconds s) @ ''s '' @ writeNums (st_minutes s) @ ''m '' @
     writeNums (st_hours s) @ ''h '' @ writeNums (st_days s) @ ''d '' @
     writeMonths (st_months s) @ '' '' @ writeWeekdays (st_weekdays s)"

definition ST_MarshalText :: "ScheduledTicker \<Rightarrow> string" where
  "ST_MarshalText s = ST_String s"

subsection \<open>The contract of a field\<close>

definition field_ok :: "(int \<Rightarrow> bool) \<Rightarrow> int list \<Rightarrow> bool" where
  "field_ok valid xs \<longleftrightarrow> (\<forall>v \<in> set xs. valid v) \<and> sorted xs \<and> distinct xs"

definition write_field :: "(int \<Rightarrow> string) \<Rightarrow> int list \<Rightarrow> string" where
  "write_field w xs = (if length xs = 0 then ''*'' else join_with (CHR '','') (map w xs))"

lemma parsePart_loop_map:
  "(\<And>v. v \<in> set xs \<Longrightarrow> fn (w v) = Inr v) \<Longrightarrow> parsePart_loop fn nums (map w xs) = Inr (nums @ xs)"
  by (induction xs arbitrary: nums) auto

lemma parsePart_loop_valid:
  "parsePart_loop fn nums parts = Inr xs \<Longrightarrow> (\<And>p v. fn p = Inr v \<Longrightarrow> valid v) \<Longrightarrow>
   \<forall>v \<in> set nums. valid v \<Longrightarrow> \<forall>v \<in> set xs. valid v"
  by (induction fn nums parts rule: parsePart_loop.induct) (auto split: sum.splits)

lemma join_star: "(\<And>w. w \<in> set ws \<Longrightarrow> w \<noteq> ''*'') \<Longrightarrow> ws \<noteq> [] \<Longrightarrow> join_with (CHR '','') ws \<noteq> ''*''"
proof (cases ws)
  case (Cons w rest)
  assume "\<And>w. w \<in> set ws \<Longrightarrow> w \<noteq> ''*''"
  with Cons have "w \<noteq> ''*''" by simp
  with Cons show ?thesis by (cases rest) (auto simp: append_eq_Cons_conv)
qed simp

locale sched_field =
  fixes parse_el :: "string \<Rightarrow> sched_error + int" and write_el :: "int \<Rightarrow> string"
    and suf :: string and valid :: "int \<Rightarrow> bool"
  assumes parse_write: "valid v \<Longrightarrow> parse_el (write_el v) = Inr v"
    and write_clean: "valid v \<Longrightarrow> CHR '','' \<notin> set (write_el v) \<and> CHR '' '' \<notin> set (write_el v) \<and> write_el v \<noteq> ''*''"
    and parse_valid: "parse_el p = Inr v \<Longrightarrow> valid v"
    and suf_clean: "CHR '' '' \<notin> set suf"
begin

lemma part_roundtrip:
  assumes "field_ok valid xs"
  shows "parsePart (write_field write_el xs @ suf) suf parse_el = Inr xs"
proof (cases "xs = []")
  case True
  then show ?thesis using TrimSuffix_append [of "''*''" suf] by (simp add: parsePart_def write_field_def)
next
  case False
  have val: "\<And>v. v \<in> set xs \<Longrightarrow> valid v" and srt: "sorted xs" "distinct xs"
    using assms by (auto simp: field_ok_def)
  have split: "split_on (CHR '','') (join_with (CHR '','') (map write_el xs)) = map write_el xs"
    by (rule split_join) (use False val write_clean in auto)
  have star: "join_with (CHR '','') (map write_el xs) \<noteq> ''*''"
    by (rule join_star) (use False val write_clean in auto)
  have loop: "parsePart_loop parse_el [] (map write_el xs) = Inr xs"
    using parsePart_loop_map [of xs parse_el write_el "[]"] val parse_write by simp
  have "Unique [sort xs] = xs" using srt by (simp add: Unique_firsts firsts_distinct sorted_sort_id)
  then show ?thesis using False star loop split by (simp add: parsePart_def write_field_def Let_def)
qed

lemma part_ok: "parsePart p suf parse_el = Inr xs \<Longrightarrow> field_ok valid xs"
proof -
  assume r: "parsePart p suf parse_el = Inr xs"
  show ?thesis
  proof (cases "TrimSuffix p suf = ''*''")
    case True
    with r show ?thesis by (simp add: parsePart_def field_ok_def)
  next
    case False
    with r obtain nums where n: "parsePart_loop parse_el [] (split_on (CHR '','') (TrimSuffix p suf)) = Inr nums"
      and xs: "xs = (if length nums = 1 then nums else Unique [sort nums])"
      by (auto simp: parsePart_def Let_def split: sum.splits if_splits)
    have "\<forall>v \<in> set nums. valid v" using parsePart_loop_valid [OF n] parse_valid by auto
    moreover have "sorted nums \<and> distinct nums" if "length nums = 1" using that by (cases nums) auto
    ultimately show ?thesis using xs
      by (auto simp: field_ok_def Unique_firsts firsts_sorted)
  qed
qed

lemma part_no_space:
  assumes "field_ok valid xs"
  shows "CHR '' '' \<notin> set (write_field write_el xs @ suf)"
proof -
  have "CHR '' '' \<notin> set (write_el v)" if "v \<in> set xs" for v
    using that assms write_clean by (auto simp: field_ok_def)
  then have "CHR '' '' \<notin> insert (CHR '','') (\<Union> (set ` set (map write_el xs)))" by auto
  with set_join_with [of "CHR '',''" "map write_el xs"] suf_clean show ?thesis
    by (auto simp: write_field_def)
qed

end

definition valid_second :: "int \<Rightarrow> bool" where "valid_second v \<longleftrightarrow> 0 \<le> v \<and> v < secondsInMinute"
definition valid_minute :: "int \<Rightarrow> bool" where "valid_minute v \<longleftrightarrow> 0 \<le> v \<and> v < minutesInHour"
definition valid_hour :: "int \<Rightarrow> bool" where "valid_hour v \<longleftrightarrow> 0 \<le> v \<and> v < hoursInDay"
definition valid_day :: "int \<Rightarrow> bool" where "valid_day v \<longleftrightarrow> 1 \<le> v \<and> v \<le> maxDaysInMonth"
definition valid_month :: "int \<Rightarrow> bool" where "valid_month v \<longleftrightarrow> 1 \<le> v \<and> v \<le> monthsInYear"
definition valid_weekday :: "int \<Rightarrow> bool" where "valid_weekday v \<longleftrightarrow> 0 \<le> v \<and> v < daysInWeek"

lemmas valid_defs = valid_second_def valid_minute_def valid_hour_def valid_day_def valid_month_def
  valid_weekday_def secondsInMinute_def minutesInHour_def hoursInDay_def maxDaysInMonth_def
  monthsInYear_def daysInWeek_def

lemma int_text_clean:
  assumes "0 \<le> v"
  shows "CHR '','' \<notin> set (int_text 10 v) \<and> CHR '' '' \<notin> set (int_text 10 v) \<and> int_text 10 v \<noteq> ''*''"
proof -
  have "digit_val (CHR '','') = None" "digit_val (CHR '' '') = None" "digit_val (CHR ''*'') = None"
    by (simp_all add: digit_val_def)
  with nat_text_no_sep [of 10 _ "nat v"] assms show ?thesis
    by (auto simp: int_text_def) (metis list.set_intros(1))
qed

interpretation second_field: sched_field parseSecond "int_text 10" "''s''" valid_second
  by unfold_locales
    (auto simp: parseSecond_def valid_defs go_text int_text_clean split: option.splits if_splits)

interpretation minute_field: sched_field parseMinute "int_text 10" "''m''" valid_minute
  by unfold_locales
    (auto simp: parseMinute_def valid_defs go_text int_text_clean split: option.splits if_splits)

interpretation hour_field: sched_field parseHour "int_text 10" "''h''" valid_hour
  by unfold_locales
    (auto simp: parseHour_def valid_defs go_text int_text_clean split: option.splits if_splits)

interpretation day_field: sched_field parseDay "int_text 10" "''d''" valid_day
  by unfold_locales
    (auto simp: parseDay_def valid_defs go_text int_text_clean split: option.splits if_splits)

lemma month_cases:
  assumes "valid_month v"
  shows "v \<in> {1, 2, 3, 4, 5, 6, 7, 8, 9, 10, 11, 12}"
  using assms unfolding valid_defs insert_iff empty_iff by presburger

lemma weekday_cases:
  assumes "valid_weekday v"
  shows "v \<in> {0, 1, 2, 3, 4, 5, 6}"
  using assms unfolding valid_defs by auto

interpretation month_field: sched_field parseMonth month_name "''''" valid_month
proof
  fix v assume "valid_month v"
  then show "parseMonth (month_name v) = Inr v"
    "CHR '','' \<notin> set (month_name v) \<and> CHR '' '' \<notin> set (month_name v) \<and> month_name v \<noteq> ''*''"
    using month_cases [of v] by (auto simp: parseMonth_def month_name_def)
next
  fix p v assume "parseMonth p = Inr v"
  then show "valid_month v" by (auto simp: parseMonth_def valid_defs split: if_splits)
qed simp

interpretation weekday_field: sched_field parseWeekday weekday_name "''''" valid_weekday
proof
  fix v assume "valid_weekday v"
  then show "parseWeekday (weekday_name v) = Inr v"
    "CHR '','' \<notin> set (weekday_name v) \<and> CHR '' '' \<notin> set (weekday_name v) \<and> weekday_name v \<noteq> ''*''"
    using weekday_cases [of v] by (auto simp: parseWeekday_def weekday_name_def)
next
  fix p v assume "parseWeekday p = Inr v"
  then show "valid_weekday v" by (auto simp: parseWeekday_def valid_defs split: if_splits)
qed simp

subsection \<open>Lemmas: whole specifications\<close>

definition fields_ok :: "ScheduledTicker \<Rightarrow> bool" where
  "fields_ok s \<longleftrightarrow> field_ok valid_second (st_seconds s) \<and> field_ok valid_minute (st_minutes s) \<and>
     field_ok valid_hour (st_hours s) \<and> field_ok valid_day (st_days s) \<and>
     field_ok valid_month (st_months s) \<and> field_ok valid_weekday (st_weekdays s)"

text \<open>Valid, sorted lists without repetitions, none of them a list of all values.\<close>

definition ticker_ok :: "ScheduledTicker \<Rightarrow> bool" where
  "ticker_ok s \<longleftrightarrow> fields_ok s \<and> compact s = s"

lemma write_fields:
  "writeNums = write_field (int_text 10)" "writeMonths = write_field month_name" "writeWeekdays = write_field weekday_name"
  by (auto simp: writeNums_def writeMonths_def writeWeekdays_def write_field_def fun_eq_iff)

lemma ST_String_parts:
  assumes "fields_ok s"
  shows "split_on (CHR '' '') (ST_String s) =
    [writeNums (st_seconds s) @ ''s'', writeNums (st_minutes s) @ ''m'', writeNums (st_hours s) @ ''h'',
     writeNums (st_days s) @ ''d'', writeMonths (st_months s), writeWeekdays (st_weekdays s)]" (is "_ = ?ps")
proof -
  have "ST_String s = join_with (CHR '' '') ?ps" by (simp add: ST_String_def)
  moreover have "\<forall>p \<in> set ?ps. CHR '' '' \<notin> set p"
    using assms second_field.part_no_space minute_field.part_no_space hour_field.part_no_space
      day_field.part_no_space month_field.part_no_space weekday_field.part_no_space
    by (simp add: fields_ok_def write_fields)
  ultimately show ?thesis using split_join [of ?ps "CHR '' ''"] by simp
qed

lemma parse_String:
  assumes "fields_ok s"
  shows "parse_spec (ST_String s) t = (compact s, None)"
proof -
  have ne: "ST_String s \<noteq> []" by (simp add: ST_String_def)
  have parts: "parsePart (writeNums (st_seconds s) @ ''s'') ''s'' parseSecond = Inr (st_seconds s)"
    "parsePart (writeNums (st_minutes s) @ ''m'') ''m'' parseMinute = Inr (st_minutes s)"
    "parsePart (writeNums (st_hours s) @ ''h'') ''h'' parseHour = Inr (st_hours s)"
    "parsePart (writeNums (st_days s) @ ''d'') ''d'' parseDay = Inr (st_days s)"
    "parsePart (writeMonths (st_months s)) '''' parseMonth = Inr (st_months s)"
    "parsePart (writeWeekdays (st_weekdays s)) '''' parseWeekday = Inr (st_weekdays s)"
    using assms second_field.part_roundtrip minute_field.part_roundtrip hour_field.part_roundtrip
      day_field.part_roundtrip month_field.part_roundtrip weekday_field.part_roundtrip
    by (simp_all add: fields_ok_def write_fields)
  show ?thesis unfolding parse_spec_def ST_String_parts [OF assms] using ne parts
    by (simp add: set_part_def Let_def compact_def)
qed

lemma field_ok_drop: "field_ok valid xs \<Longrightarrow> field_ok valid (drop_full n xs)"
  by (simp add: field_ok_def drop_full_def)

lemma compact_ok: "fields_ok s \<Longrightarrow> ticker_ok (compact s)"
  by (auto simp: ticker_ok_def fields_ok_def compact_def field_ok_drop) (simp_all add: drop_full_def)

lemma field_ok_Nil: "field_ok valid []"
  by (simp add: field_ok_def)

definition result_ok :: "ScheduledTicker \<times> sched_error option \<Rightarrow> bool" where
  "result_ok r \<longleftrightarrow> fields_ok (fst r) \<and> (if snd r = None then ticker_ok (fst r) else True)"

lemma set_part_ok:
  assumes "\<And>xs. r = Inr xs \<Longrightarrow> fields_ok (upd xs)" "fields_ok (upd [])" "\<And>s. fields_ok s \<Longrightarrow> result_ok (k s)"
  shows "result_ok (set_part r upd k)"
  using assms by (auto simp: set_part_def result_ok_def split: sum.splits)

lemma stage_ok:
  assumes "fields_ok s1" "\<And>xs. r = Inr xs \<Longrightarrow> fields_ok (upd xs)" "fields_ok (upd [])"
    and "\<And>s. fields_ok s \<Longrightarrow> result_ok (k s)"
  shows "result_ok ((if c then set_part r upd else (\<lambda>k. k s1)) k)"
  using assms set_part_ok by simp

lemma fields_ok_upd:
  assumes "fields_ok s"
  shows "field_ok valid_second v \<Longrightarrow> fields_ok (s\<lparr>st_seconds := v\<rparr>)"
    "field_ok valid_minute v \<Longrightarrow> fields_ok (s\<lparr>st_minutes := v\<rparr>)"
    "field_ok valid_hour v \<Longrightarrow> fields_ok (s\<lparr>st_hours := v\<rparr>)"
    "field_ok valid_day v \<Longrightarrow> fields_ok (s\<lparr>st_days := v\<rparr>)"
    "field_ok valid_month v \<Longrightarrow> fields_ok (s\<lparr>st_months := v\<rparr>)"
    "field_ok valid_weekday v \<Longrightarrow> fields_ok (s\<lparr>st_weekdays := v\<rparr>)"
  using assms by (simp_all add: fields_ok_def)

lemma parse_spec_ok: "fields_ok s \<Longrightarrow> fields_ok (fst (parse_spec spec s)) \<and>
    (if snd (parse_spec spec s) = None then ticker_ok (fst (parse_spec spec s)) else True)"
proof -
  assume s: "fields_ok s"
  note upd = fields_ok_upd(1) [OF _ second_field.part_ok] fields_ok_upd(2) [OF _ minute_field.part_ok]
    fields_ok_upd(3) [OF _ hour_field.part_ok] fields_ok_upd(4) [OF _ day_field.part_ok]
    fields_ok_upd(5) [OF _ month_field.part_ok] fields_ok_upd(6) [OF _ weekday_field.part_ok]
  have final: "result_ok (compact s6, None)" if "fields_ok s6" for s6
    using compact_ok [OF that] by (simp add: result_ok_def ticker_ok_def)
  show ?thesis
  proof (cases "spec = [] \<or> length (split_on (CHR '' '') spec) > 6")
    case True
    with s show ?thesis by (auto simp: parse_spec_def)
  next
    case False
    have "result_ok (parse_spec spec s)"
      unfolding parse_spec_def Let_def if_not_P [OF conjunct1 [OF False [unfolded de_Morgan_disj]]]
        if_not_P [OF conjunct2 [OF False [unfolded de_Morgan_disj]]]
      by (intro set_part_ok stage_ok final) (blast intro: s upd fields_ok_upd field_ok_Nil)+
    then show ?thesis by (simp add: result_ok_def)
  qed
qed

subsection \<open>Properties\<close>

text \<open>
  C28: A schedule is read back from its string unchanged, whatever the receiver held before:
  \<open>String\<close> and \<open>UnmarshalText\<close> are inverse on every ticker that parsing can produce.
\<close>

theorem schedule_roundtrip:
  assumes "ticker_ok s"
  shows "ST_UnmarshalText (ST_MarshalText s) t = (s, None) \<and> NewScheduledTicker (ST_String s) = Inr s"
  using assms parse_String [of s]
  by (simp add: ST_UnmarshalText_def ST_MarshalText_def NewScheduledTicker_def ticker_ok_def)

theorem schedule_roundtrip_witness:
  "NewScheduledTicker (ST_String \<lparr>st_seconds = [0], st_minutes = [0, 30], st_hours = [], st_days = [1],
     st_months = [1, 7], st_weekdays = [3]\<rparr>) =
   Inr \<lparr>st_seconds = [0], st_minutes = [0, 30], st_hours = [], st_days = [1], st_months = [1, 7], st_weekdays = [3]\<rparr>"
  using schedule_roundtrip [of "\<lparr>st_seconds = [0], st_minutes = [0, 30], st_hours = [], st_days = [1],
     st_months = [1, 7], st_weekdays = [3]\<rparr>"]
  by (simp add: ticker_ok_def fields_ok_def field_ok_def compact_def drop_full_def valid_defs)

text \<open>
  C29: Whatever the specification, the lists of the ticker stay sorted, without repetitions and
  in range, also when parsing stops with an error; after success none of them lists all values.
\<close>

theorem parse_keeps_ticker:
  assumes "fields_ok s"
  shows "fields_ok (fst (ST_UnmarshalText spec s)) \<and>
    (if snd (ST_UnmarshalText spec s) = None then ticker_ok (fst (ST_UnmarshalText spec s)) else True) \<and>
    (case NewScheduledTicker spec of Inl e \<Rightarrow> True | Inr n \<Rightarrow> ticker_ok n)"
proof -
  have "fields_ok empty_ticker" by (simp add: fields_ok_def empty_ticker_def field_ok_Nil)
  from parse_spec_ok [OF this, of spec] parse_spec_ok [OF assms, of spec] show ?thesis
    by (auto simp: ST_UnmarshalText_def NewScheduledTicker_def split: prod.splits option.splits)
qed

theorem parse_keeps_ticker_witness:
  "fields_ok (fst (ST_UnmarshalText ''5,3,5s 99m'' empty_ticker))"
  using parse_keeps_ticker [of empty_ticker "''5,3,5s 99m''"]
  by (simp add: fields_ok_def empty_ticker_def field_ok_def)

text \<open>
  Parsing into a ticker that is not empty keeps the fields of the parts that are left out,
  although an omitted part stands for an asterisk.
\<close>

lemma omitted_parts_keep_old_values:
  "ST_UnmarshalText ''0s'' (empty_ticker\<lparr>st_hours := [3]\<rparr>) = (empty_ticker\<lparr>st_seconds := [0], st_hours := [3]\<rparr>, None) \<and>
   ST_UnmarshalText ''0s *m *h'' (empty_ticker\<lparr>st_hours := [3]\<rparr>) = (empty_ticker\<lparr>st_seconds := [0]\<rparr>, None)"
  by code_simp

end
