(* ===== verification/Calendar.thy ===== *)
theory Calendar
  imports Go_Prelude
begin

text \<open>
  The part of package \<open>time\<close> the scheduler uses. A \<open>time.Time\<close> in a location with a fixed
  offset is the number of nanoseconds of its wall clock since 1 January of year 1, midnight
  (the zero \<open>time.Time\<close>); \<open>Add\<close> is addition. Locations whose offset changes are not
  modelled. The calendar is the proleptic Gregorian one, as in Go: \<open>Date\<close>, \<open>Year\<close>,
  \<open>Month\<close>, \<open>Day\<close>, \<open>Weekday\<close>, \<open>Clock\<close> and \<open>Nanosecond\<close> are computed from the day number,
  and \<open>time.Date\<close> normalises months and days that are out of range.

  Months are counted from year 0 (\<open>12 * year + month - 1\<close>): \<open>mstart\<close> is the first day of a
  month, \<open>midx\<close> the month of a day; the lemmas show that they are inverse to each other.
\<close>

subsection \<open>Definitions\<close>

type_synonym Time = int

definition Second :: int where "Second = 10 ^ 9"
definition Minute :: int where "Minute = 60 * Second"
definition Hour :: int where "Hour = 60 * Minute"
definition day_ns :: int where "day_ns = 24 * Hour"

definition leap :: "int \<Rightarrow> bool" where
  "leap y \<longleftrightarrow> y mod 4 = 0 \<and> (y mod 100 \<noteq> 0 \<or> y mod 400 = 0)"

text \<open>Days before 1 January of year \<open>y\<close>.\<close>

definition dby :: "int \<Rightarrow> int" where
  "dby y = 365 * (y - 1) + (y - 1) div 4 - (y - 1) div 100 + (y - 1) div 400"

text \<open>Days of the year before the first of month \<open>m\<close> (1 to 12; 13 is the whole year).\<close>

definition dbm :: "bool \<Rightarrow> int \<Rightarrow> int" where
  "dbm l m =
     (if m \<le> 1 then 0 else if m = 2 then 31 else
      (if m = 3 then 59 else if m = 4 then 90 else if m = 5 then 120 else if m = 6 then 151
       else if m = 7 then 181 else if m = 8 then 212 else if m = 9 then 243
       else if m = 10 then 273 else if m = 11 then 304 else if m = 12 then 334 else 365)
      + (if l then 1 else 0))"

definition month_from :: "bool \<Rightarrow> int \<Rightarrow> int" where
  "month_from l yday =
     (if yday < dbm l 2 then 1 else if yday < dbm l 3 then 2 else if yday < dbm l 4 then 3
      else if yday < dbm l 5 then 4 else if yday < dbm l 6 then 5 else if yday < dbm l 7 then 6
      else if yday < dbm l 8 then 7 else if yday < dbm l 9 then 8 else if yday < dbm l 10 then 9
      else if yday < dbm l 11 then 10 else if yday < dbm l 12 then 11 else 12)"

text \<open>The year of a day, by the cycles of 400, 100, 4 and 1 years.\<close>

definition year_of :: "int \<Rightarrow> int" where
  "year_of n =
     (let r = n mod 146097; c = min 3 (r div 36524);
          r2 = r - c * 36524; q = r2 div 1461;
          r3 = r2 mod 1461; d = min 3 (r3 div 365)
      in 400 * (n div 146097) + 100 * c + 4 * q + d + 1)"

definition mstart :: "int \<Rightarrow> int" where
  "mstart M = dby (M div 12) + dbm (leap (M div 12)) (M mod 12 + 1)"

definition midx :: "int \<Rightarrow> int" where
  "midx n = (let y = year_of n in 12 * y + month_from (leap y) (n - dby y) - 1)"

definition Year :: "Time \<Rightarrow> int" where
  "Year t = midx (t div day_ns) div 12"

definition Month :: "Time \<Rightarrow> int" where
  "Month t = midx (t div day_ns) mod 12 + 1"

definition Day :: "Time \<Rightarrow> int" where
  "Day t = t div day_ns - mstart (midx (t div day_ns)) + 1"

text \<open>Sunday is 0; day 0 was a Monday.\<close>

definition Weekday :: "Time \<Rightarrow> int" where
  "Weekday t = (t div day_ns + 1) mod 7"

definition Time_Hour :: "Time \<Rightarrow> int" where
  "Time_Hour t = t mod day_ns div Hour"

definition Time_Minute :: "Time \<Rightarrow> int" where
  "Time_Minute t = t mod Hour div Minute"

definition Time_Second :: "Time \<Rightarrow> int" where
  "Time_Second t = t mod Minute div Second"

definition Nanosecond :: "Time \<Rightarrow> int" where
  "Nanosecond t = t mod Second"

text \<open>\<open>time.Date(y, m, d, 0, 0, 0, 0, loc)\<close>.\<close>

definition Date :: "int \<Rightarrow> int \<Rightarrow> int \<Rightarrow> Time" where
  "Date y m d = (mstart (12 * y + m - 1) + d - 1) * day_ns"

subsection \<open>Lemmas: years and months\<close>

lemma int_div_bounds: "0 < b \<Longrightarrow> b * (a div b) \<le> a \<and> a < b * (a div b) + b" for a b :: int
  using pos_mod_bound [of b a] pos_mod_sign [of b a] mult_div_mod_eq [of b a] by linarith

lemma int_le_div: "0 < u \<Longrightarrow> z \<le> a div u \<longleftrightarrow> z * u \<le> a" for a u z :: int
proof
  assume u: "0 < u" and "z \<le> a div u"
  then have "z * u \<le> (a div u) * u" by (intro mult_right_mono) auto
  also have "\<dots> \<le> a" using int_div_bounds [OF u, of a] by (simp add: mult.commute)
  finally show "z * u \<le> a" .
next
  assume u: "0 < u" and "z * u \<le> a"
  then have "(z * u) div u \<le> a div u" by (intro zdiv_mono1)
  with u show "z \<le> a div u" by simp
qed

lemma int_div_less: "0 < u \<Longrightarrow> a div u < z \<longleftrightarrow> a < z * u" for a u z :: int
  using int_le_div [of u z a] by linarith

lemma div_pred: "0 < k \<Longrightarrow> z div k = (z - 1) div k + (if z mod k = 0 then 1 else 0)" for z k :: int
proof -
  assume k: "0 < k"
  define q r where "q = z div k" and "r = z mod k"
  have z: "z = k * q + r" "0 \<le> r" "r < k" using k by (simp_all add: q_def r_def)
  have "(z - 1) div k = (if r = 0 then q - 1 else q)"
  proof (cases "r = 0")
    case True
    have "(z - 1) div k = q - 1"
      by (rule int_div_pos_eq [where r = "k - 1"]) (use z k True in \<open>simp_all add: algebra_simps\<close>)
    with True show ?thesis by simp
  next
    case False
    have "(z - 1) div k = q" by (rule int_div_pos_eq [where r = "r - 1"]) (use z k False in simp_all)
    with False show ?thesis by simp
  qed
  then show ?thesis by (simp add: q_def r_def)
qed

lemma dby_step: "dby (y + 1) = dby y + 365 + (if leap y then 1 else 0)"
proof -
  have div_step: "y div 4 = (y - 1) div 4 + (if y mod 4 = 0 then 1 else 0)"
    "y div 100 = (y - 1) div 100 + (if y mod 100 = 0 then 1 else 0)"
    "y div 400 = (y - 1) div 400 + (if y mod 400 = 0 then 1 else 0)"
    by (rule div_pred; simp)+
  have "y mod 400 mod 100 = y mod 100" "y mod 100 mod 4 = y mod 4" by (simp_all add: mod_mod_cancel)
  then have mods: "y mod 400 = 0 \<Longrightarrow> y mod 100 = 0" "y mod 100 = 0 \<Longrightarrow> y mod 4 = 0" by simp_all
  have "dby (y + 1) = 365 * y + y div 4 - y div 100 + y div 400" by (simp add: dby_def)
  also have "\<dots> = dby y + 365 + ((if y mod 4 = 0 then 1 else 0) - (if y mod 100 = 0 then 1 else 0) + (if y mod 400 = 0 then 1 else 0))"
    unfolding div_step dby_def by simp
  also have "(if y mod 4 = 0 then 1 else 0) - (if y mod 100 = 0 then 1 else 0) + (if y mod 400 = 0 then 1 else 0) =
      (if leap y then 1 else 0 :: int)"
    using mods by (cases "y mod 4 = 0"; cases "y mod 100 = 0"; cases "y mod 400 = 0") (simp_all add: leap_def)
  finally show ?thesis .
qed

lemma dby_cycles:
  assumes "0 \<le> c" "c \<le> 3" "0 \<le> q" "q \<le> 24" "0 \<le> d" "d \<le> 3"
  shows "dby (400 * a + 100 * c + 4 * q + d + 1) = 146097 * a + 36524 * c + 1461 * q + 365 * d"
proof -
  define Y where "Y = 400 * a + 100 * c + 4 * q + d"
  have "Y div 4 = 100 * a + 25 * c + q" by (rule int_div_pos_eq [where r = d]) (use assms in \<open>simp_all add: Y_def\<close>)
  moreover have "Y div 100 = 4 * a + c" by (rule int_div_pos_eq [where r = "4 * q + d"]) (use assms in \<open>simp_all add: Y_def\<close>)
  moreover have "Y div 400 = a" by (rule int_div_pos_eq [where r = "100 * c + 4 * q + d"]) (use assms in \<open>simp_all add: Y_def\<close>)
  moreover have "dby (Y + 1) = 365 * Y + Y div 4 - Y div 100 + Y div 400" by (simp add: dby_def)
  ultimately show ?thesis unfolding Y_def by simp
qed

lemma year_of_bounds: "dby (year_of n) \<le> n \<and> n < dby (year_of n + 1)"
proof -
  define a r where "a = n div 146097" and "r = n mod 146097"
  define c where "c = min 3 (r div 36524)"
  define r2 where "r2 = r - c * 36524"
  define q r3 where "q = r2 div 1461" and "r3 = r2 mod 1461"
  define d where "d = min 3 (r3 div 365)"
  have n: "n = 146097 * a + r" "0 \<le> r" "r < 146097" by (simp_all add: a_def r_def)
  have c: "0 \<le> c" "c \<le> 3" using n(2) by (simp_all add: c_def pos_imp_zdiv_nonneg_iff)
  have r2: "0 \<le> r2" "r2 \<le> 36524" "r2 = 36524 \<Longrightarrow> c = 3"
    using n(2,3) int_div_bounds [of 36524 r] unfolding r2_def c_def by (auto simp: min_def split: if_splits)
  have q: "0 \<le> q" "q \<le> 24" "r2 = 1461 * q + r3" "0 \<le> r3" "r3 < 1461"
    using r2(1,2) int_div_bounds [of 1461 r2] by (auto simp: q_def r3_def pos_imp_zdiv_nonneg_iff)
  have d: "0 \<le> d" "d \<le> 3" "0 \<le> r3 - 365 * d" "r3 - 365 * d \<le> 365" "r3 - 365 * d = 365 \<Longrightarrow> d = 3"
    using q(4,5) int_div_bounds [of 365 r3]
    by (auto simp: d_def min_def pos_imp_zdiv_nonneg_iff split: if_splits)
  have y: "year_of n = 400 * a + 100 * c + 4 * q + d + 1"
    by (simp add: year_of_def Let_def a_def r_def c_def r2_def q_def r3_def d_def)
  have dby: "dby (year_of n) = n - (r3 - 365 * d)"
    using dby_cycles [OF c q(1,2) d(1,2), of a] n(1) q(3) unfolding y r2_def by simp
  have "leap (year_of n)" if "r3 - 365 * d = 365"
  proof -
    have "d = 3" using d(5) that by blast
    then have "q = 24 \<Longrightarrow> c = 3" using r2(3) q(3) that by simp
    have y4: "year_of n = 400 * a + 100 * c + 4 * (q + 1)" using y \<open>d = 3\<close> by simp
    show ?thesis
    proof (cases "q = 24")
      case True
      then have "year_of n = 400 * (a + 1)" using y4 \<open>q = 24 \<Longrightarrow> c = 3\<close> by simp
      then show ?thesis by (simp add: leap_def)
    next
      case False
      have "year_of n = 4 * (100 * a + 25 * c + q + 1)" using y4 by simp
      then have "year_of n mod 4 = 0" by simp
      moreover have "year_of n mod 100 = 4 * (q + 1)"
        by (rule int_mod_pos_eq [where q = "4 * a + c"]) (use y4 q False in simp_all)
      ultimately show ?thesis using q(1) by (simp add: leap_def)
    qed
  qed
  then show ?thesis using d(3,4) dby dby_step [of "year_of n"] by (cases "r3 - 365 * d = 365") auto
qed

lemma month_from_bounds:
  assumes "0 \<le> k" "k < dbm l 13"
  shows "1 \<le> month_from l k \<and> month_from l k \<le> 12 \<and> dbm l (month_from l k) \<le> k \<and> k < dbm l (month_from l k + 1)"
  using assms unfolding month_from_def dbm_def by (cases l) (auto split: if_splits)

lemma dbm_step: "1 \<le> m \<Longrightarrow> m \<le> 12 \<Longrightarrow> 28 \<le> dbm l (m + 1) - dbm l m \<and> dbm l (m + 1) - dbm l m \<le> 31"
proof -
  assume "1 \<le> m" "m \<le> 12"
  then have "m = 1 \<or> m = 2 \<or> m = 3 \<or> m = 4 \<or> m = 5 \<or> m = 6 \<or> m = 7 \<or> m = 8 \<or> m = 9 \<or>
    m = 10 \<or> m = 11 \<or> m = 12" by presburger
  then show ?thesis by (elim disjE) (simp_all add: dbm_def)
qed

lemma dbm_13: "dbm l 13 = 365 + (if l then 1 else 0)"
  by (simp add: dbm_def)

lemma dbm_1: "dbm l 1 = 0"
  by (simp add: dbm_def)

lemma month_index_of:
  fixes y m :: int
  assumes "1 \<le> m" "m \<le> 12"
  shows "(12 * y + m - 1) div 12 = y" "(12 * y + m - 1) mod 12 = m - 1"
proof -
  show "(12 * y + m - 1) div 12 = y" by (rule int_div_pos_eq [where r = "m - 1"]) (use assms in simp_all)
  show "(12 * y + m - 1) mod 12 = m - 1" by (rule int_mod_pos_eq [where q = y]) (use assms in simp_all)
qed

lemma mstart_index: "1 \<le> m \<Longrightarrow> m \<le> 13 \<Longrightarrow> mstart (12 * y + m - 1) = dby y + dbm (leap y) m"
proof (cases "m = 13")
  case True
  have "12 * y + 13 - 1 = 12 * (y + 1) + 1 - 1" by simp
  then have "mstart (12 * y + 13 - 1) = dby (y + 1) + dbm (leap (y + 1)) 1"
    unfolding mstart_def by (simp only: month_index_of [of 1 "y + 1"]) simp
  with True show ?thesis by (simp add: dbm_13 dby_step dbm_1)
next
  case False
  assume "1 \<le> m" "m \<le> 13"
  with False month_index_of [of m y] show ?thesis by (simp add: mstart_def)
qed

lemma mstart_Suc: "28 \<le> mstart (M + 1) - mstart M \<and> mstart (M + 1) - mstart M \<le> 31"
proof -
  define y m where "y = M div 12" and "m = M mod 12 + 1"
  have m: "1 \<le> m" "m \<le> 12" by (simp_all add: m_def)
  have M: "M = 12 * y + m - 1" "M + 1 = 12 * y + (m + 1) - 1" by (simp_all add: y_def m_def)
  have "mstart M = dby y + dbm (leap y) m" unfolding M(1) by (rule mstart_index) (use m in simp_all)
  moreover have "mstart (M + 1) = dby y + dbm (leap y) (m + 1)"
    unfolding M(2) by (rule mstart_index) (use m in simp_all)
  ultimately show ?thesis using dbm_step [OF m, of "leap y"] by linarith
qed

lemma mstart_mono: "M < N \<Longrightarrow> mstart M + 28 \<le> mstart N"
proof (induction "nat (N - M)" arbitrary: N)
  case (Suc k)
  show ?case
  proof (cases "M = N - 1")
    case True
    with mstart_Suc [of M] show ?thesis by simp
  next
    case False
    with Suc have "mstart M + 28 \<le> mstart (N - 1)" by (intro Suc.hyps(1)) auto
    with mstart_Suc [of "N - 1"] show ?thesis by simp
  qed
qed simp

lemma mstart_midx: "mstart (midx n) \<le> n \<and> n < mstart (midx n + 1)"
proof -
  define y where "y = year_of n"
  define m where "m = month_from (leap y) (n - dby y)"
  have k: "0 \<le> n - dby y" "n - dby y < dbm (leap y) 13"
    using year_of_bounds [of n] dby_step [of y] by (simp_all add: y_def dbm_13)
  from month_from_bounds [OF this]
  have m: "1 \<le> m" "m \<le> 12" "dbm (leap y) m \<le> n - dby y" "n - dby y < dbm (leap y) (m + 1)"
    by (simp_all add: m_def)
  have M: "midx n = 12 * y + m - 1" "midx n + 1 = 12 * y + (m + 1) - 1"
    by (simp_all add: midx_def Let_def y_def m_def)
  have "mstart (midx n) = dby y + dbm (leap y) m" unfolding M(1) by (rule mstart_index) (use m in simp_all)
  moreover have "mstart (midx n + 1) = dby y + dbm (leap y) (m + 1)"
    unfolding M(2) by (rule mstart_index) (use m in simp_all)
  ultimately show ?thesis using m by simp
qed

lemma midx_unique: "mstart M \<le> n \<Longrightarrow> n < mstart (M + 1) \<Longrightarrow> midx n = M"
  using mstart_midx [of n] mstart_mono [of "midx n + 1" M] mstart_mono [of "M + 1" "midx n"]
    mstart_mono [of "midx n" M] mstart_mono [of M "midx n"]
  by (cases "midx n = M"; cases "midx n < M"; cases "midx n + 1 = M"; cases "M + 1 = midx n") auto

lemma midx_mono: "n \<le> k \<Longrightarrow> midx n \<le> midx k"
  using mstart_midx [of n] mstart_midx [of k] mstart_mono [of "midx k + 1" "midx n"]
  by (cases "midx k + 1 = midx n"; cases "midx k + 1 < midx n") auto

subsection \<open>Lemmas: every date falls on every weekday\<close>

lemma leap_cycle: "leap (y + 400 * k) = leap y"
  using mod_mult_self2 [of y 4 "100 * k"] mod_mult_self2 [of y 100 "4 * k"] mod_mult_self2 [of y 400 k]
  by (simp only: leap_def mult.assoc [symmetric] mult_numeral_left numeral_times_numeral) simp

lemma dby_cycle: "dby (y + 400 * k) = dby y + 146097 * k"
proof -
  define z where "z = y - 1"
  have "z + 400 * k = z + (100 * k) * 4" "z + 400 * k = z + (4 * k) * 100" "z + 400 * k = z + k * 400" by simp_all
  then have div_z: "(z + 400 * k) div 4 = 100 * k + z div 4" "(z + 400 * k) div 100 = 4 * k + z div 100"
    "(z + 400 * k) div 400 = k + z div 400" by (metis div_mult_self1 zero_neq_numeral)+
  have y: "y + 400 * k - 1 = z + 400 * k" "y - 1 = z" by (simp_all add: z_def)
  show ?thesis unfolding dby_def y div_z by simp
qed

lemma weekday_year: "\<exists>y. \<not> leap y \<and> dby y mod 7 = r mod 7"
proof -
  have "r mod 7 \<in> {0..<7}" by simp
  then have "r mod 7 \<in> {0, 1, 2, 3, 4, 5, 6}" by auto
  moreover have "\<not> leap 1 \<and> dby 1 mod 7 = 0" "\<not> leap 2 \<and> dby 2 mod 7 = 1" "\<not> leap 3 \<and> dby 3 mod 7 = 2"
    "\<not> leap 9 \<and> dby 9 mod 7 = 3" "\<not> leap 10 \<and> dby 10 mod 7 = 4" "\<not> leap 5 \<and> dby 5 mod 7 = 5"
    "\<not> leap 6 \<and> dby 6 mod 7 = 6" by (simp_all add: leap_def dby_def)
  ultimately show ?thesis by (metis insertE singletonD)
qed

lemma date_on_weekday:
  assumes "1 \<le> m" "m \<le> 12" "1 \<le> d" "d \<le> 28"
  shows "\<exists>M. N \<le> mstart M \<and> M mod 12 + 1 = m \<and> (mstart M + d) mod 7 = w mod 7"
proof -
  obtain y where y: "\<not> leap y" "dby y mod 7 = (w - dbm False m - d) mod 7"
    using weekday_year [of "w - dbm False m - d"] by blast
  define k where "k = max 0 (N - dby y)"
  define M where "M = 12 * (y + 400 * k) + m - 1"
  have st: "mstart M = dby y + 146097 * k + dbm False m"
    unfolding M_def mstart_def month_index_of [OF assms(1,2)] using y(1) by (simp add: leap_cycle dby_cycle)
  have "0 \<le> dbm False m" by (simp add: dbm_def)
  then have "N \<le> mstart M" unfolding st k_def by (simp add: max_def)
  moreover have "M mod 12 + 1 = m" unfolding M_def month_index_of [OF assms(1,2)] by simp
  moreover have "(mstart M + d) mod 7 = w mod 7"
  proof -
    have "mstart M + d = dby y + (dbm False m + d) + 7 * (20871 * k)" unfolding st by simp
    then have "(mstart M + d) mod 7 = (dby y + (dbm False m + d)) mod 7" by (metis mod_mult_self2)
    also have "\<dots> = ((w - dbm False m - d) + (dbm False m + d)) mod 7" using y(2) by (metis mod_add_left_eq)
    finally show ?thesis by simp
  qed
  ultimately show ?thesis by blast
qed

subsection \<open>Lemmas: the parts of a time\<close>

lemmas units = Second_def Minute_def Hour_def day_ns_def

lemma day_ns_pos: "0 < day_ns"
  by (simp add: units)

lemma day_of_interval: "n * day_ns \<le> t \<Longrightarrow> t < (n + 1) * day_ns \<Longrightarrow> t div day_ns = n"
  by (rule int_div_pos_eq [where r = "t - n * day_ns"]) (simp_all add: algebra_simps)

lemma Date_day: "Date y m d div day_ns = mstart (12 * y + m - 1) + d - 1" "Date y m d mod day_ns = 0"
  using day_ns_pos by (simp_all add: Date_def)

end
