(* ===== verification/Schedule_Next.thy ===== *)
theory Schedule_Next
  imports Schedule_Spec Calendar
begin

text \<open>
  \<open>ScheduledTicker.Next\<close> (\<open>src/timeutil/scheduler.go\<close>): the search for the next time that
  matches a schedule. The loop is a \<open>partial_function\<close> into the option type, so that a search
  that never ends has the value \<open>None\<close>.

  The lemmas show that a step never goes back and, for schedules whose days all exist in every
  month, never jumps over a matching time; every such schedule has matching times after any
  given time. Together: the search ends with the least matching time.
\<close>

subsection \<open>Definitions\<close>

fun first_above :: "int list \<Rightarrow> int \<Rightarrow> int option" where
  "first_above [] x = None"
| "first_above (v # vs) x = (if v > x then Some v else first_above vs x)"

definition nextMonth :: "ScheduledTicker \<Rightarrow> Time \<Rightarrow> Time" where
  "nextMonth s at =
     (let y = Year at; m = Month at in
      if length (st_months s) = 0 then Date (y + 1) 1 1
      else (case first_above (st_months s) m of
          Some v \<Rightarrow> Date y v 1
        | None \<Rightarrow> Date (y + 1) (st_months s ! 0) 1))"

definition nextDay :: "ScheduledTicker \<Rightarrow> Time \<Rightarrow> Time" where
  "nextDay s at =
     (let y = Year at; m = Month at; d = Day at in
      if length (st_days s) = 0 then Date y m (d + 1)
      else (case first_above (st_days s) d of
          Some v \<Rightarrow> Date y m v
        | None \<Rightarrow> Date y (m + 1) (st_days s ! 0)))"

definition nextHour :: "ScheduledTicker \<Rightarrow> Time \<Rightarrow> Time" where
  "nextHour s at =
     (let hrs = Time_Hour at;
          off = Time_Minute at * Minute + Time_Second at * Second + Nanosecond at in
      if length (st_hours s) = 0 then at + (Hour - off)
      else (case first_above (st_hours s) hrs of
          Some v \<Rightarrow> at + ((v - hrs) * Hour - off)
        | None \<Rightarrow> at + ((hoursInDay - hrs + st_hours s ! 0) * Hour - off)))"

definition nextMinute :: "ScheduledTicker \<Rightarrow> Time \<Rightarrow> Time" where
  "nextMinute s at =
     (let off = Time_Second at * Second + Nanosecond at in
      if length (st_minutes s) = 0 then at + (Minute - off)
      else (let mi = Time_Minute at in
        (case first_above (st_minutes s) mi of
          Some v \<Rightarrow> at + ((v - mi) * Minute - off)
        | None \<Rightarrow> at + ((minutesInHour - mi + st_minutes s ! 0) * Minute - off))))"

definition nextSecond :: "ScheduledTicker \<Rightarrow> Time \<Rightarrow> Time" where
  "nextSecond s at =
     (let off = Nanosecond at in
      if length (st_seconds s) = 0 then at + (Second - off)
      else (let sec = Time_Second at in
        (case first_above (st_seconds s) sec of
          Some v \<Rightarrow> at + ((v - sec) * Second - off)
        | None \<Rightarrow> at + ((secondsInMinute - sec + st_seconds s ! 0) * Second - off))))"

definition matchSecond :: "ScheduledTicker \<Rightarrow> Time \<Rightarrow> bool" where
  "matchSecond s at = (if length (st_seconds s) = 0 then True else Contains (st_seconds s) (Time_Second at))"

definition matchMinute :: "ScheduledTicker \<Rightarrow> Time \<Rightarrow> bool" where
  "matchMinute s at = (if length (st_minutes s) = 0 then True else Contains (st_minutes s) (Time_Minute at))"

definition matchHour :: "ScheduledTicker \<Rightarrow> Time \<Rightarrow> bool" where
  "matchHour s at = (if length (st_hours s) = 0 then True else Contains (st_hours s) (Time_Hour at))"

definition matchDay :: "ScheduledTicker \<Rightarrow> Time \<Rightarrow> bool" where
  "matchDay s at = (if length (st_days s) = 0 then True else Contains (st_days s) (Day at))"

definition matchMonth :: "ScheduledTicker \<Rightarrow> Time \<Rightarrow> bool" where
  "matchMonth s at = (if length (st_months s) = 0 then True else Contains (st_months s) (Month at))"

definition matchWeekday :: "ScheduledTicker \<Rightarrow> Time \<Rightarrow> bool" where
  "matchWeekday s at = (if length (st_weekdays s) = 0 then True else Contains (st_weekdays s) (Weekday at))"

partial_function (option) next_loop :: "ScheduledTicker \<Rightarrow> Time \<Rightarrow> Time option" where
  "next_loop s at =
     (if \<not> matchMonth s at then next_loop s (nextMonth s at)
      else if \<not> matchWeekday s at \<or> \<not> matchDay s at then next_loop s (nextDay s at)
      else if \<not> matchHour s at then next_loop s (nextHour s at)
      else if \<not> matchMinute s at then next_loop s (nextMinute s at)
      else if \<not> matchSecond s at then next_loop s (nextSecond s at)
      else Some at)"

declare next_loop.simps [code]

definition ST_Next :: "ScheduledTicker \<Rightarrow> Time \<Rightarrow> Time option" where
  "ST_Next s at = next_loop s (nextSecond s at)"

subsection \<open>Lemmas: a step of the search\<close>

definition matches :: "ScheduledTicker \<Rightarrow> Time \<Rightarrow> bool" where
  "matches s t \<longleftrightarrow> Nanosecond t = 0 \<and> matchMonth s t \<and> matchWeekday s t \<and> matchDay s t \<and>
     matchHour s t \<and> matchMinute s t \<and> matchSecond s t"

lemma first_above_spec:
  "sorted xs \<Longrightarrow> (case first_above xs x of
      Some v \<Rightarrow> v \<in> set xs \<and> x < v \<and> (\<forall>w \<in> set xs. w \<le> x \<or> v \<le> w)
    | None \<Rightarrow> \<forall>w \<in> set xs. w \<le> x)"
  by (induction xs) (auto split: option.splits)

lemma hd_least: "sorted xs \<Longrightarrow> xs \<noteq> [] \<Longrightarrow> w \<in> set xs \<Longrightarrow> xs ! 0 \<le> w"
  by (cases xs) auto

text \<open>A field that counts units \<open>U\<close> within a period of \<open>k\<close> of them.\<close>

definition next_in :: "int \<Rightarrow> int \<Rightarrow> int list \<Rightarrow> Time \<Rightarrow> Time" where
  "next_in k U xs at =
     (let x = at mod (k * U) div U in
      at - at mod U + (case first_above xs x of Some v \<Rightarrow> (v - x) * U | None \<Rightarrow> (k - x + xs ! 0) * U))"

lemma next_in_spec:
  fixes U k at :: int
  assumes U: "0 < U" "0 < k" and xs: "sorted xs" "xs \<noteq> []" "\<forall>v \<in> set xs. 0 \<le> v \<and> v < k"
  shows "at - at mod U + U \<le> next_in k U xs at" "next_in k U xs at mod U = 0"
    "at - at mod U + U \<le> t \<Longrightarrow> t < next_in k U xs at \<Longrightarrow> t mod (k * U) div U \<notin> set xs"
proof -
  define P where "P = k * U"
  define b where "b = at - at mod P"
  define x where "x = at mod P div U"
  have P: "0 < P" using U by (simp add: P_def)
  have b0: "b = P * (at div P)" by (simp add: b_def minus_mod_eq_mult_div)
  have am: "0 \<le> at mod P" "at mod P < k * U" using P by (simp_all add: P_def)
  then have x: "0 \<le> x" "x < k"
    using U by (simp_all add: x_def pos_imp_zdiv_nonneg_iff int_div_less)
  have "at mod P mod U = at mod U" by (simp add: P_def mod_mod_cancel)
  then have "at mod P = x * U + at mod U" unfolding x_def by (metis div_mult_mod_eq)
  then have start: "at - at mod U = b + x * U" by (simp add: b_def)
  have mod0: "(b + z * U) mod U = 0" for z by (simp add: b0 P_def)
  define r where "r = next_in k U xs at"
  have cases: "(\<exists>v \<in> set xs. x < v \<and> r = b + v * U \<and> (\<forall>w \<in> set xs. w \<le> x \<or> v \<le> w)) \<or>
      ((\<forall>w \<in> set xs. w \<le> x) \<and> r = b + (k + xs ! 0) * U)"
  proof -
    have "r = b + x * U + (case first_above xs x of Some v \<Rightarrow> (v - x) * U | None \<Rightarrow> (k - x + xs ! 0) * U)"
      by (simp only: r_def next_in_def Let_def P_def [symmetric] x_def [symmetric] start)
    with first_above_spec [OF xs(1), of x] show ?thesis
      by (cases "first_above xs x") (auto simp: algebra_simps)
  qed
  have hd0: "0 \<le> xs ! 0" "xs ! 0 < k" using xs by (cases xs; auto)+
  have up: "(x + 1) * U \<le> z * U" if "x < z" for z using that U by (intro mult_right_mono) auto
  show "at - at mod U + U \<le> next_in k U xs at" unfolding start
    using cases up [of "k + xs ! 0"] x hd0 up by (auto simp: r_def algebra_simps)
  show "next_in k U xs at mod U = 0" using cases mod0 by (auto simp flip: r_def)
  show "t mod (k * U) div U \<notin> set xs" if t: "at - at mod U + U \<le> t" "t < next_in k U xs at"
  proof -
    define f where "f = t mod P div U"
    have lo: "b + (x + 1) * U \<le> t" using t(1) start by (simp add: algebra_simps)
    have field: "f = (t - c) div U" if "c \<le> t" "t < c + P" "c = P * z" for c z
    proof -
      have "t mod P = t - c" by (rule int_mod_pos_eq [where q = z]) (use that in \<open>simp_all add: mult.commute\<close>)
      then show ?thesis by (simp add: f_def)
    qed
    have xU: "0 \<le> x * U" "0 \<le> (x + 1) * U" using x(1) U by simp_all
    show ?thesis
    proof (cases "t < b + P")
      case True
      have f: "f = (t - b) div U" by (rule field [where z = "at div P"]) (use lo xU True b0 in simp_all)
      have "x + 1 \<le> f" unfolding f using lo U by (simp add: int_le_div algebra_simps)
      moreover have "f < v" if "t < b + v * U" for v
        unfolding f using that U by (simp add: int_div_less algebra_simps)
      ultimately show ?thesis using cases t(2) unfolding f_def [unfolded P_def, symmetric] r_def [symmetric]
        by (fastforce simp: f_def P_def)
    next
      case False
      have r: "r = b + (k + xs ! 0) * U"
      proof (rule ccontr)
        assume "r \<noteq> b + (k + xs ! 0) * U"
        with cases obtain v where "v \<in> set xs" "r = b + v * U" by blast
        moreover have "v * U \<le> k * U" using calculation(1) xs(3) U by (intro mult_right_mono) auto
        ultimately show False using False t(2) unfolding r_def [symmetric] P_def by linarith
      qed
      then have tb: "t < b + P + (xs ! 0) * U" using t(2) unfolding r_def [symmetric] by (simp add: P_def algebra_simps)
      have "(xs ! 0) * U < P" unfolding P_def using hd0(2) U by simp
      then have f: "f = (t - (b + P)) div U"
        by (intro field [where z = "at div P + 1"]) (use tb False b0 in \<open>simp_all add: algebra_simps\<close>)
      have "f < xs ! 0" unfolding f using tb U by (simp add: int_div_less algebra_simps)
      then show ?thesis using hd_least [OF xs(1,2)] unfolding f_def P_def by fastforce
    qed
  qed
qed

lemma time_units: "at mod Hour = Time_Minute at * Minute + Time_Second at * Second + Nanosecond at"
  "at mod Minute = Time_Second at * Second + Nanosecond at"
proof -
  have "Minute dvd Hour" "Second dvd Minute" by (simp_all add: Hour_def Minute_def)
  then have "at mod Hour mod Minute = at mod Minute" "at mod Minute mod Second = at mod Second"
    by (simp_all add: mod_mod_cancel)
  then show "at mod Minute = Time_Second at * Second + Nanosecond at"
    "at mod Hour = Time_Minute at * Minute + Time_Second at * Second + Nanosecond at"
    using div_mult_mod_eq [of "at mod Hour" Minute] div_mult_mod_eq [of "at mod Minute" Second]
    by (simp_all add: Time_Second_def Time_Minute_def Nanosecond_def)
qed

lemma nextHour_in: "st_hours s \<noteq> [] \<Longrightarrow> nextHour s at = next_in 24 Hour (st_hours s) at"
  unfolding nextHour_def next_in_def time_units(1) Time_Hour_def day_ns_def hoursInDay_def
  by (simp add: Let_def split: option.splits)

lemma nextMinute_in: "st_minutes s \<noteq> [] \<Longrightarrow> nextMinute s at = next_in 60 Minute (st_minutes s) at"
  unfolding nextMinute_def next_in_def time_units(2) Time_Minute_def Hour_def minutesInHour_def
  by (simp add: Let_def split: option.splits)

lemma nextSecond_in: "st_seconds s \<noteq> [] \<Longrightarrow> nextSecond s at = next_in 60 Second (st_seconds s) at"
  unfolding nextSecond_def next_in_def Time_Second_def Minute_def Nanosecond_def secondsInMinute_def
  by (simp add: Let_def split: option.splits)

text \<open>Within one unit the field does not change.\<close>

lemma same_unit:
  fixes U k at t :: int
  assumes "0 < U" "at \<le> t" "t < at - at mod U + U" "0 < k"
  shows "t mod (k * U) div U = at mod (k * U) div U"
proof -
  have "U * (at div U) \<le> at" using int_div_bounds [OF assms(1), of at] by simp
  moreover have "at - at mod U = U * (at div U)" by (simp add: minus_mod_eq_mult_div)
  ultimately have "t div U = at div U"
    using assms by (intro int_div_pos_eq [where r = "t - U * (at div U)"]) (auto simp: mult.commute)
  moreover have "z mod (k * U) div U = z div U mod k" for z
  proof -
    have "z mod (U * k) = U * (z div U mod k) + z mod U" using assms(4) by (simp add: zmod_zmult2_eq)
    then show ?thesis using assms(1) by (simp add: mult.commute)
  qed
  ultimately show ?thesis by simp
qed

lemma field_step:
  fixes U k :: int
  assumes "0 < U" "0 < k" "field_ok (\<lambda>v. 0 \<le> v \<and> v < k) xs" "xs \<noteq> []" "at mod (k * U) div U \<notin> set xs"
    and "at \<le> t" "t < next_in k U xs at"
  shows "t mod (k * U) div U \<notin> set xs"
proof (cases "t < at - at mod U + U")
  case True
  with same_unit [of U at t k] assms show ?thesis by simp
next
  case False
  with next_in_spec(3) [of U k xs at t] assms show ?thesis by (simp add: field_ok_def)
qed

lemma Date_midnight: "Nanosecond (Date y m d) = 0"
proof -
  have "Second dvd day_ns" by (simp add: units)
  then show ?thesis unfolding Nanosecond_def Date_def by (metis dvd_mult mod_0_imp_dvd dvd_imp_mod_0)
qed

lemma before_day: "at \<le> t \<Longrightarrow> t < n * day_ns \<Longrightarrow> at div day_ns \<le> t div day_ns \<and> t div day_ns < n"
  using day_ns_pos by (simp add: zdiv_mono1 int_div_less)

lemma at_year_month: "12 * Year at + Month at - 1 = midx (at div day_ns)"
  by (simp add: Year_def Month_def)

lemma nextMonth_step:
  assumes ok: "fields_ok s" and no: "\<not> matchMonth s at"
  shows "at < nextMonth s at \<and> Nanosecond (nextMonth s at) = 0 \<and>
    (\<forall>t. at \<le> t \<longrightarrow> t < nextMonth s at \<longrightarrow> \<not> matchMonth s t)"
proof -
  define xs where "xs = st_months s"
  define M where "M = midx (at div day_ns)"
  define y m where "y = M div 12" and "m = M mod 12 + 1"
  have xs: "xs \<noteq> []" "sorted xs" "\<forall>v \<in> set xs. 1 \<le> v \<and> v \<le> 12" "m \<notin> set xs"
    using ok no by (auto simp: xs_def fields_ok_def field_ok_def valid_defs matchMonth_def Month_def m_def M_def split: if_splits)
  have M: "M = 12 * y + m - 1" "1 \<le> m" "m \<le> 12" by (simp_all add: y_def m_def)
  have hd: "xs ! 0 \<in> set xs" using xs(1) by simp
  obtain N where N: "nextMonth s at = Date 0 (N + 1) 1" "M < N"
    and skip: "\<And>K. M \<le> K \<Longrightarrow> K < N \<Longrightarrow> K mod 12 + 1 \<notin> set xs"
  proof (cases "first_above xs m")
    case (Some v)
    have v: "v \<in> set xs" "m < v" "\<forall>w \<in> set xs. w \<le> m \<or> v \<le> w"
      using first_above_spec [OF xs(2), of m] Some by auto
    show ?thesis
    proof (rule that [of "12 * y + v - 1"])
      show "nextMonth s at = Date 0 (12 * y + v - 1 + 1) 1"
        using Some xs(1) by (simp add: nextMonth_def Date_def Year_def Month_def xs_def y_def m_def M_def)
      show "K mod 12 + 1 \<notin> set xs" if "M \<le> K" "K < 12 * y + v - 1" for K
      proof -
        have K: "K = 12 * y + (K - 12 * y + 1) - 1" by simp
        have "v \<le> 12" using v(1) xs(3) by blast
        then have "K mod 12 = K - 12 * y + 1 - 1"
          using that M by (subst K, intro month_index_of) auto
        then have "m \<le> K mod 12 + 1" "K mod 12 + 1 < v" using that M by auto
        then show ?thesis using v(3) xs(4) by (metis linorder_not_le order_antisym)
      qed
    qed (use v M in simp)
  next
    case None
    have le: "\<forall>w \<in> set xs. w \<le> m" using first_above_spec [OF xs(2), of m] None by simp
    show ?thesis
    proof (rule that [of "12 * (y + 1) + xs ! 0 - 1"])
      show "nextMonth s at = Date 0 (12 * (y + 1) + xs ! 0 - 1 + 1) 1"
        using None xs(1) by (simp add: nextMonth_def Date_def Year_def Month_def xs_def y_def m_def M_def)
      show "M < 12 * (y + 1) + xs ! 0 - 1" using M hd xs(3) by auto
      show "K mod 12 + 1 \<notin> set xs" if "M \<le> K" "K < 12 * (y + 1) + xs ! 0 - 1" for K
      proof (cases "K < 12 * (y + 1)")
        case True
        have K: "K = 12 * y + (K - 12 * y + 1) - 1" by simp
        have "K mod 12 = K - 12 * y + 1 - 1" using that M True by (subst K, intro month_index_of) auto
        then have "m \<le> K mod 12 + 1" using that M by auto
        then show ?thesis using le xs(4) by (metis order_antisym)
      next
        case False
        have K: "K = 12 * (y + 1) + (K - 12 * (y + 1) + 1) - 1" by simp
        have "xs ! 0 \<le> 12" using hd xs(3) by blast
        then have "K mod 12 = K - 12 * (y + 1) + 1 - 1"
          using that M False by (subst K, intro month_index_of) auto
        then have "K mod 12 + 1 < xs ! 0" using that by auto
        then show ?thesis using hd_least [OF xs(2,1)] by fastforce
      qed
    qed
  qed
  have next_eq: "nextMonth s at = mstart N * day_ns" using N(1) by (simp add: Date_def)
  have "at div day_ns < mstart N"
    using mstart_midx [of "at div day_ns"] mstart_mono [of "M + 1" N] N(2) by (cases "M + 1 = N") (auto simp: M_def)
  then have "at < nextMonth s at" unfolding next_eq using day_ns_pos by (simp add: int_div_less)
  moreover have "\<not> matchMonth s t" if "at \<le> t" "t < nextMonth s at" for t
  proof -
    have n: "at div day_ns \<le> t div day_ns" "t div day_ns < mstart N"
      using before_day [of at t "mstart N"] that next_eq by simp_all
    have "M \<le> midx (t div day_ns)" unfolding M_def by (rule midx_mono [OF n(1)])
    moreover have "midx (t div day_ns) < N"
      using mstart_midx [of "t div day_ns"] n(2) mstart_mono [of N "midx (t div day_ns)"]
      by (cases "midx (t div day_ns) = N"; cases "N < midx (t div day_ns)") auto
    ultimately show ?thesis using skip xs(1) by (simp add: matchMonth_def Month_def xs_def)
  qed
  moreover have "Nanosecond (nextMonth s at) = 0" using N(1) Date_midnight by simp
  ultimately show ?thesis by blast
qed

text \<open>Times of one day agree on day and weekday.\<close>

lemma Day_month:
  assumes "mstart M \<le> n" "n < mstart (M + 1)" "t div day_ns = n"
  shows "Day t = n - mstart M + 1"
  using midx_unique [OF assms(1,2)] assms(3) by (simp add: Day_def)

lemma nextDay_step:
  assumes ok: "fields_ok s" and no: "\<not> (matchWeekday s at \<and> matchDay s at)"
  shows "at < nextDay s at \<and> Nanosecond (nextDay s at) = 0 \<and>
    ((\<forall>d \<in> set (st_days s). d \<le> 28) \<longrightarrow>
     (\<forall>t. at \<le> t \<longrightarrow> t < nextDay s at \<longrightarrow> \<not> (matchWeekday s t \<and> matchDay s t)))"
proof -
  define xs where "xs = st_days s"
  define n where "n = at div day_ns"
  define M where "M = midx n"
  define d where "d = Day at"
  have xs: "sorted xs" "\<forall>v \<in> set xs. 1 \<le> v" using ok by (auto simp: xs_def fields_ok_def field_ok_def valid_defs)
  have nM: "mstart M \<le> n" "n < mstart (M + 1)" using mstart_midx [of n] by (simp_all add: M_def)
  have d: "d = n - mstart M + 1" using Day_month [OF nM] by (simp add: d_def n_def)
  have same: "\<not> (matchWeekday s t \<and> matchDay s t)" if "t div day_ns = n" for t
  proof -
    have "Weekday t = Weekday at" "Day t = Day at" using that by (simp_all add: Weekday_def Day_def n_def)
    with no show ?thesis by (simp only: matchWeekday_def matchDay_def) blast
  qed
  have ym: "12 * Year at + Month at - 1 = M" using at_year_month [of at] by (simp add: n_def M_def)
  obtain D where D: "nextDay s at = (mstart M + D - 1) * day_ns" "d < D"
    and skip: "\<And>k. (\<forall>d \<in> set xs. d \<le> 28) \<Longrightarrow> n < k \<Longrightarrow> k < mstart M + D - 1 \<Longrightarrow>
      xs \<noteq> [] \<and> k - mstart (midx k) + 1 \<notin> set xs"
  proof (cases "xs = []")
    case True
    show ?thesis
    proof (rule that [of "d + 1"])
      show "nextDay s at = (mstart M + (d + 1) - 1) * day_ns"
        using True ym by (simp add: nextDay_def Date_def xs_def d_def Let_def)
    qed (simp_all add: d)
  next
    case ne: False
    then have hd: "xs ! 0 \<in> set xs" by simp
    show ?thesis
    proof (cases "first_above xs d")
      case (Some v)
      have v: "v \<in> set xs" "d < v" "\<forall>w \<in> set xs. w \<le> d \<or> v \<le> w"
        using first_above_spec [OF xs(1), of d] Some by auto
      show ?thesis
      proof (rule that [of v])
        show "nextDay s at = (mstart M + v - 1) * day_ns"
          using Some ne ym by (simp add: nextDay_def Date_def xs_def d_def Let_def)
        fix k assume small: "\<forall>d \<in> set xs. d \<le> 28" and k: "n < k" "k < mstart M + v - 1"
        have "v \<le> 28" using small v(1) by blast
        then have "mstart M \<le> k" "k < mstart (M + 1)" using k nM mstart_Suc [of M] by auto
        then have "midx k = M" by (rule midx_unique)
        with k d v(3) ne show "xs \<noteq> [] \<and> k - mstart (midx k) + 1 \<notin> set xs" by auto
      qed (rule v(2))
    next
      case None
      have le: "\<forall>w \<in> set xs. w \<le> d" using first_above_spec [OF xs(1), of d] None by simp
      have Dn: "nextDay s at = (mstart (M + 1) + xs ! 0 - 1) * day_ns"
      proof -
        have "12 * Year at + (Month at + 1) - 1 = M + 1" using ym by simp
        then show ?thesis using None ne by (simp add: nextDay_def Date_def xs_def d_def Let_def)
      qed
      show ?thesis
      proof (rule that [of "mstart (M + 1) - mstart M + xs ! 0"])
        show "nextDay s at = (mstart M + (mstart (M + 1) - mstart M + xs ! 0) - 1) * day_ns" using Dn by simp
        show "d < mstart (M + 1) - mstart M + xs ! 0" using d nM hd xs(2) by fastforce
        fix k assume small: "\<forall>d \<in> set xs. d \<le> 28" and k: "n < k" "k < mstart M + (mstart (M + 1) - mstart M + xs ! 0) - 1"
        show "xs \<noteq> [] \<and> k - mstart (midx k) + 1 \<notin> set xs"
        proof (cases "k < mstart (M + 1)")
          case True
          have "midx k = M" by (rule midx_unique) (use True k nM in simp_all)
          with k d le ne show ?thesis by fastforce
        next
          case False
          have "xs ! 0 \<le> 28" using small hd by blast
          then have "midx k = M + 1" using False k mstart_Suc [of "M + 1"] by (intro midx_unique) auto
          then have "k - mstart (midx k) + 1 < xs ! 0" using k by simp
          with hd_least [OF xs(1) ne] ne show ?thesis by fastforce
        qed
      qed
    qed
  qed
  have "n < mstart M + D - 1" using D(2) d by simp
  then have "at < nextDay s at" unfolding D(1) n_def using day_ns_pos by (simp add: int_div_less)
  moreover have "Nanosecond (nextDay s at) = 0"
    using D(1) Date_midnight [of 0 "M + 1" D] by (simp add: Date_def)
  moreover have "\<not> (matchWeekday s t \<and> matchDay s t)"
    if "\<forall>d \<in> set (st_days s). d \<le> 28" "at \<le> t" "t < nextDay s at" for t
  proof -
    have k: "n \<le> t div day_ns" "t div day_ns < mstart M + D - 1"
      using before_day [of at t "mstart M + D - 1"] that D(1) by (simp_all add: n_def)
    show ?thesis
    proof (cases "t div day_ns = n")
      case False
      with skip [of "t div day_ns"] k that(1) show ?thesis by (simp add: matchDay_def Day_def xs_def)
    qed (rule same)
  qed
  ultimately show ?thesis by blast
qed

definition advance :: "ScheduledTicker \<Rightarrow> Time \<Rightarrow> Time" where
  "advance s at =
     (if \<not> matchMonth s at then nextMonth s at
      else if \<not> matchWeekday s at \<or> \<not> matchDay s at then nextDay s at
      else if \<not> matchHour s at then nextHour s at
      else if \<not> matchMinute s at then nextMinute s at
      else nextSecond s at)"

lemma next_loop_step:
  "Nanosecond at = 0 \<Longrightarrow> next_loop s at = (if matches s at then Some at else next_loop s (advance s at))"
  by (subst next_loop.simps) (simp add: matches_def advance_def)

lemma unit_dvd: "x mod Hour = 0 \<Longrightarrow> Nanosecond x = 0" "x mod Minute = 0 \<Longrightarrow> Nanosecond x = 0"
proof -
  have "Second dvd Hour" "Second dvd Minute" by (simp_all add: Hour_def Minute_def)
  then show "x mod Hour = 0 \<Longrightarrow> Nanosecond x = 0" "x mod Minute = 0 \<Longrightarrow> Nanosecond x = 0"
    unfolding Nanosecond_def by (metis mod_0 mod_mod_cancel)+
qed

lemma unit_pos: "0 < Second" "0 < Minute" "0 < Hour"
  by (simp_all add: units)

lemma field_next:
  fixes U k :: int
  assumes "0 < U" "0 < k" "field_ok (\<lambda>v. 0 \<le> v \<and> v < k) xs" "xs \<noteq> []"
  shows "at < next_in k U xs at" "next_in k U xs at mod U = 0"
proof -
  show "next_in k U xs at mod U = 0" using next_in_spec(2) [of U k xs at] assms by (simp add: field_ok_def)
  have "at - at mod U + U \<le> next_in k U xs at"
    using next_in_spec(1) [of U k xs at] assms by (simp add: field_ok_def)
  moreover have "at mod U < U" using assms(1) by simp
  ultimately show "at < next_in k U xs at" by linarith
qed

lemma valid_ranges:
  "valid_hour = (\<lambda>v. 0 \<le> v \<and> v < 24)" "valid_minute = (\<lambda>v. 0 \<le> v \<and> v < 60)" "valid_second = (\<lambda>v. 0 \<le> v \<and> v < 60)"
  by (simp_all add: valid_defs fun_eq_iff)

text \<open>A step goes forward to a whole second and, with days up to 28, skips no matching time.\<close>

lemma advance_step:
  assumes ok: "fields_ok s" and no: "\<not> matches s at" "Nanosecond at = 0"
  shows "at < advance s at \<and> Nanosecond (advance s at) = 0 \<and>
    ((\<forall>d \<in> set (st_days s). d \<le> 28) \<longrightarrow> (\<forall>t. at \<le> t \<longrightarrow> t < advance s at \<longrightarrow> \<not> matches s t))"
proof -
  have fo: "field_ok (\<lambda>v. 0 \<le> v \<and> v < 24) (st_hours s)" "field_ok (\<lambda>v. 0 \<le> v \<and> v < 60) (st_minutes s)"
    "field_ok (\<lambda>v. 0 \<le> v \<and> v < 60) (st_seconds s)"
    using ok by (simp_all add: fields_ok_def valid_ranges)
  consider (mon) "\<not> matchMonth s at" | (day) "matchMonth s at" "\<not> (matchWeekday s at \<and> matchDay s at)"
    | (hour) "matchMonth s at" "matchWeekday s at \<and> matchDay s at" "\<not> matchHour s at"
    | (min) "matchMonth s at" "matchWeekday s at \<and> matchDay s at" "matchHour s at" "\<not> matchMinute s at"
    | (sec) "matchMonth s at" "matchWeekday s at \<and> matchDay s at" "matchHour s at" "matchMinute s at" "\<not> matchSecond s at"
    using no by (auto simp: matches_def)
  then show ?thesis
  proof cases
    case mon
    with nextMonth_step [OF ok mon] show ?thesis by (auto simp: advance_def matches_def)
  next
    case day
    with nextDay_step [OF ok day(2)] show ?thesis by (auto simp: advance_def matches_def)
  next
    case hour
    have xs: "st_hours s \<noteq> []" "at mod (24 * Hour) div Hour \<notin> set (st_hours s)"
      using hour(3) by (auto simp: matchHour_def Time_Hour_def day_ns_def split: if_splits)
    have adv: "advance s at = next_in 24 Hour (st_hours s) at" using hour nextHour_in [OF xs(1)] by (simp add: advance_def)
    have "\<not> matches s t" if "at \<le> t" "t < advance s at" for t
      using field_step [OF unit_pos(3) _ fo(1) xs that(1)] that(2) xs(1)
      by (simp add: adv matches_def matchHour_def Time_Hour_def day_ns_def)
    with field_next [OF unit_pos(3) _ fo(1) xs(1), of at] show ?thesis by (simp add: adv unit_dvd)
  next
    case min
    have xs: "st_minutes s \<noteq> []" "at mod (60 * Minute) div Minute \<notin> set (st_minutes s)"
      using min(4) by (auto simp: matchMinute_def Time_Minute_def Hour_def split: if_splits)
    have adv: "advance s at = next_in 60 Minute (st_minutes s) at" using min nextMinute_in [OF xs(1)] by (simp add: advance_def)
    have "\<not> matches s t" if "at \<le> t" "t < advance s at" for t
      using field_step [OF unit_pos(2) _ fo(2) xs that(1)] that(2) xs(1)
      by (simp add: adv matches_def matchMinute_def Time_Minute_def Hour_def)
    with field_next [OF unit_pos(2) _ fo(2) xs(1), of at] show ?thesis by (simp add: adv unit_dvd)
  next
    case sec
    have xs: "st_seconds s \<noteq> []" "at mod (60 * Second) div Second \<notin> set (st_seconds s)"
      using sec(5) by (auto simp: matchSecond_def Time_Second_def Minute_def split: if_splits)
    have adv: "advance s at = next_in 60 Second (st_seconds s) at" using sec nextSecond_in [OF xs(1)] by (simp add: advance_def)
    have "\<not> matches s t" if "at \<le> t" "t < advance s at" for t
      using field_step [OF unit_pos(1) _ fo(3) xs that(1)] that(2) xs(1)
      by (simp add: adv matches_def matchSecond_def Time_Second_def Minute_def)
    with field_next [OF unit_pos(1) _ fo(3) xs(1), of at] show ?thesis by (simp add: adv Nanosecond_def)
  qed
qed

lemma nextSecond_start:
  assumes ok: "fields_ok s"
  shows "at < nextSecond s at \<and> Nanosecond (nextSecond s at) = 0 \<and>
    (\<forall>t. at < t \<longrightarrow> t < nextSecond s at \<longrightarrow> \<not> matches s t)"
proof -
  have fo: "field_ok (\<lambda>v. 0 \<le> v \<and> v < 60) (st_seconds s)" using ok by (simp add: fields_ok_def valid_ranges)
  have whole: "at - at mod Second + Second \<le> t" if "at < t" "Nanosecond t = 0" for t
  proof -
    have "t = Second * (t div Second)" using that(2) mult_div_mod_eq [of Second t] by (simp add: Nanosecond_def)
    moreover have "at div Second < t div Second"
      using that(1) calculation int_div_less [OF unit_pos(1), of at "t div Second"] by (simp add: mult.commute)
    then have "Second * (at div Second + 1) \<le> Second * (t div Second)"
      using unit_pos(1) by (intro mult_left_mono) auto
    ultimately show ?thesis by (simp add: minus_mod_eq_mult_div algebra_simps)
  qed
  show ?thesis
  proof (cases "st_seconds s = []")
    case True
    then have e: "nextSecond s at = at - at mod Second + Second" by (simp add: nextSecond_def Nanosecond_def)
    have "at mod Second < Second" using unit_pos(1) by simp
    moreover have "(at - at mod Second + Second) mod Second = 0" by (simp add: minus_mod_eq_mult_div)
    moreover have "\<not> matches s t" if "at < t" "t < nextSecond s at" for t
      using whole [OF that(1)] that(2) e by (auto simp: matches_def)
    ultimately show ?thesis using e by (simp add: Nanosecond_def)
  next
    case False
    note e = nextSecond_in [OF False, of at]
    have "\<not> matches s t" if "at < t" "t < nextSecond s at" for t
    proof (cases "Nanosecond t = 0")
      case True
      have "t mod (60 * Second) div Second \<notin> set (st_seconds s)"
        using next_in_spec(3) [OF unit_pos(1), of 60 "st_seconds s" at t] fo False whole [OF that(1) True] that(2) e
        by (simp add: field_ok_def)
      with False show ?thesis by (simp add: matches_def matchSecond_def Time_Second_def Minute_def)
    qed (simp add: matches_def)
    with field_next [OF unit_pos(1) _ fo False, of at] e show ?thesis by (simp add: Nanosecond_def)
  qed
qed

subsection \<open>Lemmas: the search ends at the least match\<close>

lemma next_loop_least:
  assumes "fields_ok s" "\<forall>d \<in> set (st_days s). d \<le> 28" "matches s u"
  shows "at \<le> u \<Longrightarrow> Nanosecond at = 0 \<Longrightarrow>
    \<exists>r. next_loop s at = Some r \<and> matches s r \<and> at \<le> r \<and> (\<forall>t. at \<le> t \<longrightarrow> t < r \<longrightarrow> \<not> matches s t)"
proof (induction "nat (u - at)" arbitrary: at rule: less_induct)
  case less
  show ?case
  proof (cases "matches s at")
    case True
    then show ?thesis using next_loop_step [OF less.prems(2)] by auto
  next
    case False
    note adv = advance_step [OF assms(1) False less.prems(2)]
    have "advance s at \<le> u" using adv assms(2,3) less.prems(1) by (meson not_le)
    moreover have "nat (u - advance s at) < nat (u - at)" using adv calculation by linarith
    ultimately obtain r where r: "next_loop s (advance s at) = Some r" "matches s r" "advance s at \<le> r"
      "\<forall>t. advance s at \<le> t \<longrightarrow> t < r \<longrightarrow> \<not> matches s t"
      using less.hyps [of "advance s at"] adv by blast
    have "\<not> matches s t" if "at \<le> t" "t < r" for t
      using adv assms(2) r(4) that by (cases "t < advance s at") auto
    with r adv False show ?thesis using next_loop_step [OF less.prems(2), of s] by auto
  qed
qed

lemma matches_exists:
  assumes ok: "fields_ok s" and days: "\<forall>d \<in> set (st_days s). d \<le> 28"
  shows "\<exists>u \<ge> at. matches s u"
proof -
  define pick where "pick = (\<lambda>(x :: int) xs. case xs of [] \<Rightarrow> x | v # _ \<Rightarrow> v)"
  have in_list: "xs = [] \<or> pick x xs \<in> set xs" for x xs by (cases xs) (auto simp: pick_def)
  define m d w where "m = pick 1 (st_months s)" and "d = pick 1 (st_days s)" and "w = pick 0 (st_weekdays s)"
  define h mi sc where "h = pick 0 (st_hours s)" and "mi = pick 0 (st_minutes s)" and "sc = pick 0 (st_seconds s)"
  have ranges: "1 \<le> m" "m \<le> 12" "1 \<le> d" "d \<le> 28" "0 \<le> w" "w < 7" "0 \<le> h" "h < 24" "0 \<le> mi" "mi < 60" "0 \<le> sc" "sc < 60"
    using ok days
    by (auto simp: m_def d_def w_def h_def mi_def sc_def pick_def fields_ok_def field_ok_def valid_defs split: list.splits)
  obtain M where M: "at div day_ns + 1 \<le> mstart M" "M mod 12 + 1 = m" "(mstart M + d) mod 7 = w mod 7"
    using date_on_weekday [OF ranges(1-4)] by blast
  define n where "n = mstart M + d - 1"
  define u where "u = n * day_ns + (h * Hour + (mi * Minute + sc * Second))"
  have nM: "mstart M \<le> n" "n < mstart (M + 1)" using ranges(3,4) mstart_Suc [of M] by (simp_all add: n_def)
  have low: "0 \<le> sc * Second" "sc * Second < Minute" "0 \<le> mi * Minute + sc * Second" "mi * Minute + sc * Second < Hour"
    "0 \<le> h * Hour + (mi * Minute + sc * Second)" "h * Hour + (mi * Minute + sc * Second) < day_ns"
    using ranges by (simp_all add: units)
  have u_day: "u div day_ns = n" "u mod day_ns = h * Hour + (mi * Minute + sc * Second)"
    using low by (auto simp: u_def intro!: int_div_pos_eq int_mod_pos_eq)
  have hours: "u = (n * 24 + h) * Hour + (mi * Minute + sc * Second)"
    and mins: "u = ((n * 24 + h) * 60 + mi) * Minute + sc * Second"
    and secs: "u = (((n * 24 + h) * 60 + mi) * 60 + sc) * Second"
    by (simp_all add: u_def units)
  have "Time_Hour u = h" unfolding Time_Hour_def u_day using low by (intro int_div_pos_eq) (auto simp: mult.commute)
  moreover have "u mod Hour = mi * Minute + sc * Second" unfolding hours using low by (intro int_mod_pos_eq) (auto simp: mult.commute)
  then have "Time_Minute u = mi" unfolding Time_Minute_def using low by (simp add: int_div_pos_eq [of _ Minute mi "sc * Second"] mult.commute)
  moreover have "u mod Minute = sc * Second" unfolding mins using low by (intro int_mod_pos_eq) (auto simp: mult.commute)
  then have "Time_Second u = sc" unfolding Time_Second_def by (simp add: units)
  moreover have "Nanosecond u = 0" unfolding Nanosecond_def secs by simp
  moreover have "Month u = m" unfolding Month_def u_day midx_unique [OF nM] by (rule M(2))
  moreover have "Day u = d" using Day_month [OF nM u_day(1)] by (simp add: n_def)
  moreover have "Weekday u = w" unfolding Weekday_def u_day using M(3) ranges(5,6) by (simp add: n_def)
  ultimately have "matches s u"
    using in_list by (auto simp: matches_def matchMonth_def matchWeekday_def matchDay_def matchHour_def
        matchMinute_def matchSecond_def m_def d_def w_def h_def mi_def sc_def)
  moreover have "at div day_ns < n" using M(1) ranges(3) by (simp add: n_def)
  then have "at < n * day_ns" using day_ns_pos by (simp add: int_div_less)
  then have "at \<le> u" using low(5) by (simp add: u_def)
  ultimately show ?thesis by blast
qed

lemma next_loop_sound:
  assumes "next_loop s at = Some r"
  shows "fields_ok s \<longrightarrow> Nanosecond at = 0 \<longrightarrow> matches s r \<and> at \<le> r"
proof (rule next_loop.raw_induct [where P = "\<lambda>s at r. fields_ok s \<longrightarrow> Nanosecond at = 0 \<longrightarrow> matches s r \<and> at \<le> r", OF _ assms], intro impI)
  fix loop s at r
  assume ih: "\<And>s at r. loop s at = Some r \<Longrightarrow> fields_ok s \<longrightarrow> Nanosecond at = 0 \<longrightarrow> matches s r \<and> at \<le> r"
    and step: "(if \<not> matchMonth s at then loop s (nextMonth s at)
      else if \<not> matchWeekday s at \<or> \<not> matchDay s at then loop s (nextDay s at)
      else if \<not> matchHour s at then loop s (nextHour s at)
      else if \<not> matchMinute s at then loop s (nextMinute s at)
      else if \<not> matchSecond s at then loop s (nextSecond s at)
      else Some at) = Some r"
    and ok: "fields_ok s" "Nanosecond at = 0"
  show "matches s r \<and> at \<le> r"
  proof (cases "matches s at")
    case True
    with step show ?thesis by (simp add: matches_def)
  next
    case False
    note adv = advance_step [OF ok(1) False ok(2)]
    have "loop s (advance s at) = Some r"
      using step False ok(2) by (auto simp: advance_def matches_def split: if_splits)
    with ih [of s "advance s at" r] ok(1) adv show ?thesis by auto
  qed
qed

lemma ST_Next_finds_least:
  assumes ok: "fields_ok s" and days: "\<forall>d \<in> set (st_days s). d \<le> 28"
  shows "\<exists>r. ST_Next s at = Some r \<and> at < r \<and> matches s r \<and> (\<forall>t. at < t \<longrightarrow> t < r \<longrightarrow> \<not> matches s t)"
proof -
  note st = nextSecond_start [OF ok, of at]
  obtain u where "matches s u" "nextSecond s at \<le> u" using matches_exists [OF ok days] by blast
  with next_loop_least [OF ok days] st obtain r where
    r: "next_loop s (nextSecond s at) = Some r" "matches s r" "nextSecond s at \<le> r"
      "\<forall>t. nextSecond s at \<le> t \<longrightarrow> t < r \<longrightarrow> \<not> matches s t" by blast
  then have "\<forall>t. at < t \<longrightarrow> t < r \<longrightarrow> \<not> matches s t" using st by (metis not_le)
  then show ?thesis using r st by (auto simp: ST_Next_def)
qed

subsection \<open>Properties\<close>

text \<open>
  C16: When \<open>Next\<close> returns, for any ticker that \<open>parse\<close> can produce, the result is later than
  the given time, is a whole second, and agrees with every field of the schedule.
\<close>

theorem Next_sound:
  assumes "ticker_ok s" "ST_Next s at = Some r"
  shows "at < r \<and> matches s r"
proof -
  have ok: "fields_ok s" using assms(1) by (simp add: ticker_ok_def)
  with next_loop_sound [of s "nextSecond s at" r] nextSecond_start [OF ok, of at] assms(2)
  show ?thesis by (auto simp: ST_Next_def)
qed

theorem Next_sound_witness:
  "ticker_ok (empty_ticker\<lparr>st_hours := [12], st_days := [31], st_weekdays := [1]\<rparr>) \<and>
   Date 2023 7 31 + 12 * Hour > Date 2023 6 1 \<and>
   matches (empty_ticker\<lparr>st_hours := [12], st_days := [31], st_weekdays := [1]\<rparr>) (Date 2023 7 31 + 12 * Hour)"
proof -
  let ?s = "empty_ticker\<lparr>st_hours := [12], st_days := [31], st_weekdays := [1]\<rparr>"
  have "ticker_ok ?s" "ST_Next ?s (Date 2023 6 1) = Some (Date 2023 7 31 + 12 * Hour)" by code_simp+
  from this(1) Next_sound [OF this] show ?thesis by blast
qed



text \<open>
  The bound on the days is needed. A day that a month does not have makes the search jump into
  the next month, past matching times there: the first of March is missed.
\<close>

lemma day_31_skips_first_of_march:
  "ST_Next (empty_ticker\<lparr>st_hours := [0], st_minutes := [0], st_seconds := [0], st_days := [1, 31]\<rparr>) (Date 2023 2 2) = Some (Date 2023 3 31) \<and>
   matches (empty_ticker\<lparr>st_hours := [0], st_minutes := [0], st_seconds := [0], st_days := [1, 31]\<rparr>) (Date 2023 3 1)"
  by code_simp

text \<open>And a schedule that names a day which no listed month has is searched forever.\<close>

lemma february_length: "Month t = 2 \<Longrightarrow> Day t \<le> 29"
proof -
  assume m: "Month t = 2"
  define M where "M = midx (t div day_ns)"
  have M: "M = 12 * (M div 12) + 2 - 1" using m mult_div_mod_eq [of 12 M] by (simp add: Month_def M_def)
  have "mstart M = dby (M div 12) + dbm (leap (M div 12)) 2" by (subst M, rule mstart_index) simp_all
  moreover have "mstart (M + 1) = dby (M div 12) + dbm (leap (M div 12)) 3"
  proof -
    have "M + 1 = 12 * (M div 12) + 3 - 1" using M by simp
    then show ?thesis using mstart_index [of 3 "M div 12"] by (simp only: one_le_numeral numeral_le_iff semiring_norm simp_thms)
  qed
  moreover have "t div day_ns < mstart (M + 1)" using mstart_midx [of "t div day_ns"] by (simp add: M_def)
  moreover have "dbm l 3 - dbm l 2 \<le> 29" for l by (cases l) (simp_all add: dbm_def)
  ultimately show ?thesis unfolding Day_def M_def [symmetric] by (smt (verit))
qed

lemma february_30_is_searched_forever:
  "NewScheduledTicker ''0s 0m 0h 30d feb'' = Inr (empty_ticker\<lparr>st_seconds := [0], st_minutes := [0], st_hours := [0], st_days := [30], st_months := [2]\<rparr>) \<and>
   ST_Next (empty_ticker\<lparr>st_seconds := [0], st_minutes := [0], st_hours := [0], st_days := [30], st_months := [2]\<rparr>) at = None"
proof -
  let ?s = "empty_ticker\<lparr>st_seconds := [0], st_minutes := [0], st_hours := [0], st_days := [30], st_months := [2]\<rparr>"
  have ok: "fields_ok ?s" by code_simp
  have "\<not> matches ?s r" for r using february_length [of r] by (auto simp: matches_def matchMonth_def matchDay_def)
  with next_loop_sound [of ?s "nextSecond ?s at"] nextSecond_start [OF ok, of at] ok
  have "ST_Next ?s at = None" by (cases "ST_Next ?s at") (auto simp: ST_Next_def)
  moreover have "NewScheduledTicker ''0s 0m 0h 30d feb'' = Inr ?s" by code_simp
  ultimately show ?thesis by blast
qed

end
