(* ===== verification/Scheduler.thy ===== *)
theory Scheduler
  imports Schedule_Next
begin

text \<open>
  \<open>Scheduler\<close> and \<open>IntervalTicker\<close> (\<open>src/timeutil/scheduler.go\<close>). The scheduler is a state
  machine: the goroutine started by \<open>Start\<close>, the callers blocked in \<open>TickAt\<close>, the consumer of
  the unbuffered channel, the context and the clock take steps in any order. A value is received
  together with the step of its sender. \<open>time.Until\<close> saturates only far outside the bounds it is
  compared with, so it is a difference here; times are in the location of the scheduler.

  What the scheduler needs of a \<open>NextTick\<close> is the locale \<open>next_tick\<close>, interpreted on
  \<open>ScheduledTicker\<close> and on \<open>IntervalTicker\<close>.
\<close>

subsection \<open>Definitions\<close>

record IntervalTicker =
  it_interval :: int

definition NewIntervalTicker :: "int \<Rightarrow> IntervalTicker" where
  "NewIntervalTicker interval = \<lparr>it_interval = interval\<rparr>"

definition IT_Next :: "IntervalTicker \<Rightarrow> Time \<Rightarrow> Time option" where
  "IT_Next t at = Some (at + it_interval t)"

definition scheduleMaxSleepTime :: int where "scheduleMaxSleepTime = 15 * Minute"

text \<open>\<open>NoContext\<close> is the nil context.\<close>

datatype context_state = NoContext | Live | Cancelled

text \<open>
  The program points of \<open>scheduler()\<close>: before its first \<open>Next\<close>, at the head of the loop, in a
  long sleep, in the sleep before a tick, in the send, returned.
\<close>

datatype sched_pc = NotStarted | Init | Head Time | LongSleep Time Time | LastSleep Time | Sending Time | Returned

datatype tick_source = Scheduled | Manual

text \<open>
  \<open>sch_from\<close> is the time the first \<open>Next\<close> was called with and \<open>sch_got\<close> what the consumer has
  received; the code keeps neither.
\<close>

record Scheduler =
  sch_ctx :: context_state
  sch_pc :: sched_pc
  sch_blocked :: "Time list"
  sch_closed :: bool
  sch_panicked :: bool
  sch_now :: Time
  sch_from :: Time
  sch_got :: "(tick_source \<times> Time) list"

definition NewScheduler :: "Time \<Rightarrow> Scheduler" where
  "NewScheduler now = \<lparr>sch_ctx = NoContext, sch_pc = NotStarted, sch_blocked = [], sch_closed = False,
     sch_panicked = False, sch_now = now, sch_from = now, sch_got = []\<rparr>"

definition Start :: "context_state \<Rightarrow> Scheduler \<Rightarrow> Scheduler" where
  "Start ctx s =
     (if sch_ctx s \<noteq> NoContext then s\<lparr>sch_panicked := True\<rparr>
      else if ctx = NoContext then s\<lparr>sch_panicked := True\<rparr>
      else s\<lparr>sch_ctx := ctx, sch_pc := Init\<rparr>)"

definition TickAt :: "Time \<Rightarrow> Scheduler \<Rightarrow> Scheduler" where
  "TickAt at s = (if sch_ctx s = NoContext \<or> sch_ctx s = Cancelled then s\<lparr>sch_panicked := True\<rparr>
     else s\<lparr>sch_blocked := sch_blocked s @ [at]\<rparr>)"

definition return_closed :: "Scheduler \<Rightarrow> Scheduler" where
  "return_closed s = s\<lparr>sch_pc := Returned, sch_closed := True\<rparr>"

inductive sched_step :: "(Time \<Rightarrow> Time option) \<Rightarrow> Scheduler \<Rightarrow> Scheduler \<Rightarrow> bool" for nxt where
  start: "sched_step nxt s (Start ctx s)"
| tick_at: "sched_step nxt s (TickAt at s)"
| cancel: "sch_ctx s = Live \<Longrightarrow> sched_step nxt s (s\<lparr>sch_ctx := Cancelled\<rparr>)"
| clock: "0 \<le> d \<Longrightarrow> sched_step nxt s (s\<lparr>sch_now := sch_now s + d\<rparr>)"
| first_next: "sch_pc s = Init \<Longrightarrow> nxt (sch_now s) = Some n \<Longrightarrow>
    sched_step nxt s (s\<lparr>sch_pc := Head n, sch_from := sch_now s\<rparr>)"
| far: "sch_pc s = Head n \<Longrightarrow> n - sch_now s \<ge> scheduleMaxSleepTime \<Longrightarrow>
    sched_step nxt s (s\<lparr>sch_pc := LongSleep n (sch_now s + scheduleMaxSleepTime)\<rparr>)"
| far_over: "sch_pc s = LongSleep n e \<Longrightarrow> e \<le> sch_now s \<Longrightarrow> sched_step nxt s (s\<lparr>sch_pc := Head n\<rparr>)"
| near: "sch_pc s = Head n \<Longrightarrow> 0 < n - sch_now s \<Longrightarrow> n - sch_now s < scheduleMaxSleepTime \<Longrightarrow>
    sched_step nxt s (s\<lparr>sch_pc := LastSleep n\<rparr>)"
| near_over: "sch_pc s = LastSleep n \<Longrightarrow> n \<le> sch_now s \<Longrightarrow> sched_step nxt s (s\<lparr>sch_pc := Sending n\<rparr>)"
| due_live: "sch_pc s = Head n \<Longrightarrow> n - sch_now s \<le> 0 \<Longrightarrow> sch_ctx s = Live \<Longrightarrow>
    sched_step nxt s (s\<lparr>sch_pc := Sending n\<rparr>)"
| due_cancelled: "sch_pc s = Head n \<Longrightarrow> n - sch_now s \<le> 0 \<Longrightarrow> sch_ctx s = Cancelled \<Longrightarrow>
    sched_step nxt s (return_closed s)"
| sleep_cancelled: "sch_pc s = LongSleep n e \<or> sch_pc s = LastSleep n \<Longrightarrow> sch_ctx s = Cancelled \<Longrightarrow>
    sched_step nxt s (return_closed s)"
| receive: "sch_pc s = Sending n \<Longrightarrow> nxt n = Some n' \<Longrightarrow>
    sched_step nxt s (s\<lparr>sch_pc := Head n', sch_got := sch_got s @ [(Scheduled, n)]\<rparr>)"
| receive_manual: "sch_blocked s = xs @ at # ys \<Longrightarrow> \<not> sch_closed s \<Longrightarrow>
    sched_step nxt s (s\<lparr>sch_blocked := xs @ ys, sch_got := sch_got s @ [(Manual, at)]\<rparr>)"
| send_on_closed: "sch_blocked s = xs @ at # ys \<Longrightarrow> sch_closed s \<Longrightarrow>
    sched_step nxt s (s\<lparr>sch_blocked := xs @ ys, sch_panicked := True\<rparr>)"

inductive sched_reach :: "(Time \<Rightarrow> Time option) \<Rightarrow> Scheduler \<Rightarrow> bool" for nxt where
  new: "sched_reach nxt (NewScheduler now)"
| step: "sched_reach nxt s \<Longrightarrow> sched_step nxt s s' \<Longrightarrow> sched_reach nxt s'"

inductive_cases sched_stepE: "sched_step nxt s s'"

subsection \<open>Lemmas: the ticks are the chain of Next\<close>

definition ticks :: "Scheduler \<Rightarrow> Time list" where
  "ticks s = map snd (filter (\<lambda>(src, t). src = Scheduled) (sch_got s))"

fun chain :: "(Time \<Rightarrow> Time option) \<Rightarrow> Time \<Rightarrow> Time list \<Rightarrow> bool" where
  "chain nxt t [] = True"
| "chain nxt t (x # xs) = (nxt t = Some x \<and> chain nxt x xs)"

text \<open>The tick the goroutine has computed and not sent yet.\<close>

fun pending :: "sched_pc \<Rightarrow> Time list" where
  "pending (Head n) = [n]"
| "pending (LongSleep n e) = [n]"
| "pending (LastSleep n) = [n]"
| "pending (Sending n) = [n]"
| "pending _ = []"

lemma chain_append: "chain nxt t (xs @ [x]) \<longleftrightarrow> chain nxt t xs \<and> nxt (last (t # xs)) = Some x"
  by (induction xs arbitrary: t) auto

definition sched_inv :: "(Time \<Rightarrow> Time option) \<Rightarrow> Scheduler \<Rightarrow> bool" where
  "sched_inv nxt s \<longleftrightarrow> chain nxt (sch_from s) (ticks s @ pending (sch_pc s)) \<and>
     (\<forall>t \<in> set (ticks s). t \<le> sch_now s) \<and>
     (sch_pc s = NotStarted \<or> sch_pc s = Init \<longrightarrow> ticks s = []) \<and>
     (\<forall>n. sch_pc s = Sending n \<longrightarrow> n \<le> sch_now s) \<and>
     (sch_closed s \<longleftrightarrow> sch_pc s = Returned) \<and>
     (sch_closed s \<longrightarrow> sch_ctx s = Cancelled) \<and>
     (sch_ctx s = NoContext \<longleftrightarrow> sch_pc s = NotStarted) \<and>
     (sch_ctx s = NoContext \<longrightarrow> sch_blocked s = [])"

lemma ticks_upd:
  "ticks (s\<lparr>sch_pc := p\<rparr>) = ticks s" "ticks (s\<lparr>sch_ctx := c\<rparr>) = ticks s" "ticks (s\<lparr>sch_now := t\<rparr>) = ticks s"
  "ticks (s\<lparr>sch_blocked := b\<rparr>) = ticks s" "ticks (s\<lparr>sch_from := t\<rparr>) = ticks s" "ticks (s\<lparr>sch_closed := cl\<rparr>) = ticks s"
  "ticks (s\<lparr>sch_panicked := pn\<rparr>) = ticks s"
  "ticks (s\<lparr>sch_got := sch_got s @ [(Scheduled, n)]\<rparr>) = ticks s @ [n]"
  "ticks (s\<lparr>sch_got := sch_got s @ [(Manual, n)]\<rparr>) = ticks s"
  by (simp_all add: ticks_def)

lemma sched_inv_step: "sched_step nxt s s' \<Longrightarrow> sched_inv nxt s \<Longrightarrow> sched_inv nxt s'"
proof (induction rule: sched_step.induct)
  case (clock d s)
  then have "\<forall>t \<in> set (ticks s). t \<le> sch_now s + d" "\<forall>n. sch_pc s = Sending n \<longrightarrow> n \<le> sch_now s + d"
    unfolding sched_inv_def by (metis add_increasing2)+
  then show ?case using clock(2) by (simp add: sched_inv_def ticks_upd)
next
  case (receive s n n')
  then show ?case using chain_append [of nxt "sch_from s" "ticks s @ [n]" n']
    by (auto simp: sched_inv_def ticks_def)
next
  case (start s ctx)
  then show ?case by (simp add: sched_inv_def ticks_upd Start_def)
next
  case (receive_manual s xs at ys)
  then have "sch_ctx s \<noteq> NoContext" by (auto simp: sched_inv_def)
  with receive_manual show ?case by (simp add: sched_inv_def ticks_def)
next
  case (send_on_closed s xs at ys)
  then have "sch_pc s = Returned" "sch_ctx s = Cancelled" by (simp_all add: sched_inv_def)
  with send_on_closed show ?case by (simp add: sched_inv_def ticks_upd)
next
  case (sleep_cancelled s n e)
  then show ?case by (elim disjE) (simp_all add: sched_inv_def ticks_upd return_closed_def chain_append)
qed (simp_all add: sched_inv_def ticks_upd TickAt_def return_closed_def chain_append)

lemma sched_reach_inv: "sched_reach nxt s \<Longrightarrow> sched_inv nxt s"
proof (induction rule: sched_reach.induct)
  case (new now)
  show ?case by (simp add: sched_inv_def NewScheduler_def ticks_def)
next
  case (step s s')
  then show ?case by (blast intro: sched_inv_step)
qed

lemma reach_chain: "sched_reach nxt s \<Longrightarrow> chain nxt (sch_from s) (ticks s)"
  using sched_reach_inv [of nxt s] by (cases "sch_pc s") (simp_all add: sched_inv_def chain_append)

text \<open>From the head of the loop, with a live context, the next tick can be delivered.\<close>

lemma deliver:
  assumes "sched_reach nxt s" "sch_pc s = Head n" "sch_ctx s = Live" "nxt n = Some n'"
  shows "\<exists>s'. sched_reach nxt s' \<and> sch_pc s' = Head n' \<and> sch_ctx s' = Live \<and> sch_from s' = sch_from s \<and> ticks s' = ticks s @ [n]"
proof -
  define s1 where "s1 = s\<lparr>sch_now := sch_now s + max 0 (n - sch_now s)\<rparr>"
  define s2 where "s2 = s1\<lparr>sch_pc := Sending n\<rparr>"
  define s3 where "s3 = s2\<lparr>sch_pc := Head n', sch_got := sch_got s2 @ [(Scheduled, n)]\<rparr>"
  have "sched_reach nxt s1" unfolding s1_def using assms(1) by (rule sched_reach.step) (simp add: sched_step.clock)
  then have "sched_reach nxt s2" unfolding s2_def by (rule sched_reach.step) (simp add: sched_step.due_live assms s1_def)
  then have "sched_reach nxt s3" unfolding s3_def by (rule sched_reach.step) (rule sched_step.receive, simp_all add: assms s2_def)
  then show ?thesis using assms(3) by (intro exI [of _ s3]) (simp add: s3_def s2_def s1_def ticks_def)
qed

lemma started:
  "nxt t = Some n \<Longrightarrow> \<exists>s. sched_reach nxt s \<and> sch_pc s = Head n \<and> sch_ctx s = Live \<and> sch_from s = t \<and> ticks s = []"
proof -
  assume n: "nxt t = Some n"
  define s1 where "s1 = Start Live (NewScheduler t)"
  define s2 where "s2 = s1\<lparr>sch_pc := Head n, sch_from := sch_now s1\<rparr>"
  have s1: "sch_pc s1 = Init" "sch_now s1 = t" "sch_ctx s1 = Live" "ticks s1 = []"
    by (simp_all add: s1_def Start_def NewScheduler_def ticks_def)
  have "sched_reach nxt s1" unfolding s1_def by (rule sched_reach.step [OF sched_reach.new sched_step.start])
  then have "sched_reach nxt s2" unfolding s2_def
    by (rule sched_reach.step) (rule sched_step.first_next, simp_all add: s1 n)
  then show ?thesis by (intro exI [of _ s2]) (simp add: s2_def s1 ticks_upd)
qed

subsection \<open>The NextTick interface\<close>

text \<open>
  A ticker of kind \<open>'k\<close>: from a good time, \<open>Next\<close> returns the least due time after it, which is
  good again.
\<close>

locale next_tick =
  fixes nxt :: "'k \<Rightarrow> Time \<Rightarrow> Time option" and due :: "'k \<Rightarrow> Time \<Rightarrow> bool" and good :: "'k \<Rightarrow> Time \<Rightarrow> bool"
  assumes next_least: "good k at \<Longrightarrow> \<exists>r. nxt k at = Some r \<and> good k r \<and> at < r \<and> due k r \<and>
    (\<forall>t. at < t \<longrightarrow> t < r \<longrightarrow> \<not> due k t)"
begin

lemma chain_complete:
  "good k t0 \<Longrightarrow> chain (nxt k) t0 xs \<Longrightarrow>
   sorted_wrt (<) (t0 # xs) \<and> (\<forall>t. t \<in> set xs \<longleftrightarrow> t0 < t \<and> t \<le> last (t0 # xs) \<and> due k t)"
proof (induction xs arbitrary: t0)
  case (Cons x xs)
  have x: "good k x" "t0 < x" "due k x" "\<And>t. t0 < t \<Longrightarrow> t < x \<Longrightarrow> \<not> due k t"
    using next_least [OF Cons.prems(1)] Cons.prems(2) by auto
  note ih = Cons.IH [OF x(1)]
  have srt: "sorted_wrt (<) (x # xs)" and ex: "\<forall>t. t \<in> set xs \<longleftrightarrow> x < t \<and> t \<le> last (x # xs) \<and> due k t"
    using ih Cons.prems(2) by simp_all
  have le: "x \<le> last (x # xs)" using srt by (cases xs rule: rev_cases) (auto simp: sorted_wrt_append)
  have "t \<in> set (x # xs) \<longleftrightarrow> t0 < t \<and> t \<le> last (t0 # x # xs) \<and> due k t" for t
    using ex x le by (cases "t < x"; cases "t = x") force+
  moreover have "sorted_wrt (<) (t0 # x # xs)" using srt x(2) by auto
  ultimately show ?case by blast
qed simp

end

definition good_schedule :: "ScheduledTicker \<Rightarrow> Time \<Rightarrow> bool" where
  "good_schedule s at \<longleftrightarrow> ticker_ok s \<and> (\<forall>d \<in> set (st_days s). d \<le> 28)"

interpretation scheduled_ticker: next_tick ST_Next matches good_schedule
proof unfold_locales
  fix s at
  assume good: "good_schedule s at"
  then have ok: "fields_ok s" and days: "\<forall>d \<in> set (st_days s). d \<le> 28" by (simp_all add: good_schedule_def ticker_ok_def)
  from ST_Next_finds_least [OF ok days, of at] good
  show "\<exists>r. ST_Next s at = Some r \<and> good_schedule s r \<and> at < r \<and> matches s r \<and> (\<forall>t. at < t \<longrightarrow> t < r \<longrightarrow> \<not> matches s t)"
    by (auto simp: good_schedule_def)
qed

text \<open>An interval ticker that was started at \<open>b\<close> is due at the later multiples of its interval.\<close>

definition it_due :: "IntervalTicker \<times> Time \<Rightarrow> Time \<Rightarrow> bool" where
  "it_due tb t \<longleftrightarrow> snd tb < t \<and> (t - snd tb) mod it_interval (fst tb) = 0"

definition it_good :: "IntervalTicker \<times> Time \<Rightarrow> Time \<Rightarrow> bool" where
  "it_good tb t \<longleftrightarrow> 0 < it_interval (fst tb) \<and> snd tb \<le> t \<and> (t - snd tb) mod it_interval (fst tb) = 0"

lemma no_multiple_between:
  fixes a d t :: int
  assumes "0 < d" "a mod d = 0" "a < t" "t < a + d"
  shows "t mod d \<noteq> 0"
proof -
  have "t mod d = t - a"
    by (rule int_mod_pos_eq [where q = "a div d"]) (use assms mult_div_mod_eq [of d a] in \<open>simp_all add: mult.commute\<close>)
  then show ?thesis using assms by simp
qed

interpretation interval_ticker: next_tick "\<lambda>tb. IT_Next (fst tb)" it_due it_good
proof unfold_locales
  fix tb :: "IntervalTicker \<times> Time" and at
  assume good: "it_good tb at"
  have "(at + it_interval (fst tb) - snd tb) mod it_interval (fst tb) = 0"
    using good mod_add_self2 [of "at - snd tb" "it_interval (fst tb)"] by (simp add: it_good_def algebra_simps)
  moreover have "\<not> it_due tb t" if "at < t" "t < at + it_interval (fst tb)" for t
    using no_multiple_between [of "it_interval (fst tb)" "at - snd tb" "t - snd tb"] good that
    by (auto simp: it_good_def it_due_def)
  ultimately show "\<exists>r. IT_Next (fst tb) at = Some r \<and> it_good tb r \<and> at < r \<and> it_due tb r \<and>
      (\<forall>t. at < t \<longrightarrow> t < r \<longrightarrow> \<not> it_due tb t)"
    using good by (auto simp: IT_Next_def it_good_def it_due_def)
qed

subsection \<open>Properties\<close>



text \<open>
  The ticks an interval scheduler delivers are the times at exactly one, two, three, \<dots>
  intervals after its start; delays in consuming them do not accumulate.
\<close>

theorem interval_ticks_do_not_drift:
  assumes "sched_reach (IT_Next i) st"
  shows "ticks st = map (\<lambda>k. sch_from st + (int k + 1) * it_interval i) [0..<length (ticks st)]"
proof -
  have "chain (IT_Next i) t xs \<Longrightarrow> xs = map (\<lambda>k. t + (int k + 1) * it_interval i) [0..<length xs]" for t xs
  proof (induction xs arbitrary: t rule: rev_induct)
    case (snoc x xs)
    have "xs = map (\<lambda>k. t + (int k + 1) * it_interval i) [0..<length xs]"
      using snoc chain_append by blast
    then have "last (t # xs) = t + int (length xs) * it_interval i"
      by (cases xs rule: rev_cases) (simp_all add: algebra_simps)
    moreover have "x = last (t # xs) + it_interval i" using snoc.prems by (simp add: chain_append IT_Next_def)
    ultimately show ?case using \<open>xs = _\<close> by (simp add: algebra_simps)
  qed simp
  then show ?thesis using reach_chain [OF assms] by blast
qed

theorem interval_ticks_do_not_drift_witness:
  "\<exists>st. sched_reach (IT_Next \<lparr>it_interval = 7\<rparr>) st \<and> length (ticks st) = 2 \<and> sch_from st = 100 \<and> ticks st = [107, 114]"
proof -
  let ?n = "IT_Next \<lparr>it_interval = 7\<rparr>"
  obtain s0 where "sched_reach ?n s0" "sch_pc s0 = Head 107" "sch_ctx s0 = Live" "sch_from s0 = 100" "ticks s0 = []"
    using started [of ?n 100 107] by (auto simp: IT_Next_def)
  with deliver [of ?n s0 107 114] obtain s1 where "sched_reach ?n s1" "sch_pc s1 = Head 114" "sch_ctx s1 = Live"
    "sch_from s1 = 100" "length (ticks s1) = 1" by (auto simp: IT_Next_def)
  with deliver [of ?n s1 114 121] obtain s2 where s2: "sched_reach ?n s2" "sch_from s2 = 100" "length (ticks s2) = 2"
    by (auto simp: IT_Next_def)
  then show ?thesis using interval_ticks_do_not_drift [OF s2(1)]
    by (intro exI [of _ s2]) (simp add: numeral_2_eq_2)
qed

text \<open>
  The tick channel is closed only after the context was cancelled, and then the goroutine has
  returned; while the scheduler was never started nobody waits in \<open>TickAt\<close> and nothing was delivered.
\<close>

theorem channel_closed_after_cancel:
  assumes "sched_reach nxt st"
  shows "(if sch_closed st then sch_ctx st = Cancelled \<and> sch_pc st = Returned else sch_pc st \<noteq> Returned) \<and>
    (if sch_ctx st = NoContext then sch_blocked st = [] \<and> ticks st = [] else True)"
  using sched_reach_inv [OF assms] by (simp add: sched_inv_def)

theorem channel_closed_after_cancel_witness:
  "sched_reach (IT_Next (NewIntervalTicker 7)) (NewScheduler 5) \<and> sch_blocked (NewScheduler 5) = [] \<and> ticks (NewScheduler 5) = []"
  using channel_closed_after_cancel [OF sched_reach.new [of "IT_Next (NewIntervalTicker 7)" 5]]
    sched_reach.new [of "IT_Next (NewIntervalTicker 7)" 5]
  by (simp add: NewScheduler_def)

text \<open>
  A caller that waits in \<open>TickAt\<close> when the context is cancelled panics: the goroutine closes the
  channel it sends on.
\<close>

lemma cancel_makes_TickAt_panic:
  "\<exists>st. sched_reach (IT_Next \<lparr>it_interval = 7\<rparr>) st \<and> sch_panicked st \<and> sch_pc st = Returned"
proof -
  let ?n = "IT_Next \<lparr>it_interval = 7\<rparr>"
  let ?r = "sched_reach ?n"
  obtain s0 where s0: "?r s0" "sch_pc s0 = Head 107" "sch_ctx s0 = Live" using started [of ?n 100 107] by (auto simp: IT_Next_def)
  define s1 where "s1 = TickAt 3 s0"
  define s2 where "s2 = s1\<lparr>sch_now := sch_now s1 + \<bar>107 - sch_now s1\<bar>\<rparr>"
  define s3 where "s3 = s2\<lparr>sch_ctx := Cancelled\<rparr>"
  define s4 where "s4 = return_closed s3"
  define s5 where "s5 = s4\<lparr>sch_blocked := sch_blocked s0 @ [], sch_panicked := True\<rparr>"
  have "?r s1" unfolding s1_def by (rule sched_reach.step [OF s0(1) sched_step.tick_at])
  then have "?r s2" unfolding s2_def by (rule sched_reach.step) (simp add: sched_step.clock)
  then have "?r s3" unfolding s3_def by (rule sched_reach.step) (rule sched_step.cancel, simp add: s0 s1_def s2_def TickAt_def)
  then have "?r s4" unfolding s4_def
    by (rule sched_reach.step) (rule sched_step.due_cancelled [of _ 107], simp_all add: s0 s1_def s2_def s3_def TickAt_def)
  then have "?r s5" unfolding s5_def
    by (rule sched_reach.step)
      (rule sched_step.send_on_closed [of _ _ 3], simp_all add: s0 s1_def s2_def s3_def s4_def TickAt_def return_closed_def)
  then show ?thesis by (intro exI [of _ s5]) (simp add: s5_def s4_def return_closed_def)
qed

text \<open>
  And the goroutine does not notice the cancellation while it waits for a consumer: as long as
  nobody receives the tick, the channel stays open.
\<close>

lemma waiting_send_ignores_cancel:
  "sched_step nxt s s' \<Longrightarrow> sch_pc s = Sending n \<Longrightarrow> sch_ctx s = Cancelled \<Longrightarrow> \<not> sch_closed s \<Longrightarrow>
   (\<not> sch_closed s' \<and> sch_ctx s' = Cancelled \<and> (sch_pc s' = Sending n \<or> ticks s' = ticks s @ [n]))"
  by (erule sched_stepE) (auto simp: Start_def TickAt_def ticks_def)

end
