(* ===== verification/Go_Machine.thy ===== *)
theory Go_Machine
  imports Go_Prelude
begin

text \<open>
  Goroutines as state machines. A component with goroutines is a step function: an event (a call
  of a method, a value received, a context cancelled, \<dots>) takes a state to the next one, or to
  \<open>None\<close> when it cannot happen there, for instance because a lock is held. \<open>run\<close> performs a
  sequence of events; the sequences for which it is defined are the possible interleavings.
  The locale \<open>machine\<close> carries an invariant of the steps to all runs.
\<close>

fun run :: "('e \<Rightarrow> 's \<Rightarrow> 's option) \<Rightarrow> 'e list \<Rightarrow> 's \<Rightarrow> 's option" where
  "run step [] s = Some s"
| "run step (e # es) s = (case step e s of None \<Rightarrow> None | Some s' \<Rightarrow> run step es s')"

definition guard :: "bool \<Rightarrow> 's \<Rightarrow> 's option" where
  "guard b s = (if b then Some s else None)"

lemma guard_Some [simp]: "guard b s = Some s' \<longleftrightarrow> b \<and> s' = s"
  by (auto simp: guard_def)

lemma run_append: "run step (es @ fs) s = (case run step es s of None \<Rightarrow> None | Some s' \<Rightarrow> run step fs s')"
  by (induction es arbitrary: s) (auto split: option.splits)

locale machine =
  fixes step :: "'e \<Rightarrow> 's \<Rightarrow> 's option" and inv :: "'s \<Rightarrow> bool"
  assumes inv_step: "step e s = Some s' \<Longrightarrow> inv s \<Longrightarrow> inv s'"
begin

lemma inv_run: "run step es s = Some s' \<Longrightarrow> inv s \<Longrightarrow> inv s'"
  by (induction es arbitrary: s) (auto split: option.splits dest: inv_step)

end

end
