(* ===== verification/Chan_Util.thy ===== *)
theory Chan_Util
  imports Go_Machine
begin

text \<open>
  Package \<open>chanutil\<close> (\<open>src/chanutil/chainutil.go\<close>): \<open>FanIn\<close> and \<open>FanOut\<close> as machines.
  An event is a call that got the mutex, a value taken from an input channel, the end of an input
  channel, or a send that completed. What went through the channels is recorded in the state
  (\<open>fi_taken\<close>, \<open>fi_out\<close>, \<open>fo_seen\<close>, \<open>oc_got\<close>); the code does not keep it.

  The lemmas show that values are neither lost, repeated nor reordered within a channel.
\<close>

subsection \<open>Definitions: FanIn\<close>

text \<open>The program points of \<open>fanInRoutine\<close> and of the goroutine of \<open>AutoClose\<close>.\<close>

datatype 'a fi_routine = Ranging | Offering 'a | Finished

datatype fi_closer = NotCalled | Waiting | Closing | ClosedIt

record 'a FanIn =
  fi_routines :: "'a fi_routine list"
  fi_wg :: nat
  fi_closer :: fi_closer
  fi_closed :: bool
  fi_panicked :: bool
  fi_taken :: "'a list list"
  fi_out :: "(nat \<times> 'a) list"

definition NewFanIn :: "'a FanIn" where
  "NewFanIn = \<lparr>fi_routines = [], fi_wg = 0, fi_closer = NotCalled, fi_closed = False, fi_panicked = False,
     fi_taken = [], fi_out = []\<rparr>"

datatype 'a fi_event =
    Input nat          \<comment> \<open>\<open>Input\<close> with so many channels\<close>
  | Take nat 'a        \<comment> \<open>a goroutine receives from its input channel\<close>
  | InputEnds nat      \<comment> \<open>the input channel of a goroutine is closed and empty\<close>
  | Send nat           \<comment> \<open>the send of a goroutine to the output channel completes or panics\<close>
  | AutoClose
  | WaitReturns        \<comment> \<open>\<open>Wait\<close> returns in the goroutine of \<open>AutoClose\<close>\<close>
  | AutoCloses         \<comment> \<open>that goroutine calls \<open>Close\<close>\<close>
  | CloseIn            \<comment> \<open>a call of \<open>Close\<close>\<close>

definition fi_Input :: "nat \<Rightarrow> 'a FanIn \<Rightarrow> 'a FanIn" where
  "fi_Input k s =
     (if fi_closed s then s\<lparr>fi_panicked := True\<rparr>
      else s\<lparr>fi_wg := fi_wg s + k, fi_routines := fi_routines s @ replicate k Ranging,
             fi_taken := fi_taken s @ replicate k []\<rparr>)"

definition fi_Close :: "'a FanIn \<Rightarrow> 'a FanIn" where
  "fi_Close s = (if fi_closed s then s else s\<lparr>fi_closed := True\<rparr>)"

fun fi_step :: "'a fi_event \<Rightarrow> 'a FanIn \<Rightarrow> 'a FanIn option" where
  "fi_step (Input k) s = Some (fi_Input k s)"
| "fi_step (Take i v) s =
     guard (i < length (fi_routines s) \<and> fi_routines s ! i = Ranging)
       (s\<lparr>fi_routines := (fi_routines s)[i := Offering v], fi_taken := (fi_taken s)[i := fi_taken s ! i @ [v]]\<rparr>)"
| "fi_step (InputEnds i) s =
     guard (i < length (fi_routines s) \<and> fi_routines s ! i = Ranging)
       (s\<lparr>fi_routines := (fi_routines s)[i := Finished], fi_wg := fi_wg s - 1\<rparr>)"
| "fi_step (Send i) s =
     (if i < length (fi_routines s) then
        (case fi_routines s ! i of
           Offering v \<Rightarrow>
             Some (if fi_closed s then s\<lparr>fi_panicked := True\<rparr>
                   else s\<lparr>fi_routines := (fi_routines s)[i := Ranging], fi_out := fi_out s @ [(i, v)]\<rparr>)
         | _ \<Rightarrow> None)
      else None)"
| "fi_step AutoClose s = Some (if fi_closer s = NotCalled then s\<lparr>fi_closer := Waiting\<rparr> else s)"
| "fi_step WaitReturns s = guard (fi_closer s = Waiting \<and> fi_wg s = 0) (s\<lparr>fi_closer := Closing\<rparr>)"
| "fi_step AutoCloses s = guard (fi_closer s = Closing) ((fi_Close s)\<lparr>fi_closer := ClosedIt\<rparr>)"
| "fi_step CloseIn s = Some (fi_Close s)"

subsection \<open>Definitions: FanOut\<close>

record 'a out_chan =
  oc_joined :: nat
  oc_got :: "'a list"
  oc_closed :: bool

text \<open>The goroutine waits for a value, hands one out (holding the mutex), or has returned.\<close>

datatype 'a fo_routine = Receiving | Handing 'a "nat list" | Returned

record 'a FanOut =
  fo_routine :: "'a fo_routine"
  fo_out :: "nat list"
  fo_chans :: "'a out_chan list"
  fo_seen :: "'a list"

definition NewFanOut :: "'a FanOut" where
  "NewFanOut = \<lparr>fo_routine = Receiving, fo_out = [], fo_chans = [], fo_seen = []\<rparr>"

datatype 'a fo_event =
    Output                  \<comment> \<open>\<open>Output\<close> or \<open>OutputContext\<close>\<close>
  | CloseOut nat            \<comment> \<open>\<open>Close\<close>, also by the goroutine that watches a context\<close>
  | Receive 'a "nat list"   \<comment> \<open>a value is received; the order in which the map is ranged over\<close>
  | HandOver                \<comment> \<open>the pending send to an output channel completes\<close>
  | InputClosed

definition mu_free :: "'a FanOut \<Rightarrow> bool" where
  "mu_free s \<longleftrightarrow> (case fo_routine s of Handing _ _ \<Rightarrow> False | _ \<Rightarrow> True)"

definition fo_OutputContext :: "'a FanOut \<Rightarrow> 'a FanOut" where
  "fo_OutputContext s =
     (let ch = \<lparr>oc_joined = length (fo_seen s), oc_got = [], oc_closed = (fo_routine s = Returned)\<rparr> in
      if fo_routine s = Returned then s\<lparr>fo_chans := fo_chans s @ [ch]\<rparr>
      else s\<lparr>fo_chans := fo_chans s @ [ch], fo_out := fo_out s @ [length (fo_chans s)]\<rparr>)"

definition close_chan :: "nat \<Rightarrow> 'a out_chan list \<Rightarrow> 'a out_chan list" where
  "close_chan c chans = chans[c := (chans ! c)\<lparr>oc_closed := True\<rparr>]"

definition fo_Close :: "nat \<Rightarrow> 'a FanOut \<Rightarrow> 'a FanOut" where
  "fo_Close c s =
     (if c \<in> set (fo_out s) then s\<lparr>fo_out := remove1 c (fo_out s), fo_chans := close_chan c (fo_chans s)\<rparr> else s)"

fun fo_step :: "'a fo_event \<Rightarrow> 'a FanOut \<Rightarrow> 'a FanOut option" where
  "fo_step Output s = guard (mu_free s) (fo_OutputContext s)"
| "fo_step (CloseOut c) s = guard (mu_free s) (fo_Close c s)"
| "fo_step (Receive v order) s =
     guard (fo_routine s = Receiving \<and> mset order = mset (fo_out s))
       (s\<lparr>fo_seen := fo_seen s @ [v], fo_routine := (if order = [] then Receiving else Handing v order)\<rparr>)"
| "fo_step HandOver s =
     (case fo_routine s of
        Handing v (c # cs) \<Rightarrow>
          Some (s\<lparr>fo_chans := (fo_chans s)[c := (fo_chans s ! c)\<lparr>oc_got := oc_got (fo_chans s ! c) @ [v]\<rparr>],
                  fo_routine := (if cs = [] then Receiving else Handing v cs)\<rparr>)
      | _ \<Rightarrow> None)"
| "fo_step InputClosed s =
     guard (fo_routine s = Receiving)
       (s\<lparr>fo_chans := foldl (\<lambda>chans c. close_chan c chans) (fo_chans s) (fo_out s), fo_out := [], fo_routine := Returned\<rparr>)"

subsection \<open>Lemmas: FanIn\<close>

text \<open>What came out of one input, and the value its goroutine holds.\<close>

definition from_input :: "nat \<Rightarrow> (nat \<times> 'a) list \<Rightarrow> 'a list" where
  "from_input i out = map snd (filter (\<lambda>(j, v). j = i) out)"

fun held :: "'a fi_routine \<Rightarrow> 'a list" where
  "held (Offering v) = [v]"
| "held _ = []"

lemma from_input_snoc [simp]: "from_input i (out @ [(j, v)]) = from_input i out @ (if j = i then [v] else [])"
  by (simp add: from_input_def)

definition fi_conserves :: "'a FanIn \<Rightarrow> bool" where
  "fi_conserves s \<longleftrightarrow> length (fi_taken s) = length (fi_routines s) \<and>
     (\<forall>i < length (fi_routines s). fi_taken s ! i = from_input i (fi_out s) @ held (fi_routines s ! i)) \<and>
     (\<forall>iv \<in> set (fi_out s). fst iv < length (fi_routines s)) \<and>
     fi_wg s = length (filter (\<lambda>r. r \<noteq> Finished) (fi_routines s))"

lemma count_update:
  assumes "i < length xs"
  shows "length (filter P (xs[i := y])) + (if P (xs ! i) then 1 else 0) = length (filter P xs) + (if P y then 1 else 0)"
  using assms
proof (induction xs arbitrary: i)
  case (Cons x xs)
  then show ?case by (cases i) auto
qed simp

lemma from_input_fresh: "\<forall>iv \<in> set out. fst iv < n \<Longrightarrow> n \<le> j \<Longrightarrow> from_input j out = []"
  by (fastforce simp: from_input_def filter_empty_conv)

lemma fi_conserves_upd:
  "fi_conserves (s\<lparr>fi_closer := c\<rparr>) = fi_conserves s" "fi_conserves (s\<lparr>fi_closed := b\<rparr>) = fi_conserves s"
  by (simp_all add: fi_conserves_def)

lemma fi_conserves_step: "fi_step e s = Some s' \<Longrightarrow> fi_conserves s \<Longrightarrow> fi_conserves s'"
proof (induction e s rule: fi_step.induct)
  case (1 k s)
  then show ?case
    by (auto simp: fi_conserves_def fi_Input_def nth_append from_input_fresh split: if_splits) fastforce+
next
  case (2 i v s)
  then show ?case using count_update [of i "fi_routines s" "\<lambda>r. r \<noteq> Finished" "Offering v"]
    by (auto simp: fi_conserves_def nth_list_update)
next
  case (3 i s)
  then show ?case using count_update [of i "fi_routines s" "\<lambda>r. r \<noteq> Finished" Finished]
    by (auto simp: fi_conserves_def nth_list_update)
next
  case (4 i s)
  then show ?case using count_update [of i "fi_routines s" "\<lambda>r. r \<noteq> Finished" Ranging]
    by (auto simp: fi_conserves_def nth_list_update split: if_splits fi_routine.splits) force+
qed (auto simp: fi_conserves_upd fi_Close_def split: if_splits)

interpretation fan_in: machine fi_step fi_conserves
  by unfold_locales (rule fi_conserves_step)

text \<open>
  The protocol the comments of \<open>Input\<close> and \<open>AutoClose\<close> ask for: the output is closed by
  \<open>AutoClose\<close> only, and no input is added after it was called.
\<close>

definition fi_protocol :: "'a fi_event \<Rightarrow> 'a FanIn \<Rightarrow> bool" where
  "fi_protocol e s = (case e of CloseIn \<Rightarrow> False | Input k \<Rightarrow> fi_closer s = NotCalled | _ \<Rightarrow> True)"

definition fi_protocol_step :: "'a fi_event \<Rightarrow> 'a FanIn \<Rightarrow> 'a FanIn option" where
  "fi_protocol_step e s = (if fi_protocol e s then fi_step e s else None)"

definition fi_safe :: "'a FanIn \<Rightarrow> bool" where
  "fi_safe s \<longleftrightarrow> fi_conserves s \<and> \<not> fi_panicked s \<and> (fi_closed s \<longleftrightarrow> fi_closer s = ClosedIt) \<and>
     (fi_closer s = Closing \<or> fi_closer s = ClosedIt \<longrightarrow> (\<forall>r \<in> set (fi_routines s). r = Finished))"

lemma fi_safe_step: "fi_protocol_step e s = Some s' \<Longrightarrow> fi_safe s \<Longrightarrow> fi_safe s'"
proof -
  assume st: "fi_protocol_step e s = Some s'" and safe: "fi_safe s"
  have st': "fi_step e s = Some s'" and p: "fi_protocol e s" using st by (simp_all add: fi_protocol_step_def split: if_splits)
  have cons: "fi_conserves s'" using fi_conserves_step [OF st'] safe by (simp add: fi_safe_def)
  have wg: "fi_wg s = 0 \<Longrightarrow> (\<forall>r \<in> set (fi_routines s). r = Finished)"
    using safe by (auto simp: fi_safe_def fi_conserves_def filter_empty_conv)
  have fin: "fi_closer s \<noteq> Closing \<and> fi_closer s \<noteq> ClosedIt" if "i < length (fi_routines s)" "fi_routines s ! i \<noteq> Finished" for i
    using safe that nth_mem unfolding fi_safe_def by blast
  show ?thesis
  proof (cases e)
    case (Send i)
    with st' obtain v where i: "i < length (fi_routines s)" "fi_routines s ! i = Offering v"
      by (auto split: if_splits fi_routine.splits)
    with st' Send safe fin [of i] cons show ?thesis by (auto simp: fi_safe_def)
  next
    case WaitReturns
    with st' safe wg cons show ?thesis by (auto simp: fi_safe_def)
  next
    case (Take i v)
    with st' safe fin [of i] cons show ?thesis by (auto simp: fi_safe_def)
  next
    case (InputEnds i)
    with st' safe fin [of i] cons show ?thesis by (auto simp: fi_safe_def)
  next
    case (Input k)
    with st' safe p cons show ?thesis by (auto simp: fi_safe_def fi_Input_def fi_protocol_def split: if_splits)
  next
    case AutoClose
    with st' safe cons show ?thesis by (auto simp: fi_safe_def split: if_splits)
  next
    case AutoCloses
    with st' safe cons show ?thesis by (auto simp: fi_safe_def fi_Close_def)
  qed (use p in \<open>simp add: fi_protocol_def\<close>)
qed

interpretation fan_in_protocol: machine fi_protocol_step fi_safe
  by unfold_locales (rule fi_safe_step)

subsection \<open>Lemmas: FanOut\<close>

text \<open>
  Every open channel has got all values since it was made, up to the one that is just being handed
  out; a closed one has got the first of them.
\<close>

definition fo_todo :: "'a FanOut \<Rightarrow> nat list" where
  "fo_todo s = (case fo_routine s of Handing v cs \<Rightarrow> cs | _ \<Rightarrow> [])"

definition fo_current :: "'a FanOut \<Rightarrow> 'a list" where
  "fo_current s = (case fo_routine s of Handing v cs \<Rightarrow> [v] | _ \<Rightarrow> [])"

definition chan_ok :: "'a FanOut \<Rightarrow> nat \<Rightarrow> bool" where
  "chan_ok s c \<longleftrightarrow> (let ch = fo_chans s ! c in
     oc_joined ch \<le> length (fo_seen s) \<and> oc_closed ch = (c \<notin> set (fo_out s)) \<and>
     (if oc_closed ch then prefix (oc_got ch) (drop (oc_joined ch) (fo_seen s))
      else oc_got ch @ (if c \<in> set (fo_todo s) then fo_current s else []) = drop (oc_joined ch) (fo_seen s)))"

definition fo_inv :: "'a FanOut \<Rightarrow> bool" where
  "fo_inv s \<longleftrightarrow> distinct (fo_out s) \<and> (\<forall>c \<in> set (fo_out s). c < length (fo_chans s)) \<and>
     distinct (fo_todo s) \<and> set (fo_todo s) \<subseteq> set (fo_out s) \<and> (\<forall>v. fo_routine s \<noteq> Handing v []) \<and>
     (fo_routine s = Returned \<longrightarrow> fo_out s = []) \<and> (\<forall>c < length (fo_chans s). chan_ok s c)"

lemma length_close_all: "length (foldl (\<lambda>chans c. close_chan c chans) chans cs) = length chans"
  by (induction cs arbitrary: chans) (simp_all add: close_chan_def)

lemma nth_close_all:
  "c < length chans \<Longrightarrow> foldl (\<lambda>chans c. close_chan c chans) chans cs ! c =
      (if c \<in> set cs then (chans ! c)\<lparr>oc_closed := True\<rparr> else chans ! c)"
proof (induction cs arbitrary: chans)
  case (Cons d ds)
  then show ?case using Cons.IH [of "close_chan d chans"]
    by (cases "d = c") (simp_all add: close_chan_def)
qed simp

lemma fo_handing: "fo_routine s = Handing v cs \<Longrightarrow> fo_todo s = cs \<and> fo_current s = [v]"
  "fo_routine s = Receiving \<Longrightarrow> fo_todo s = [] \<and> fo_current s = []"
  "fo_routine s = Returned \<Longrightarrow> fo_todo s = [] \<and> fo_current s = []"
  by (simp_all add: fo_todo_def fo_current_def)

lemma mu_free_idle: "mu_free s \<Longrightarrow> fo_routine s = Receiving \<or> fo_routine s = Returned"
  by (auto simp: mu_free_def split: fo_routine.splits)

lemma fo_inv_step: "fo_step e s = Some s' \<Longrightarrow> fo_inv s \<Longrightarrow> fo_inv s'"
proof (cases e)
  case Output
  assume st: "fo_step e s = Some s'" and inv: "fo_inv s"
  have s': "s' = fo_OutputContext s" and mu: "mu_free s" using st Output by simp_all
  have old: "chan_ok s c \<Longrightarrow> c < length (fo_chans s) \<Longrightarrow> chan_ok s' c" for c
    using mu_free_idle [OF mu] by (elim disjE) (auto simp: s' chan_ok_def fo_OutputContext_def Let_def nth_append fo_todo_def fo_current_def)
  have new: "chan_ok s' (length (fo_chans s))"
    using inv by (auto simp: s' chan_ok_def fo_OutputContext_def Let_def nth_append fo_inv_def fo_handing)
      (use mu_free_idle [OF mu] fo_handing in \<open>auto simp: fo_todo_def\<close>)
  show ?thesis using inv old new mu_free_idle [OF mu]
    by (auto simp: s' fo_inv_def fo_OutputContext_def Let_def fo_todo_def less_Suc_eq)
next
  case (CloseOut c)
  assume st: "fo_step e s = Some s'" and inv: "fo_inv s"
  have s': "s' = fo_Close c s" and mu: "mu_free s" using st CloseOut by simp_all
  have idle: "fo_todo s = []" using mu_free_idle [OF mu] fo_handing by blast
  show ?thesis
  proof (cases "c \<in> set (fo_out s)")
    case True
    have "chan_ok s' d" if "d < length (fo_chans s)" for d
      using inv True that idle
      by (auto simp: s' fo_inv_def chan_ok_def fo_Close_def close_chan_def nth_list_update Let_def fo_todo_def)
    then show ?thesis using inv True mu_free_idle [OF mu]
      by (auto simp: s' fo_inv_def fo_Close_def close_chan_def fo_todo_def dest: notin_set_remove1)
  qed (use s' inv in \<open>simp add: fo_Close_def\<close>)
next
  case (Receive v order)
  assume st: "fo_step e s = Some s'" and inv: "fo_inv s"
  have r: "fo_routine s = Receiving" "mset order = mset (fo_out s)"
    and s': "s' = s\<lparr>fo_seen := fo_seen s @ [v], fo_routine := (if order = [] then Receiving else Handing v order)\<rparr>"
    using st Receive by simp_all
  have o: "set order = set (fo_out s)" "distinct order" using r(2) inv
    by (metis set_mset_mset, metis fo_inv_def mset_eq_imp_distinct_iff)
  have "chan_ok s' c" if "c < length (fo_chans s)" for c
  proof -
    have "chan_ok s c" using inv that by (simp add: fo_inv_def)
    then show ?thesis using o(1) r(1)
      by (auto simp: s' chan_ok_def Let_def fo_todo_def fo_current_def)
  qed
  then show ?thesis using inv o by (auto simp: s' fo_inv_def fo_todo_def)
next
  case HandOver
  assume st: "fo_step e s = Some s'" and inv: "fo_inv s"
  obtain v c cs where h: "fo_routine s = Handing v (c # cs)"
    using st HandOver by (auto split: fo_routine.splits list.splits)
  have s': "s' = s\<lparr>fo_chans := (fo_chans s)[c := (fo_chans s ! c)\<lparr>oc_got := oc_got (fo_chans s ! c) @ [v]\<rparr>],
      fo_routine := (if cs = [] then Receiving else Handing v cs)\<rparr>" using st HandOver h by simp
  have c: "c \<in> set (fo_out s)" "c \<notin> set cs" "distinct cs" "set cs \<subseteq> set (fo_out s)" using inv h by (auto simp: fo_inv_def fo_todo_def)
  have "chan_ok s' d" if "d < length (fo_chans s)" for d
  proof -
    have "chan_ok s d" using inv that by (simp add: fo_inv_def)
    moreover have "fo_todo s' = cs" "cs \<noteq> [] \<Longrightarrow> fo_current s' = [v]" by (simp_all add: s' fo_todo_def fo_current_def)
    moreover have "fo_chans s' ! d = (if d = c then (fo_chans s ! c)\<lparr>oc_got := oc_got (fo_chans s ! c) @ [v]\<rparr> else fo_chans s ! d)"
      "fo_out s' = fo_out s" "fo_seen s' = fo_seen s" using that by (simp_all add: s')
    ultimately show ?thesis using c(1,2) fo_handing(1) [OF h]
      by (cases "d = c"; cases "cs = []"; cases "d \<in> set (fo_out s)") (auto simp: chan_ok_def Let_def)
  qed
  then show ?thesis using inv c by (auto simp: s' fo_inv_def fo_todo_def)
next
  case InputClosed
  assume st: "fo_step e s = Some s'" and inv: "fo_inv s"
  have r: "fo_routine s = Receiving"
    and s': "s' = s\<lparr>fo_chans := foldl (\<lambda>chans c. close_chan c chans) (fo_chans s) (fo_out s), fo_out := [], fo_routine := Returned\<rparr>"
    using st InputClosed by simp_all
  have d: "distinct (fo_out s)" "\<forall>c \<in> set (fo_out s). c < length (fo_chans s)" using inv by (simp_all add: fo_inv_def)
  have "chan_ok s' c" if "c < length (fo_chans s)" for c
  proof -
    have "chan_ok s c" using inv that by (simp add: fo_inv_def)
    then show ?thesis using r that nth_close_all [OF that]
      by (auto simp: s' chan_ok_def Let_def fo_todo_def)
  qed
  then show ?thesis by (auto simp: s' fo_inv_def fo_todo_def length_close_all)
qed

interpretation fan_out: machine fo_step fo_inv
  by unfold_locales (rule fo_inv_step)

subsection \<open>Properties\<close>

text \<open>
  C7: With any number of inputs and any interleaving that follows the protocol (the output is
  closed by \<open>AutoClose\<close> and no input is added after that call), nothing panics; from every input
  the output has got a prefix of the values in their order; and when the output is closed it has
  got all of them and every input has ended.
\<close>

theorem fan_in_delivers_everything:
  assumes "run fi_protocol_step evs NewFanIn = Some s" "i < length (fi_routines s)"
  shows "\<not> fi_panicked s \<and> prefix (from_input i (fi_out s)) (fi_taken s ! i) \<and>
    (if fi_closed s then from_input i (fi_out s) = fi_taken s ! i \<and> fi_routines s ! i = Finished else True)"
proof -
  have "fi_safe NewFanIn" by (simp add: fi_safe_def NewFanIn_def fi_conserves_def)
  then have "fi_safe s" using fan_in_protocol.inv_run assms(1) by blast
  moreover from this have "fi_closed s \<longrightarrow> fi_routines s ! i = Finished" using assms(2) nth_mem unfolding fi_safe_def by blast
  moreover have "fi_taken s ! i = from_input i (fi_out s) @ held (fi_routines s ! i)" using calculation assms(2)
    by (simp add: fi_safe_def fi_conserves_def)
  ultimately show ?thesis by (auto simp: fi_safe_def)
qed

theorem fan_in_delivers_everything_witness:
  "\<exists>s. run fi_protocol_step [Input 2, Take 0 ''a'', AutoClose, Take 1 ''x'', Send 1, Send 0, InputEnds 1, Take 0 ''b'',
      Send 0, InputEnds 0, WaitReturns, AutoCloses] NewFanIn = Some s \<and>
     fi_closed s \<and> from_input 0 (fi_out s) = [''a'', ''b'']"
proof -
  let ?evs = "[Input 2, Take 0 ''a'', AutoClose, Take 1 ''x'', Send 1, Send 0, InputEnds 1, Take 0 ''b'',
      Send 0, InputEnds 0, WaitReturns, AutoCloses]"
  obtain s where s: "run fi_protocol_step ?evs NewFanIn = Some s" "fi_closed s" "0 < length (fi_routines s)" "fi_taken s ! 0 = [''a'', ''b'']"
    by (simp add: fi_protocol_step_def fi_protocol_def NewFanIn_def fi_Input_def fi_Close_def guard_def numeral_2_eq_2)
  with fan_in_delivers_everything [OF s(1,3)] show ?thesis by auto
qed



text \<open>
  Without the protocol the goroutine of \<open>AutoClose\<close> can close the output between the last
  \<open>Done\<close> and the send of an input that was added meanwhile.
\<close>

lemma input_after_AutoClose_panics:
  "\<exists>s. run fi_step [Input 1, AutoClose, InputEnds 0, WaitReturns, Input 1, Take 1 ''a'', AutoCloses, Send 1] NewFanIn = Some s \<and> fi_panicked s"
  by (simp add: NewFanIn_def fi_Input_def fi_Close_def guard_def)

text \<open>
  While a value is handed out the mutex is held: a channel whose consumer has stopped receiving can
  be closed neither by \<open>Close\<close> nor by its context, and blocks every other output.
\<close>

lemma slow_consumer_blocks_everything:
  "fo_routine s = Handing v (c # cs) \<Longrightarrow> fo_step e s = Some s' \<Longrightarrow> e = HandOver"
  by (cases e) (auto simp: mu_free_def)

end
