(* ===== verification/Metrics_Window.thy ===== *)
theory Metrics_Window
  imports Calendar
begin

text \<open>
  The time windows of the metrics logger (\<open>src/log/metrics/log.go\<close>): \<open>metricAggregated\<close> keeps
  one slot per minute and aggregates the points of a slot as they arrive, and the slots when the
  metric is read. Times are as in \<open>Calendar\<close>. The values are \<open>float64\<close> in the code; here they
  are of any type with the operations the code uses, and the properties say which laws they need
  (exact addition, a linear order), so they are about runs without rounding and NaN.

  An abstract window is a list of slots with the points each was computed from (\<open>slot_rel\<close>).
\<close>

subsection \<open>Definitions\<close>

datatype Aggregate = AggReplace | AggIgnore | AggSum | AggMax | AggMin | AggOther

definition aggregate :: "Aggregate \<Rightarrow> 'v \<Rightarrow> 'v \<Rightarrow> 'v :: {ord, plus}" where
  "aggregate agg a b =
     (case agg of
        AggReplace \<Rightarrow> b
      | AggIgnore \<Rightarrow> a
      | AggSum \<Rightarrow> a + b
      | AggMax \<Rightarrow> (if a > b then a else b)
      | AggMin \<Rightarrow> (if a < b then a else b)
      | AggOther \<Rightarrow> b)"

record 'v metricPoint =
  mp_value :: 'v
  mp_time :: Time

record 'v metricAggregated =
  ma_values :: "'v metricPoint list"
  ma_aggregate :: Aggregate
  ma_window :: nat

definition zero_point :: "'v :: zero metricPoint" where
  "zero_point = \<lparr>mp_value = 0, mp_time = 0\<rparr>"

text \<open>\<open>int64\<close> wrap-around, \<open>Time.Unix\<close>, and the start of the window.\<close>

definition wrap64 :: "int \<Rightarrow> int" where
  "wrap64 x = (x + 2 ^ 63) mod 2 ^ 64 - 2 ^ 63"

definition unix_epoch :: Time where
  "unix_epoch = 62135596800 * Second"

definition Unix :: "Time \<Rightarrow> int" where
  "Unix t = (t - unix_epoch) div Second"

definition window_start :: "nat \<Rightarrow> Time \<Rightarrow> Time" where
  "window_start w now = now + wrap64 (wrap64 (- int w) * Minute)"

definition ma_add :: "Time \<Rightarrow> 'v metricPoint \<Rightarrow> 'v metricAggregated \<Rightarrow> 'v :: {ord, plus, zero} metricAggregated go" where
  "ma_add now mp m =
     (if ma_window m = 0 then Ret (m\<lparr>ma_values := [mp]\<rparr>)
      else
        let vs = (if length (ma_values m) \<noteq> ma_window m then replicate (ma_window m) zero_point else ma_values m);
            s = TRem (Quo (Unix (mp_time mp)) 60) (int (ma_window m));
            t = window_start (ma_window m) now in
        if mp_time mp < t then Ret (m\<lparr>ma_values := vs\<rparr>)
        else if s < 0 then Panic ''index out of range''
        else
          let v = vs ! nat s in
          if mp_time v < t then Ret (m\<lparr>ma_values := vs[nat s := mp]\<rparr>)
          else
            let time = (if mp_time v < mp_time mp then mp_time mp else mp_time v);
                value = aggregate (ma_aggregate m) (mp_value v) (mp_value mp) in
            Ret (m\<lparr>ma_values := vs[nat s := \<lparr>mp_value = value, mp_time = time\<rparr>]\<rparr>))"

fun get_loop :: "Aggregate \<Rightarrow> Time \<Rightarrow> 'v metricPoint \<Rightarrow> 'v metricPoint list \<Rightarrow> 'v :: {ord, plus} metricPoint" where
  "get_loop agg t mp [] = mp"
| "get_loop agg t mp (v # vs) =
     (if mp_time v < t then get_loop agg t mp vs
      else if mp_time mp = 0 then get_loop agg t v vs
      else get_loop agg t
        \<lparr>mp_value = aggregate agg (mp_value mp) (mp_value v),
         mp_time = (if mp_time v > mp_time mp then mp_time v else mp_time mp)\<rparr> vs)"

definition ma_get :: "Time \<Rightarrow> 'v metricAggregated \<Rightarrow> 'v :: {ord, plus, zero} metricPoint" where
  "ma_get now m =
     (if length (ma_values m) = 0 then zero_point
      else if ma_window m = 0 then ma_values m ! 0
      else get_loop (ma_aggregate m) (window_start (ma_window m) now) zero_point (rev (ma_values m)))"

subsection \<open>Lemmas: slots and the points in them\<close>

fun fold1 :: "('v \<Rightarrow> 'v \<Rightarrow> 'v) \<Rightarrow> 'v list \<Rightarrow> 'v" where
  "fold1 f (x # xs) = foldl f x xs"

definition slot_rel :: "('v \<Rightarrow> 'v \<Rightarrow> 'v) \<Rightarrow> 'v :: zero metricPoint \<Rightarrow> 'v metricPoint list \<Rightarrow> bool" where
  "slot_rel f v ps \<longleftrightarrow>
     (if ps = [] then v = zero_point
      else mp_value v = fold1 f (map mp_value ps) \<and> mp_time v = Max (mp_time ` set ps))"

lemma slot_rel_nonempty:
  "ps \<noteq> [] \<Longrightarrow> slot_rel f v ps \<longleftrightarrow> mp_value v = fold1 f (map mp_value ps) \<and> mp_time v = Max (mp_time ` set ps)"
  by (simp add: slot_rel_def)

lemma slot_rel_snoc:
  assumes "slot_rel f v ps" "ps \<noteq> []"
  shows "slot_rel f \<lparr>mp_value = f (mp_value v) (mp_value p), mp_time = (if mp_time v < mp_time p then mp_time p else mp_time v)\<rparr> (ps @ [p])"
proof -
  have v: "mp_value v = fold1 f (map mp_value ps)" "Max (mp_time ` set ps) = mp_time v"
    using assms by (simp_all add: slot_rel_nonempty)
  have "Max (mp_time ` set (ps @ [p])) = max (mp_time v) (mp_time p)" using assms(2) v(2) by (simp add: max.commute)
  moreover have "fold1 f (map mp_value (ps @ [p])) = f (mp_value v) (mp_value p)" using assms(2) v(1) by (cases ps) simp_all
  moreover have "ps @ [p] \<noteq> []" by simp
  ultimately show ?thesis unfolding slot_rel_nonempty [OF \<open>ps @ [p] \<noteq> []\<close>] by (simp add: max_def)
qed

text \<open>The fold of an associative operation over two lists.\<close>

locale window_fold =
  fixes agg :: Aggregate and f :: "'v :: {ord, plus, zero} \<Rightarrow> 'v \<Rightarrow> 'v"
  assumes aggregate_fold: "aggregate agg a b = f a b" and assoc: "f (f a b) c = f a (f b c)"
begin

lemma foldl_assoc: "f a (foldl f b xs) = foldl f (f a b) xs"
  by (induction xs arbitrary: b) (simp_all add: assoc)

lemma fold1_append: "xs \<noteq> [] \<Longrightarrow> ys \<noteq> [] \<Longrightarrow> fold1 f (xs @ ys) = f (fold1 f xs) (fold1 f ys)"
  by (cases xs; cases ys) (simp_all add: foldl_assoc)

lemma slot_rel_append:
  assumes "slot_rel f v ps" "ps \<noteq> []" "slot_rel f w qs" "qs \<noteq> []"
  shows "slot_rel f \<lparr>mp_value = aggregate agg (mp_value v) (mp_value w), mp_time = (if mp_time w > mp_time v then mp_time w else mp_time v)\<rparr> (ps @ qs)"
proof -
  have v: "mp_value v = fold1 f (map mp_value ps)" "Max (mp_time ` set ps) = mp_time v"
    and w: "mp_value w = fold1 f (map mp_value qs)" "Max (mp_time ` set qs) = mp_time w"
    using assms by (simp_all add: slot_rel_nonempty)
  have "Max (mp_time ` set (ps @ qs)) = max (mp_time v) (mp_time w)"
    using assms(2,4) v(2) w(2) by (simp add: image_Un Max_Un)
  moreover have "fold1 f (map mp_value (ps @ qs)) = aggregate agg (mp_value v) (mp_value w)"
    using assms(2,4) by (simp add: fold1_append aggregate_fold v(1) w(1))
  moreover have "ps @ qs \<noteq> []" using assms(2) by simp
  ultimately show ?thesis unfolding slot_rel_nonempty [OF \<open>ps @ qs \<noteq> []\<close>] by (simp add: max_def)
qed

text \<open>The points of the slots that are not expired at \<open>t\<close>.\<close>

definition alive :: "Time \<Rightarrow> 'v metricPoint list \<Rightarrow> bool" where
  "alive t ps \<longleftrightarrow> ps \<noteq> [] \<and> t \<le> Max (mp_time ` set ps)"

lemma get_loop_rel:
  "list_all2 (slot_rel f) vs S \<Longrightarrow> 0 < t \<Longrightarrow> slot_rel f acc A \<Longrightarrow> (A \<noteq> [] \<Longrightarrow> t \<le> mp_time acc) \<Longrightarrow>
   slot_rel f (get_loop agg t acc vs) (A @ concat (filter (alive t) S))"
proof (induction vs S arbitrary: acc A rule: list_all2_induct)
  case (Cons v vs ps S)
  show ?case
  proof (cases "mp_time v < t")
    case True
    have "\<not> alive t ps" using True Cons.hyps(1) by (metis alive_def slot_rel_nonempty not_le)
    with Cons True show ?thesis by simp
  next
    case False
    have ne: "ps \<noteq> []" using False Cons.hyps(1) Cons.prems(1) by (auto simp: slot_rel_def zero_point_def split: if_splits)
    have al: "alive t ps" using False ne Cons.hyps(1) by (metis alive_def slot_rel_nonempty not_le)
    show ?thesis
    proof (cases "A = []")
      case True
      then have "mp_time acc = 0" using Cons.prems(2) by (simp add: slot_rel_def zero_point_def)
      then show ?thesis using Cons.IH [OF Cons.prems(1) Cons.hyps(1)] False al True by simp
    next
      case A: False
      then have t: "mp_time acc \<noteq> 0" "t \<le> mp_time acc" using Cons.prems(1,3) by auto
      note rel = slot_rel_append [OF Cons.prems(2) A Cons.hyps(1) ne]
      show ?thesis using Cons.IH [OF Cons.prems(1) rel] False al t by simp
    qed
  qed
qed simp

lemma alive_points: "filter_mset (\<lambda>p. t \<le> mp_time p) (mset (concat S)) \<subseteq># mset (concat (filter (alive t) S))"
proof (induction S)
  case (Cons ps S)
  show ?case
  proof (cases "alive t ps")
    case True
    then show ?thesis using Cons by (simp add: subset_mset.add_mono)
  next
    case False
    have "\<not> t \<le> mp_time p" if p: "p \<in> set ps" for p
    proof
      assume "t \<le> mp_time p"
      also have "mp_time p \<le> Max (mp_time ` set ps)" using p by simp
      finally show False using p False unfolding alive_def by auto
    qed
    then have "filter_mset (\<lambda>p. t \<le> mp_time p) (mset ps) = {#}" by simp
    then have eq: "filter_mset (\<lambda>p. t \<le> mp_time p) (mset (concat (ps # S))) = filter_mset (\<lambda>p. t \<le> mp_time p) (mset (concat S))"
      by (simp del: filter_mset_eq_mempty_iff)
    show ?thesis unfolding eq using Cons.IH False by simp
  qed
qed simp

lemma alive_subset: "mset (concat (filter (alive t) S)) \<subseteq># mset (concat S)"
  by (induction S) (auto simp: subset_mset.add_increasing subset_mset.add_mono)

end

lemma concat_update:
  "i < length S \<Longrightarrow> mset (concat (S[i := x])) + mset (S ! i) = mset (concat S) + mset x"
proof (induction S arbitrary: i)
  case (Cons y S)
  then show ?case by (cases i) (auto simp: ac_simps)
qed simp

lemma wrap64_id: "- (2 ^ 63) \<le> x \<Longrightarrow> x < 2 ^ 63 \<Longrightarrow> wrap64 x = x"
  by (simp add: wrap64_def)

text \<open>Windows up to \<open>2 ^ 27\<close> minutes (255 years) are computed without overflow.\<close>

lemma window_start_eq: "w < 2 ^ 27 \<Longrightarrow> window_start w now = now - int w * Minute"
  by (simp add: window_start_def wrap64_id units)

lemma window_start_pos: "w < 2 ^ 27 \<Longrightarrow> unix_epoch \<le> now \<Longrightarrow> 0 < window_start w now"
  by (simp add: window_start_eq unix_epoch_def units)

lemma window_start_mono: "now \<le> now' \<Longrightarrow> window_start w now \<le> window_start w now'"
  by (simp add: window_start_def)

lemma slot_index:
  assumes "unix_epoch \<le> t" "0 < w"
  shows "0 \<le> TRem (Quo (Unix t) 60) (int w) \<and> nat (TRem (Quo (Unix t) 60) (int w)) < w"
proof -
  have "0 \<le> Unix t" using assms(1) by (simp add: Unix_def pos_imp_zdiv_nonneg_iff units)
  then have "0 \<le> Quo (Unix t) 60" by (simp add: Quo_nonneg)
  then show ?thesis using assms(2) by (simp add: TRem_nonneg nat_less_iff)
qed

subsection \<open>Lemmas: runs\<close>

text \<open>Points with the times they are added at, as \<open>collect\<close> adds them.\<close>

fun add_all :: "(Time \<times> 'v metricPoint) list \<Rightarrow> 'v metricAggregated \<Rightarrow> 'v :: {ord, plus, zero} metricAggregated go" where
  "add_all [] m = Ret m"
| "add_all ((now, mp) # h) m = go_bind (ma_add now mp m) (add_all h)"

text \<open>The clock does not go back, and points are not from the future or from before 1970.\<close>

definition history_ok :: "(Time \<times> 'v metricPoint) list \<Rightarrow> bool" where
  "history_ok h \<longleftrightarrow> sorted (map fst h) \<and> (\<forall>(now, mp) \<in> set h. mp_time mp \<le> now \<and> unix_epoch \<le> mp_time mp)"

context window_fold
begin

text \<open>
  After the points \<open>P\<close>, the last one at \<open>cur\<close>: the slots hold each of them at most once, and
  all that are not older than the window.
\<close>

definition window_inv :: "nat \<Rightarrow> Time \<Rightarrow> 'v metricPoint multiset \<Rightarrow> 'v metricAggregated \<Rightarrow> bool" where
  "window_inv w cur P m \<longleftrightarrow> ma_window m = w \<and> ma_aggregate m = agg \<and>
     (\<exists>S. list_all2 (slot_rel f) (ma_values m) S \<and> (length S = w \<or> S = [] \<and> P = {#}) \<and>
        mset (concat S) \<subseteq># P \<and> filter_mset (\<lambda>p. window_start w cur \<le> mp_time p) P \<subseteq># mset (concat S))"

lemma list_rel_update:
  assumes "list_all2 (slot_rel f) vs S" "slot_rel f v ps"
  shows "list_all2 (slot_rel f) (vs[i := v]) (S[i := ps])"
  using assms by (rule list_all2_update_cong)

lemma add_step:
  assumes inv: "window_inv w cur P m" and w: "0 < w" "w < 2 ^ 27"
    and tm: "cur \<le> now" "mp_time mp \<le> now" "unix_epoch \<le> mp_time mp"
  shows "\<exists>m'. ma_add now mp m = Ret m' \<and> window_inv w now (P + {#mp#}) m'"
proof -
  obtain S where m: "ma_window m = w" "ma_aggregate m = agg" "list_all2 (slot_rel f) (ma_values m) S"
    "length S = w \<or> S = [] \<and> P = {#}" "mset (concat S) \<subseteq># P"
    "filter_mset (\<lambda>p. window_start w cur \<le> mp_time p) P \<subseteq># mset (concat S)"
    using inv by (auto simp: window_inv_def)
  define vs where "vs = (if length (ma_values m) \<noteq> w then replicate w zero_point else ma_values m)"
  define S0 where "S0 = (if length S \<noteq> w then replicate w [] else S)"
  define t where "t = window_start w now"
  have len: "length (ma_values m) = length S" by (rule list_all2_lengthD [OF m(3)])
  have rel: "list_all2 (slot_rel f) vs S0"
    using m(3) len by (auto simp: vs_def S0_def list_all2_conv_all_nth slot_rel_def)
  have S0: "length S0 = w" "mset (concat S0) = mset (concat S)" using m(4) by (auto simp: S0_def)
  have in_win: "filter_mset (\<lambda>p. t \<le> mp_time p) P \<subseteq># filter_mset (\<lambda>p. t \<le> mp_time p) (mset (concat S0))"
  proof -
    have "window_start w cur \<le> t" unfolding t_def by (rule window_start_mono [OF tm(1)])
    then have "filter_mset (\<lambda>p. t \<le> mp_time p) P = filter_mset (\<lambda>p. t \<le> mp_time p) (filter_mset (\<lambda>p. window_start w cur \<le> mp_time p) P)"
      by (auto simp: filter_filter_mset intro: filter_mset_cong)
    then show ?thesis using m(6) S0(2) by (simp add: multiset_filter_mono)
  qed
  have t0: "0 < t" unfolding t_def using w(2) tm(2,3) by (intro window_start_pos) auto
  define s where "s = TRem (Quo (Unix (mp_time mp)) 60) (int w)"
  have s: "0 \<le> s" "nat s < w" using slot_index [OF tm(3) w(1)] by (simp_all add: s_def)
  define v where "v = vs ! nat s"
  have vS: "slot_rel f v (S0 ! nat s)" using rel s S0(1) unfolding v_def by (simp add: list_all2_conv_all_nth)
  have add: "ma_add now mp m =
    (if mp_time mp < t then Ret (m\<lparr>ma_values := vs\<rparr>)
     else if mp_time v < t then Ret (m\<lparr>ma_values := vs[nat s := mp]\<rparr>)
     else Ret (m\<lparr>ma_values := vs[nat s := \<lparr>mp_value = aggregate agg (mp_value v) (mp_value mp),
       mp_time = (if mp_time v < mp_time mp then mp_time mp else mp_time v)\<rparr>]\<rparr>))"
    using w s(1) m(1,2) unfolding ma_add_def s_def v_def vs_def t_def by (simp add: Let_def)
  have finish: ?thesis if "ma_add now mp m = Ret (m\<lparr>ma_values := us\<rparr>)" "list_all2 (slot_rel f) us T" "length T = w"
      "mset (concat T) \<subseteq># P + {#mp#}" "filter_mset (\<lambda>p. t \<le> mp_time p) (P + {#mp#}) \<subseteq># mset (concat T)" for us T
    using that m(1,2) unfolding window_inv_def t_def by (intro exI [of _ "m\<lparr>ma_values := us\<rparr>"]) auto
  have sub: "mset (concat S0) \<subseteq># P" using m(5) S0(2) by simp
  consider (old) "mp_time mp < t" | (expired) "\<not> mp_time mp < t" "mp_time v < t" | (merge) "\<not> mp_time mp < t" "\<not> mp_time v < t" by blast
  then show ?thesis
  proof cases
    case old
    show ?thesis
    proof (rule finish [OF _ rel S0(1)])
      show "mset (concat S0) \<subseteq># P + {#mp#}" using sub mset_subset_eq_add_left subset_mset.order_trans by blast
      show "filter_mset (\<lambda>p. t \<le> mp_time p) (P + {#mp#}) \<subseteq># mset (concat S0)"
        using old in_win multiset_filter_subset subset_mset.order_trans by fastforce
    qed (use add old in simp)
  next
    case expired
    have upd: "mset (concat (S0[nat s := [mp]])) + mset (S0 ! nat s) = mset (concat S0) + {#mp#}"
      using concat_update [of "nat s" S0 "[mp]"] s(2) S0(1) by simp
    have dead: "filter_mset (\<lambda>p. t \<le> mp_time p) (mset (S0 ! nat s)) = {#}"
    proof -
      have "mp_time p < t" if "p \<in> set (S0 ! nat s)" for p
      proof -
        have "mp_time p \<le> Max (mp_time ` set (S0 ! nat s))" using that by simp
        also have "S0 ! nat s \<noteq> []" using that by auto
        then have "Max (mp_time ` set (S0 ! nat s)) = mp_time v" using vS slot_rel_nonempty by metis
        finally show ?thesis using expired(2) by simp
      qed
      then show ?thesis by (auto simp: not_le)
    qed
    show ?thesis
    proof (rule finish [OF _ list_rel_update [OF rel]])
      show "slot_rel f mp [mp]" by (simp add: slot_rel_def)
      show "mset (concat (S0[nat s := [mp]])) \<subseteq># P + {#mp#}"
      proof -
        have "mset (concat (S0[nat s := [mp]])) \<subseteq># mset (concat S0) + {#mp#}"
          unfolding upd [symmetric] by (rule mset_subset_eq_add_left)
        also have "\<dots> \<subseteq># P + {#mp#}" using sub by simp
        finally show ?thesis .
      qed
      have "filter_mset (\<lambda>p. t \<le> mp_time p) (P + {#mp#}) \<subseteq># filter_mset (\<lambda>p. t \<le> mp_time p) (mset (concat S0) + {#mp#})"
        using in_win by simp
      also have "\<dots> = filter_mset (\<lambda>p. t \<le> mp_time p) (mset (concat (S0[nat s := [mp]])))" unfolding upd [symmetric] using dead by simp
      also have "\<dots> \<subseteq># mset (concat (S0[nat s := [mp]]))" by (rule multiset_filter_subset)
      finally show "filter_mset (\<lambda>p. t \<le> mp_time p) (P + {#mp#}) \<subseteq># mset (concat (S0[nat s := [mp]]))" .
    qed (use add expired S0(1) in simp_all)
  next
    case merge
    have ne: "S0 ! nat s \<noteq> []" using merge(2) t0 vS by (auto simp: slot_rel_def zero_point_def split: if_splits)
    have upd: "mset (concat (S0[nat s := S0 ! nat s @ [mp]])) = mset (concat S0) + {#mp#}"
      using concat_update [of "nat s" S0 "S0 ! nat s @ [mp]"] s(2) S0(1) by simp
    show ?thesis
    proof (rule finish [OF _ list_rel_update [OF rel slot_rel_snoc [OF vS ne, of mp]]])
      show "mset (concat (S0[nat s := S0 ! nat s @ [mp]])) \<subseteq># P + {#mp#}" using upd sub by simp
      show "filter_mset (\<lambda>p. t \<le> mp_time p) (P + {#mp#}) \<subseteq># mset (concat (S0[nat s := S0 ! nat s @ [mp]]))"
        using in_win merge(1) unfolding upd
        by (simp add: not_less) (metis multiset_filter_subset subset_mset.order_trans)
    qed (use add merge S0(1) aggregate_fold in simp_all)
  qed
qed

lemma add_all_inv:
  "window_inv w cur P m \<Longrightarrow> history_ok h \<Longrightarrow> (\<forall>e \<in> set h. cur \<le> fst e) \<Longrightarrow> 0 < w \<Longrightarrow> w < 2 ^ 27 \<Longrightarrow>
   \<exists>m' cur'. add_all h m = Ret m' \<and> window_inv w cur' (P + mset (map snd h)) m' \<and> (cur' = cur \<or> cur' \<in> fst ` set h)"
proof (induction h arbitrary: m cur P)
  case (Cons e h)
  obtain now mp where e: "e = (now, mp)" by (cases e)
  have tm: "cur \<le> now" "mp_time mp \<le> now" "unix_epoch \<le> mp_time mp" and h: "history_ok h" "\<forall>e \<in> set h. now \<le> fst e"
    using Cons.prems(2,3) by (auto simp: e history_ok_def)
  obtain m1 where m1: "ma_add now mp m = Ret m1" "window_inv w now (P + {#mp#}) m1"
    using add_step [OF Cons.prems(1,4,5) tm] by blast
  obtain m' cur' where "add_all h m1 = Ret m'" "window_inv w cur' (P + {#mp#} + mset (map snd h)) m'" "cur' = now \<or> cur' \<in> fst ` set h"
    using Cons.IH [OF m1(2) h Cons.prems(4,5)] by blast
  then show ?case using m1(1) e by (intro exI [of _ m'] exI [of _ cur']) auto
qed auto

text \<open>What is read at \<open>now\<close> is the fold of some of the points, all recent ones among them.\<close>

lemma get_fold:
  assumes h: "history_ok h" "\<forall>e \<in> set h. fst e \<le> now" and w: "0 < w" "w < 2 ^ 27" and now: "unix_epoch \<le> now"
  shows "\<exists>m K. add_all h \<lparr>ma_values = [], ma_aggregate = agg, ma_window = w\<rparr> = Ret m \<and> mset K \<subseteq># mset (map snd h) \<and>
    filter_mset (\<lambda>p. window_start w now \<le> mp_time p) (mset (map snd h)) \<subseteq># mset K \<and> slot_rel f (ma_get now m) K"
proof -
  define start where "start = (if h = [] then now else fst (hd h))"
  let ?m0 = "\<lparr>ma_values = [], ma_aggregate = agg, ma_window = w\<rparr> :: 'v metricAggregated"
  have "window_inv w start {#} ?m0" by (simp add: window_inv_def)
  moreover have "\<forall>e \<in> set h. start \<le> fst e" using h(1) by (cases h) (auto simp: history_ok_def start_def)
  ultimately obtain m cur where m: "add_all h ?m0 = Ret m" "window_inv w cur (mset (map snd h)) m" "cur = start \<or> cur \<in> fst ` set h"
    using add_all_inv [of w start "{#}" ?m0 h] h(1) w by auto
  have "cur \<le> now" using m(3) h(2) by (auto simp: start_def)
  then have mono: "window_start w cur \<le> window_start w now" by (rule window_start_mono)
  obtain S where S: "ma_window m = w" "ma_aggregate m = agg" "list_all2 (slot_rel f) (ma_values m) S"
    "mset (concat S) \<subseteq># mset (map snd h)"
    "filter_mset (\<lambda>p. window_start w cur \<le> mp_time p) (mset (map snd h)) \<subseteq># mset (concat S)"
    using m(2) by (auto simp: window_inv_def)
  define t where "t = window_start w now"
  define K where "K = concat (filter (alive t) (rev S))"
  have rels: "list_all2 (slot_rel f) (rev (ma_values m)) (rev S)" using S(3) by (simp add: list_all2_rev)
  have revS: "mset (concat (rev S)) = mset (concat S)" by (induction S) simp_all
  have "slot_rel f (ma_get now m) K"
  proof (cases "ma_values m = []")
    case True
    then have "S = []" using S(3) by simp
    then show ?thesis using True by (simp add: K_def ma_get_def slot_rel_def)
  next
    case False
    have "slot_rel f (get_loop agg t zero_point (rev (ma_values m))) ([] @ K)" unfolding K_def
      using w(2) now by (intro get_loop_rel [OF rels]) (auto simp: t_def slot_rel_def window_start_pos)
    then show ?thesis using False S(1,2) w(1) by (simp add: ma_get_def t_def)
  qed
  moreover have "mset K \<subseteq># mset (map snd h)" unfolding K_def
    by (rule subset_mset.order_trans [OF alive_subset]) (use S(4) revS in simp)
  moreover have "filter_mset (\<lambda>p. t \<le> mp_time p) (mset (map snd h)) \<subseteq># mset K"
  proof -
    have "filter_mset (\<lambda>p. t \<le> mp_time p) (mset (map snd h)) =
      filter_mset (\<lambda>p. t \<le> mp_time p) (filter_mset (\<lambda>p. window_start w cur \<le> mp_time p) (mset (map snd h)))"
      using mono unfolding t_def filter_filter_mset by (intro filter_mset_cong) auto
    also have "\<dots> \<subseteq># filter_mset (\<lambda>p. t \<le> mp_time p) (mset (concat (rev S)))" using S(5) revS by (simp add: multiset_filter_mono)
    also have "\<dots> \<subseteq># mset K" unfolding K_def by (rule alive_points)
    finally show ?thesis .
  qed
  ultimately show ?thesis using m(1) unfolding t_def by blast
qed

lemma get_point:
  assumes "history_ok h" "\<forall>e \<in> set h. fst e \<le> now" "0 < w" "w < 2 ^ 27" "unix_epoch \<le> now"
    and p: "p \<in> snd ` set h" "window_start w now \<le> mp_time p"
  shows "\<exists>m K. add_all h \<lparr>ma_values = [], ma_aggregate = agg, ma_window = w\<rparr> = Ret m \<and> p \<in> set K \<and> set K \<subseteq> snd ` set h \<and>
    mp_value (ma_get now m) = fold1 f (map mp_value K)"
proof -
  obtain m K where mK: "add_all h \<lparr>ma_values = [], ma_aggregate = agg, ma_window = w\<rparr> = Ret m" "mset K \<subseteq># mset (map snd h)"
    "filter_mset (\<lambda>p. window_start w now \<le> mp_time p) (mset (map snd h)) \<subseteq># mset K" "slot_rel f (ma_get now m) K"
    using get_fold [OF assms(1-5)] by blast
  have "p \<in># filter_mset (\<lambda>p. window_start w now \<le> mp_time p) (mset (map snd h))" using p by simp
  then have "p \<in> set K" using mset_subset_eqD [OF mK(3)] by simp
  moreover have "set K \<subseteq> snd ` set h" using set_mset_mono [OF mK(2)] by simp
  moreover have "K \<noteq> []" using calculation(1) by auto
  ultimately show ?thesis using mK(1,4) slot_rel_nonempty by metis
qed

end

interpretation sum_window: window_fold AggSum "(+) :: 'v :: {ord, comm_monoid_add} \<Rightarrow> 'v \<Rightarrow> 'v"
  by unfold_locales (simp_all add: aggregate_def ac_simps)

interpretation max_window: window_fold AggMax "max :: 'v :: {linorder, plus, zero} \<Rightarrow> 'v \<Rightarrow> 'v"
  by unfold_locales (auto simp: aggregate_def max_def)

interpretation min_window: window_fold AggMin "min :: 'v :: {linorder, plus, zero} \<Rightarrow> 'v \<Rightarrow> 'v"
  by unfold_locales (auto simp: aggregate_def min_def)

lemma fold1_sum: "xs \<noteq> [] \<Longrightarrow> fold1 (+) xs = sum_list xs" for xs :: "'v :: comm_monoid_add list"
proof -
  have "foldl (+) x ys = x + sum_list ys" for x :: 'v and ys by (induction ys arbitrary: x) (simp_all add: ac_simps)
  then show "xs \<noteq> [] \<Longrightarrow> ?thesis" by (cases xs) simp_all
qed

lemma fold1_mem: "(\<And>a b. f a b = a \<or> f a b = b) \<Longrightarrow> xs \<noteq> [] \<Longrightarrow> fold1 f xs \<in> set xs"
proof -
  assume sel: "\<And>a b. f a b = a \<or> f a b = b"
  have "foldl f x ys \<in> insert x (set ys)" for x ys
  proof (induction ys arbitrary: x)
    case (Cons y ys)
    show ?case using Cons [of "f x y"] sel [of x y] by auto
  qed simp
  then show "xs \<noteq> [] \<Longrightarrow> ?thesis" by (cases xs) auto
qed

lemma foldl_max_ge: "x \<le> foldl max x ys \<and> (\<forall>y \<in> set ys. y \<le> foldl max x ys)" for x :: "'v :: linorder"
proof (induction ys arbitrary: x)
  case (Cons y ys)
  show ?case using Cons [of "max x y"] by auto
qed simp

lemma foldl_min_le: "foldl min x ys \<le> x \<and> (\<forall>y \<in> set ys. foldl min x ys \<le> y)" for x :: "'v :: linorder"
proof (induction ys arbitrary: x)
  case (Cons y ys)
  show ?case using Cons [of "min x y"] by auto
qed simp

lemma fold1_max_ge: "y \<in> set xs \<Longrightarrow> y \<le> fold1 max xs" for y :: "'v :: linorder"
  using foldl_max_ge by (cases xs) auto

lemma fold1_min_le: "y \<in> set xs \<Longrightarrow> fold1 min xs \<le> y" for y :: "'v :: linorder"
  using foldl_min_le by (cases xs) auto

subsection \<open>Properties\<close>



text \<open>
  A maximum (minimum) window reads a recorded value that is at least (at most) every value
  recorded in the last \<open>w\<close> minutes; if it reads nothing, it reads the zero point.
\<close>

theorem window_extremes:
  fixes h :: "(Time \<times> 'v :: {linorder, plus, zero} metricPoint) list"
  assumes "history_ok h" "\<forall>e \<in> set h. fst e \<le> now" "0 < w" "w < 2 ^ 27" "unix_epoch \<le> now"
    and "p \<in> snd ` set h" "now - int w * Minute \<le> mp_time p"
  shows "(\<exists>m. add_all h \<lparr>ma_values = [], ma_aggregate = AggMax, ma_window = w\<rparr> = Ret m \<and>
      mp_value p \<le> mp_value (ma_get now m) \<and> mp_value (ma_get now m) \<in> mp_value ` snd ` set h) \<and>
    (\<exists>m. add_all h \<lparr>ma_values = [], ma_aggregate = AggMin, ma_window = w\<rparr> = Ret m \<and>
      mp_value (ma_get now m) \<le> mp_value p \<and> mp_value (ma_get now m) \<in> mp_value ` snd ` set h)"
proof -
  have t: "window_start w now \<le> mp_time p" using assms(7) window_start_eq [OF assms(4)] by simp
  obtain m K where m: "add_all h \<lparr>ma_values = [], ma_aggregate = AggMax, ma_window = w\<rparr> = Ret m" "p \<in> set K" "set K \<subseteq> snd ` set h"
    "mp_value (ma_get now m) = fold1 max (map mp_value K)" using max_window.get_point [OF assms(1-6) t] by blast
  obtain n L where n: "add_all h \<lparr>ma_values = [], ma_aggregate = AggMin, ma_window = w\<rparr> = Ret n" "p \<in> set L" "set L \<subseteq> snd ` set h"
    "mp_value (ma_get now n) = fold1 min (map mp_value L)" using min_window.get_point [OF assms(1-6) t] by blast
  have "mp_value p \<le> fold1 max (map mp_value K)" "fold1 min (map mp_value L) \<le> mp_value p"
    using m(2) n(2) by (auto intro!: fold1_max_ge fold1_min_le)
  moreover have "fold1 max (map mp_value K) \<in> set (map mp_value K)" "fold1 min (map mp_value L) \<in> set (map mp_value L)"
    using m(2) n(2) by (auto intro!: fold1_mem simp del: set_map simp: max_def min_def)
  ultimately show ?thesis using m(1,3,4) n(1,3,4) by (auto simp: image_image intro!: exI [of _ m] exI [of _ n])
qed

theorem window_extremes_witness:
  "\<exists>m. add_all [(unix_epoch, \<lparr>mp_value = 3 :: int, mp_time = unix_epoch\<rparr>)] \<lparr>ma_values = [], ma_aggregate = AggMax, ma_window = 5\<rparr> = Ret m \<and>
    3 \<le> mp_value (ma_get (unix_epoch + Minute) m)"
proof -
  have "history_ok [(unix_epoch, \<lparr>mp_value = 3 :: int, mp_time = unix_epoch\<rparr>)]" by (simp add: history_ok_def)
  from window_extremes [OF this, of "unix_epoch + Minute" 5 "\<lparr>mp_value = 3, mp_time = unix_epoch\<rparr>"] show ?thesis
    by (simp add: units) blast
qed

text \<open>
  A slot is only cleared when its last point is older than the window, but its minute comes round
  again exactly one window later. Under steady traffic the slots are therefore never cleared:
  with one point every 30 seconds a window of two minutes sums all points of the last ten minutes,
  not the five of the last two.
\<close>

lemma sum_keeps_expired_points:
  "add_all (map (\<lambda>k. (unix_epoch + k * 30 * Second, \<lparr>mp_value = 1, mp_time = unix_epoch + k * 30 * Second\<rparr>)) [0..20])
      \<lparr>ma_values = [], ma_aggregate = AggSum, ma_window = 2\<rparr> =
    Ret \<lparr>ma_values = [\<lparr>mp_value = 11 :: int, mp_time = unix_epoch + 600 * Second\<rparr>, \<lparr>mp_value = 10, mp_time = unix_epoch + 570 * Second\<rparr>],
      ma_aggregate = AggSum, ma_window = 2\<rparr> \<and>
   mp_value (ma_get (unix_epoch + 600 * Second)
     \<lparr>ma_values = [\<lparr>mp_value = 11 :: int, mp_time = unix_epoch + 600 * Second\<rparr>, \<lparr>mp_value = 10, mp_time = unix_epoch + 570 * Second\<rparr>],
      ma_aggregate = AggSum, ma_window = 2\<rparr>) = 21"
  by code_simp

text \<open>
  The slots are combined in the order of their indices, not of their times, so that a window that
  replaces values can report an older one.
\<close>

lemma replace_reports_older_value:
  "add_all [(unix_epoch, \<lparr>mp_value = 1, mp_time = unix_epoch\<rparr>), (unix_epoch + Minute, \<lparr>mp_value = 2, mp_time = unix_epoch + Minute\<rparr>)]
      \<lparr>ma_values = [], ma_aggregate = AggReplace, ma_window = 2\<rparr> =
    Ret \<lparr>ma_values = [\<lparr>mp_value = 1 :: int, mp_time = unix_epoch\<rparr>, \<lparr>mp_value = 2, mp_time = unix_epoch + Minute\<rparr>],
      ma_aggregate = AggReplace, ma_window = 2\<rparr> \<and>
   mp_value (ma_get (unix_epoch + Minute)
     \<lparr>ma_values = [\<lparr>mp_value = 1 :: int, mp_time = unix_epoch\<rparr>, \<lparr>mp_value = 2, mp_time = unix_epoch + Minute\<rparr>],
      ma_aggregate = AggReplace, ma_window = 2\<rparr>) = 1"
  by code_simp

end
