(* ===== verification/Log.thy ===== *)
theory Log
  imports Go_Prelude
begin

text \<open>
  Loggers: the levels (\<open>src/log/log.go\<close>), the callback logger (\<open>src/log/callback\<close>), the null
  logger (\<open>src/log/null\<close>) and the chain of loggers (\<open>src/log/chain\<close>).

  A log method returns the entries it hands on, in order, together with its outcome (return or
  panic). The text of the arguments (\<open>fmt.Sprint\<close>) is an argument. The four methods below
  \<open>Panic\<close> differ only in their level and are one definition each. A chain is a list of loggers
  of any kind, so its definitions take the methods of its members as arguments.

  The interface \<open>log.Logger\<close> is the locale \<open>logger\<close>; every chain of loggers is again one
  (\<open>sublocale\<close>).
\<close>

subsection \<open>Definitions: levels\<close>

type_synonym Level = nat

definition lvl_Panic :: Level where "lvl_Panic = 0"
definition lvl_Error :: Level where "lvl_Error = 1"
definition lvl_Warn :: Level where "lvl_Warn = 2"
definition lvl_Info :: Level where "lvl_Info = 3"
definition lvl_Debug :: Level where "lvl_Debug = 4"

lemmas lvl_defs = lvl_Panic_def lvl_Error_def lvl_Warn_def lvl_Info_def lvl_Debug_def

text \<open>\<open>strings.ToLower\<close> on ASCII.\<close>

definition lower_char :: "char \<Rightarrow> char" where
  "lower_char c = (if of_char c \<ge> (65 :: nat) \<and> of_char c \<le> (90 :: nat) then char_of (of_char c + 32 :: nat) else c)"

definition ToLower :: "string \<Rightarrow> string" where
  "ToLower s = map lower_char s"

definition ParseLevel :: "string \<Rightarrow> string + Level" where
  "ParseLevel lvl =
     (let l = ToLower lvl in
      if l = ''panic'' then Inr lvl_Panic
      else if l = ''error'' \<or> l = ''err'' then Inr lvl_Error
      else if l = ''warning'' \<or> l = ''warn'' then Inr lvl_Warn
      else if l = ''info'' then Inr lvl_Info
      else if l = ''debug'' then Inr lvl_Debug
      else Inl lvl)"

definition Level_String :: "Level \<Rightarrow> string" where
  "Level_String l =
     (if l = lvl_Panic then ''panic''
      else if l = lvl_Error then ''error''
      else if l = lvl_Warn then ''warning''
      else if l = lvl_Info then ''info''
      else if l = lvl_Debug then ''debug''
      else ''unknown'')"

definition IsLevel :: "Level \<Rightarrow> Level \<Rightarrow> bool" where
  "IsLevel logger_level level = (logger_level \<ge> level)"

subsection \<open>Definitions: loggers with fields\<close>

type_synonym 'v Fields = "string \<rightharpoonup> 'v"
type_synonym 'e log_result = "'e list \<times> unit go"

text \<open>The callback logger; the callback itself is the environment that gets the entries.\<close>

record 'v callback =
  cb_level :: Level
  cb_fields :: "'v Fields"

type_synonym 'v entry = "Level \<times> 'v Fields \<times> string"

definition cb_New :: "Level \<Rightarrow> 'v callback" where
  "cb_New level = \<lparr>cb_level = level, cb_fields = Map.empty\<rparr>"

definition cb_WithField :: "string \<Rightarrow> 'v \<Rightarrow> 'v callback \<Rightarrow> 'v callback" where
  "cb_WithField key v c = \<lparr>cb_level = cb_level c, cb_fields = (cb_fields c)(key \<mapsto> v)\<rparr>"

definition cb_WithFields :: "'v Fields \<Rightarrow> 'v callback \<Rightarrow> 'v callback" where
  "cb_WithFields fs c = \<lparr>cb_level = cb_level c, cb_fields = cb_fields c ++ fs\<rparr>"

definition cb_WithError :: "(string \<Rightarrow> 'v) \<Rightarrow> string \<Rightarrow> 'v callback \<Rightarrow> 'v callback" where
  "cb_WithError str err c = cb_WithField ''err'' (str err) c"

definition cb_WithAdvice :: "(string \<Rightarrow> 'v) \<Rightarrow> string \<Rightarrow> 'v callback \<Rightarrow> 'v callback" where
  "cb_WithAdvice str advice c = cb_WithField ''advice'' (str advice) c"

text \<open>\<open>Debug\<close>, \<open>Info\<close>, \<open>Warn\<close> and \<open>Error\<close>: the level of the method is the first argument.\<close>

definition cb_log :: "Level \<Rightarrow> string \<Rightarrow> 'v callback \<Rightarrow> 'v entry log_result" where
  "cb_log lvl msg c = (if cb_level c \<ge> lvl then [(cb_level c, cb_fields c, msg)] else [], Ret ())"

definition cb_Panic :: "string \<Rightarrow> 'v callback \<Rightarrow> 'v entry log_result" where
  "cb_Panic msg c = ([(cb_level c, cb_fields c, msg)], Panic msg)"

text \<open>The null logger.\<close>

datatype null_logger = Null

definition null_Level :: "null_logger \<Rightarrow> Level" where "null_Level n = lvl_Panic"
definition null_WithField :: "string \<Rightarrow> 'v \<Rightarrow> null_logger \<Rightarrow> null_logger" where "null_WithField key v n = n"
definition null_WithFields :: "'v Fields \<Rightarrow> null_logger \<Rightarrow> null_logger" where "null_WithFields fs n = n"
definition null_log :: "Level \<Rightarrow> string \<Rightarrow> null_logger \<Rightarrow> 'e log_result" where "null_log lvl msg n = ([], Ret ())"
definition null_Panic :: "string \<Rightarrow> null_logger \<Rightarrow> 'e log_result" where "null_Panic msg n = ([], Panic msg)"

subsection \<open>Definitions: the chain\<close>

fun chain_level_loop :: "('l \<Rightarrow> Level) \<Rightarrow> Level \<Rightarrow> 'l list \<Rightarrow> Level" where
  "chain_level_loop lv lvl [] = lvl"
| "chain_level_loop lv lvl (l # ls) = chain_level_loop lv (if lv l > lvl then lv l else lvl) ls"

definition chain_Level :: "('l \<Rightarrow> Level) \<Rightarrow> 'l list \<Rightarrow> Level" where
  "chain_Level lv ls = chain_level_loop lv lvl_Panic ls"

definition chain_WithField :: "(string \<Rightarrow> 'v \<Rightarrow> 'l \<Rightarrow> 'l) \<Rightarrow> string \<Rightarrow> 'v \<Rightarrow> 'l list \<Rightarrow> 'l list" where
  "chain_WithField wfield key v ls = map (wfield key v) ls"

definition chain_WithFields :: "('v Fields \<Rightarrow> 'l \<Rightarrow> 'l) \<Rightarrow> 'v Fields \<Rightarrow> 'l list \<Rightarrow> 'l list" where
  "chain_WithFields wfs fs ls = map (wfs fs) ls"

definition chain_WithError :: "(string \<Rightarrow> 'l \<Rightarrow> 'l) \<Rightarrow> string \<Rightarrow> 'l list \<Rightarrow> 'l list" where
  "chain_WithError we err ls = map (we err) ls"

definition chain_WithAdvice :: "(string \<Rightarrow> 'l \<Rightarrow> 'l) \<Rightarrow> string \<Rightarrow> 'l list \<Rightarrow> 'l list" where
  "chain_WithAdvice wa advice ls = map (wa advice) ls"

fun chain_log :: "(Level \<Rightarrow> string \<Rightarrow> 'l \<Rightarrow> 'e log_result) \<Rightarrow> Level \<Rightarrow> string \<Rightarrow> 'l list \<Rightarrow> 'e log_result" where
  "chain_log lg lvl msg [] = ([], Ret ())"
| "chain_log lg lvl msg (l # ls) =
     (case lg lvl msg l of
        (es, Panic m) \<Rightarrow> (es, Panic m)
      | (es, Ret _) \<Rightarrow> (case chain_log lg lvl msg ls of (es', r) \<Rightarrow> (es @ es', r)))"

text \<open>Each member's panic is recovered; the chain panics at the end.\<close>

definition chain_Panic :: "(string \<Rightarrow> 'l \<Rightarrow> 'e log_result) \<Rightarrow> string \<Rightarrow> 'l list \<Rightarrow> 'e log_result" where
  "chain_Panic pn msg ls = (concat (map (\<lambda>l. fst (pn msg l)) ls), Panic msg)"

subsection \<open>The Logger interface\<close>

text \<open>
  Fields do not change the level; adding a field is adding a map of one; fields added later win;
  methods above the level are silent, the others do not panic, and \<open>Panic\<close> panics with its text.
\<close>

locale logger =
  fixes lv :: "'l \<Rightarrow> Level" and wfield :: "string \<Rightarrow> 'v \<Rightarrow> 'l \<Rightarrow> 'l" and wfs :: "'v Fields \<Rightarrow> 'l \<Rightarrow> 'l"
    and lg :: "Level \<Rightarrow> string \<Rightarrow> 'l \<Rightarrow> 'e log_result" and pn :: "string \<Rightarrow> 'l \<Rightarrow> 'e log_result"
  assumes level_fields: "lv (wfs f l) = lv l"
    and field_fields: "wfield k v l = wfs [k \<mapsto> v] l"
    and fields_fields: "wfs f (wfs g l) = wfs (g ++ f) l"
    and silent: "lv l < lvl \<Longrightarrow> lg lvl msg l = ([], Ret ())"
    and returns: "snd (lg lvl msg l) = Ret ()"
    and panics: "snd (pn msg l) = Panic msg"
begin

lemma fold_fields:
  "distinct (map fst kvs) \<Longrightarrow> kvs \<noteq> [] \<Longrightarrow> fold (\<lambda>(k, v). wfield k v) kvs l = wfs (map_of kvs) l"
proof (induction kvs arbitrary: l)
  case (Cons kv kvs)
  show ?case
  proof (cases "kvs = []")
    case False
    have "fold (\<lambda>(k, v). wfield k v) (kv # kvs) l = wfs ([fst kv \<mapsto> snd kv] ++ map_of kvs) l"
      using Cons.IH [of "wfs [fst kv \<mapsto> snd kv] l"] Cons.prems(1) False 
        field_fields [of "fst kv" "snd kv" l] by (cases kv) (simp add: fields_fields)
    also have "[fst kv \<mapsto> snd kv] ++ map_of kvs = map_of (kv # kvs)"
    proof
      fix x show "([fst kv \<mapsto> snd kv] ++ map_of kvs) x = map_of (kv # kvs) x"
        using Cons.prems(1) by (cases kv; cases "map_of kvs x") (auto simp: map_add_def dest: map_of_SomeD intro: rev_image_eqI)
    qed
    finally show ?thesis .
  qed (cases kv, simp add: field_fields fun_upd_def)
qed simp

lemma chain_log_concat: "chain_log lg lvl msg ls = (concat (map (\<lambda>l. fst (lg lvl msg l)) ls), Ret ())"
proof (induction ls)
  case (Cons l ls)
  then show ?case using returns [of lvl msg l] by (cases "lg lvl msg l") simp
qed simp

end

lemma chain_level_loop_max: "chain_level_loop lv lvl ls = Max (insert lvl (lv ` set ls))"
proof (induction ls arbitrary: lvl)
  case (Cons l ls)
  have "Max (insert lvl (lv ` set (l # ls))) = max lvl (Max (insert (lv l) (lv ` set ls)))" by simp
  also have "\<dots> = Max (insert (max lvl (lv l)) (lv ` set ls))"
    by (cases "ls = []") (simp_all add: max.assoc)
  finally show ?case by (simp add: Cons max_def)
qed simp

lemma chain_Level_less: "chain_Level lv ls < lvl \<Longrightarrow> l \<in> set ls \<Longrightarrow> lv l < lvl"
  by (simp add: chain_Level_def chain_level_loop_max)

context logger
begin

text \<open>A chain of loggers is a logger.\<close>

lemma chain_is_logger: "logger (chain_Level lv) (chain_WithField wfield) (chain_WithFields wfs) (chain_log lg) (chain_Panic pn)"
proof unfold_locales
  fix ls :: "'l list" and lvl msg f g k v
  show "chain_Level lv (chain_WithFields wfs f ls) = chain_Level lv ls"
    by (simp add: chain_Level_def chain_level_loop_max chain_WithFields_def image_image level_fields)
  show "chain_WithField wfield k v ls = chain_WithFields wfs [k \<mapsto> v] ls"
    by (simp add: chain_WithField_def chain_WithFields_def field_fields)
  show "chain_WithFields wfs f (chain_WithFields wfs g ls) = chain_WithFields wfs (g ++ f) ls"
    by (simp add: chain_WithFields_def fields_fields)
  show "chain_Level lv ls < lvl \<Longrightarrow> chain_log lg lvl msg ls = ([], Ret ())"
    by (auto simp: chain_log_concat silent dest: chain_Level_less)
  show "snd (chain_log lg lvl msg ls) = Ret ()" by (simp add: chain_log_concat)
  show "snd (chain_Panic pn msg ls) = Panic msg" by (simp add: chain_Panic_def)
qed

end

interpretation callback_logger: logger cb_level cb_WithField cb_WithFields cb_log cb_Panic
  by unfold_locales (simp_all add: cb_WithField_def cb_WithFields_def cb_log_def cb_Panic_def)

interpretation null_logger: logger null_Level null_WithField null_WithFields null_log null_Panic
  by unfold_locales (simp_all add: null_Level_def null_WithField_def null_WithFields_def null_log_def null_Panic_def)

interpretation callback_chain: logger "chain_Level cb_level" "chain_WithField cb_WithField" "chain_WithFields cb_WithFields"
    "chain_log cb_log" "chain_Panic cb_Panic"
  by (rule callback_logger.chain_is_logger)

interpretation null_chain: logger "chain_Level null_Level" "chain_WithField null_WithField" "chain_WithFields null_WithFields"
    "chain_log null_log" "chain_Panic null_Panic"
  by (rule null_logger.chain_is_logger)

subsection \<open>Properties\<close>

lemma concat_if: "concat (map (\<lambda>x. if P x then [f x] else []) xs) = map f (filter P xs)"
  by (induction xs) auto

text \<open>
  C38: A message logged through a chain after adding fields one by one reaches, in order, exactly
  the members whose level allows it, each with its own fields overridden by the added ones; a
  level of the chain allows a message exactly when some member shows it; and a panic reaches every
  member before the chain panics.
\<close>

theorem chain_reaches_members:
  assumes "distinct (map fst kvs)" "lvl_Panic < lvl"
  shows "chain_log cb_log lvl msg (fold (\<lambda>(k, v). chain_WithField cb_WithField k v) kvs ls) =
      (map (\<lambda>c. (cb_level c, cb_fields c ++ map_of kvs, msg)) (filter (\<lambda>c. IsLevel (cb_level c) lvl) ls), Ret ()) \<and>
    IsLevel (chain_Level cb_level ls) lvl = (filter (\<lambda>c. IsLevel (cb_level c) lvl) ls \<noteq> []) \<and>
    chain_Panic cb_Panic msg (fold (\<lambda>(k, v). chain_WithField cb_WithField k v) kvs ls) =
      (map (\<lambda>c. (cb_level c, cb_fields c ++ map_of kvs, msg)) ls, Panic msg)"
proof -
  have fields: "fold (\<lambda>(k, v). chain_WithField cb_WithField k v) kvs ls = map (cb_WithFields (map_of kvs)) ls"
    using callback_chain.fold_fields [OF assms(1), of ls]
    by (cases "kvs = []") (simp_all add: chain_WithFields_def cb_WithFields_def map_idI)
  have "IsLevel (chain_Level cb_level ls) lvl = (\<exists>c \<in> set ls. lvl \<le> cb_level c)"
    using assms(2) by (auto simp: IsLevel_def chain_Level_def chain_level_loop_max Max_ge_iff lvl_Panic_def)
  then show ?thesis
    by (auto simp: fields callback_logger.chain_log_concat chain_Panic_def cb_log_def cb_Panic_def cb_WithFields_def
        IsLevel_def comp_def filter_empty_conv concat_if)
qed

theorem chain_reaches_members_witness:
  "chain_log cb_log lvl_Info ''m'' (fold (\<lambda>(k, v). chain_WithField cb_WithField k v) [(''a'', 1 :: nat)]
      [cb_New lvl_Error, cb_New lvl_Debug]) = ([(lvl_Debug, [''a'' \<mapsto> 1], ''m'')], Ret ())"
  using chain_reaches_members [of "[(''a'', 1 :: nat)]" lvl_Info "''m''" "[cb_New lvl_Error, cb_New lvl_Debug]"]
  by (simp add: cb_New_def IsLevel_def lvl_defs)

lemma level_roundtrip: "l \<le> lvl_Debug \<Longrightarrow> ParseLevel (Level_String l) = Inr l"
proof -
  assume "l \<le> lvl_Debug"
  then have "l \<in> {0, 1, 2, 3, 4}" by (auto simp: lvl_Debug_def)
  moreover have "\<forall>l \<in> {0, 1, 2, 3, 4}. ParseLevel (Level_String l) = Inr l" by code_simp
  ultimately show ?thesis by blast
qed

lemma ParseLevel_range: "ParseLevel s = Inr l \<Longrightarrow> l \<le> lvl_Debug"
  by (auto simp: ParseLevel_def Let_def lvl_defs split: if_splits)

text \<open>The callback is told the level of the logger, not the level of the message.\<close>

lemma callback_gets_configured_level: "cb_log lvl_Error ''failure'' (cb_New lvl_Debug) = ([(lvl_Debug, Map.empty, ''failure'')], Ret ())"
  by (simp add: cb_log_def cb_New_def lvl_defs)

end
