(* ===== verification/Metrics.thy ===== *)
theory Metrics
  imports Metrics_Window Interpolate Log
begin

text \<open>
  The metrics logger (\<open>src/log/metrics/log.go\<close>): finding the fields a metric refers to by their
  paths, matching log entries, and recording points. Field values are \<open>reflect.Value\<close>s; a value
  reached through an unexported struct field is marked (the boolean next to it), since
  \<open>Interface()\<close> panics on it. The regular expressions, the text of a value
  (\<open>fmt.Sprint(dump.Dump(v))\<close>), the conversions to \<open>float64\<close> and the user's functions are
  arguments. \<open>collect\<close> reads the clock twice for a point; both readings are arguments.

  The property ties the interpolation, the logger and the windows together: what a counter of log
  messages shows.
\<close>

subsection \<open>Definitions: values by path\<close>

datatype key_kind = PlainString | NamedString | OtherKey

text \<open>\<open>RElem\<close> is an interface or pointer, a nil one around \<open>RInvalid\<close>.\<close>

datatype 'v rval =
    RInvalid
  | RElem "'v rval"
  | RSlice "'v rval list"
  | RMap key_kind "(string \<times> 'v rval) list"
  | RStruct "(string \<times> bool \<times> 'v rval) list"
  | RDuration int
  | RString string
  | RFloat 'v
  | RInt int
  | RUint nat
  | ROther string

definition splitPath :: "string \<Rightarrow> string \<times> string" where
  "splitPath path =
     (takeWhile (\<lambda>c. c \<noteq> CHR ''.'') path, drop 1 (dropWhile (\<lambda>c. c \<noteq> CHR ''.'') path))"

fun field_by_name :: "(string \<times> bool \<times> 'v rval) list \<Rightarrow> string \<Rightarrow> (bool \<times> 'v rval) option" where
  "field_by_name [] name = None"
| "field_by_name ((n, exported, v) # fs) name = (if n = name then Some (\<not> exported, v) else field_by_name fs name)"

lemma field_by_name_size: "field_by_name fs name = Some (ro, v) \<Longrightarrow>
    size v < Suc (size_list (size_prod (\<lambda>x. 0) (size_prod (\<lambda>x. 0) size)) fs)"
  by (induction fs name rule: field_by_name.induct) (auto split: if_splits)

function (sequential) byPath :: "bool \<Rightarrow> 'v rval \<Rightarrow> string \<Rightarrow> (bool \<times> 'v rval) go" where
  "byPath ro (RElem v) path = byPath ro v path"
| "byPath ro (RSlice vs) path =
     (if path = [] then Ret (ro, RSlice vs)
      else case Atoi (fst (splitPath path)) of
          None \<Rightarrow> Ret (False, RInvalid)
        | Some i \<Rightarrow>
            if i < 0 \<or> int (length vs) \<le> i then Panic ''reflect: slice index out of range''
            else if vs ! nat i = RInvalid then Ret (False, RInvalid)
            else byPath ro (vs ! nat i) (snd (splitPath path)))"
| "byPath ro (RMap kind es) path =
     (if path = [] then Ret (ro, RMap kind es)
      else case kind of
          OtherKey \<Rightarrow> Ret (False, RInvalid)
        | NamedString \<Rightarrow> Panic ''reflect.Value.MapIndex: value of type string is not assignable''
        | PlainString \<Rightarrow>
            (case map_of es (fst (splitPath path)) of
               None \<Rightarrow> Ret (False, RInvalid)
             | Some f \<Rightarrow> if f = RInvalid then Ret (False, RInvalid) else byPath ro f (snd (splitPath path))))"
| "byPath ro (RStruct fs) path =
     (if path = [] then Ret (ro, RStruct fs)
      else case field_by_name fs (fst (splitPath path)) of
          None \<Rightarrow> Ret (False, RInvalid)
        | Some (unexported, f) \<Rightarrow>
            if f = RInvalid then Ret (False, RInvalid) else byPath (ro \<or> unexported) f (snd (splitPath path)))"
| "byPath ro v path = (if path = [] then Ret (ro, v) else Ret (False, RInvalid))"
  by pat_completeness auto

lemma map_of_size: "map_of es k = Some v \<Longrightarrow> size v < Suc (size_list (size_prod (\<lambda>x. 0) size) es)"
  by (induction es) (auto split: if_splits)

lemma nth_size: "0 \<le> i \<Longrightarrow> i < int (length vs) \<Longrightarrow> size (vs ! nat i) < Suc (size_list size vs)"
  by (simp add: less_Suc_eq_le size_list_estimation' [of "vs ! nat i"])

termination byPath
  by (relation "measure (\<lambda>(ro, v, path). size v)") (auto simp: field_by_name_size map_of_size nth_size)

text \<open>What the model takes from outside: the text of a value and the conversions to \<open>float64\<close>.\<close>

record 'v conv =
  cv_sprint :: "'v rval \<Rightarrow> string"
  cv_ParseFloat :: "string \<Rightarrow> 'v option"
  cv_int :: "int \<Rightarrow> 'v"
  cv_Seconds :: "int \<Rightarrow> 'v"

definition toFloat :: "'v conv \<Rightarrow> bool \<Rightarrow> 'v rval \<Rightarrow> 'v option go" where
  "toFloat cv ro v =
     (if v = RInvalid then Ret None
      else if ro then Panic ''reflect.Value.Interface: cannot return value obtained from unexported field''
      else case v of
          RDuration d \<Rightarrow> Ret (Some (cv_Seconds cv d))
        | RString t \<Rightarrow> Ret (cv_ParseFloat cv t)
        | RFloat x \<Rightarrow> Ret (Some x)
        | RInt i \<Rightarrow> Ret (Some (cv_int cv i))
        | RUint n \<Rightarrow> Ret (Some (cv_int cv (int n)))
        | _ \<Rightarrow> Ret None)"

definition toString :: "'v conv \<Rightarrow> bool \<Rightarrow> 'v rval \<Rightarrow> string option go" where
  "toString cv ro v =
     (if v = RInvalid then Ret None
      else if ro then Panic ''reflect.Value.Interface: cannot return value obtained from unexported field''
      else Ret (Some (cv_sprint cv v)))"

definition path_string :: "'v conv \<Rightarrow> 'v rval \<Rightarrow> string \<Rightarrow> string option go" where
  "path_string cv flds path = go_bind (byPath False flds path) (\<lambda>(ro, v). toString cv ro v)"

subsection \<open>Definitions: metrics\<close>

record 'v Metric =
  me_MatchMessage :: "(string \<Rightarrow> bool) option"
  me_MatchFields :: "(string \<times> (string \<Rightarrow> bool)) list"
  me_Value :: string
  me_Name :: string
  me_Window :: nat
  me_Aggregate :: Aggregate
  me_Transform :: "('v \<Rightarrow> 'v) option"
  me_Parser :: "(bool \<times> 'v rval \<Rightarrow> 'v option) option"

fun match_fields :: "'v conv \<Rightarrow> 'v rval \<Rightarrow> (string \<times> (string \<Rightarrow> bool)) list \<Rightarrow> bool go" where
  "match_fields cv flds [] = Ret True"
| "match_fields cv flds ((path, rx) # ms) =
     go_bind (path_string cv flds path) (\<lambda>field.
       case field of
         None \<Rightarrow> Ret False
       | Some t \<Rightarrow> if \<not> rx t then Ret False else match_fields cv flds ms)"

definition match_metric :: "'v conv \<Rightarrow> 'v Metric \<Rightarrow> string \<Rightarrow> 'v rval \<Rightarrow> bool go" where
  "match_metric cv metric msg flds =
     go_bind (match_fields cv flds (me_MatchFields metric)) (\<lambda>ok.
       if \<not> ok then Ret False
       else Ret (case me_MatchMessage metric of None \<Rightarrow> True | Some rx \<Rightarrow> rx msg))"

text \<open>The text of one variable, and whether the name stays valid.\<close>

definition var_value :: "'v conv \<Rightarrow> 'v rval \<Rightarrow> Variable \<Rightarrow> (string \<times> bool) go" where
  "var_value cv flds v =
     go_bind (path_string cv flds (var_Name v)) (\<lambda>name.
       case name of
         None \<Rightarrow> if var_HasDefault v then Ret (var_Default v, True) else Ret ([], False)
       | Some t \<Rightarrow> Ret (t, True))"

fun replaceVars :: "'v conv \<Rightarrow> 'v rval \<Rightarrow> Parsed \<Rightarrow> (string \<times> bool) go" where
  "replaceVars cv flds [] = Ret ([], True)"
| "replaceVars cv flds (Lit l # ps) = go_bind (replaceVars cv flds ps) (\<lambda>(t, ok). Ret (l @ t, ok))"
| "replaceVars cv flds (Var v # ps) =
     go_bind (var_value cv flds v) (\<lambda>(t1, ok1).
       go_bind (replaceVars cv flds ps) (\<lambda>(t, ok). Ret (t1 @ t, ok1 \<and> ok)))"

definition metric_value :: "'v conv \<Rightarrow> 'v Metric \<Rightarrow> 'v rval \<Rightarrow> 'v :: one option go" where
  "metric_value cv metric flds =
     (if me_Value metric = [] then Ret (Some 1)
      else go_bind (byPath False flds (me_Value metric)) (\<lambda>(ro, v).
        case me_Parser metric of
          Some pf \<Rightarrow> Ret (pf (ro, v))
        | None \<Rightarrow> toFloat cv ro v))"

type_synonym 'v points = "string \<rightharpoonup> 'v metricAggregated"

definition record_point :: "Time \<Rightarrow> Time \<Rightarrow> 'v Metric \<Rightarrow> string \<Rightarrow> 'v \<Rightarrow> 'v points \<Rightarrow> 'v :: {ord, plus, zero} points go" where
  "record_point tm now metric mk value points =
     (let m = (case points mk of
                 None \<Rightarrow> \<lparr>ma_values = [], ma_aggregate = me_Aggregate metric, ma_window = me_Window metric\<rparr>
               | Some m \<Rightarrow> m) in
      go_bind (ma_add now \<lparr>mp_value = value, mp_time = tm\<rparr> m) (\<lambda>m'. Ret (points(mk \<mapsto> m'))))"

definition collect_one :: "'v conv \<Rightarrow> Time \<Rightarrow> Time \<Rightarrow> string \<Rightarrow> 'v rval \<Rightarrow> 'v Metric \<Rightarrow> 'v points \<Rightarrow> 'v :: {ord, plus, zero, one} points go" where
  "collect_one cv tm now msg flds metric points =
     go_bind (match_metric cv metric msg flds) (\<lambda>ok.
       if \<not> ok then Ret points
       else go_bind (replaceVars cv flds (ParsePercent (me_Name metric))) (\<lambda>(mk, ok).
         if \<not> ok then Ret points
         else go_bind (metric_value cv metric flds) (\<lambda>value.
           case value of
             None \<Rightarrow> Ret points
           | Some x \<Rightarrow>
               record_point tm now metric mk (case me_Transform metric of None \<Rightarrow> x | Some f \<Rightarrow> f x) points)))"

fun collect :: "'v conv \<Rightarrow> Time \<Rightarrow> Time \<Rightarrow> string \<Rightarrow> 'v rval \<Rightarrow> 'v Metric list \<Rightarrow> 'v points \<Rightarrow> 'v :: {ord, plus, zero, one} points go" where
  "collect cv tm now msg flds [] points = Ret points"
| "collect cv tm now msg flds (metric # ms) points =
     go_bind (collect_one cv tm now msg flds metric points) (collect cv tm now msg flds ms)"

text \<open>What the HTTP handler shows for a metric, before it is put into JSON.\<close>

definition handle_point :: "Time \<Rightarrow> string \<Rightarrow> 'v points \<Rightarrow> 'v :: {ord, plus, zero} metricPoint option" where
  "handle_point t mk points = map_option (ma_get t) (points mk)"

subsection \<open>Definitions: the logger\<close>

record 'v metrics_logger =
  ml_level :: Level
  ml_fields :: "'v Fields"

definition ml_WithField :: "string \<Rightarrow> 'v \<Rightarrow> 'v metrics_logger \<Rightarrow> 'v metrics_logger" where
  "ml_WithField key v c = \<lparr>ml_level = ml_level c, ml_fields = (ml_fields c)(key \<mapsto> v)\<rparr>"

definition ml_WithFields :: "'v Fields \<Rightarrow> 'v metrics_logger \<Rightarrow> 'v metrics_logger" where
  "ml_WithFields fs c = \<lparr>ml_level = ml_level c, ml_fields = ml_fields c ++ fs\<rparr>"

text \<open>The entries are the calls of \<open>collect\<close>.\<close>

definition ml_log :: "Level \<Rightarrow> string \<Rightarrow> 'v metrics_logger \<Rightarrow> (string \<times> 'v Fields) log_result" where
  "ml_log lvl msg c = (if ml_level c \<ge> lvl then [(msg, ml_fields c)] else [], Ret ())"

definition ml_Panic :: "string \<Rightarrow> 'v metrics_logger \<Rightarrow> (string \<times> 'v Fields) log_result" where
  "ml_Panic msg c = (if ml_level c \<ge> lvl_Error then [(msg, ml_fields c)] else [], Panic msg)"

interpretation metrics_logger: logger ml_level ml_WithField ml_WithFields ml_log ml_Panic
  by unfold_locales (simp_all add: ml_WithField_def ml_WithFields_def ml_log_def ml_Panic_def)

subsection \<open>Lemmas: a counter of messages\<close>

text \<open>Log messages with the two clock readings of \<open>collect\<close>, one after the other.\<close>

fun log_all :: "'v conv \<Rightarrow> 'v Metric list \<Rightarrow> (Time \<times> Time \<times> string \<times> 'v rval) list \<Rightarrow> 'v points \<Rightarrow> 'v :: {ord, plus, zero, one} points go" where
  "log_all cv ms [] points = Ret points"
| "log_all cv ms ((tm, now, msg, flds) # es) points = go_bind (collect cv tm now msg flds ms points) (log_all cv ms es)"

definition counter :: "(string \<Rightarrow> bool) \<Rightarrow> string \<Rightarrow> nat \<Rightarrow> 'v Metric" where
  "counter rx name w = \<lparr>me_MatchMessage = Some rx, me_MatchFields = [], me_Value = [], me_Name = name, me_Window = w,
     me_Aggregate = AggSum, me_Transform = None, me_Parser = None\<rparr>"

definition fresh :: "nat \<Rightarrow> 'v metricAggregated" where
  "fresh w = \<lparr>ma_values = [], ma_aggregate = AggSum, ma_window = w\<rparr>"

definition plain_name :: "string \<Rightarrow> bool" where
  "plain_name name \<longleftrightarrow> name \<noteq> [] \<and> CHR ''%'' \<notin> set name \<and> tokenBackslash \<notin> set name"

lemma escape_plain: "set t \<inter> set S = {} \<Longrightarrow> escape S t = t"
  by (induction t) auto

lemma ParsePercent_plain: "plain_name name \<Longrightarrow> ParsePercent name = [Lit name]"
proof -
  assume "plain_name name"
  then have "render (CHR ''%'') [Lit name] = name" "parsed_ok [Lit name]"
    by (auto simp: plain_name_def escape_plain)
  then show ?thesis using percent.parse_render [of "[Lit name]"] by (simp add: ParsePercent_def percentParser_def)
qed

lemma collect_counter:
  assumes "plain_name name"
  shows "collect cv tm now msg flds [counter rx name w] points =
    (if rx msg then go_bind (ma_add now \<lparr>mp_value = 1, mp_time = tm\<rparr> (case points name of None \<Rightarrow> fresh w | Some m \<Rightarrow> m)) (\<lambda>m. Ret (points(name \<mapsto> m)))
     else Ret points)"
  using ParsePercent_plain [OF assms]
  by (cases "points name"; cases "ma_add now \<lparr>mp_value = 1, mp_time = tm\<rparr> (case points name of None \<Rightarrow> fresh w | Some m \<Rightarrow> m)")
    (simp_all add: collect_one_def match_metric_def counter_def metric_value_def record_point_def Let_def fresh_def)

definition counted :: "(string \<Rightarrow> bool) \<Rightarrow> (Time \<times> Time \<times> string \<times> 'v rval) list \<Rightarrow> (Time \<times> 'v :: one metricPoint) list" where
  "counted rx es = map (\<lambda>(tm, now, msg, flds). (now, \<lparr>mp_value = 1, mp_time = tm\<rparr>)) (filter (\<lambda>(tm, now, msg, flds). rx msg) es)"

lemma log_all_counter:
  assumes "plain_name name"
  shows "log_all cv [counter rx name w] es points =
    (if counted rx es = [] then Ret points
     else go_bind (add_all (counted rx es) (case points name of None \<Rightarrow> fresh w | Some m \<Rightarrow> m)) (\<lambda>m. Ret (points(name \<mapsto> m))))"
proof (induction es arbitrary: points)
  case (Cons e es)
  obtain tm now msg flds where e: "e = (tm, now, msg, flds)" by (cases e)
  show ?case
  proof (cases "rx msg")
    case True
    let ?r = "ma_add now \<lparr>mp_value = 1, mp_time = tm\<rparr> (case points name of None \<Rightarrow> fresh w | Some m \<Rightarrow> m)"
    have c: "counted rx (e # es) = (now, \<lparr>mp_value = 1, mp_time = tm\<rparr>) # counted rx es" using True by (simp add: counted_def e)
    show ?thesis
    proof (cases ?r)
      case (Ret m)
      have "log_all cv [counter rx name w] (e # es) points = log_all cv [counter rx name w] es (points(name \<mapsto> m))"
        using True Ret by (simp add: e collect_counter [OF assms] del: collect.simps)
      also have "\<dots> = go_bind (add_all (counted rx es) m) (\<lambda>m. Ret (points(name \<mapsto> m)))"
        unfolding Cons.IH by (cases "counted rx es = []") simp_all
      finally show ?thesis unfolding c using Ret by simp
    qed (use True c in \<open>simp add: e collect_counter [OF assms] del: collect.simps\<close>)
  next
    case False
    then have c: "counted rx (e # es) = counted rx es" by (simp add: counted_def e)
    have "log_all cv [counter rx name w] (e # es) points = log_all cv [counter rx name w] es points"
      using False by (simp add: e collect_counter [OF assms] del: collect.simps)
    then show ?thesis unfolding c by (simp only: Cons.IH)
  qed
qed (simp add: counted_def)

text \<open>The clock readings of a run: in order, none from before 1970, none in the future of \<open>t\<close>.\<close>

definition clock_ok :: "Time \<Rightarrow> (Time \<times> Time \<times> string \<times> 'v rval) list \<Rightarrow> bool" where
  "clock_ok t es \<longleftrightarrow> sorted (map (\<lambda>(tm, now, msg, flds). now) es) \<and>
     list_all (\<lambda>(tm, now, msg, flds). unix_epoch \<le> tm \<and> tm \<le> now \<and> now \<le> t) es"

lemma counted_history:
  assumes "clock_ok t es"
  shows "history_ok (counted rx es)" "\<forall>e \<in> set (counted rx es). fst e \<le> t" "counted rx es \<noteq> [] \<Longrightarrow> unix_epoch \<le> t"
proof -
  have "sorted (map fst (counted rx es))"
  proof -
    have "map fst (counted rx es) = map (\<lambda>(tm, now, msg, flds). now) (filter (\<lambda>(tm, now, msg, flds). rx msg) es)"
      by (auto simp: counted_def)
    then show ?thesis using assms sorted_filter [of "\<lambda>(tm, now, msg, flds). now" es] by (simp add: clock_ok_def)
  qed
  then show "history_ok (counted rx es)" using assms
    by (force simp: history_ok_def counted_def clock_ok_def list_all_iff)
  show "\<forall>e \<in> set (counted rx es). fst e \<le> t" using assms
    by (force simp: counted_def clock_ok_def list_all_iff)
  show "unix_epoch \<le> t" if ne: "counted rx es \<noteq> []"
  proof -
    obtain tm now msg flds where "(tm, now, msg, flds) \<in> set es" using ne by (cases es) (auto simp: counted_def)
    then show ?thesis using assms by (force simp: clock_ok_def list_all_iff)
  qed
qed

subsection \<open>Properties\<close>

text \<open>
  C36: A metric that counts messages over a window of \<open>w\<close> minutes shows, once a message has
  matched, at least the number of matching messages of the last \<open>w\<close> minutes and at most the
  number of all matching messages; nothing panics on the way.
\<close>

theorem message_counter_bounds:
  fixes cv :: "int conv"
  assumes "plain_name name" "0 < w" "w < 2 ^ 27" "clock_ok t es" "counted rx es \<noteq> []"
  shows "\<exists>points x. log_all cv [counter rx name w] es Map.empty = Ret points \<and> handle_point t name points = Some x \<and>
    int (length (filter (\<lambda>(now, p). t - int w * Minute \<le> mp_time p) (counted rx es))) \<le> mp_value x \<and>
    mp_value x \<le> int (length (counted rx es))"
proof -
  let ?h = "counted rx es"
  obtain m K where mK: "add_all ?h (fresh w) = Ret m" "mset K \<subseteq># mset (map snd ?h)"
    "filter_mset (\<lambda>p. window_start w t \<le> mp_time p) (mset (map snd ?h)) \<subseteq># mset K" "slot_rel (+) (ma_get t m) K"
    using sum_window.get_fold [OF counted_history(1,2) [OF assms(4), of rx] assms(2,3) counted_history(3) [OF assms(4,5)]]
    unfolding fresh_def by blast
  have "\<forall>p \<in> set K. mp_value p = 1" using set_mset_mono [OF mK(2)] by (force simp: counted_def)
  then have "map mp_value K = replicate (length K) 1" by (simp add: map_replicate_const [symmetric] cong: map_cong)
  then have "mp_value (ma_get t m) = int (length K)"
    using mK(4) fold1_sum [of "map mp_value K"] by (cases "K = []") (simp_all add: slot_rel_def zero_point_def sum_list_replicate)
  moreover have "length K \<le> length ?h" using size_mset_mono [OF mK(2)] by simp
  moreover have "length (filter (\<lambda>(now, p). t - int w * Minute \<le> mp_time p) ?h) \<le> length K"
  proof -
    have "filter_mset (\<lambda>p. window_start w t \<le> mp_time p) (mset (map snd ?h)) = mset (filter (\<lambda>p. window_start w t \<le> mp_time p) (map snd ?h))"
      by (rule mset_filter [symmetric])
    also have "filter (\<lambda>p. window_start w t \<le> mp_time p) (map snd ?h) = map snd (filter (\<lambda>(now, p). t - int w * Minute \<le> mp_time p) ?h)"
      unfolding window_start_eq [OF assms(3)] filter_map by (simp add: comp_def case_prod_beta')
    finally have eq: "filter_mset (\<lambda>p. window_start w t \<le> mp_time p) (mset (map snd ?h)) =
      mset (map snd (filter (\<lambda>(now, p). t - int w * Minute \<le> mp_time p) ?h))" .
    show ?thesis using size_mset_mono [OF mK(3)] unfolding eq size_mset length_map .
  qed
  ultimately show ?thesis using assms(5) mK(1)
    by (simp add: log_all_counter [OF assms(1)] handle_point_def)
qed

theorem message_counter_bounds_witness:
  "\<exists>points x. log_all \<lparr>cv_sprint = (\<lambda>v. ''''), cv_ParseFloat = (\<lambda>t. None), cv_int = (\<lambda>i. i), cv_Seconds = (\<lambda>d. d)\<rparr>
      [counter (\<lambda>msg. msg = ''sent'') ''out'' 5] [(unix_epoch, unix_epoch, ''sent'', RMap PlainString [])] Map.empty = Ret points \<and>
    handle_point (unix_epoch + Minute) ''out'' points = Some x \<and> 1 \<le> mp_value x \<and> mp_value x \<le> 1"
  using message_counter_bounds [of "''out''" 5 "unix_epoch + Minute" "[(unix_epoch, unix_epoch, ''sent'', RMap PlainString [])]" "\<lambda>msg. msg = ''sent''"
      "\<lparr>cv_sprint = (\<lambda>v. ''''), cv_ParseFloat = (\<lambda>t. None), cv_int = (\<lambda>i. i), cv_Seconds = (\<lambda>d. d)\<rparr>"]
  by (simp add: plain_name_def tokenBackslash_def clock_ok_def counted_def units del: log_all.simps)

text \<open>A path with an index past the end of a list panics in the logger, instead of naming no field.\<close>

lemma index_path_panics:
  "byPath False (RMap PlainString [(''list'', RSlice [RInt 1, RInt 2])]) ''list.1'' = Ret (False, RInt 2 :: int rval) \<and>
   byPath False (RMap PlainString [(''list'', RSlice [RInt 1, RInt 2 :: int rval])]) ''list.2'' = Panic ''reflect: slice index out of range''"
  by code_simp

text \<open>\<open>Panic\<close> is collected at level \<open>Error\<close> and above only, unlike in the other loggers.\<close>

lemma panic_not_collected: "ml_Panic ''m'' \<lparr>ml_level = lvl_Panic, ml_fields = Map.empty\<rparr> = ([], Panic ''m'')"
  by (simp add: ml_Panic_def lvl_defs)

end
