(* ===== verification/Supervisor.thy ===== *)
theory Supervisor
  imports Err_Util Go_Machine
begin

text \<open>
  Package \<open>supervisor\<close>: \<open>Supervisor\<close> (\<open>src/supervisor/supervisor.go\<close>) as a machine. A service
  is known by its number; what it does on its wait channel (an error, a nil value, closing) is an
  event, and so are the receives of whoever waits for the supervisor. Logging is left out, and the
  system monitor that \<open>Watch\<close> adds is a service given as an argument.
\<close>

subsection \<open>Definitions\<close>

datatype su_ctx = NoCtx | Running | Cancelled

datatype su_pc = Idle | Monitor | Report err | Closed

record Supervisor =
  su_ctx :: su_ctx
  su_services :: "nat list"
  su_pc :: su_pc
  su_err :: "err option"
  su_got :: "err list"

definition su_New :: Supervisor where
  "su_New = \<lparr>su_ctx = NoCtx, su_services = [], su_pc = Idle, su_err = None, su_got = []\<rparr>"

definition su_Watch :: "nat \<Rightarrow> nat list \<Rightarrow> Supervisor \<Rightarrow> Supervisor go" where
  "su_Watch sysmon services s =
     (if su_ctx s \<noteq> NoCtx then Panic ''supervisor was already started''
      else Ret (s\<lparr>su_services := su_services s @ services @ [sysmon]\<rparr>))"

text \<open>
  The services are started in order; \<open>start_err\<close> gives the result of each \<open>Start\<close>. The loop
  returns the services that were started and the error it stopped with.
\<close>

fun start_loop :: "(nat \<Rightarrow> err option) \<Rightarrow> nat list \<Rightarrow> nat list \<times> err option" where
  "start_loop start_err [] = ([], None)"
| "start_loop start_err (srv # srvs) =
     (case start_err srv of
        Some e \<Rightarrow> ([], Some e)
      | None \<Rightarrow> (case start_loop start_err srvs of (started, e) \<Rightarrow> (srv # started, e)))"

definition su_Start :: "bool \<Rightarrow> (nat \<Rightarrow> err option) \<Rightarrow> Supervisor \<Rightarrow> Supervisor \<times> err option" where
  "su_Start ctx_nil start_err s =
     (if su_ctx s \<noteq> NoCtx then (s, Some (Err ''service can be started only once''))
      else if ctx_nil then (s, Some (Err ''context must not be nil''))
      else case snd (start_loop start_err (su_services s)) of
          Some e \<Rightarrow> (s\<lparr>su_ctx := Cancelled, su_pc := Closed\<rparr>, Some e)
        | None \<Rightarrow> (s\<lparr>su_ctx := Running, su_pc := Monitor\<rparr>, None))"

datatype su_event =
    Crash nat err     \<comment> \<open>an error is received from the service at this position\<close>
  | NilValue nat      \<comment> \<open>a nil value is received from it\<close>
  | Stopped nat       \<comment> \<open>its wait channel is found closed\<close>
  | LoopEnds          \<comment> \<open>no service is left\<close>
  | ErrReceived       \<comment> \<open>the error is received from the supervisor's wait channel\<close>
  | CtxDone           \<comment> \<open>the context given to \<open>Start\<close> is cancelled\<close>

definition remove_nth :: "nat \<Rightarrow> 'a list \<Rightarrow> 'a list" where
  "remove_nth n xs = take n xs @ drop (n + 1) xs"

fun su_step :: "su_event \<Rightarrow> Supervisor \<Rightarrow> Supervisor option" where
  "su_step (Crash n e) s =
     guard (su_pc s = Monitor \<and> n < length (su_services s))
       (s\<lparr>su_err := (if su_err s = None then Append (su_err s) [Some e] else su_err s), su_ctx := Cancelled\<rparr>)"
| "su_step (NilValue n) s = guard (su_pc s = Monitor \<and> n < length (su_services s)) s"
| "su_step (Stopped n) s =
     guard (su_pc s = Monitor \<and> n < length (su_services s)) (s\<lparr>su_services := remove_nth n (su_services s)\<rparr>)"
| "su_step LoopEnds s =
     guard (su_pc s = Monitor \<and> su_services s = [])
       (s\<lparr>su_pc := (case su_err s of None \<Rightarrow> Closed | Some e \<Rightarrow> Report e)\<rparr>)"
| "su_step ErrReceived s =
     (case su_pc s of Report e \<Rightarrow> Some (s\<lparr>su_got := su_got s @ [e], su_pc := Closed\<rparr>) | _ \<Rightarrow> None)"
| "su_step CtxDone s = guard (su_ctx s = Running) (s\<lparr>su_ctx := Cancelled\<rparr>)"

subsection \<open>Lemmas\<close>

text \<open>
  The first error of a sequence of events, as \<open>Append\<close> keeps it (an error list with one element
  is that element, an empty one is no error).
\<close>

fun first_crash :: "su_event list \<Rightarrow> err option" where
  "first_crash [] = None"
| "first_crash (Crash n e # evs) = (case Append None [Some e] of None \<Rightarrow> first_crash evs | Some r \<Rightarrow> Some r)"
| "first_crash (_ # evs) = first_crash evs"

fun crashes :: "su_event list \<Rightarrow> bool" where
  "crashes [] = False"
| "crashes (Crash n e # evs) = True"
| "crashes (_ # evs) = crashes evs"

definition stops :: "su_event list \<Rightarrow> nat" where
  "stops evs = length (filter (\<lambda>ev. case ev of Stopped n \<Rightarrow> True | _ \<Rightarrow> False) evs)"

lemma first_crash_snoc: "first_crash (evs @ [ev]) = (case first_crash evs of None \<Rightarrow> first_crash [ev] | Some e \<Rightarrow> Some e)"
  by (induction evs rule: first_crash.induct) (auto split: option.splits)

lemma crashes_snoc: "crashes (evs @ [ev]) \<longleftrightarrow> crashes evs \<or> crashes [ev]"
  by (induction evs rule: crashes.induct) auto

definition su_inv :: "nat \<Rightarrow> su_event list \<Rightarrow> Supervisor \<Rightarrow> bool" where
  "su_inv k evs s \<longleftrightarrow> su_err s = first_crash evs \<and> (crashes evs \<longrightarrow> su_ctx s = Cancelled) \<and>
     length (su_services s) + stops evs = k \<and>
     (case su_pc s of
        Idle \<Rightarrow> False
      | Monitor \<Rightarrow> su_got s = []
      | Report e \<Rightarrow> su_services s = [] \<and> su_got s = [] \<and> su_err s = Some e
      | Closed \<Rightarrow> su_services s = [] \<and> su_got s = (case su_err s of None \<Rightarrow> [] | Some e \<Rightarrow> [e]))"

lemma length_remove_nth: "n < length xs \<Longrightarrow> length (remove_nth n xs) = length xs - 1"
  by (auto simp: remove_nth_def)

lemma su_inv_step: "su_step ev s = Some s' \<Longrightarrow> su_inv k evs s \<Longrightarrow> su_inv k (evs @ [ev]) s'"
proof (cases ev)
  case (Crash n e)
  assume "su_step ev s = Some s'" "su_inv k evs s"
  with Crash show ?thesis
    by (cases "first_crash evs") (auto simp: su_inv_def first_crash_snoc crashes_snoc stops_def split: option.splits su_pc.splits)
next
  case (Stopped n)
  assume "su_step ev s = Some s'" "su_inv k evs s"
  with Stopped show ?thesis
    by (auto simp: su_inv_def first_crash_snoc crashes_snoc stops_def length_remove_nth split: option.splits)
qed (auto simp: su_inv_def first_crash_snoc crashes_snoc stops_def split: option.splits su_pc.splits)

lemma su_inv_run: "run su_step evs s0 = Some s \<Longrightarrow> su_inv k [] s0 \<Longrightarrow> su_inv k evs s"
proof (induction evs arbitrary: s rule: rev_induct)
  case (snoc ev evs)
  obtain s1 where s1: "run su_step evs s0 = Some s1" "su_step ev s1 = Some s"
    using snoc.prems(1) by (auto simp: run_append split: option.splits)
  show ?case by (rule su_inv_step [OF s1(2) snoc.IH [OF s1(1) snoc.prems(2)]])
qed simp

lemma stop_all:
  "su_pc s = Monitor \<Longrightarrow> length (su_services s) = n \<Longrightarrow> run su_step (replicate n (Stopped 0)) s = Some (s\<lparr>su_services := []\<rparr>)"
proof (induction n arbitrary: s)
  case (Suc n)
  then obtain x xs where "su_services s = x # xs" by (cases "su_services s") auto
  then show ?case using Suc.prems Suc.IH [of "s\<lparr>su_services := xs\<rparr>"] by (simp add: remove_nth_def guard_def)
qed simp

lemma start_loop_started:
  "start_loop f srvs = (takeWhile (\<lambda>srv. f srv = None) srvs,
     (case dropWhile (\<lambda>srv. f srv = None) srvs of [] \<Rightarrow> None | srv # _ \<Rightarrow> f srv))"
  by (induction srvs) (auto split: option.splits)

subsection \<open>Properties\<close>

text \<open>
  C8: A supervisor whose services all started cancels their context as soon as one fails; its
  wait channel is closed only after every service has stopped, and yields before that the first
  error that occurred and nothing else.
\<close>

theorem supervisor_reports_first_error:
  assumes "su_ctx s0 = NoCtx" "su_err s0 = None" "su_got s0 = []" "\<forall>srv \<in> set (su_services s0). start_err srv = None"
    and "run su_step evs (fst (su_Start False start_err s0)) = Some s"
  shows "(if crashes evs then su_ctx s = Cancelled else True) \<and>
    length (su_services s) + stops evs = length (su_services s0) \<and>
    (if su_pc s = Closed then su_services s = [] \<and> su_got s = (case first_crash evs of None \<Rightarrow> [] | Some e \<Rightarrow> [e]) else su_got s = [])"
proof -
  have none: "dropWhile (\<lambda>srv. start_err srv = None) (su_services s0) = []" using assms(4) by simp
  have "snd (start_loop start_err (su_services s0)) = None" unfolding start_loop_started none by simp
  then have "su_inv (length (su_services s0)) [] (fst (su_Start False start_err s0))"
    using assms(1-3) by (simp add: su_Start_def su_inv_def stops_def)
  from su_inv_run [OF assms(5) this] show ?thesis by (auto simp: su_inv_def split: su_pc.splits)
qed

theorem supervisor_reports_first_error_witness:
  "\<exists>s. run su_step [Crash 1 (Err ''a''), Stopped 0, Crash 0 (Err ''b''), Stopped 0, LoopEnds, ErrReceived]
      (fst (su_Start False (\<lambda>srv. None) (su_New\<lparr>su_services := [7, 8]\<rparr>))) = Some s \<and> su_got s = [Err ''a'']"
proof -
  let ?evs = "[Crash 1 (Err ''a''), Stopped 0, Crash 0 (Err ''b''), Stopped 0, LoopEnds, ErrReceived]"
  let ?s0 = "su_New\<lparr>su_services := [7, 8]\<rparr>"
  obtain s where s: "run su_step ?evs (fst (su_Start False (\<lambda>srv. None) ?s0)) = Some s" "su_pc s = Closed"
    by (simp add: su_Start_def su_New_def guard_def remove_nth_def Append_def)
  with supervisor_reports_first_error [OF _ _ _ _ s(1)] show ?thesis
    by (simp add: su_New_def Append_def)
qed


end
