(* ===== verification/Reloader.thy ===== *)
theory Reloader
  imports Supervisor
begin

text \<open>
  \<open>Reloader\<close> (\<open>src/supervisor/reloader.go\<close>) as a machine: the reloading goroutine, the
  goroutine that runs the factory, and the wrapped services. A service is known by its number, 0 is
  the dummy service; \<open>rl_live\<close> lists the services that were started and have not closed their wait
  channel yet. By the contract of \<open>Service\<close> a wait channel carries errors and is closed when the
  service has stopped; a factory sends services that are not running.
\<close>

subsection \<open>Definitions\<close>

datatype rl_pc =
    RNotStarted
  | Select            \<comment> \<open>the \<open>select\<close> of \<open>serviceReloaderRoutine\<close>\<close>
  | StopOld nat       \<comment> \<open>\<open>reloadService\<close> waits for the old service\<close>
  | StartNew          \<comment> \<open>\<open>reloadService\<close> has installed the new service\<close>
  | Leave             \<comment> \<open>the loop has returned, the deferred function is next\<close>
  | SendErr err       \<comment> \<open>the deferred function sends the error, holding the mutex\<close>
  | Left

record Reloader =
  rl_ctx :: su_ctx
  rl_pc :: rl_pc
  rl_factory_set :: bool
  rl_service :: nat
  rl_service_cancelled :: bool
  rl_err :: "err option"
  rl_live :: "nat list"
  rl_closed :: bool
  rl_panicked :: bool
  rl_got :: "err list"

definition NewReloader :: Reloader where
  "NewReloader = \<lparr>rl_ctx = NoCtx, rl_pc = RNotStarted, rl_factory_set = False, rl_service = 0, rl_service_cancelled = False,
     rl_err = None, rl_live = [], rl_closed = False, rl_panicked = False, rl_got = []\<rparr>"

definition rl_Start :: "bool \<Rightarrow> Reloader \<Rightarrow> Reloader \<times> err option" where
  "rl_Start ctx_nil r =
     (if rl_ctx r \<noteq> NoCtx then (r, Some (Err ''service can be started only once''))
      else if ctx_nil then (r, Some (Err ''context must not be nil''))
      else (r\<lparr>rl_ctx := Running, rl_service := 0, rl_live := [0], rl_pc := Select\<rparr>, None))"

datatype rl_event =
    StartCalled
  | CtxCancelled
  | FactoryRuns             \<comment> \<open>\<open>serviceFactoryRoutine\<close> sets its context\<close>
  | FactoryFails err        \<comment> \<open>the factory returns an error\<close>
  | FactorySends nat        \<comment> \<open>a service is received from the factory\<close>
  | FactoryCloses           \<comment> \<open>the factory channel is found closed\<close>
  | ServiceFails err        \<comment> \<open>an error is received from the current service\<close>
  | ServiceStops            \<comment> \<open>the current service closes its wait channel\<close>
  | StopSeen                \<comment> \<open>the reloading goroutine finds that channel closed\<close>
  | NewStarted "err option" \<comment> \<open>\<open>Start\<close> of the new service returns\<close>
  | Deferred                \<comment> \<open>the deferred function runs up to the send\<close>
  | ErrTaken                \<comment> \<open>the error is received from the reloader's wait channel\<close>

definition stop_failed :: "err \<Rightarrow> err" where
  "stop_failed e = Err (''service reloader: failed to stop service: '' @ Error_text e)"

definition start_failed :: "err \<Rightarrow> err" where
  "start_failed e = Err (''service reloader: failed to start service: '' @ Error_text e)"

definition rl_mu_free :: "Reloader \<Rightarrow> bool" where
  "rl_mu_free r \<longleftrightarrow> (case rl_pc r of SendErr e \<Rightarrow> False | _ \<Rightarrow> True)"

fun rl_step :: "rl_event \<Rightarrow> Reloader \<Rightarrow> Reloader option" where
  "rl_step StartCalled r = Some (fst (rl_Start False r))"
| "rl_step CtxCancelled r = guard (rl_ctx r = Running) (r\<lparr>rl_ctx := Cancelled, rl_service_cancelled := True\<rparr>)"
| "rl_step FactoryRuns r = guard (rl_ctx r \<noteq> NoCtx \<and> \<not> rl_factory_set r \<and> rl_mu_free r) (r\<lparr>rl_factory_set := True\<rparr>)"
| "rl_step (FactoryFails e) r =
     guard (rl_factory_set r \<and> rl_mu_free r) (r\<lparr>rl_err := Append (rl_err r) [Some e], rl_service_cancelled := True\<rparr>)"
| "rl_step (FactorySends new) r =
     guard (rl_pc r = Select \<and> rl_factory_set r \<and> new \<noteq> 0 \<and> new \<notin> set (rl_live r))
       (r\<lparr>rl_service_cancelled := True, rl_pc := StopOld new\<rparr>)"
| "rl_step FactoryCloses r = guard (rl_pc r = Select \<and> rl_factory_set r) (r\<lparr>rl_pc := Leave\<rparr>)"
| "rl_step (ServiceFails e) r =
     (if rl_service r \<in> set (rl_live r) \<and> rl_service r \<noteq> 0 then
        (case rl_pc r of
           Select \<Rightarrow> Some (r\<lparr>rl_err := Append (rl_err r) [Some e], rl_pc := Leave\<rparr>)
         | StopOld new \<Rightarrow> Some (r\<lparr>rl_err := Append (rl_err r) [Some (stop_failed e)], rl_pc := Leave\<rparr>)
         | _ \<Rightarrow> None)
      else None)"
| "rl_step ServiceStops r =
     guard (rl_service r \<in> set (rl_live r) \<and> (rl_service r = 0 \<longrightarrow> rl_service_cancelled r))
       (r\<lparr>rl_live := removeAll (rl_service r) (rl_live r)\<rparr>)"
| "rl_step StopSeen r =
     (if rl_service r \<notin> set (rl_live r) then
        (case rl_pc r of
           Select \<Rightarrow> Some (r\<lparr>rl_pc := Leave\<rparr>)
         | StopOld new \<Rightarrow>
             Some (r\<lparr>rl_service := new, rl_service_cancelled := (rl_ctx r = Cancelled), rl_pc := StartNew\<rparr>)
         | _ \<Rightarrow> None)
      else None)"
| "rl_step (NewStarted res) r =
     guard (rl_pc r = StartNew)
       (case res of
          Some e \<Rightarrow> r\<lparr>rl_err := Append (rl_err r) [Some (start_failed e)], rl_pc := Leave\<rparr>
        | None \<Rightarrow> r\<lparr>rl_live := rl_service r # rl_live r, rl_pc := Select\<rparr>)"
| "rl_step Deferred r =
     guard (rl_pc r = Leave)
       (if \<not> rl_factory_set r then r\<lparr>rl_panicked := True, rl_pc := Left\<rparr>
        else case rl_err r of
            Some e \<Rightarrow> r\<lparr>rl_service_cancelled := True, rl_pc := SendErr e\<rparr>
          | None \<Rightarrow> r\<lparr>rl_service_cancelled := True, rl_closed := True, rl_pc := Left\<rparr>)"
| "rl_step ErrTaken r =
     (case rl_pc r of
        SendErr e \<Rightarrow> Some (r\<lparr>rl_got := rl_got r @ [e], rl_closed := True, rl_pc := Left\<rparr>)
      | _ \<Rightarrow> None)"

subsection \<open>Lemmas\<close>

definition rl_inv :: "Reloader \<Rightarrow> bool" where
  "rl_inv r \<longleftrightarrow> set (rl_live r) \<subseteq> {rl_service r} \<and> distinct (rl_live r) \<and>
     (rl_pc r = StartNew \<or> rl_pc r = RNotStarted \<longrightarrow> rl_live r = []) \<and>
     (rl_ctx r = NoCtx \<longleftrightarrow> rl_pc r = RNotStarted) \<and>
     (rl_ctx r = NoCtx \<longrightarrow> \<not> rl_factory_set r \<and> rl_err r = None) \<and>
     (rl_closed r \<longrightarrow> rl_pc r = Left \<and> rl_service_cancelled r) \<and>
     (rl_ctx r = Cancelled \<longrightarrow> rl_service_cancelled r) \<and>
     (\<forall>e. rl_pc r = SendErr e \<longrightarrow> rl_service_cancelled r) \<and>
     (\<not> rl_closed r \<longrightarrow> rl_got r = []) \<and> length (rl_got r) \<le> 1"

lemma rl_inv_step: "rl_step e r = Some r' \<Longrightarrow> rl_inv r \<Longrightarrow> rl_inv r'"
proof (cases e)
  case StartCalled
  assume st: "rl_step e r = Some r'" and inv: "rl_inv r"
  show ?thesis
  proof (cases "rl_ctx r = NoCtx")
    case True
    then have "r' = r\<lparr>rl_ctx := Running, rl_service := 0, rl_live := [0], rl_pc := Select\<rparr>" "rl_pc r = RNotStarted"
      using st inv StartCalled by (simp_all add: rl_Start_def rl_inv_def)
    then show ?thesis using inv by (simp add: rl_inv_def)
  qed (use st inv StartCalled in \<open>simp add: rl_Start_def\<close>)
next
  case (ServiceFails x)
  assume "rl_step e r = Some r'" "rl_inv r"
  with ServiceFails show ?thesis by (auto simp: rl_inv_def split: rl_pc.splits if_splits)
next
  case StopSeen
  assume st: "rl_step e r = Some r'" and inv: "rl_inv r"
  have "rl_live r = []"
  proof (cases "rl_live r")
    case (Cons x xs)
    then show ?thesis using st StopSeen inv by (auto simp: rl_inv_def split: if_splits)
  qed
  with st inv StopSeen show ?thesis by (cases "rl_pc r") (simp_all add: rl_inv_def split: if_splits, auto)
next
  case (NewStarted res)
  assume "rl_step e r = Some r'" "rl_inv r"
  with NewStarted show ?thesis by (cases res) (auto simp: rl_inv_def)
next
  case Deferred
  assume "rl_step e r = Some r'" "rl_inv r"
  with Deferred show ?thesis by (cases "rl_err r") (auto simp: rl_inv_def split: if_splits)
next
  case ErrTaken
  assume "rl_step e r = Some r'" "rl_inv r"
  with ErrTaken show ?thesis by (auto simp: rl_inv_def split: rl_pc.splits)
next
  case ServiceStops
  assume st: "rl_step e r = Some r'" and inv: "rl_inv r"
  have "set (removeAll (rl_service r) (rl_live r)) \<subseteq> {rl_service r}" "distinct (removeAll (rl_service r) (rl_live r))"
    using inv by (auto simp: rl_inv_def distinct_removeAll)
  then show ?thesis using st inv ServiceStops by (clarsimp simp: rl_inv_def)
qed (clarsimp simp: rl_inv_def)+

interpretation reloader: machine rl_step rl_inv
  by unfold_locales (rule rl_inv_step)

subsection \<open>Properties\<close>

text \<open>
  C21: In every interleaving at most one wrapped service runs at a time, the current one; at most
  one value is sent on the wait channel; and when it is closed the context of the current service
  has been cancelled.
\<close>

theorem reloader_one_service:
  assumes "run rl_step evs NewReloader = Some r"
  shows "length (rl_live r) \<le> 1 \<and> set (rl_live r) \<subseteq> {rl_service r} \<and> length (rl_got r) \<le> 1 \<and>
    (if rl_closed r then rl_service_cancelled r else rl_got r = [])"
proof -
  have "rl_inv NewReloader" by (simp add: rl_inv_def NewReloader_def)
  then have inv: "rl_inv r" by (rule reloader.inv_run [OF assms])
  have "card (set (rl_live r)) \<le> card {rl_service r}" using inv by (intro card_mono) (simp_all add: rl_inv_def)
  then have "length (rl_live r) \<le> 1" using inv by (simp add: rl_inv_def distinct_card)
  then show ?thesis using inv by (simp add: rl_inv_def)
qed

theorem reloader_one_service_witness:
  "\<exists>r. run rl_step [StartCalled, FactoryRuns, FactorySends 5, ServiceStops, StopSeen, NewStarted None, FactorySends 6,
      ServiceStops, StopSeen, NewStarted None] NewReloader = Some r \<and> rl_live r = [6] \<and> length (rl_live r) \<le> 1"
proof -
  let ?evs = "[StartCalled, FactoryRuns, FactorySends 5, ServiceStops, StopSeen, NewStarted None, FactorySends 6,
      ServiceStops, StopSeen, NewStarted None]"
  obtain r where r: "run rl_step ?evs NewReloader = Some r" "rl_live r = [6]"
    by (simp add: NewReloader_def rl_Start_def guard_def rl_mu_free_def)
  with reloader_one_service [OF r(1)] show ?thesis by blast
qed

text \<open>
  When the factory closes its channel the wait channel is closed without waiting for the wrapped
  service, which may still be running.
\<close>

lemma closed_factory_leaves_service_running:
  "\<exists>r. run rl_step [StartCalled, FactoryRuns, FactorySends 5, ServiceStops, StopSeen, NewStarted None, FactoryCloses, Deferred]
      NewReloader = Some r \<and> rl_closed r \<and> rl_live r = [5]"
  by (simp add: NewReloader_def rl_Start_def guard_def rl_mu_free_def)

text \<open>
  When the context is cancelled right after \<open>Start\<close>, the reloading goroutine can return before the
  factory goroutine has set \<open>factoryCancel\<close>, and calls a nil function.
\<close>

lemma early_cancel_panics:
  "\<exists>r. run rl_step [StartCalled, CtxCancelled, ServiceStops, StopSeen, Deferred] NewReloader = Some r \<and> rl_panicked r"
  by (simp add: NewReloader_def rl_Start_def guard_def)

end
