(* ===== verification/Fs_Util.thy ===== *)
theory Fs_Util
  imports Err_Util
begin

text \<open>
  Package \<open>fsutil\<close> (\<open>src/fsutil/fsutil.go\<close>): a file system that asks several ones in turn. A
  member is the record of what the functions of \<open>io/fs\<close> return for it. A method returns a pair of
  a result and an error, either of which may be nil.
\<close>

subsection \<open>Definitions\<close>

record ('file, 'info, 'dir, 'sub) fs_ops =
  fs_Open :: "string \<Rightarrow> err + 'file"
  fs_Glob :: "string \<Rightarrow> err + string list"
  fs_Stat :: "string \<Rightarrow> err + 'info"
  fs_ReadFile :: "string \<Rightarrow> err + string"
  fs_ReadDir :: "string \<Rightarrow> err + 'dir"
  fs_Sub :: "string \<Rightarrow> err + 'sub"

text \<open>The loop that all methods but \<open>Glob\<close> share.\<close>

fun first_fs :: "('fs \<Rightarrow> err + 'a) \<Rightarrow> err option \<Rightarrow> 'fs list \<Rightarrow> 'a option \<times> err option" where
  "first_fs op err [] = (None, err)"
| "first_fs op err (f # fs) =
     (case op f of
        Inl fsErr \<Rightarrow> first_fs op (Append err [Some fsErr]) fs
      | Inr r \<Rightarrow> (Some r, None))"

definition chain_Open :: "('f, 'i, 'd, 's) fs_ops list \<Rightarrow> string \<Rightarrow> 'f option \<times> err option" where
  "chain_Open c name = first_fs (\<lambda>f. fs_Open f name) None c"

definition chain_Stat :: "('f, 'i, 'd, 's) fs_ops list \<Rightarrow> string \<Rightarrow> 'i option \<times> err option" where
  "chain_Stat c name = first_fs (\<lambda>f. fs_Stat f name) None c"

definition chain_ReadFile :: "('f, 'i, 'd, 's) fs_ops list \<Rightarrow> string \<Rightarrow> string option \<times> err option" where
  "chain_ReadFile c name = first_fs (\<lambda>f. fs_ReadFile f name) None c"

definition chain_ReadDir :: "('f, 'i, 'd, 's) fs_ops list \<Rightarrow> string \<Rightarrow> 'd option \<times> err option" where
  "chain_ReadDir c name = first_fs (\<lambda>f. fs_ReadDir f name) None c"

definition chain_Sub :: "('f, 'i, 'd, 's) fs_ops list \<Rightarrow> string \<Rightarrow> 's option \<times> err option" where
  "chain_Sub c dir = first_fs (\<lambda>f. fs_Sub f dir) None c"

fun glob_loop :: "string \<Rightarrow> string list \<Rightarrow> ('f, 'i, 'd, 's) fs_ops list \<Rightarrow> err + string list" where
  "glob_loop pattern paths [] = Inr paths"
| "glob_loop pattern paths (f # fs) =
     (case fs_Glob f pattern of Inl fsErr \<Rightarrow> Inl fsErr | Inr fsPaths \<Rightarrow> glob_loop pattern (paths @ fsPaths) fs)"

definition chain_Glob :: "('f, 'i, 'd, 's) fs_ops list \<Rightarrow> string \<Rightarrow> err + string list" where
  "chain_Glob c pattern = glob_loop pattern [] c"

subsection \<open>Lemmas\<close>

definition failed :: "err + 'a \<Rightarrow> bool" where
  "failed r \<longleftrightarrow> (case r of Inl e \<Rightarrow> True | Inr x \<Rightarrow> False)"

definition err_of :: "err + 'a \<Rightarrow> err option" where
  "err_of r = (case r of Inl e \<Rightarrow> Some e | Inr x \<Rightarrow> None)"

text \<open>What the comments of the methods promise.\<close>

definition asks_in_turn :: "('fs \<Rightarrow> err + 'a) \<Rightarrow> 'fs list \<Rightarrow> 'a option \<times> err option \<Rightarrow> bool" where
  "asks_in_turn op c res \<longleftrightarrow>
     (if list_all (\<lambda>f. failed (op f)) c
      then fst res = None \<and> leaves_opt (snd res) = concat (map (\<lambda>f. leaves_opt (err_of (op f))) c)
      else \<exists>pre f post x. c = pre @ f # post \<and> list_all (\<lambda>f. failed (op f)) pre \<and> op f = Inr x \<and> res = (Some x, None))"

lemma first_fs_fails:
  "list_all (\<lambda>f. failed (op f)) c \<Longrightarrow> fst (first_fs op err c) = None \<and>
     leaves_opt (snd (first_fs op err c)) = leaves_opt err @ concat (map (\<lambda>f. leaves_opt (err_of (op f))) c)"
proof (induction c arbitrary: err)
  case (Cons f c)
  then obtain e where "op f = Inl e" by (cases "op f") (simp_all add: failed_def)
  moreover have "leaves_opt (Some e) = leaves e" by (simp add: leaves_opt_def)
  ultimately show ?case using Cons.IH [of "Append err [Some e]"] Cons.prems by (simp add: err_of_def leaves_Append)
qed simp

lemma first_fs_succeeds:
  "list_all (\<lambda>f. failed (op f)) pre \<Longrightarrow> op f = Inr x \<Longrightarrow> first_fs op err (pre @ f # post) = (Some x, None)"
proof (induction pre arbitrary: err)
  case (Cons g pre)
  then show ?case by (cases "op g") (simp_all add: failed_def)
qed simp

lemma first_fs_in_turn: "asks_in_turn op c (first_fs op None c)"
proof (cases "list_all (\<lambda>f. failed (op f)) c")
  case True
  then show ?thesis using first_fs_fails [OF True, of None] by (simp add: asks_in_turn_def leaves_opt_def)
next
  case False
  then obtain pre f post where c: "c = pre @ f # post" "\<not> failed (op f)" "\<forall>g \<in> set pre. failed (op g)"
    using split_list_first_prop [of c "\<lambda>f. \<not> failed (op f)"] by (auto simp: list_all_iff)
  then obtain x where "op f = Inr x" by (cases "op f") (simp_all add: failed_def)
  then have "c = pre @ f # post \<and> list_all (\<lambda>f. failed (op f)) pre \<and> op f = Inr x \<and> first_fs op None c = (Some x, None)"
    using c first_fs_succeeds by (auto simp: list_all_iff)
  then show ?thesis unfolding asks_in_turn_def using False by auto
qed

lemma glob_loop_spec:
  "glob_loop pattern paths c =
     (case filter (\<lambda>f. failed (fs_Glob f pattern)) c of
        [] \<Rightarrow> Inr (paths @ concat (map (\<lambda>f. case fs_Glob f pattern of Inr ps \<Rightarrow> ps | Inl e \<Rightarrow> []) c))
      | f # _ \<Rightarrow> fs_Glob f pattern)"
proof (induction c arbitrary: paths)
  case (Cons f c)
  then show ?case by (cases "fs_Glob f pattern") (auto simp: failed_def split: list.splits)
qed simp

subsection \<open>Properties\<close>

text \<open>
  Each method returns the result of the first member that succeeds, without an error; if
  none does, the error it returns is made of all errors of all members, in their order. \<open>Glob\<close>
  returns the paths of all members in their order, or the first error.
\<close>

theorem chain_fs_asks_in_turn:
  "asks_in_turn (\<lambda>f. fs_Open f name) c (chain_Open c name) \<and> asks_in_turn (\<lambda>f. fs_Stat f name) c (chain_Stat c name) \<and>
   asks_in_turn (\<lambda>f. fs_ReadFile f name) c (chain_ReadFile c name) \<and> asks_in_turn (\<lambda>f. fs_ReadDir f name) c (chain_ReadDir c name) \<and>
   asks_in_turn (\<lambda>f. fs_Sub f name) c (chain_Sub c name) \<and>
   chain_Glob c name =
     (case filter (\<lambda>f. failed (fs_Glob f name)) c of
        [] \<Rightarrow> Inr (concat (map (\<lambda>f. case fs_Glob f name of Inr ps \<Rightarrow> ps | Inl e \<Rightarrow> []) c))
      | f # _ \<Rightarrow> fs_Glob f name)"
  by (simp add: chain_Open_def chain_Stat_def chain_ReadFile_def chain_ReadDir_def chain_Sub_def chain_Glob_def
      first_fs_in_turn glob_loop_spec split: list.split)

text \<open>Without any member a method returns neither a result nor an error.\<close>

lemma empty_chain_returns_nil: "chain_Open [] name = (None, None)"
  by (simp add: chain_Open_def)

end
