(* ===== verification/Retry.thy ===== *)
theory Retry
  imports Go_Prelude
begin

text \<open>
  Package \<open>retry\<close> (\<open>src/retry/retry.go\<close>). The function that is tried is given by the results of
  its successive calls, the context by the error it has when it is checked before each call. The
  waits between the calls are counted; their length is not modelled.
\<close>

subsection \<open>Definitions\<close>

text \<open>
  The loop of \<open>Try\<close> at attempt \<open>i\<close> with the last error: its result and how often \<open>f\<close> was
  called and a timer was awaited. The condition of the wait is the one of the source.
\<close>

function Try_loop :: "(nat \<Rightarrow> string option) \<Rightarrow> (nat \<Rightarrow> string option) \<Rightarrow> int \<Rightarrow> nat \<Rightarrow> string option \<Rightarrow> nat \<Rightarrow> nat \<Rightarrow>
    string option \<times> nat \<times> nat" where
  "Try_loop ctx f attempts i err calls waits =
     (if int i < attempts then
        (case ctx i of
           Some e \<Rightarrow> (Some e, calls, waits)
         | None \<Rightarrow>
             (case f i of
                None \<Rightarrow> (None, calls + 1, waits)
              | Some e \<Rightarrow>
                  Try_loop ctx f attempts (i + 1) (Some e) (calls + 1)
                    (if attempts < 0 \<or> int i < attempts then waits + 1 else waits)))
      else (err, calls, waits))"
  by pat_completeness auto
termination by (relation "measure (\<lambda>(ctx, f, attempts, i, err, calls, waits). nat (attempts - int i))") auto

declare Try_loop.simps [simp del]

definition Try :: "(nat \<Rightarrow> string option) \<Rightarrow> (nat \<Rightarrow> string option) \<Rightarrow> int \<Rightarrow> string option \<times> nat \<times> nat" where
  "Try ctx f attempts = Try_loop ctx f attempts 0 None 0 0"

text \<open>\<open>TryForever\<close> returns how often \<open>f\<close> was called; \<open>None\<close> means that it never returns.\<close>

partial_function (option) TryForever_loop :: "(nat \<Rightarrow> string option) \<Rightarrow> (nat \<Rightarrow> string option) \<Rightarrow> nat \<Rightarrow> nat option" where
  "TryForever_loop ctx f i =
     (if ctx i \<noteq> None then Some i
      else if f i = None then Some (i + 1)
      else TryForever_loop ctx f (i + 1))"

definition TryForever :: "(nat \<Rightarrow> string option) \<Rightarrow> (nat \<Rightarrow> string option) \<Rightarrow> nat option" where
  "TryForever ctx f = TryForever_loop ctx f 0"

subsection \<open>Lemmas\<close>

text \<open>Attempts up to \<open>k\<close> that all failed while the context was alive.\<close>

definition failing :: "(nat \<Rightarrow> string option) \<Rightarrow> (nat \<Rightarrow> string option) \<Rightarrow> nat \<Rightarrow> nat \<Rightarrow> bool" where
  "failing ctx f i k \<longleftrightarrow> (\<forall>j. i \<le> j \<longrightarrow> j < k \<longrightarrow> ctx j = None \<and> f j \<noteq> None)"

lemma Try_skip:
  assumes "failing ctx f i k" "i \<le> k" "int k \<le> attempts" "i < k \<or> err = (if i = 0 then None else f (i - 1))"
  shows "Try_loop ctx f attempts i err i i = Try_loop ctx f attempts k (if k = 0 then None else f (k - 1)) k k"
  using assms
proof (induction "k - i" arbitrary: i err)
  case (Suc n)
  then have ik: "i < k" by simp
  then obtain e where e: "ctx i = None" "f i = Some e" using Suc.prems(1) by (auto simp: failing_def)
  have "Try_loop ctx f attempts i err i i = Try_loop ctx f attempts (i + 1) (Some e) (i + 1) (i + 1)"
    using ik Suc.prems(3) e by (subst Try_loop.simps) simp
  also have "\<dots> = Try_loop ctx f attempts k (if k = 0 then None else f (k - 1)) k k"
    using Suc ik e by (intro Suc.hyps(1)) (auto simp: failing_def)
  finally show ?case .
qed auto

lemma TryForever_skip:
  "failing ctx f i k \<Longrightarrow> i \<le> k \<Longrightarrow> TryForever_loop ctx f i = TryForever_loop ctx f k"
proof (induction "k - i" arbitrary: i)
  case (Suc n)
  then have "ctx i = None \<and> f i \<noteq> None" by (auto simp: failing_def)
  then have "TryForever_loop ctx f i = TryForever_loop ctx f (i + 1)" by (subst TryForever_loop.simps) auto
  also have "\<dots> = TryForever_loop ctx f k" using Suc by (intro Suc.hyps(1)) (auto simp: failing_def)
  finally show ?case .
qed simp

lemma TryForever_returns:
  "TryForever_loop ctx f i = Some n \<Longrightarrow> \<exists>j \<ge> i. ctx j \<noteq> None \<or> f j = None"
proof (rule TryForever_loop.raw_induct [where P = "\<lambda>ctx f i n. \<exists>j \<ge> i. ctx j \<noteq> None \<or> f j = None"])
  fix loop and ctx f :: "nat \<Rightarrow> string option" and i n :: nat
  assume ih: "\<And>ctx f i n. loop ctx f i = Some n \<Longrightarrow> \<exists>j \<ge> i. ctx j \<noteq> None \<or> f j = None"
    and step: "(if ctx i \<noteq> None then Some i else if f i = None then Some (i + 1) else loop ctx f (i + 1)) = Some n"
  show "\<exists>j \<ge> i. ctx j \<noteq> None \<or> f j = None"
  proof (cases "ctx i \<noteq> None \<or> f i = None")
    case False
    then have "loop ctx f (i + 1) = Some n" using step by auto
    from ih [OF this] obtain j where "i + 1 \<le> j" "ctx j \<noteq> None \<or> f j = None" by blast
    then show ?thesis by (intro exI [of _ j]) simp
  qed auto
qed

subsection \<open>Properties\<close>

text \<open>
  With a live context \<open>Try\<close> calls \<open>f\<close> until its first success and no more than
  \<open>attempts\<close> times; it returns nil exactly after a success and otherwise the error of the last
  call; a context that is cancelled first ends it with the context's error.
\<close>

theorem Try_outcome:
  assumes "failing ctx f 0 k" "int k \<le> attempts"
  shows "(if int k = attempts then Try ctx f attempts = (if k = 0 then None else f (k - 1), k, k)
     else case ctx k of
         Some e \<Rightarrow> Try ctx f attempts = (Some e, k, k)
       | None \<Rightarrow> (if f k = None then Try ctx f attempts = (None, k + 1, k) else True))"
proof -
  have "Try ctx f attempts = Try_loop ctx f attempts k (if k = 0 then None else f (k - 1)) k k"
    unfolding Try_def using assms by (intro Try_skip) auto
  then show ?thesis using assms(2) by (subst (asm) Try_loop.simps) (auto split: option.splits)
qed

theorem Try_outcome_witness:
  "Try (\<lambda>i. None) (\<lambda>i. if i < 2 then Some ''e'' else None) 5 = (None, 3, 2)"
  using Try_outcome [of "\<lambda>i. None" "\<lambda>i. if i < 2 then Some ''e'' else None" 2 5] by (simp add: failing_def)

text \<open>
  \<open>TryForever\<close> returns if and only if \<open>f\<close> succeeds at some call or the context is
  cancelled before some call.
\<close>

theorem TryForever_terminates:
  "(\<exists>n. TryForever ctx f = Some n) = (\<exists>j. ctx j \<noteq> None \<or> f j = None)"
proof
  assume "\<exists>j. ctx j \<noteq> None \<or> f j = None"
  then obtain k where k: "ctx k \<noteq> None \<or> f k = None" "\<And>j. j < k \<Longrightarrow> \<not> (ctx j \<noteq> None \<or> f j = None)"
    using exists_least_iff [of "\<lambda>j. ctx j \<noteq> None \<or> f j = None"] by auto
  then have "TryForever ctx f = TryForever_loop ctx f k" unfolding TryForever_def
    by (intro TryForever_skip) (auto simp: failing_def)
  then show "\<exists>n. TryForever ctx f = Some n" using k(1) by (subst (asm) TryForever_loop.simps) (auto split: if_splits)
next
  assume "\<exists>n. TryForever ctx f = Some n"
  then show "\<exists>j. ctx j \<noteq> None \<or> f j = None" using TryForever_returns unfolding TryForever_def by blast
qed

text \<open>
  A negative number of attempts (which the condition of the wait seems to allow for) calls \<open>f\<close>
  never and reports success; and the last failing attempt is followed by a wait like the others.
\<close>

lemma negative_attempts_succeed: "Try ctx f (- 1) = (None, 0, 0)"
  by (simp add: Try_def Try_loop.simps)

lemma waits_after_last_attempt: "Try (\<lambda>i. None) (\<lambda>i. Some ''e'') 1 = (Some ''e'', 1, 1)"
  by (simp add: Try_def Try_loop.simps)

end
