(* ===== verification/Http.thy ===== *)
theory Http
  imports Go_Machine Log
begin

text \<open>
  The HTTP server (\<open>src/httpserver/httpserver.go\<close>), its middlewares (\<open>src/httpserver/middleware\<close>)
  and the transport of the RPC splitter (\<open>src/rpcsplitter/transport.go\<close>).

  A handler maps a request to the operations it performs on the \<open>http.ResponseWriter\<close>, in order,
  and its outcome (return or panic); a response writer is what interprets the operations: the one
  of \<open>net/http\<close>, where the first status sent counts, and the two recorders of the repository. A map of
  handlers is an association list in the order in which Go happens to range over it.
\<close>

subsection \<open>Definitions: requests and response writers\<close>

record request =
  rq_Method :: string
  rq_Path :: string
  rq_Host :: string
  rq_Body :: string

datatype rw_op = SetHeader string string | WriteHeader int | Write string

type_synonym handler = "request \<Rightarrow> rw_op list \<times> unit go"

definition set_header :: "string \<Rightarrow> string \<Rightarrow> (string \<times> string) list \<Rightarrow> (string \<times> string) list" where
  "set_header k v hs = (k, v) # filter (\<lambda>(k', v'). k' \<noteq> k) hs"

record response =
  rs_headers :: "(string \<times> string) list"
  rs_code :: "int option"
  rs_body :: string

text \<open>
  \<open>net/http\<close>: only the first status is sent, headers set later are not, and a body without a status has
  status 200.
\<close>

fun net_op :: "rw_op \<Rightarrow> response \<Rightarrow> response" where
  "net_op (SetHeader k v) r = (if rs_code r = None then r\<lparr>rs_headers := set_header k v (rs_headers r)\<rparr> else r)"
| "net_op (WriteHeader code) r = (if rs_code r = None then r\<lparr>rs_code := Some code\<rparr> else r)"
| "net_op (Write b) r = r\<lparr>rs_code := Some (case rs_code r of None \<Rightarrow> 200 | Some c \<Rightarrow> c), rs_body := rs_body r @ b\<rparr>"

text \<open>
  The recorder of the middleware package around another writer \<open>'w\<close>, whose operations are \<open>op\<close>. Its own
  \<open>headers\<close> are never filled: \<open>Header\<close> returns those of the writer below.
\<close>

record 'w mw_recorder =
  mr_rw :: 'w
  mr_code :: int
  mr_body :: string

definition mw_newRecorder :: "'w \<Rightarrow> 'w mw_recorder" where
  "mw_newRecorder rw = \<lparr>mr_rw = rw, mr_code = 200, mr_body = []\<rparr>"

fun mw_op :: "(rw_op \<Rightarrow> 'w \<Rightarrow> 'w) \<Rightarrow> rw_op \<Rightarrow> 'w mw_recorder \<Rightarrow> 'w mw_recorder" where
  "mw_op op (SetHeader k v) r = r\<lparr>mr_rw := op (SetHeader k v) (mr_rw r)\<rparr>"
| "mw_op op (Write buf) r = r\<lparr>mr_body := mr_body r @ buf, mr_rw := op (Write buf) (mr_rw r)\<rparr>"
| "mw_op op (WriteHeader code) r = r\<lparr>mr_code := code, mr_rw := op (WriteHeader code) (mr_rw r)\<rparr>"

text \<open>The recorder of the transport.\<close>

record tr_recorder =
  tr_code :: int
  tr_headers :: "(string \<times> string) list"
  tr_body :: string

definition tr_newRecorder :: tr_recorder where
  "tr_newRecorder = \<lparr>tr_code = 200, tr_headers = [], tr_body = []\<rparr>"

fun tr_op :: "rw_op \<Rightarrow> tr_recorder \<Rightarrow> tr_recorder" where
  "tr_op (SetHeader k v) r = r\<lparr>tr_headers := set_header k v (tr_headers r)\<rparr>"
| "tr_op (Write buf) r = r\<lparr>tr_body := tr_body r @ buf\<rparr>"
| "tr_op (WriteHeader code) r = r\<lparr>tr_code := code\<rparr>"

subsection \<open>Definitions: middlewares\<close>

definition CORS_Handle :: "(request \<Rightarrow> string) \<Rightarrow> (request \<Rightarrow> string) \<Rightarrow> (request \<Rightarrow> string) \<Rightarrow> handler \<Rightarrow> handler" where
  "CORS_Handle origin hdrs methods next_h r =
     (let o1 = SetHeader ''Access-Control-Allow-Origin'' (origin r) in
      if rq_Method r = ''OPTIONS'' then
        ([o1, SetHeader ''Access-Control-Allow-Headers'' (hdrs r), SetHeader ''Access-Control-Allow-Methods'' (methods r),
          SetHeader ''Access-Control-Max-Age'' ''86400'', WriteHeader 204], Ret ())
      else (case next_h r of (ops, res) \<Rightarrow> (o1 # ops, res)))"

definition Trim_slash :: "string \<Rightarrow> string" where
  "Trim_slash s = dropWhile (\<lambda>c. c = CHR ''/'') (TrimRight s (CHR ''/''))"

definition HealthCheck_Handle :: "string \<Rightarrow> (request \<Rightarrow> bool) option \<Rightarrow> handler \<Rightarrow> handler" where
  "HealthCheck_Handle p check next_h r =
     (let path = ''/'' @ Trim_slash p in
      if path = TrimRight (rq_Path r) (CHR ''/'') then
        (if (case check of None \<Rightarrow> False | Some c \<Rightarrow> \<not> c r) then ([WriteHeader 503], Ret ()) else ([WriteHeader 200], Ret ()))
      else next_h r)"

definition Recover_Handle :: "(string \<Rightarrow> unit go) option \<Rightarrow> handler \<Rightarrow> handler" where
  "Recover_Handle rec_fn next_h r =
     (case next_h r of
        (ops, Ret u) \<Rightarrow> (ops, Ret u)
      | (ops, Panic m) \<Rightarrow> (ops, case rec_fn of None \<Rightarrow> Ret () | Some f \<Rightarrow> f m))"

text \<open>
  The logging middleware on a writer: what the writer below ends up with, the level and the fields
  \<open>method\<close>, \<open>url\<close>, \<open>request\<close>, \<open>response\<close> and \<open>status\<close> of the message it logs (also when the handler panics,
  since it is logged by a deferred function), and the outcome. Duration and remote address are left out.
\<close>

record http_log =
  hl_level :: Level
  hl_method :: string
  hl_url :: string
  hl_debug :: "(string \<times> string \<times> int) option"

definition Logger_Handle ::
    "Level \<Rightarrow> (rw_op \<Rightarrow> 'w \<Rightarrow> 'w) \<Rightarrow> handler \<Rightarrow> request \<Rightarrow> 'w \<Rightarrow> 'w \<times> http_log \<times> unit go" where
  "Logger_Handle level op next_h r rw =
     (case next_h r of (ops, res) \<Rightarrow>
        if level \<ge> lvl_Debug then
          let rec = fold (mw_op op) ops (mw_newRecorder rw) in
          (mr_rw rec, \<lparr>hl_level = lvl_Debug, hl_method = rq_Method r, hl_url = rq_Path r,
                       hl_debug = Some (rq_Body r, mr_body rec, mr_code rec)\<rparr>, res)
        else (fold op ops rw, \<lparr>hl_level = lvl_Info, hl_method = rq_Method r, hl_url = rq_Path r, hl_debug = None\<rparr>, res))"

subsection \<open>Definitions: the server\<close>

type_synonym handlers = "(string \<times> handler) list"

definition hs_New :: "handler option \<Rightarrow> handlers" where
  "hs_New h = (case h of None \<Rightarrow> [] | Some h \<Rightarrow> [([], h)])"

definition hs_Use :: "(handler \<Rightarrow> handler) list \<Rightarrow> handlers \<Rightarrow> handlers" where
  "hs_Use ms hs = map (\<lambda>(p, h). (p, foldl (\<lambda>h m. m h) h ms)) hs"

definition hs_SetHandler :: "string \<Rightarrow> handler \<Rightarrow> handlers \<Rightarrow> handlers" where
  "hs_SetHandler path h hs = (Trim_slash path @ ''/'', h) # filter (\<lambda>(p, g). p \<noteq> Trim_slash path @ ''/'') hs"

fun serve_loop :: "handlers \<Rightarrow> handler" where
  "serve_loop [] r = ([WriteHeader 404], Ret ())"
| "serve_loop ((p, h) # hs) r =
     (if HasPrefix (Trim_slash (rq_Path r) @ ''/'') p then h r else serve_loop hs r)"

definition serveHTTP :: "handlers \<Rightarrow> handler" where
  "serveHTTP hs = serve_loop hs"

text \<open>
  The life of the server. \<open>Start\<close> listens (\<open>listen\<close> is the outcome of the system call) and starts the two
  goroutines. The operand \<open>s.srv.Serve(s.ln)\<close> of the send in \<open>serve\<close> is evaluated before its
  \<open>select\<close> chooses, so the goroutine is first in \<open>Serve\<close>, then at the \<open>select\<close> with the error that
  \<open>Serve\<close> returned.
\<close>

datatype serve_pc = ServeIdle | InServe | ServeSelect string | ServeReturned

datatype shut_pc = ShutIdle | ShutSpawned | ShutSelect | InShutdown | ShutSends "string option" | ShutClosed

record HTTPServer =
  hs_ctx :: bool
  hs_done :: bool
  hs_ln :: bool
  hs_serve :: serve_pc
  hs_shut :: shut_pc
  hs_received :: "string option list"
  hs_serve_error :: "string option"

definition ErrServerClosed :: string where "ErrServerClosed = ''http: Server closed''"

definition hs_init :: HTTPServer where
  "hs_init = \<lparr>hs_ctx = False, hs_done = False, hs_ln = False, hs_serve = ServeIdle, hs_shut = ShutIdle,
              hs_received = [], hs_serve_error = None\<rparr>"

definition hs_Start :: "bool \<Rightarrow> string option \<Rightarrow> HTTPServer \<Rightarrow> string option \<times> HTTPServer" where
  "hs_Start ctx_nil listen s =
     (if hs_ctx s then (Some ''service can be started only once'', s)
      else if ctx_nil then (Some ''context must not be nil'', s)
      else let s = s\<lparr>hs_ctx := True\<rparr> in
           case listen of Some e \<Rightarrow> (Some e, s)
           | None \<Rightarrow> (None, s\<lparr>hs_ln := True, hs_shut := ShutSpawned, hs_serve := InServe\<rparr>))"

datatype hs_event =
    hs_StartE bool "string option"
  | hs_Cancel
  | hs_ServeReturns string
  | hs_ServeDone | hs_ServeSend | hs_ServeDefault
  | hs_ShutEnters | hs_ShutDone
  | hs_ShutdownReturns "string option"
  | hs_Receive

fun hs_step :: "hs_event \<Rightarrow> HTTPServer \<Rightarrow> HTTPServer option" where
  "hs_step (hs_StartE n l) s = Some (snd (hs_Start n l s))"
| "hs_step hs_Cancel s = guard (hs_ctx s) (s\<lparr>hs_done := True\<rparr>)"
| "hs_step (hs_ServeReturns e) s = guard (hs_serve s = InServe) (s\<lparr>hs_serve := ServeSelect e, hs_serve_error := Some e\<rparr>)"
| "hs_step hs_ServeDone s =
     (case hs_serve s of ServeSelect e \<Rightarrow> guard (hs_done s) (s\<lparr>hs_serve := ServeReturned\<rparr>) | _ \<Rightarrow> None)"
| "hs_step hs_ServeSend s =
     (case hs_serve s of
        ServeSelect e \<Rightarrow> guard (hs_shut s = ShutSelect)
          (s\<lparr>hs_serve := ServeReturned,
             hs_shut := (if e \<noteq> ErrServerClosed then ShutSends (Some e) else ShutClosed)\<rparr>)
      | _ \<Rightarrow> None)"
| "hs_step hs_ServeDefault s =
     (case hs_serve s of
        ServeSelect e \<Rightarrow> guard (\<not> hs_done s \<and> hs_shut s \<noteq> ShutSelect) (s\<lparr>hs_serve := ServeReturned\<rparr>)
      | _ \<Rightarrow> None)"
| "hs_step hs_ShutEnters s = guard (hs_shut s = ShutSpawned) (s\<lparr>hs_shut := ShutSelect\<rparr>)"
| "hs_step hs_ShutDone s = guard (hs_shut s = ShutSelect \<and> hs_done s) (s\<lparr>hs_shut := InShutdown\<rparr>)"
| "hs_step (hs_ShutdownReturns r) s = guard (hs_shut s = InShutdown) (s\<lparr>hs_shut := ShutSends r\<rparr>)"
| "hs_step hs_Receive s =
     (case hs_shut s of
        ShutSends r \<Rightarrow> Some (s\<lparr>hs_shut := ShutClosed, hs_received := hs_received s @ [r]\<rparr>)
      | _ \<Rightarrow> None)"

text \<open>\<open>NullServer\<close>: the channel exists after \<open>Start\<close> and is closed after the cancellation.\<close>

datatype NullServer = NullServer (ns_waitCh: "bool option")

definition ns_Start :: "bool \<Rightarrow> NullServer \<Rightarrow> string option \<times> NullServer" where
  "ns_Start ctx_nil s =
     (if ns_waitCh s \<noteq> None then (Some ''service can be started only once'', s)
      else if ctx_nil then (Some ''context must not be nil'', s)
      else (None, NullServer (Some False)))"

subsection \<open>Definitions: the transport\<close>

text \<open>\<open>RoundTrip\<close>: the wrapped transport's answer, or the recorder's response.\<close>

record http_response =
  hr_StatusCode :: int
  hr_Header :: "(string \<times> string) list"
  hr_ContentLength :: nat
  hr_Body :: string

definition buildResponse :: "tr_recorder \<Rightarrow> http_response" where
  "buildResponse rec = \<lparr>hr_StatusCode = tr_code rec, hr_Header = tr_headers rec, hr_ContentLength = length (tr_body rec), hr_Body = tr_body rec\<rparr>"

definition isVirtualHost :: "string \<Rightarrow> request \<Rightarrow> bool" where
  "isVirtualHost vhost r = (rq_Host r = vhost)"

definition RoundTrip :: "string \<Rightarrow> (request \<Rightarrow> 'e + http_response) \<Rightarrow> handler \<Rightarrow> request \<Rightarrow> ('e + http_response) go" where
  "RoundTrip vhost transport server r =
     (if \<not> isVirtualHost vhost r then Ret (transport r)
      else case server r of
          (ops, Panic m) \<Rightarrow> Panic m
        | (ops, Ret u) \<Rightarrow> Ret (Inr (buildResponse (fold tr_op ops tr_newRecorder))))"

subsection \<open>Lemmas\<close>

definition written :: "rw_op list \<Rightarrow> string" where
  "written ops = concat (map (\<lambda>x. case x of Write b \<Rightarrow> b | _ \<Rightarrow> []) ops)"

lemma recorder_transparent: "mr_rw (fold (mw_op op) ops r) = fold op ops (mr_rw r)"
proof (induction ops arbitrary: r)
  case (Cons x ops)
  then show ?case by (cases x) simp_all
qed simp

lemma recorder_body: "mr_body (fold (mw_op op) ops r) = mr_body r @ written ops"
proof (induction ops arbitrary: r)
  case (Cons x ops)
  then show ?case by (cases x) (simp_all add: written_def)
qed (simp add: written_def)

lemma net_body: "rs_body (fold net_op ops r) = rs_body r @ written ops"
proof (induction ops arbitrary: r)
  case (Cons x ops)
  then show ?case by (cases x) (simp_all add: written_def)
qed (simp add: written_def)

lemma transport_body: "tr_body (fold tr_op ops r) = tr_body r @ written ops"
proof (induction ops arbitrary: r)
  case (Cons x ops)
  then show ?case by (cases x) (simp_all add: written_def)
qed (simp add: written_def)

definition matching :: "request \<Rightarrow> handlers \<Rightarrow> handlers" where
  "matching r hs = filter (\<lambda>(p, h). HasPrefix (Trim_slash (rq_Path r) @ ''/'') p) hs"

lemma serve_loop_first: "serve_loop hs r = (case matching r hs of [] \<Rightarrow> ([WriteHeader 404], Ret ()) | (p, h) # _ \<Rightarrow> h r)"
  by (induction hs) (auto simp: matching_def)

lemma mset_short: "mset xs = mset ys \<Longrightarrow> length ys \<le> 1 \<Longrightarrow> xs = ys"
  by (cases ys) simp_all

lemma matching_order: "mset hs' = mset hs \<Longrightarrow> length (matching r hs) \<le> 1 \<Longrightarrow> matching r hs' = matching r hs"
  by (rule mset_short) (simp_all add: matching_def)

lemma Use_other: "fst ` set (hs_Use ms hs) = fst ` set hs"
  by (force simp: hs_Use_def)

text \<open>
  The machine of the server: what its goroutines can have done in each of their positions.
\<close>

definition hs_inv :: "HTTPServer \<Rightarrow> bool" where
  "hs_inv s \<longleftrightarrow>
     (hs_shut s \<noteq> ShutClosed \<longrightarrow> hs_received s = []) \<and> length (hs_received s) \<le> 1 \<and>
     (hs_shut s = ShutIdle \<longleftrightarrow> hs_serve s = ServeIdle) \<and> (hs_shut s \<noteq> ShutIdle \<longrightarrow> hs_ctx s) \<and> (hs_ln s \<longleftrightarrow> hs_shut s \<noteq> ShutIdle) \<and>
     (hs_shut s = InShutdown \<longrightarrow> hs_done s) \<and> (hs_done s \<longrightarrow> hs_ctx s) \<and>
     (hs_serve s = ServeIdle \<or> hs_serve s = InServe \<longrightarrow> hs_serve_error s = None) \<and>
     (case hs_serve s of ServeSelect e \<Rightarrow> hs_serve_error s = Some e | _ \<Rightarrow> True) \<and>
     (case hs_shut s of
        ShutSends r \<Rightarrow> hs_done s \<or> (r = hs_serve_error s \<and> r \<noteq> None \<and> r \<noteq> Some ErrServerClosed)
      | ShutClosed \<Rightarrow> hs_done s \<or> hs_received s = (if hs_serve_error s = Some ErrServerClosed then [] else [hs_serve_error s])
          \<and> hs_serve_error s \<noteq> None
      | _ \<Rightarrow> True)"

lemma hs_inv_step:
  assumes "hs_step e s = Some s'" "hs_inv s" shows "hs_inv s'"
proof (cases e)
  case (hs_StartE n l)
  with assms show ?thesis by (cases "hs_ctx s"; cases n; cases l) (clarsimp simp: hs_inv_def hs_Start_def Let_def)+
next
  case (hs_ServeReturns x)
  with assms show ?thesis by (cases "hs_shut s") (clarsimp simp: hs_inv_def)+
next
  case hs_ServeDone
  with assms show ?thesis by (cases "hs_serve s"; cases "hs_shut s") (clarsimp simp: hs_inv_def)+
next
  case hs_ServeSend
  with assms show ?thesis by (cases "hs_serve s"; clarsimp simp: hs_inv_def)
next
  case hs_ServeDefault
  with assms show ?thesis by (cases "hs_serve s"; cases "hs_shut s") (clarsimp simp: hs_inv_def)+
next
  case hs_Receive
  with assms(1) obtain r where r: "hs_shut s = ShutSends r"
      "s' = s\<lparr>hs_shut := ShutClosed, hs_received := hs_received s @ [r]\<rparr>"
    by (cases "hs_shut s") simp_all
  show ?thesis using assms(2) unfolding r(2)
    by (cases "hs_serve s"; cases "hs_done s") (clarsimp simp: hs_inv_def r(1))+
next
  case hs_Cancel
  with assms show ?thesis by (cases "hs_shut s"; cases "hs_serve s") (clarsimp simp: hs_inv_def)+
next
  case (hs_ShutdownReturns x)
  with assms show ?thesis by (cases "hs_serve s") (clarsimp simp: hs_inv_def)+
next
  case hs_ShutEnters
  with assms show ?thesis by (cases "hs_serve s") (clarsimp simp: hs_inv_def)+
next
  case hs_ShutDone
  with assms show ?thesis by (cases "hs_serve s") (clarsimp simp: hs_inv_def)+
qed

interpretation http_machine: machine hs_step hs_inv
  by unfold_locales (rule hs_inv_step)

lemma hs_inv_init: "hs_inv hs_init"
  by (simp add: hs_inv_def hs_init_def)

lemma hs_closes:
  assumes "hs_inv s" "hs_done s" "hs_shut s \<noteq> ShutIdle"
  shows "\<exists>es s'. length es \<le> 4 \<and> run hs_step es s = Some s' \<and> hs_shut s' = ShutClosed"
proof (cases "hs_shut s")
  case ShutSpawned
  show ?thesis using assms ShutSpawned
    by (intro exI [of _ "[hs_ShutEnters, hs_ShutDone, hs_ShutdownReturns None, hs_Receive]"]) (simp add: guard_def)
next
  case ShutSelect
  show ?thesis using assms ShutSelect
    by (intro exI [of _ "[hs_ShutDone, hs_ShutdownReturns None, hs_Receive]"]) (simp add: guard_def)
next
  case InShutdown
  show ?thesis using InShutdown by (intro exI [of _ "[hs_ShutdownReturns None, hs_Receive]"]) (simp add: guard_def)
next
  case (ShutSends r)
  show ?thesis using ShutSends by (intro exI [of _ "[hs_Receive]"]) simp
next
  case ShutClosed
  then show ?thesis by (intro exI [of _ "[]"]) simp
qed (use assms in simp)

text \<open>The order in which handlers are meant to use a writer: headers, status, body.\<close>

fun orderly :: "rw_op list \<Rightarrow> bool" where
  "orderly [] = True"
| "orderly (SetHeader k v # ops) = orderly ops"
| "orderly (WriteHeader c # ops) = list_all (\<lambda>x. case x of Write b \<Rightarrow> True | _ \<Rightarrow> False) ops"
| "orderly (Write b # ops) = list_all (\<lambda>x. case x of Write b \<Rightarrow> True | _ \<Rightarrow> False) ops"

lemma writes_only:
  assumes "list_all (\<lambda>x. case x of Write b \<Rightarrow> True | _ \<Rightarrow> False) ops"
  shows "tr_code (fold tr_op ops r) = tr_code r" "tr_headers (fold tr_op ops r) = tr_headers r"
    and "rs_code w = Some c \<Longrightarrow> rs_code (fold net_op ops w) = Some c" "rs_headers (fold net_op ops w) = rs_headers w"
proof -
  have "tr_code (fold tr_op ops r) = tr_code r \<and> tr_headers (fold tr_op ops r) = tr_headers r \<and>
      (rs_code w = Some c \<longrightarrow> rs_code (fold net_op ops w) = Some c) \<and> rs_headers (fold net_op ops w) = rs_headers w"
    using assms
  proof (induction ops arbitrary: r w)
    case (Cons x ops)
    then show ?case by (cases x) simp_all
  qed simp
  then show "tr_code (fold tr_op ops r) = tr_code r" "tr_headers (fold tr_op ops r) = tr_headers r"
    "rs_code w = Some c \<Longrightarrow> rs_code (fold net_op ops w) = Some c" "rs_headers (fold net_op ops w) = rs_headers w" by auto
qed

lemma orderly_agree:
  assumes "orderly ops" "tr_code t = 200" "rs_code w = None" "tr_headers t = rs_headers w"
  shows "tr_headers (fold tr_op ops t) = rs_headers (fold net_op ops w) \<and>
    tr_code (fold tr_op ops t) = (case rs_code (fold net_op ops w) of None \<Rightarrow> 200 | Some c \<Rightarrow> c)"
  using assms
proof (induction ops arbitrary: t w rule: orderly.induct)
  case (2 k v ops)
  show ?case unfolding fold_simps o_apply by (rule 2(1)) (use 2(2-) in simp_all)
next
  case (3 c ops)
  then show ?case by (simp add: writes_only)
next
  case (4 b ops)
  then show ?case by (simp add: writes_only)
qed simp

subsection \<open>Properties\<close>

text \<open>
  Routing: when a request lies under at most one of the registered paths, it reaches the handler set
  for that path, or gets status 404 when there is none, in whatever order Go ranges over the map of handlers.
\<close>

theorem http_routing:
  assumes "mset hs' = mset hs"
    and "length (filter (\<lambda>(p, h). HasPrefix (Trim_slash (rq_Path r) @ ''/'') p) hs) \<le> 1"
  shows "serveHTTP hs' r =
    (case filter (\<lambda>(p, h). HasPrefix (Trim_slash (rq_Path r) @ ''/'') p) hs of
       [] \<Rightarrow> ([WriteHeader 404], Ret ()) | (p, h) # _ \<Rightarrow> h r)"
  using assms matching_order [of hs' hs r] by (simp add: serveHTTP_def serve_loop_first matching_def)

theorem http_routing_witness:
  "serveHTTP [(''b/'', \<lambda>r. ([Write ''b''], Ret ())), (''a/'', \<lambda>r. ([Write ''a''], Ret ()))]
     \<lparr>rq_Method = ''GET'', rq_Path = ''/a/x'', rq_Host = [], rq_Body = []\<rparr> = ([Write ''a''], Ret ())"
  by (subst http_routing [where hs = "hs_SetHandler ''/a'' (\<lambda>r. ([Write ''a''], Ret ())) (hs_SetHandler ''b'' (\<lambda>r. ([Write ''b''], Ret ())) (hs_New None))"])
    (simp_all add: HasPrefix_def Trim_slash_def TrimRight_def hs_SetHandler_def hs_New_def)

text \<open>
  C31: The server and its two goroutines, for every interleaving: at most one value is ever delivered by the
  wait channel; a channel closed without a cancellation has delivered the error of \<open>Serve\<close>, unless that was
  \<open>ErrServerClosed\<close>; and once the context of a listening server is cancelled, at most four steps of its
  shutdown goroutine and of the reader close the channel.
\<close>

theorem http_server_reports:
  assumes "run hs_step es hs_init = Some s"
  shows "length (hs_received s) \<le> 1 \<and>
    (if hs_shut s = ShutClosed then
       hs_done s \<or> (\<exists>e. hs_serve_error s = Some e \<and> hs_received s = (if e = ErrServerClosed then [] else [Some e]))
     else hs_received s = []) \<and>
    (if hs_done s \<and> hs_ln s then \<exists>fs s'. length fs \<le> 4 \<and> run hs_step fs s = Some s' \<and> hs_shut s' = ShutClosed else True)"
proof -
  note inv = http_machine.inv_run [OF assms hs_inv_init]
  have "if hs_shut s = ShutClosed then
      hs_done s \<or> (\<exists>e. hs_serve_error s = Some e \<and> hs_received s = (if e = ErrServerClosed then [] else [Some e]))
    else hs_received s = []"
    using inv by (cases "hs_serve_error s") (auto simp: hs_inv_def)
  moreover have "length (hs_received s) \<le> 1" using inv by (simp add: hs_inv_def)
  moreover have "hs_done s \<and> hs_ln s \<Longrightarrow> \<exists>fs s'. length fs \<le> 4 \<and> run hs_step fs s = Some s' \<and> hs_shut s' = ShutClosed"
    using hs_closes [OF inv] inv unfolding hs_inv_def by blast
  ultimately show ?thesis by auto
qed

theorem http_server_reports_witness:
  "\<exists>s. run hs_step [hs_StartE False None, hs_ShutEnters, hs_ServeReturns ''accept failed'', hs_ServeSend, hs_Receive] hs_init = Some s \<and>
       length (hs_received s) \<le> 1 \<and> hs_received s = [Some ''accept failed'']"
proof -
  obtain s where s: "run hs_step [hs_StartE False None, hs_ShutEnters, hs_ServeReturns ''accept failed'', hs_ServeSend, hs_Receive] hs_init = Some s"
      "hs_received s = [Some ''accept failed'']"
    by (simp add: hs_init_def hs_Start_def guard_def ErrServerClosed_def)
  with http_server_reports [OF s(1)] show ?thesis by blast
qed



text \<open>
  The logging middleware: the writer below and the outcome are those of the wrapped handler, and the body logged at
  level \<open>Debug\<close> is all that was written.
\<close>

theorem logger_transparent:
  "case Logger_Handle level op next_h r rw of (w, l, res) \<Rightarrow>
     w = fold op (fst (next_h r)) rw \<and> res = snd (next_h r) \<and>
     (case hl_debug l of None \<Rightarrow> level < lvl_Debug
      | Some (req, body, code) \<Rightarrow> level \<ge> lvl_Debug \<and> req = rq_Body r \<and> body = written (fst (next_h r)))"
  by (cases "next_h r") (auto simp: Logger_Handle_def Let_def recorder_transparent recorder_body mw_newRecorder_def)

text \<open>With a default handler, the path of the others is up to the order of the map.\<close>

lemma default_handler_overlaps:
  "serveHTTP ([([], h)] @ hs_SetHandler p g []) r = h r"
  by (simp add: serveHTTP_def HasPrefix_def)

text \<open>An error of \<open>Serve\<close> before the shutdown goroutine has reached its \<open>select\<close> is dropped.\<close>

lemma serve_error_lost:
  "\<exists>s. run hs_step [hs_StartE False None, hs_ServeReturns ''accept failed'', hs_ServeDefault, hs_ShutEnters] hs_init = Some s \<and>
       hs_serve s = ServeReturned \<and> hs_shut s = ShutSelect \<and> hs_received s = []"
  by (simp add: hs_init_def hs_Start_def guard_def)

text \<open>A health check on the root is never answered: the request path is compared without its slash.\<close>

lemma root_health_check:
  assumes "set p \<subseteq> {CHR ''/''}" shows "HealthCheck_Handle p check next_h r = next_h r"
proof -
  have "dropWhile (\<lambda>x. x = CHR ''/'') (rev p) = []" using assms by auto
  then have "Trim_slash p = []" by (simp only: Trim_slash_def TrimRight_def rev.simps dropWhile.simps)
  moreover have "[c] \<noteq> TrimRight s c" for s c
  proof
    assume "[c] = TrimRight s c"
    then have "dropWhile (\<lambda>x. x = c) (rev s) = [c]" unfolding TrimRight_def by (metis rev_rev_ident rev_singleton_conv)
    then show False using hd_dropWhile [of "\<lambda>x. x = c" "rev s"] by (metis list.sel(1) not_Cons_self2)
  qed
  ultimately show ?thesis by (auto simp: HealthCheck_Handle_def)
qed

text \<open>The recorder keeps the last status, the client gets the first.\<close>

lemma recorder_logs_other_status:
  "case Logger_Handle lvl_Debug net_op (\<lambda>r. ([Write ''ok'', WriteHeader 404], Ret ())) r \<lparr>rs_headers = [], rs_code = None, rs_body = []\<rparr>
   of (w, l, res) \<Rightarrow> rs_code w = Some 200 \<and> hl_debug l = Some (rq_Body r, ''ok'', 404)"
  by (simp add: Logger_Handle_def mw_newRecorder_def)

end
