(* ===== verification/Scoring.thy ===== *)
theory Scoring
  imports Map_Util Go_Machine
begin

text \<open>
  Package \<open>scoring\<close> (\<open>src/scoring/scoring.go\<close>). The scores are of any ordered type with addition and
  subtraction, the items a map. Every method holds the mutex from its first to its last line, so the
  methods of concurrent callers and the decay goroutine are atomic events.

  \<open>sort.Slice\<close> is its insertion sort, which it uses for up to twelve items. The comparison of two
  items with the same score is a coin toss, given by a stream of coins.
\<close>

subsection \<open>Definitions\<close>

record ('a, 'f) Scoring =
  sc_started :: bool
  sc_cancelled :: bool
  sc_returned :: bool
  sc_items :: "'a \<rightharpoonup> 'f"

definition sc_New :: "('a, 'f) Scoring" where
  "sc_New = \<lparr>sc_started = False, sc_cancelled = False, sc_returned = False, sc_items = Map.empty\<rparr>"

definition sc_Start :: "('a, 'f) Scoring \<Rightarrow> string option \<times> ('a, 'f) Scoring" where
  "sc_Start s = (if sc_started s then (Some ''already started'', s) else (None, s\<lparr>sc_started := True\<rparr>))"

fun sc_Add :: "'f \<Rightarrow> 'a list \<Rightarrow> ('a, 'f) Scoring \<Rightarrow> ('a, 'f) Scoring" where
  "sc_Add score [] s = s"
| "sc_Add score (v # vs) s =
     (if sc_items s v \<noteq> None then sc_Add score vs s
      else sc_Add score vs (s\<lparr>sc_items := (sc_items s)(v \<mapsto> score)\<rparr>))"

fun sc_Remove :: "'a list \<Rightarrow> ('a, 'f) Scoring \<Rightarrow> ('a, 'f) Scoring" where
  "sc_Remove [] s = s"
| "sc_Remove (v # vs) s = sc_Remove vs (s\<lparr>sc_items := (sc_items s)(v := None)\<rparr>)"

definition sc_Get :: "'a \<Rightarrow> ('a, 'f :: zero) Scoring \<Rightarrow> 'f \<times> bool" where
  "sc_Get v s = (case sc_items s v of None \<Rightarrow> (0, False) | Some x \<Rightarrow> (x, True))"

definition sc_Increase :: "'a \<Rightarrow> 'f :: plus \<Rightarrow> ('a, 'f) Scoring \<Rightarrow> ('a, 'f) Scoring" where
  "sc_Increase v score s =
     (case sc_items s v of None \<Rightarrow> s | Some x \<Rightarrow> s\<lparr>sc_items := (sc_items s)(v \<mapsto> x + score)\<rparr>)"

definition sc_Decrease :: "'a \<Rightarrow> 'f :: minus \<Rightarrow> ('a, 'f) Scoring \<Rightarrow> ('a, 'f) Scoring" where
  "sc_Decrease v score s =
     (case sc_items s v of None \<Rightarrow> s | Some x \<Rightarrow> s\<lparr>sc_items := (sc_items s)(v \<mapsto> x - score)\<rparr>)"

text \<open>\<open>decay\<close> assigns the keys while it ranges over the map: each existing key once, in any order.\<close>

fun decay_loop :: "('f \<Rightarrow> 'f) \<Rightarrow> 'a list \<Rightarrow> ('a \<rightharpoonup> 'f) \<Rightarrow> ('a \<rightharpoonup> 'f)" where
  "decay_loop f [] m = m"
| "decay_loop f (k # ks) m = decay_loop f ks (case m k of None \<Rightarrow> m | Some x \<Rightarrow> m(k \<mapsto> f x))"

definition sc_decay :: "('f \<Rightarrow> 'f) \<Rightarrow> 'a list \<Rightarrow> ('a, 'f) Scoring \<Rightarrow> ('a, 'f) Scoring" where
  "sc_decay f order s = s\<lparr>sc_items := decay_loop f order (sc_items s)\<rparr>"

text \<open>
  The comparison of \<open>Sorted\<close> with the next coin, and the insertion sort of \<open>sort.Slice\<close>:
  the new element moves to the left as long as it is less than its neighbour. The list of sorted
  elements is kept in reverse.
\<close>

definition sorted_less :: "('a \<Rightarrow> 'f :: ord) \<Rightarrow> bool list \<Rightarrow> 'a \<Rightarrow> 'a \<Rightarrow> bool \<times> bool list" where
  "sorted_less score coins x y =
     (if score x = score y then (case coins of [] \<Rightarrow> (False, []) | c # cs \<Rightarrow> (c, cs))
      else (score y < score x, coins))"

fun insert_left :: "('a \<Rightarrow> 'f :: ord) \<Rightarrow> bool list \<Rightarrow> 'a \<Rightarrow> 'a list \<Rightarrow> 'a list \<times> bool list" where
  "insert_left score coins x [] = ([x], coins)"
| "insert_left score coins x (y # ys) =
     (case sorted_less score coins x y of
        (True, cs) \<Rightarrow> (case insert_left score cs x ys of (zs, cs') \<Rightarrow> (y # zs, cs'))
      | (False, cs) \<Rightarrow> (x # y # ys, cs))"

fun insertion_sort :: "('a \<Rightarrow> 'f :: ord) \<Rightarrow> bool list \<Rightarrow> 'a list \<Rightarrow> 'a list \<Rightarrow> 'a list" where
  "insertion_sort score coins sorted_rev [] = rev sorted_rev"
| "insertion_sort score coins sorted_rev (x # xs) =
     (case insert_left score coins x sorted_rev of (ys, cs) \<Rightarrow> insertion_sort score cs ys xs)"

definition sc_Sorted :: "bool list \<Rightarrow> ('a, 'f :: {ord, zero}) ranged \<Rightarrow> 'a list" where
  "sc_Sorted coins m =
     insertion_sort (\<lambda>k. case map_of m k of None \<Rightarrow> 0 | Some x \<Rightarrow> x) coins [] (Keys m)"

text \<open>The methods and the ticks of the decay goroutine as events.\<close>

datatype ('a, 'f) sc_event =
    ScStart | ScCancel | ScReturn | ScAdd 'f "'a list" | ScRemove "'a list" | ScIncrease 'a 'f | ScDecrease 'a 'f | ScTick "'a list"

fun sc_step :: "('f \<Rightarrow> 'f) \<Rightarrow> ('a, 'f) sc_event \<Rightarrow> ('a, 'f :: {plus, minus}) Scoring \<Rightarrow> ('a, 'f) Scoring option" where
  "sc_step f ScStart s = Some (snd (sc_Start s))"
| "sc_step f ScCancel s = guard (sc_started s) (s\<lparr>sc_cancelled := True\<rparr>)"
| "sc_step f ScReturn s = guard (sc_cancelled s) (s\<lparr>sc_returned := True\<rparr>)"
| "sc_step f (ScAdd x vs) s = Some (sc_Add x vs s)"
| "sc_step f (ScRemove vs) s = Some (sc_Remove vs s)"
| "sc_step f (ScIncrease v x) s = Some (sc_Increase v x s)"
| "sc_step f (ScDecrease v x) s = Some (sc_Decrease v x s)"
| "sc_step f (ScTick order) s =
     guard (sc_started s \<and> \<not> sc_returned s \<and> distinct order \<and> set order = dom (sc_items s)) (sc_decay f order s)"

subsection \<open>Lemmas\<close>

lemma items_Add: "sc_items (sc_Add x vs s) v = (if sc_items s v = None \<and> v \<in> set vs then Some x else sc_items s v)"
  by (induction x vs s rule: sc_Add.induct) auto

lemma items_Remove: "sc_items (sc_Remove vs s) v = (if v \<in> set vs then None else sc_items s v)"
  by (induction vs s rule: sc_Remove.induct) auto

lemma decay_loop_each: "distinct ks \<Longrightarrow> decay_loop f ks m v = (if v \<in> set ks then map_option f (m v) else m v)"
  by (induction f ks m rule: decay_loop.induct) (auto split: option.splits)

lemmas item_lemmas = items_Add items_Remove sc_Increase_def sc_Decrease_def sc_decay_def sc_Start_def decay_loop_each

text \<open>What one event means for a single item.\<close>

fun item_step :: "('f \<Rightarrow> 'f) \<Rightarrow> 'a \<Rightarrow> ('a, 'f :: {plus, minus}) sc_event \<Rightarrow> 'f option \<Rightarrow> 'f option" where
  "item_step f v (ScAdd x vs) sc = (if sc = None \<and> v \<in> set vs then Some x else sc)"
| "item_step f v (ScRemove vs) sc = (if v \<in> set vs then None else sc)"
| "item_step f v (ScIncrease w x) sc = (if v = w then map_option (\<lambda>y. y + x) sc else sc)"
| "item_step f v (ScDecrease w x) sc = (if v = w then map_option (\<lambda>y. y - x) sc else sc)"
| "item_step f v (ScTick order) sc = map_option f sc"
| "item_step f v _ sc = sc"

lemma item_step_refines:
  assumes "sc_step f e s = Some s'" shows "sc_items s' v = item_step f v e (sc_items s v)"
  using assms by (cases e) (auto simp: item_lemmas dom_def split: option.splits)

lemma item_run: "run (sc_step f) es s = Some s' \<Longrightarrow> sc_items s' v = fold (item_step f v) es (sc_items s v)"
  by (induction es arbitrary: s) (auto split: option.splits simp: item_step_refines)

text \<open>The insertion sort keeps the elements and, whatever the coins, the order of the scores.\<close>

lemma insert_left_mset: "insert_left score coins x ys = (zs, cs) \<Longrightarrow> mset zs = add_mset x (mset ys)"
  by (induction score coins x ys arbitrary: zs cs rule: insert_left.induct) (auto split: prod.splits bool.splits)

lemma insert_left_sorted:
  fixes score :: "'a \<Rightarrow> 'f :: linorder"
  assumes "insert_left score coins x ys = (zs, cs)" "sorted (map score ys)"
  shows "sorted (map score zs)"
  using assms
proof (induction score coins x ys arbitrary: zs cs rule: insert_left.induct)
  case (2 score coins x y ys)
  obtain b cs1 where less: "sorted_less score coins x y = (b, cs1)" by force
  show ?case
  proof (cases b)
    case True
    then obtain ws where ws: "insert_left score cs1 x ys = (ws, cs)" "zs = y # ws"
      using 2(2) less by (auto split: prod.splits)
    have "sorted (map score ws)" using 2(1) [OF less [symmetric] _ ws(1)] True 2(3) by simp
    moreover have "set ws = insert x (set ys)"
      using insert_left_mset [OF ws(1)] by (metis set_mset_mset set_mset_add_mset_insert)
    moreover have "score y \<le> score x" using less True by (auto simp: sorted_less_def split: if_splits)
    ultimately show ?thesis using 2(3) ws(2) by auto
  next
    case False
    then have "score x \<le> score y" "zs = x # y # ys" using less 2(2) by (auto simp: sorted_less_def split: if_splits)
    then show ?thesis using 2(3) by auto
  qed
qed simp

lemma insertion_sort_sorted:
  fixes score :: "'a \<Rightarrow> 'f :: linorder"
  assumes "sorted (map score acc)"
  shows "mset (insertion_sort score coins acc xs) = mset acc + mset xs \<and> sorted (rev (map score (insertion_sort score coins acc xs)))"
  using assms
proof (induction xs arbitrary: coins acc)
  case (Cons x xs)
  obtain ys cs where ys: "insert_left score coins x acc = (ys, cs)" by force
  show ?case using Cons.IH [OF insert_left_sorted [OF ys Cons.prems], of cs] insert_left_mset [OF ys] ys by simp
qed (simp add: rev_map)

subsection \<open>Properties\<close>

text \<open>
  C34: Items are independent: after any interleaving of calls and decay ticks the score of an item is what
  the events make of it alone, each in their order: added once with its first score, changed only
  while it is present, decayed by every tick exactly once.
\<close>

theorem scoring_per_item:
  assumes "run (sc_step f) es sc_New = Some s"
  shows "sc_items s v = fold (item_step f v) es None"
  using item_run [OF assms] by (simp add: sc_New_def)

theorem scoring_per_item_witness:
  "\<exists>s. run (sc_step (\<lambda>x. x div 2)) [ScStart, ScAdd 8 [''a'', ''b''], ScAdd 1 [''a''], ScTick [''b'', ''a''], ScIncrease ''a'' 3, ScRemove [''b'']] sc_New = Some s \<and>
     sc_items s ''a'' = Some (7 :: int) \<and> sc_items s ''b'' = None"
proof -
  let ?es = "[ScStart, ScAdd 8 [''a'', ''b''], ScAdd 1 [''a''], ScTick [''b'', ''a''], ScIncrease ''a'' 3, ScRemove [''b'']] :: (string, int) sc_event list"
  obtain s where s: "run (sc_step (\<lambda>x. x div 2)) ?es sc_New = Some s"
    by (auto simp: sc_New_def sc_Start_def guard_def sc_decay_def sc_Increase_def)
  with scoring_per_item [OF s, of "''a''"] scoring_per_item [OF s, of "''b''"] show ?thesis by auto
qed

text \<open>
  \<open>Sorted\<close> returns every item exactly once, by falling score, for every order of the map and every
  outcome of the coins.
\<close>

theorem Sorted_by_score:
  fixes m :: "('a, 'f :: {linorder, zero}) ranged"
  shows "mset (sc_Sorted coins m) = mset (map fst m) \<and>
    sorted (rev (map (\<lambda>k. case map_of m k of None \<Rightarrow> 0 | Some x \<Rightarrow> x) (sc_Sorted coins m)))"
  using insertion_sort_sorted [of "\<lambda>k. case map_of m k of None \<Rightarrow> 0 | Some x \<Rightarrow> x" "[]" coins "Keys m"]
  by (simp add: sc_Sorted_def)

end
