(* ===== verification/Ticker.thy ===== *)
theory Ticker
  imports Scheduler Go_Machine
begin

text \<open>
  \<open>Ticker\<close> and \<open>VarTicker\<close> (\<open>src/timeutil/ticker.go\<close>) as a machine. Both have a goroutine, a channel, a
  context and a mutex; they differ in \<open>Start\<close> and \<open>TickAt\<close>, and the goroutine of \<open>Ticker\<close> is the second
  half of the one of \<open>VarTicker\<close>. A caller blocked in \<open>TickAt\<close> holds the mutex: any number of readers for
  \<open>Ticker\<close>, one caller for \<open>VarTicker\<close>.

  The runtime's timer has a deadline \<open>tk_next\<close> and a buffer for one value, the time at which it fired; a
  \<open>time.Ticker\<close> goes on to the next multiple of its period after the present and drops a value that finds
  the buffer full.
\<close>

subsection \<open>Definitions\<close>

datatype tk_kind = PlainTicker | VariableTicker

datatype tk_pc = TkIdle | TkSpawned | TkSelect | TkSending Time | TkLocking | TkReturned

text \<open>
  \<open>tk_ds\<close> are the durations the goroutine still has to use; \<open>tk_start\<close> and \<open>tk_ticks\<close> are for the
  statements only: when the goroutine has started and which times of the runtime it has delivered since.
\<close>

record Tick =
  tk_d :: "int list"
  tk_ctx :: context_state
  tk_pc :: tk_pc
  tk_ds :: "int list"
  tk_next :: "Time option"
  tk_buf :: "Time option"
  tk_blocked :: "Time list"
  tk_got :: "(tick_source \<times> Time) list"
  tk_now :: Time
  tk_panicked :: bool
  tk_start :: Time
  tk_ticks :: "Time list"

definition new_tick :: "int list \<Rightarrow> Time \<Rightarrow> Tick" where
  "new_tick d now = \<lparr>tk_d = d, tk_ctx = NoContext, tk_pc = TkIdle, tk_ds = [], tk_next = None, tk_buf = None,
     tk_blocked = [], tk_got = [], tk_now = now, tk_panicked = False, tk_start = now, tk_ticks = []\<rparr>"

definition NewTicker :: "int \<Rightarrow> Time \<Rightarrow> Tick" where
  "NewTicker d now = new_tick [d] now"

definition NewVarTicker :: "int list \<Rightarrow> Time \<Rightarrow> Tick" where
  "NewVarTicker ds now = new_tick ds now"

definition Ticker_Copy :: "Tick \<Rightarrow> Time \<Rightarrow> Tick" where
  "Ticker_Copy t now = new_tick (tk_d t) now"

definition Tick_Start :: "context_state \<Rightarrow> Tick \<Rightarrow> Tick" where
  "Tick_Start ctx t =
     (if tk_ctx t \<noteq> NoContext then t\<lparr>tk_panicked := True\<rparr>
      else if ctx = NoContext then t\<lparr>tk_panicked := True\<rparr>
      else t\<lparr>tk_ctx := ctx, tk_pc := TkSpawned\<rparr>)"

definition Tick_TickAt :: "Time \<Rightarrow> Tick \<Rightarrow> Tick" where
  "Tick_TickAt at t =
     (if tk_ctx t = NoContext \<or> tk_ctx t = Cancelled then t\<lparr>tk_panicked := True\<rparr>
      else t\<lparr>tk_blocked := tk_blocked t @ [at]\<rparr>)"

text \<open>Whether the mutex lets the caller in.\<close>

fun may_lock :: "tk_kind \<Rightarrow> Tick \<Rightarrow> bool" where
  "may_lock PlainTicker t = (tk_pc t \<noteq> TkLocking)"
| "may_lock VariableTicker t = (tk_blocked t = [])"

text \<open>\<open>time.NewTicker\<close> panics on a period that is not positive.\<close>

definition start_ticker :: "int \<Rightarrow> Tick \<Rightarrow> Tick" where
  "start_ticker d t = (if d \<le> 0 then t\<lparr>tk_panicked := True, tk_pc := TkReturned\<rparr>
     else t\<lparr>tk_next := Some (tk_now t + d), tk_pc := TkSelect\<rparr>)"

text \<open>The goroutine up to its first \<open>select\<close>.\<close>

definition ticker_begin :: "tk_kind \<Rightarrow> Tick \<Rightarrow> Tick" where
  "ticker_begin k t0 =
     (let t = t0\<lparr>tk_ds := tk_d t0, tk_start := tk_now t0, tk_ticks := [], tk_next := None, tk_buf := None\<rparr> in
      case tk_d t0 of
        [] \<Rightarrow> t\<lparr>tk_pc := TkReturned\<rparr>
      | [d] \<Rightarrow> if k = PlainTicker \<and> d = 0 then t\<lparr>tk_pc := TkReturned\<rparr> else start_ticker d t
      | d # _ \<Rightarrow> t\<lparr>tk_next := Some (tk_now t + d), tk_pc := TkSelect\<rparr>)"

text \<open>After a send: the next timer, the ticker, or nothing to do.\<close>

definition next_timer :: "Tick \<Rightarrow> Tick" where
  "next_timer t =
     (if length (tk_ds t) \<ge> 2 then
        let ds = tl (tk_ds t); t1 = t\<lparr>tk_ds := ds\<rparr> in
        if length ds = 1 then start_ticker (hd ds) t1
        else t1\<lparr>tk_next := Some (tk_now t + hd ds), tk_pc := TkSelect\<rparr>
      else t\<lparr>tk_pc := TkSelect\<rparr>)"

text \<open>The timer of the runtime.\<close>

definition fire :: "Time \<Rightarrow> Tick \<Rightarrow> Tick" where
  "fire n t =
     (if length (tk_ds t) \<ge> 2 then t\<lparr>tk_buf := Some (tk_now t), tk_next := None\<rparr>
      else t\<lparr>tk_buf := (case tk_buf t of None \<Rightarrow> Some (tk_now t) | Some b \<Rightarrow> Some b),
             tk_next := Some (n + hd (tk_ds t) * (1 + (tk_now t - n) div hd (tk_ds t)))\<rparr>)"

datatype tk_event =
    TkStart context_state | TkTickAt Time | TkCancel | TkClock int
  | TkBegin | TkFire | TkTake | TkDeliver | TkManual nat | TkDone | TkStop

fun tk_step :: "tk_kind \<Rightarrow> tk_event \<Rightarrow> Tick \<Rightarrow> Tick option" where
  "tk_step k (TkStart ctx) t = guard (tk_blocked t = []) (Tick_Start ctx t)"
| "tk_step k (TkTickAt at) t = guard (may_lock k t) (Tick_TickAt at t)"
| "tk_step k TkCancel t = guard (tk_ctx t = Live) (t\<lparr>tk_ctx := Cancelled\<rparr>)"
| "tk_step k (TkClock d) t = guard (0 \<le> d) (t\<lparr>tk_now := tk_now t + d\<rparr>)"
| "tk_step k TkBegin t = guard (tk_pc t = TkSpawned) (ticker_begin k t)"
| "tk_step k TkFire t =
     (case tk_next t of None \<Rightarrow> None | Some n \<Rightarrow> guard (n \<le> tk_now t) (fire n t))"
| "tk_step k TkTake t =
     (case tk_buf t of None \<Rightarrow> None | Some tm \<Rightarrow> guard (tk_pc t = TkSelect) (t\<lparr>tk_buf := None, tk_pc := TkSending tm\<rparr>))"
| "tk_step k TkDeliver t =
     (case tk_pc t of
        TkSending tm \<Rightarrow> Some (next_timer (t\<lparr>tk_got := tk_got t @ [(Scheduled, tm)], tk_ticks := tk_ticks t @ [tm]\<rparr>))
      | _ \<Rightarrow> None)"
| "tk_step k (TkManual i) t =
     guard (i < length (tk_blocked t))
       (t\<lparr>tk_blocked := take i (tk_blocked t) @ drop (Suc i) (tk_blocked t),
          tk_got := tk_got t @ [(Manual, tk_blocked t ! i)]\<rparr>)"
| "tk_step k TkDone t = guard (tk_pc t = TkSelect \<and> tk_ctx t = Cancelled) (t\<lparr>tk_pc := TkLocking\<rparr>)"
| "tk_step k TkStop t =
     guard (tk_pc t = TkLocking \<and> tk_blocked t = []) (t\<lparr>tk_ctx := NoContext, tk_pc := TkReturned, tk_next := None, tk_buf := None\<rparr>)"

definition Ticker_step :: "tk_event \<Rightarrow> Tick \<Rightarrow> Tick option" where
  "Ticker_step = tk_step PlainTicker"

definition VarTicker_step :: "tk_event \<Rightarrow> Tick \<Rightarrow> Tick option" where
  "VarTicker_step = tk_step VariableTicker"

subsection \<open>Lemmas\<close>

text \<open>When the \<open>k\<close>-th tick is due: the sum of the first \<open>k\<close> durations, the last one repeated.\<close>

definition due :: "int list \<Rightarrow> nat \<Rightarrow> int" where
  "due ds k = (\<Sum>i < k. ds ! min i (length ds - 1))"

lemma due_Suc: "due ds (Suc k) = due ds k + ds ! min k (length ds - 1)"
  by (simp add: due_def)

lemma due_0 [simp]: "due ds 0 = 0"
  by (simp add: due_def)

fun sending :: "tk_pc \<Rightarrow> nat" where
  "sending (TkSending tm) = 1"
| "sending _ = 0"

definition running :: "Tick \<Rightarrow> bool" where
  "running t \<longleftrightarrow> (case tk_pc t of TkSelect \<Rightarrow> True | TkSending _ \<Rightarrow> True | TkLocking \<Rightarrow> True | _ \<Rightarrow> False)"

text \<open>The ticks taken from the timer that are not delivered yet.\<close>

definition pending :: "Tick \<Rightarrow> nat" where
  "pending t = sending (tk_pc t) + (if tk_buf t = None then 0 else 1)"

definition phase_ok :: "Tick \<Rightarrow> bool" where
  "phase_ok t \<longleftrightarrow> tk_d t \<noteq> [] \<and> tk_ds t = drop (min (length (tk_ticks t)) (length (tk_d t) - 1)) (tk_d t) \<and>
     (if length (tk_ds t) \<ge> 2 then length (tk_ticks t) + 2 \<le> length (tk_d t) \<and> pending t \<le> 1 \<and> (pending t = 1 \<longrightarrow> tk_next t = None)
      else length (tk_d t) - 1 \<le> length (tk_ticks t) \<and> 0 < last (tk_d t))"

definition times_ok :: "Tick \<Rightarrow> bool" where
  "times_ok t \<longleftrightarrow>
     (\<forall>m. tk_next t = Some m \<longrightarrow> tk_start t + due (tk_d t) (length (tk_ticks t) + pending t + 1) \<le> m) \<and>
     (\<forall>b. tk_buf t = Some b \<longrightarrow> tk_start t + due (tk_d t) (length (tk_ticks t) + sending (tk_pc t) + 1) \<le> b \<and> b \<le> tk_now t) \<and>
     (\<forall>tm. tk_pc t = TkSending tm \<longrightarrow> tk_start t + due (tk_d t) (length (tk_ticks t) + 1) \<le> tm \<and> tm \<le> tk_now t)"

definition delivered_ok :: "Tick \<Rightarrow> bool" where
  "delivered_ok t \<longleftrightarrow> (\<forall>i < length (tk_ticks t). tk_start t + due (tk_d t) (Suc i) \<le> tk_ticks t ! i)"

definition tk_inv :: "Tick \<Rightarrow> bool" where
  "tk_inv t \<longleftrightarrow> (if running t then phase_ok t \<and> times_ok t else tk_next t = None \<and> tk_buf t = None) \<and> delivered_ok t"

lemma drop_butlast_last: "xs \<noteq> [] \<Longrightarrow> drop (length xs - 1) xs = [last xs]"
  by (metis append_butlast_last_id append_eq_conv_conj length_butlast)

lemma tk_inv_begin:
  assumes "tk_pc t = TkSpawned" shows "tk_inv (ticker_begin k t)"
proof (cases "tk_d t")
  case (Cons d ds)
  show ?thesis
  proof (cases ds)
    case Nil
    then show ?thesis using assms Cons
      by (auto simp: Let_def ticker_begin_def start_ticker_def tk_inv_def running_def phase_ok_def times_ok_def delivered_ok_def pending_def due_Suc)
  next
    case (Cons e es)
    then show ?thesis using assms \<open>tk_d t = d # ds\<close>
      by (auto simp: Let_def ticker_begin_def tk_inv_def running_def phase_ok_def times_ok_def delivered_ok_def pending_def due_Suc)
  qed
qed (simp add: ticker_begin_def tk_inv_def running_def delivered_ok_def)

lemma tk_inv_fire:
  assumes "tk_inv t" "tk_next t = Some n" "n \<le> tk_now t" shows "tk_inv (fire n t)"
proof -
  have r: "running t" "phase_ok t" "times_ok t" "delivered_ok t" using assms by (auto simp: tk_inv_def split: if_splits)
  have n: "tk_start t + due (tk_d t) (length (tk_ticks t) + pending t + 1) \<le> n" using r(3) assms(2) by (simp add: times_ok_def)
  show ?thesis
  proof (cases "length (tk_ds t) \<ge> 2")
    case True
    then have "pending t = 0" using r(2) assms(2) by (auto simp: phase_ok_def)
    then have "tk_buf t = None" "sending (tk_pc t) = 0" by (auto simp: pending_def split: if_splits)
    moreover have "times_ok (fire n t)" using calculation n assms(3) True by (cases "tk_pc t") (simp_all add: times_ok_def fire_def pending_def)
    moreover have t': "fire n t = t\<lparr>tk_buf := Some (tk_now t), tk_next := None\<rparr>" using True by (simp add: fire_def)
    moreover have ph: "tk_d t \<noteq> []" "length (tk_ticks t) + 2 \<le> length (tk_d t)"
        "tk_ds t = drop (length (tk_ticks t)) (tk_d t)"
      using r(2) True unfolding phase_ok_def by (auto simp: min_def split: if_splits)
    moreover have "phase_ok (fire n t)"
      unfolding phase_ok_def t' pending_def using ph(1,2) calculation(1,2) True by (simp add: ph(3) [symmetric])
    moreover have "running (fire n t)" "delivered_ok (fire n t)" using r True by (auto simp: running_def delivered_ok_def fire_def)
    ultimately show ?thesis by (simp add: tk_inv_def)
  next
    case False
    let ?d = "last (tk_d t)"
    have len: "length (tk_d t) - 1 \<le> length (tk_ticks t)" "0 < ?d" and ne: "tk_d t \<noteq> []"
      using r(2) False by (auto simp: phase_ok_def)
    have ds: "tk_ds t = [?d]" using r(2) ne len(1) drop_butlast_last [OF ne] by (simp add: phase_ok_def min_absorb2)
    define m where "m = n + ?d * (1 + (tk_now t - n) div ?d)"
    have gap: "n + ?d \<le> m" unfolding m_def using len(2) assms(3) by (simp add: pos_imp_zdiv_nonneg_iff)
    have fired: "fire n t = t\<lparr>tk_buf := (case tk_buf t of None \<Rightarrow> Some (tk_now t) | Some b \<Rightarrow> Some b), tk_next := Some m\<rparr>"
      using False by (simp add: fire_def m_def ds)
    have "due (tk_d t) (length (tk_ticks t) + pending t + 2) = due (tk_d t) (length (tk_ticks t) + pending t + 1) + ?d"
      using due_Suc [of "tk_d t" "length (tk_ticks t) + pending t + 1"] len(1) r(2) by (simp add: min_absorb2 last_conv_nth phase_ok_def)
    then have "times_ok (fire n t)"
      using r(3) n gap len(2) assms(3) unfolding fired by (cases "tk_buf t") (simp_all add: times_ok_def pending_def)
    moreover have "phase_ok (fire n t)" using r(2) False by (simp add: phase_ok_def fire_def)
    moreover have "running (fire n t)" "delivered_ok (fire n t)" using r False by (auto simp: running_def delivered_ok_def fire_def)
    ultimately show ?thesis by (simp add: tk_inv_def)
  qed
qed

lemma tk_inv_deliver:
  assumes "tk_inv t" "tk_pc t = TkSending tm"
  shows "tk_inv (next_timer (t\<lparr>tk_got := g, tk_ticks := tk_ticks t @ [tm]\<rparr>))" (is "tk_inv ?t'")
proof -
  have r: "running t" "phase_ok t" "times_ok t" "delivered_ok t" using assms by (auto simp: tk_inv_def running_def)
  have tm: "tk_start t + due (tk_d t) (length (tk_ticks t) + 1) \<le> tm" "tm \<le> tk_now t" using r(3) assms(2) by (auto simp: times_ok_def)
  have fields: "tk_ticks ?t' = tk_ticks t @ [tm]" "tk_start ?t' = tk_start t" "tk_d ?t' = tk_d t"
    by (auto simp: next_timer_def start_ticker_def Let_def)
  have d: "delivered_ok ?t'" using r(4) tm(1) unfolding delivered_ok_def fields by (auto simp: nth_append less_Suc_eq)
  show ?thesis
  proof (cases "length (tk_ds t) \<ge> 2")
    case True
    let ?n = "length (tk_ticks t)"
    have n: "?n + 2 \<le> length (tk_d t)" and ds: "tk_ds t = drop ?n (tk_d t)" and p: "pending t \<le> 1" "pending t = 1 \<longrightarrow> tk_next t = None"
      using r(2) True by (auto simp: phase_ok_def)
    have idle: "tk_buf t = None" "tk_next t = None" using p assms(2) by (auto simp: pending_def split: if_splits)
    have hd: "hd (tl (tk_ds t)) = tk_d t ! Suc ?n" "tl (tk_ds t) = drop (Suc ?n) (tk_d t)"
      using n by (simp_all add: ds tl_drop drop_Suc [symmetric] nth_tl hd_drop_conv_nth)
    have due: "due (tk_d t) (?n + 2) = due (tk_d t) (?n + 1) + tk_d t ! Suc ?n"
      using due_Suc [of "tk_d t" "?n + 1"] n by (simp add: min_absorb1)
    show ?thesis
    proof (cases "length (tl (tk_ds t)) = 1")
      case single: True
      then have l: "length (tk_d t) = ?n + 2" using ds n by simp
      then have last: "last (tk_d t) = tk_d t ! Suc ?n" by (subst last_conv_nth) auto
      show ?thesis
      proof (cases "tk_d t ! Suc ?n \<le> 0")
        case True
        then have "\<not> running ?t'" "tk_next ?t' = None" "tk_buf ?t' = None"
          using \<open>length (tk_ds t) \<ge> 2\<close> single hd idle by (simp_all add: next_timer_def start_ticker_def running_def Let_def)
        then show ?thesis using d by (simp add: tk_inv_def)
      next
        case False
        then have t': "tk_next ?t' = Some (tk_now t + tk_d t ! Suc ?n)" "tk_pc ?t' = TkSelect" "tk_buf ?t' = None" "tk_ds ?t' = drop (Suc ?n) (tk_d t)"
          using \<open>length (tk_ds t) \<ge> 2\<close> single hd idle by (simp_all add: next_timer_def start_ticker_def Let_def)
        have "phase_ok ?t'" using False l last unfolding phase_ok_def pending_def fields t' by (auto simp: min_absorb1)
        moreover have "times_ok ?t'" using due tm unfolding times_ok_def pending_def fields t' by simp
        ultimately show ?thesis using d by (simp add: tk_inv_def running_def t')
      qed
    next
      case False
      then have t': "tk_next ?t' = Some (tk_now t + tk_d t ! Suc ?n)" "tk_pc ?t' = TkSelect" "tk_buf ?t' = None" "tk_ds ?t' = drop (Suc ?n) (tk_d t)"
        using True hd idle by (simp_all add: next_timer_def Let_def)
      have "length (tk_d t) \<noteq> ?n + 2" using False hd(2) by auto
      then have "phase_ok ?t'" using n unfolding phase_ok_def pending_def fields t' by (auto simp: min_absorb1)
      moreover have "times_ok ?t'" using due tm unfolding times_ok_def pending_def fields t' by simp
      ultimately show ?thesis using d by (simp add: tk_inv_def running_def t')
    qed
  next
    case False
    then have t': "tk_next ?t' = tk_next t" "tk_pc ?t' = TkSelect" "tk_buf ?t' = tk_buf t" "tk_ds ?t' = tk_ds t" "tk_now ?t' = tk_now t"
      by (simp_all add: next_timer_def)
    have "pending t = Suc (pending ?t')" using assms(2) by (simp add: pending_def t')
    then have "times_ok ?t'" using r(3) assms(2) unfolding times_ok_def fields t' by simp
    moreover have "phase_ok ?t'" using r(2) False unfolding phase_ok_def fields t' by (auto simp: min_absorb2)
    ultimately show ?thesis using d by (simp add: tk_inv_def running_def t')
  qed
qed

lemma tk_inv_take:
  assumes "tk_inv t" "tk_buf t = Some tm" "tk_pc t = TkSelect"
  shows "tk_inv (t\<lparr>tk_buf := None, tk_pc := TkSending tm\<rparr>)"
  using assms by (auto simp: tk_inv_def running_def phase_ok_def times_ok_def delivered_ok_def pending_def split: if_splits)

lemma tk_inv_clock: "tk_inv t \<Longrightarrow> 0 \<le> d \<Longrightarrow> tk_inv (t\<lparr>tk_now := tk_now t + d\<rparr>)"
  by (fastforce simp: tk_inv_def running_def phase_ok_def times_ok_def delivered_ok_def pending_def split: if_splits)

text \<open>The other events change neither the timer nor the ticks.\<close>

lemma tk_inv_other:
  assumes "tk_inv t" "tk_d t' = tk_d t" "tk_ds t' = tk_ds t" "tk_next t' = tk_next t" "tk_buf t' = tk_buf t"
    "tk_now t' = tk_now t" "tk_start t' = tk_start t" "tk_ticks t' = tk_ticks t"
    "tk_pc t' = tk_pc t \<or> \<not> running t \<and> \<not> running t' \<or> tk_pc t = TkSelect \<and> tk_pc t' = TkLocking"
  shows "tk_inv t'"
proof -
  have "sending (tk_pc t') = sending (tk_pc t) \<or> \<not> running t'" using assms(9) by auto
  moreover have "running t' = running t" using assms(9) by (auto simp: running_def)
  moreover have "(tk_pc t' = TkSending tm) = (tk_pc t = TkSending tm)" if "running t" for tm
    using assms(9) that by (auto simp: running_def)
  ultimately show ?thesis using assms(1-8) by (auto simp: tk_inv_def phase_ok_def times_ok_def delivered_ok_def pending_def)
qed

definition tk_live :: "Tick \<Rightarrow> bool" where
  "tk_live t \<longleftrightarrow> (tk_ctx t = NoContext \<longrightarrow> tk_pc t = TkIdle \<or> tk_pc t = TkReturned)"

lemma tk_live_step:
  assumes "tk_step k e t = Some t'" "tk_live t" shows "tk_live t'"
proof (cases e)
  case TkBegin
  then have "tk_ctx t' = tk_ctx t" using assms(1) by (auto simp: ticker_begin_def start_ticker_def Let_def split: list.splits)
  then show ?thesis using assms TkBegin by (auto simp: tk_live_def)
next
  case TkDeliver
  then have "tk_ctx t' = tk_ctx t" using assms(1) by (auto simp: next_timer_def start_ticker_def Let_def split: tk_pc.splits)
  then show ?thesis using assms TkDeliver by (auto simp: tk_live_def split: tk_pc.splits)
qed (use assms in \<open>auto simp: tk_live_def Tick_Start_def Tick_TickAt_def fire_def split: option.splits\<close>)

lemma tk_inv_step:
  assumes "tk_step k e t = Some t'" "tk_inv t" "tk_live t" shows "tk_inv t'"
proof (cases e)
  case (TkStart ctx)
  moreover have "tk_inv (Tick_Start ctx t)"
    by (rule tk_inv_other [OF assms(2)]) (use assms(3) in \<open>auto simp: Tick_Start_def running_def tk_live_def\<close>)
  ultimately show ?thesis using assms(1) by simp
next
  case (TkClock d)
  then show ?thesis using assms by (auto intro: tk_inv_clock)
next
  case TkBegin
  then show ?thesis using assms by (auto intro: tk_inv_begin)
next
  case TkFire
  then show ?thesis using assms by (auto intro: tk_inv_fire split: option.splits)
next
  case TkTake
  then show ?thesis using assms by (auto intro: tk_inv_take split: option.splits)
next
  case TkDeliver
  then show ?thesis using assms by (auto intro: tk_inv_deliver split: tk_pc.splits)
next
  case TkStop
  then show ?thesis using assms by (auto simp: tk_inv_def running_def delivered_ok_def)
qed (use assms in \<open>auto intro!: tk_inv_other [OF assms(2)] simp: Tick_TickAt_def\<close>)

interpretation ticks: machine "tk_step k" "\<lambda>t. tk_inv t \<and> tk_live t" for k
  by unfold_locales (auto intro: tk_inv_step tk_live_step)

lemma new_tick_inv: "tk_inv (new_tick ds now) \<and> tk_live (new_tick ds now)"
  by (simp add: new_tick_def tk_inv_def tk_live_def running_def delivered_ok_def)

lemma step_durations:
  assumes "tk_step k e t = Some t'" shows "tk_d t' = tk_d t"
  using assms
  by (cases e)
    (auto simp: Tick_Start_def Tick_TickAt_def ticker_begin_def start_ticker_def next_timer_def fire_def Let_def
      split: option.splits list.splits tk_pc.splits if_splits)

lemma run_durations: "run (tk_step k) es t = Some t' \<Longrightarrow> tk_d t' = tk_d t"
  by (induction es arbitrary: t) (auto split: option.splits dest: step_durations)

lemma ticks_not_early:
  assumes "run (tk_step k) es (new_tick ds now) = Some t" "i < length (tk_ticks t)"
  shows "tk_start t + due ds (Suc i) \<le> tk_ticks t ! i"
proof -
  have "delivered_ok t" using ticks.inv_run [OF assms(1) new_tick_inv] by (simp add: tk_inv_def)
  moreover have "tk_d t = ds" using run_durations [OF assms(1)] by (simp add: new_tick_def)
  ultimately show ?thesis using assms(2) by (simp add: delivered_ok_def)
qed

subsection \<open>Properties\<close>

text \<open>
  C33: A \<open>VarTicker\<close> never ticks early, in any interleaving of its goroutine, the runtime's timers, manual ticks,
  cancellation and restarts, and however slowly the channel is read: since the start of the goroutine at least
  the first \<open>i + 1\<close> durations, the last one repeated, have passed at its \<open>i\<close>-th tick.
\<close>

theorem var_ticker_not_early:
  assumes "run VarTicker_step es (NewVarTicker ds now) = Some t" "i < length (tk_ticks t)"
  shows "tk_start t + due ds (Suc i) \<le> tk_ticks t ! i"
  using assms ticks_not_early unfolding VarTicker_step_def NewVarTicker_def by blast

theorem var_ticker_not_early_witness:
  "\<exists>t. run VarTicker_step [TkStart Live, TkBegin, TkClock 7, TkFire, TkTake, TkDeliver, TkClock 4, TkFire, TkTake, TkDeliver]
       (NewVarTicker [5, 3] 0) = Some t \<and> tk_ticks t = [7, 11] \<and> due [5, 3] 2 \<le> tk_ticks t ! 1"
proof -
  let ?es = "[TkStart Live, TkBegin, TkClock 7, TkFire, TkTake, TkDeliver, TkClock 4, TkFire, TkTake, TkDeliver]"
  obtain t where t: "run VarTicker_step ?es (NewVarTicker [5, 3] 0) = Some t" "tk_ticks t = [7, 11]" "tk_start t = 0"
    by (simp add: VarTicker_step_def NewVarTicker_def new_tick_def Tick_Start_def ticker_begin_def start_ticker_def next_timer_def fire_def Let_def guard_def)
  with var_ticker_not_early [OF t(1), of 1] show ?thesis by (auto simp: numeral_2_eq_2)
qed

text \<open>
  The same for \<open>Ticker\<close>: its \<open>i\<close>-th tick comes at least \<open>i + 1\<close> periods after the start.
\<close>

theorem ticker_not_early:
  assumes "run Ticker_step es (NewTicker d now) = Some t" "i < length (tk_ticks t)"
  shows "tk_start t + int (Suc i) * d \<le> tk_ticks t ! i"
proof -
  have "due [d] (Suc i) = int (Suc i) * d" by (simp add: due_def)
  then show ?thesis using ticks_not_early assms unfolding Ticker_step_def NewTicker_def by metis
qed

text \<open>
  A ticker without a period returns at once and keeps its context: other than the others it cannot be
  started again after a cancellation.
\<close>

lemma manual_ticker_cannot_restart:
  "\<exists>t. run Ticker_step [TkStart Live, TkBegin, TkCancel, TkStart Live] (NewTicker 0 now) = Some t \<and> tk_panicked t"
  "\<exists>t. run Ticker_step [TkStart Live, TkBegin, TkCancel, TkDone, TkStop, TkStart Live] (NewTicker 5 now) = Some t \<and> \<not> tk_panicked t"
  by (simp_all add: Ticker_step_def NewTicker_def new_tick_def Tick_Start_def ticker_begin_def start_ticker_def Let_def guard_def)

end
