(* ===== verification/Hcl_Diag.thy ===== *)
theory Hcl_Diag
  imports Go_Prelude
begin

text \<open>
  Diagnostics of the package \<open>hcl\<close>, as far as the code under \<open>src/hcl\<close> uses them: the severity (an error or a
  warning) and the fixed part of the text. A list of diagnostics is a \<open>hcl.Diagnostics\<close>.
\<close>

datatype diag = Diag (diag_error: bool) (diag_summary: string)

definition HasErrors :: "diag list \<Rightarrow> bool" where
  "HasErrors ds = list_ex diag_error ds"

abbreviation diag_err :: "string \<Rightarrow> diag list" where
  "diag_err s \<equiv> [Diag True s]"

lemma HasErrors_simps [simp]: "\<not> HasErrors []" "HasErrors (ds @ es) \<longleftrightarrow> HasErrors ds \<or> HasErrors es"
  "HasErrors (d # ds) \<longleftrightarrow> diag_error d \<or> HasErrors ds"
  by (simp_all add: HasErrors_def)

end
