(* ===== verification/Hcl_Variables.thy ===== *)
theory Hcl_Variables
  imports Hcl_Diag "HOL-Library.List_Lexorder" "HOL-Library.Char_ord"
begin

text \<open>
  The variables extension of the HCL package (\<open>src/hcl/ext/variables/variables.go\<close>): the variables of the
  \<open>variables\<close> blocks may refer to each other by \<open>var.\<close>name and are resolved on demand, depth first, each at
  most once; a reference that comes back to a variable being resolved is an error.

  The packages \<open>hcl\<close> and \<open>cty\<close> are not part of the repository. A value of \<open>cty\<close> is of a type \<open>'v\<close> with the
  operations of the record \<open>cty\<close>; an expression is what its methods return: its shape (map, list or other),
  the traversals of \<open>Variables()\<close>, and \<open>Value(ctx)\<close> as a function of the variable \<open>var\<close> of the context,
  the only one this code changes. The tree of \<open>variables\<close> nodes is updated along paths of indices; no
  node has two parents, and the nodes copied for the evaluation context are only read. \<open>None\<close> as the result
  of a resolution means that the fuel was too small.
\<close>

subsection \<open>Definitions: what the code uses of hcl and cty\<close>

datatype 'v step = TraverseRoot | TraverseAttr string | TraverseIndex 'v | TraverseSplat

type_synonym 'v traversal = "string \<times> 'v step list"

datatype 'v expr =
  Expr (ex_kind: "'v expr_kind") (ex_Variables: "'v traversal list") (ex_Value: "'v option \<Rightarrow> 'v \<times> diag list")
and 'v expr_kind = ExprMap "('v expr \<times> 'v expr) list" | ExprList "'v expr list" | ExprOther

record 'v cty =
  c_Equals :: "'v \<Rightarrow> 'v \<Rightarrow> bool"
  c_StringVal :: "string \<Rightarrow> 'v"
  c_NumberIntVal :: "nat \<Rightarrow> 'v"
  c_AsString :: "'v \<Rightarrow> string option"
  c_TupleVal :: "'v list \<Rightarrow> 'v"
  c_ObjectVal :: "(string \<times> 'v) list \<Rightarrow> 'v"
  c_NilVal :: 'v

subsection \<open>Definitions: the tree of variables\<close>

datatype 'v variables = Variables
  (va_expression: "'v expr option") (va_resolved: "'v option") (va_visited: bool) (va_size: int)
  (va_variables: "('v \<times> 'v variables) list")

definition empty_variables :: "'v variables" where
  "empty_variables = Variables None None False 0 []"

definition varObjectName :: string where "varObjectName = ''var''"

text \<open>\<open>path\<close>: the node at a path, created if necessary; \<open>f\<close> is what the caller does to it.\<close>

function path_update :: "'v cty \<Rightarrow> ('v variables \<Rightarrow> 'v variables) \<Rightarrow> 'v list \<Rightarrow> 'v variables \<Rightarrow> 'v variables"
  and path_kids :: "'v cty \<Rightarrow> ('v variables \<Rightarrow> 'v variables) \<Rightarrow> 'v \<Rightarrow> 'v list \<Rightarrow> ('v \<times> 'v variables) list \<Rightarrow> ('v \<times> 'v variables) list"
where
  "path_update c f [] t = f t"
| "path_update c f (k # p) (Variables e r v s ks) = Variables e r v s (path_kids c f k p ks)"
| "path_kids c f k p [] = [(k, path_update c f p empty_variables)]"
| "path_kids c f k p ((k', t) # ks) =
     (if c_Equals c k' k then (k', path_update c f p t) # ks else (k', t) # path_kids c f k p ks)"
  by pat_completeness auto
termination
  by (relation "inv_image (less_than <*lex*> less_than)
      (\<lambda>x. case x of Inl (c, f, p, t) \<Rightarrow> (length p, 0) | Inr (c, f, k, p, ks) \<Rightarrow> (length p, Suc (length ks)))") auto

text \<open>\<open>closest\<close>: the distance and the node, given by the indices on the way to it.\<close>

fun index_of :: "'v cty \<Rightarrow> 'v \<Rightarrow> ('v \<times> 'v variables) list \<Rightarrow> nat option" where
  "index_of c k [] = None"
| "index_of c k ((k', t) # ks) = (if c_Equals c k' k then Some 0 else map_option Suc (index_of c k ks))"

fun closest :: "'v cty \<Rightarrow> 'v list \<Rightarrow> 'v variables \<Rightarrow> nat \<times> nat list" where
  "closest c [] t = (0, [])"
| "closest c (k # p) t =
     (case index_of c k (va_variables t) of
        None \<Rightarrow> (length (k # p), [])
      | Some i \<Rightarrow> (case closest c p (snd (va_variables t ! i)) of (n, a) \<Rightarrow> (n, i # a)))"

fun node_at :: "nat list \<Rightarrow> 'v variables \<Rightarrow> 'v variables" where
  "node_at [] t = t"
| "node_at (i # a) t = node_at a (snd (va_variables t ! i))"

fun update_at :: "('v variables \<Rightarrow> 'v variables) \<Rightarrow> nat list \<Rightarrow> 'v variables \<Rightarrow> 'v variables" where
  "update_at f [] t = f t"
| "update_at f (i # a) (Variables e r v s ks) =
     Variables e r v s (if i < length ks then ks[i := (fst (ks ! i), update_at f a (snd (ks ! i)))] else ks)"

text \<open>\<open>toValue\<close>. A key that is no string panics when the variable has no expression to report.\<close>

fun toValue :: "'v cty \<Rightarrow> 'v variables \<Rightarrow> ('v \<times> diag list) go"
  and list_vals :: "'v cty \<Rightarrow> ('v \<times> 'v variables) list \<Rightarrow> 'v list \<Rightarrow> diag list \<Rightarrow> ('v list \<times> diag list) go"
  and map_vals :: "'v cty \<Rightarrow> ('v \<times> 'v variables) list \<Rightarrow> (string \<times> 'v) list \<Rightarrow> diag list \<Rightarrow> ((string \<times> 'v) list \<times> diag list) go"
where
  "toValue c (Variables e r v s ks) =
     (case r of Some x \<Rightarrow> Ret (x, [])
      | None \<Rightarrow>
         if Option.is_none e \<and> length ks = 0 then Ret (c_NilVal c, [])
         else case map_option ex_kind e of
             Some (ExprList es) \<Rightarrow> go_bind (list_vals c ks [] []) (\<lambda>(vals, ds).
               if HasErrors ds then Ret (c_NilVal c, ds) else Ret (c_TupleVal c vals, ds))
           | Some ExprOther \<Rightarrow> Ret (c_NilVal c, [])
           | _ \<Rightarrow> go_bind (map_vals c ks [] []) (\<lambda>(vals, ds).
               if HasErrors ds then Ret (c_NilVal c, ds) else Ret (c_ObjectVal c vals, ds)))"
| "list_vals c [] vals ds = Ret (vals, ds)"
| "list_vals c ((k, t) # ks) vals ds =
     go_bind (toValue c t) (\<lambda>(x, xd).
       list_vals c ks (vals @ [if HasErrors (ds @ xd) then c_NilVal c else x]) (ds @ xd))"
| "map_vals c [] vals ds = Ret (vals, ds)"
| "map_vals c ((k, t) # ks) vals ds =
     (case c_AsString c k of
        None \<Rightarrow> if Option.is_none (va_expression t) then Panic ''nil pointer dereference''
                else map_vals c ks vals (ds @ [Diag True ''Incorrect key type''])
      | Some key \<Rightarrow>
          if HasErrors ds then map_vals c ks vals ds
          else go_bind (toValue c t) (\<lambda>(x, xd).
            if HasErrors (ds @ xd) then map_vals c ks vals (ds @ xd)
            else map_vals c ks (filter (\<lambda>(k', y). k' \<noteq> key) vals @ [(key, x)]) (ds @ xd)))"

text \<open>\<open>optimize\<close>: the node with its descendants optimized, and the diagnostics.\<close>

definition collapse :: "'v cty \<Rightarrow> 'v variables \<Rightarrow> ('v variables \<times> diag list) go" where
  "collapse c t =
     (case t of Variables e r v s ks \<Rightarrow>
        if s \<noteq> int (length ks) then Ret (t, [])
        else if list_all (\<lambda>(k, t'). \<not> Option.is_none (va_resolved t')) ks then
          go_bind (toValue c t) (\<lambda>(x, ds). if HasErrors ds then Ret (t, ds) else Ret (Variables e (Some x) v s [], []))
        else Ret (t, []))"

fun optimize :: "'v cty \<Rightarrow> 'v variables \<Rightarrow> ('v variables \<times> diag list) go"
  and optimize_kids :: "'v cty \<Rightarrow> ('v \<times> 'v variables) list \<Rightarrow> (('v \<times> 'v variables) list \<times> diag list) go"
where
  "optimize c (Variables e r v s ks) =
     (if \<not> Option.is_none r then Ret (Variables e r v s ks, [])
      else if Option.is_none e \<and> length ks = 0 then Ret (Variables e r v s ks, [])
      else go_bind (optimize_kids c ks) (\<lambda>(ks', ds).
        if HasErrors ds then Ret (Variables e r v s ks', ds) else collapse c (Variables e r v s ks')))"
| "optimize_kids c [] = Ret ([], [])"
| "optimize_kids c ((k, t) # ks) =
     go_bind (optimize c t) (\<lambda>(t', ds).
       if HasErrors ds then Ret ((k, t') # ks, ds)
       else go_bind (optimize_kids c ks) (\<lambda>(ks', ds'). Ret ((k, t') # ks', ds')))"

subsection \<open>Definitions: the resolver\<close>

text \<open>\<open>handleDiagnostics\<close>: the new value of the target, and whether to go on.\<close>

definition handleDiagnostics :: "diag list \<Rightarrow> bool \<Rightarrow> diag list \<times> bool" where
  "handleDiagnostics diags cont = (diags @ diags, cont \<and> \<not> HasErrors diags)"

definition hasSelfReference :: "'v variables \<Rightarrow> bool" where
  "hasSelfReference v =
     (case va_expression v of None \<Rightarrow> False
      | Some e \<Rightarrow> list_ex (\<lambda>ref. fst ref = varObjectName) (ex_Variables e))"

text \<open>
  Results: \<open>None\<close> without enough fuel, otherwise a panic or the new state with the diagnostics. The state
  of a traversal is any type \<open>'s\<close>, from which \<open>env\<close> reads the variable of the context.
\<close>

type_synonym 'a res = "'a go option"

definition res_bind :: "'a res \<Rightarrow> ('a \<Rightarrow> 'b res) \<Rightarrow> 'b res" where
  "res_bind m f = (case m of None \<Rightarrow> None | Some (Panic x) \<Rightarrow> Some (Panic x) | Some (Ret a) \<Rightarrow> f a)"

fun traverse :: "'v cty \<Rightarrow> ('s \<Rightarrow> 'v option) \<Rightarrow> ('v list \<Rightarrow> 'v expr \<Rightarrow> 's \<Rightarrow> ('s \<times> bool \<times> diag list) res) \<Rightarrow>
      'v list \<Rightarrow> 'v expr \<Rightarrow> 's \<Rightarrow> ('s \<times> diag list) res"
  and traverse_map :: "'v cty \<Rightarrow> ('s \<Rightarrow> 'v option) \<Rightarrow> ('v list \<Rightarrow> 'v expr \<Rightarrow> 's \<Rightarrow> ('s \<times> bool \<times> diag list) res) \<Rightarrow>
      'v list \<Rightarrow> ('v expr \<times> 'v expr) list \<Rightarrow> diag list \<Rightarrow> 's \<Rightarrow> ('s \<times> diag list) res"
  and traverse_list :: "'v cty \<Rightarrow> ('s \<Rightarrow> 'v option) \<Rightarrow> ('v list \<Rightarrow> 'v expr \<Rightarrow> 's \<Rightarrow> ('s \<times> bool \<times> diag list) res) \<Rightarrow>
      'v list \<Rightarrow> nat \<Rightarrow> 'v expr list \<Rightarrow> diag list \<Rightarrow> 's \<Rightarrow> ('s \<times> diag list) res"
where
  "traverse c env fn path (Expr k vs ev) st =
     res_bind (fn path (Expr k vs ev) st) (\<lambda>(st, cont, fnDiags).
       case handleDiagnostics fnDiags cont of
         (diags, False) \<Rightarrow> Some (Ret (st, diags))
       | (diags, True) \<Rightarrow>
           (case k of
              ExprMap kvs \<Rightarrow> traverse_map c env fn path kvs diags st
            | ExprList es \<Rightarrow> traverse_list c env fn path 0 es diags st
            | ExprOther \<Rightarrow> Some (Ret (st, diags))))"
| "traverse_map c env fn path [] diags st = Some (Ret (st, diags))"
| "traverse_map c env fn path ((key, value) # kvs) diags st =
     (let diags = (if length (ex_Variables key) > 0 then diags @ [Diag True ''Variable contains a map key with a variable inside''] else diags) in
      if HasErrors diags then traverse_map c env fn path kvs diags st
      else case ex_Value key (env st) of (kv, keyDiags) \<Rightarrow>
        if HasErrors (diags @ keyDiags) then Some (Ret (st, diags @ keyDiags))
        else res_bind (traverse c env fn (path @ [kv]) value st) (\<lambda>(st, subDiags).
          if HasErrors (diags @ keyDiags @ subDiags) then Some (Ret (st, diags @ keyDiags @ subDiags))
          else traverse_map c env fn path kvs (diags @ keyDiags @ subDiags) st))"
| "traverse_list c env fn path i [] diags st = Some (Ret (st, diags))"
| "traverse_list c env fn path i (e # es) diags st =
     res_bind (traverse c env fn (path @ [c_NumberIntVal c i]) e st) (\<lambda>(st, subDiags).
       if HasErrors (diags @ subDiags) then Some (Ret (st, diags @ subDiags))
       else traverse_list c env fn path (Suc i) es (diags @ subDiags) st)"

text \<open>\<open>add\<close>: the state is the tree; the context has no variable \<open>var\<close> yet.\<close>

definition expr_size :: "'v expr \<Rightarrow> int" where
  "expr_size e = (case ex_kind e of ExprMap kvs \<Rightarrow> int (length kvs) | ExprList es \<Rightarrow> int (length es) | ExprOther \<Rightarrow> - 1)"

definition set_expression :: "'v expr \<Rightarrow> 'v variables \<Rightarrow> 'v variables" where
  "set_expression e t = (case t of Variables _ r v s ks \<Rightarrow> Variables (Some e) r v (expr_size e) ks)"

definition add_fn :: "'v cty \<Rightarrow> 'v list \<Rightarrow> 'v expr \<Rightarrow> 'v variables \<Rightarrow> ('v variables \<times> bool \<times> diag list) res" where
  "add_fn c path e t =
     Some (Ret (path_update c (set_expression e) path t, hasSelfReference (set_expression e empty_variables), []))"

definition add :: "'v cty \<Rightarrow> 'v option \<Rightarrow> 'v list \<Rightarrow> 'v expr \<Rightarrow> 'v variables \<Rightarrow> ('v variables \<times> diag list) res" where
  "add c env path e t = traverse c (\<lambda>_. env) (add_fn c) path e t"

record 'v vstate =
  vs_root :: "'v variables"
  vs_var :: "'v option"

definition set_visited :: "'v variables \<Rightarrow> 'v variables" where
  "set_visited t = (case t of Variables e r v s ks \<Rightarrow> Variables e r True s ks)"

definition set_resolved :: "'v \<Rightarrow> 'v variables \<Rightarrow> 'v variables" where
  "set_resolved x t = (case t of Variables e r v s ks \<Rightarrow> Variables e (Some x) v s ks)"

definition update_node :: "('v variables \<Rightarrow> 'v variables) \<Rightarrow> nat list \<Rightarrow> 'v vstate \<Rightarrow> 'v vstate" where
  "update_node f a st = st\<lparr>vs_root := update_at f a (vs_root st)\<rparr>"

text \<open>The path of a reference, \<open>None\<close> when it is invalid.\<close>

fun ref_path :: "'v cty \<Rightarrow> 'v step list \<Rightarrow> 'v list option" where
  "ref_path c [] = Some []"
| "ref_path c (TraverseRoot # ts) = ref_path c ts"
| "ref_path c (TraverseAttr name # ts) = map_option (\<lambda>p. c_StringVal c name # p) (ref_path c ts)"
| "ref_path c (TraverseIndex key # ts) = map_option (\<lambda>p. key # p) (ref_path c ts)"
| "ref_path c (TraverseSplat # ts) = None"

text \<open>
  The references of the expression, resolved in turn by \<open>resolve\<close>: the new state and either the paths or
  the diagnostics of the first failure.
\<close>

fun resolve_refs :: "'v cty \<Rightarrow> ('v list \<Rightarrow> 'v vstate \<Rightarrow> ('v vstate \<times> diag list) res) \<Rightarrow> diag list \<Rightarrow> 'v traversal list \<Rightarrow>
    'v list list \<Rightarrow> 'v vstate \<Rightarrow> ('v vstate \<times> (diag list + 'v list list)) res" where
  "resolve_refs c resolve acc [] paths st = Some (Ret (st, Inr paths))"
| "resolve_refs c resolve acc ((name, steps) # refs) paths st =
     (if name \<noteq> varObjectName then resolve_refs c resolve acc refs paths st
      else case ref_path c steps of
        None \<Rightarrow> Some (Ret (st, Inl [Diag True ''Invalid variable reference'']))
      | Some path \<Rightarrow> res_bind (resolve path st) (\<lambda>(st, resDiags).
          if HasErrors (acc @ resDiags) then Some (Ret (st, Inl (acc @ resDiags)))
          else resolve_refs c resolve acc refs (paths @ [path]) st))"

text \<open>The variable that contains only what the expression refers to.\<close>

definition copy_node :: "'v variables \<Rightarrow> 'v variables \<Rightarrow> 'v variables" where
  "copy_node src t = Variables (va_expression src) (va_resolved src) (va_visited t) (va_size t) (va_variables src)"

fun filtered :: "'v cty \<Rightarrow> 'v variables \<Rightarrow> 'v list list \<Rightarrow> 'v variables \<Rightarrow> 'v variables" where
  "filtered c root [] t = t"
| "filtered c root (p # ps) t =
     (case closest c p root of (n, a) \<Rightarrow>
        filtered c root ps (path_update c (copy_node (node_at a root)) (take (length p - n) p) t))"

text \<open>
  The function that \<open>resolveWithSelfReference\<close> hands to the traversal, for the variable at \<open>a\<close> with the
  expression \<open>e\<close>; the state carries the diagnostics that the closure accumulates.
\<close>

definition self_fn :: "'v cty \<Rightarrow> ('v list \<Rightarrow> 'v vstate \<Rightarrow> ('v vstate \<times> diag list) res) \<Rightarrow> nat list \<Rightarrow> 'v expr \<Rightarrow>
    'v list \<Rightarrow> 'v expr \<Rightarrow> 'v vstate \<times> diag list \<Rightarrow> (('v vstate \<times> diag list) \<times> bool \<times> diag list) res" where
  "self_fn c resolve a e path ex sta =
     (case sta of (st, acc) \<Rightarrow>
        case ex_kind ex of
          ExprMap _ \<Rightarrow> Some (Ret (sta, True, []))
        | ExprList _ \<Rightarrow> Some (Ret (sta, True, []))
        | ExprOther \<Rightarrow>
            res_bind (resolve_refs c resolve acc (ex_Variables e) [] st) (\<lambda>(st, r).
              case r of
                Inl ds \<Rightarrow> Some (Ret ((st, acc), False, ds))
              | Inr paths \<Rightarrow>
                  (case toValue c (filtered c (vs_root st) paths empty_variables) of
                     Panic m \<Rightarrow> Some (Panic m)
                   | Ret (ref, refDiags) \<Rightarrow>
                       if HasErrors (acc @ refDiags) then Some (Ret ((st, acc @ refDiags), False, acc @ refDiags))
                       else case ex_Value e (Some ref) of (value, valDiags) \<Rightarrow>
                         if HasErrors (acc @ refDiags @ valDiags)
                         then Some (Ret ((st\<lparr>vs_var := Some ref\<rparr>, acc @ refDiags @ valDiags), False, acc @ refDiags @ valDiags))
                         else Some (Ret (((update_node (set_resolved value) a st)\<lparr>vs_var := Some (c_NilVal c)\<rparr>,
                                          acc @ refDiags @ valDiags), True, [])))))"

definition resolveWithSelfReference :: "'v cty \<Rightarrow> ('v list \<Rightarrow> 'v vstate \<Rightarrow> ('v vstate \<times> diag list) res) \<Rightarrow> 'v list \<Rightarrow>
    nat list \<Rightarrow> 'v expr \<Rightarrow> 'v vstate \<Rightarrow> ('v vstate \<times> diag list) res" where
  "resolveWithSelfReference c resolve path a e st =
     res_bind (traverse c (\<lambda>(st, acc). vs_var st) (self_fn c resolve a e) path e (st, [])) (\<lambda>((st, acc), diags). Some (Ret (st, diags)))"

definition resolveWithoutSelfReference :: "nat list \<Rightarrow> 'v expr \<Rightarrow> 'v vstate \<Rightarrow> 'v vstate \<times> diag list" where
  "resolveWithoutSelfReference a e st =
     (case ex_Value e (vs_var st) of (value, valDiags) \<Rightarrow>
        if HasErrors valDiags then (st, valDiags) else (update_node (set_resolved value) a st, []))"

fun resolveSingle :: "nat \<Rightarrow> 'v cty \<Rightarrow> 'v list \<Rightarrow> 'v vstate \<Rightarrow> ('v vstate \<times> diag list) res" where
  "resolveSingle 0 c path st = None"
| "resolveSingle (Suc n) c path st =
     (let a = snd (closest c path (vs_root st)); t = node_at a (vs_root st) in
      if \<not> Option.is_none (va_resolved t) then Some (Ret (st, []))
      else if va_visited t then
        (if Option.is_none (va_expression t) then Some (Panic ''nil pointer dereference'')
         else Some (Ret (st, [Diag True ''Circular reference detected''])))
      else
        let st1 = update_node set_visited a st in
        case optimize c (node_at a (vs_root st1)) of
          Panic m \<Rightarrow> Some (Panic m)
        | Ret (t', optDiags) \<Rightarrow>
            let st2 = update_node (\<lambda>_. t') a st1 in
            case handleDiagnostics optDiags True of
              (diags, False) \<Rightarrow> Some (Ret (st2, diags))
            | (diags, True) \<Rightarrow>
                (case va_expression t' of
                   None \<Rightarrow> Some (Panic ''nil pointer dereference'')
                 | Some e \<Rightarrow>
                     if \<not> hasSelfReference t' then
                       (case resolveWithoutSelfReference a e st2 of (st3, ds) \<Rightarrow> Some (Ret (st3, diags @ ds)))
                     else resolveWithSelfReference c (resolveSingle n c) path a e st2))"

fun resolve_keys :: "nat \<Rightarrow> 'v cty \<Rightarrow> 'v list \<Rightarrow> 'v vstate \<Rightarrow> ('v vstate \<times> diag list) res" where
  "resolve_keys n c [] st = Some (Ret (st, []))"
| "resolve_keys n c (k # ks) st =
     res_bind (resolveSingle n c [k] st) (\<lambda>(st, diags). if HasErrors diags then Some (Ret (st, diags)) else resolve_keys n c ks st)"

definition resolveAll :: "nat \<Rightarrow> 'v cty \<Rightarrow> 'v vstate \<Rightarrow> ('v vstate \<times> diag list) res" where
  "resolveAll n c st = resolve_keys n c (map fst (va_variables (vs_root st))) st"

text \<open>The fuel of the whole resolution: one more than the number of variables not visited yet.\<close>

fun unvisited :: "'v variables \<Rightarrow> nat" and unvisited_kids :: "('v \<times> 'v variables) list \<Rightarrow> nat" where
  "unvisited (Variables e r v s ks) = (if v then 0 else 1) + unvisited_kids ks"
| "unvisited_kids [] = 0"
| "unvisited_kids ((k, t) # ks) = unvisited t + unvisited_kids ks"

definition resolveAllVariables :: "'v cty \<Rightarrow> 'v vstate \<Rightarrow> ('v vstate \<times> diag list) res" where
  "resolveAllVariables c st =
     res_bind (resolveAll (Suc (unvisited (vs_root st))) c st) (\<lambda>(st, resDiags).
       case handleDiagnostics resDiags True of
         (diags, False) \<Rightarrow> Some (Ret (st, diags))
       | (_, True) \<Rightarrow>
           (case toValue c (vs_root st) of
              Panic m \<Rightarrow> Some (Panic m)
            | Ret (x, diags) \<Rightarrow> Some (Ret (st\<lparr>vs_var := Some x\<rparr>, diags))))"

text \<open>
  A block is given by its attributes, a map ranged over in any order, and the diagnostics of
  \<open>JustAttributes\<close>.
\<close>

definition sortAttributes :: "(string \<times> 'v expr) list \<Rightarrow> (string \<times> 'v expr) list" where
  "sortAttributes attrs = sort_key fst attrs"

fun populate_attrs :: "'v cty \<Rightarrow> 'v option \<Rightarrow> (string \<times> 'v expr) list \<Rightarrow> diag list \<Rightarrow> 'v variables \<Rightarrow> ('v variables \<times> diag list \<times> bool) res" where
  "populate_attrs c env [] diags t = Some (Ret (t, diags, True))"
| "populate_attrs c env ((name, e) # attrs) diags t =
     res_bind (add c env [c_StringVal c name] e t) (\<lambda>(t, addDiags).
       case handleDiagnostics addDiags (\<not> HasErrors diags) of
         (diags, False) \<Rightarrow> Some (Ret (t, diags, False))
       | (diags, True) \<Rightarrow> populate_attrs c env attrs diags t)"

fun populateResolver :: "'v cty \<Rightarrow> 'v option \<Rightarrow> ((string \<times> 'v expr) list \<times> diag list) list \<Rightarrow> diag list \<Rightarrow> 'v variables \<Rightarrow> ('v variables \<times> diag list) res" where
  "populateResolver c env [] diags t = Some (Ret (t, diags))"
| "populateResolver c env ((attrs, attrsDiags) # blocks) diags t =
     (case handleDiagnostics attrsDiags (\<not> HasErrors diags) of
        (diags, False) \<Rightarrow> Some (Ret (t, diags))
      | (diags, True) \<Rightarrow>
          res_bind (populate_attrs c env (sortAttributes attrs) diags t) (\<lambda>(t, diags, ok).
            if ok then populateResolver c env blocks diags t else Some (Ret (t, diags))))"

text \<open>\<open>Variables\<close>: the variable \<open>var\<close> of the context, whether the remaining body is returned, and the diagnostics.\<close>

definition Variables_ext :: "'v cty \<Rightarrow> 'v option \<Rightarrow> ((string \<times> 'v expr) list \<times> diag list) list \<Rightarrow> diag list \<Rightarrow> ('v option \<times> bool \<times> diag list) res" where
  "Variables_ext c env blocks contentDiags =
     (case handleDiagnostics contentDiags (\<not> HasErrors contentDiags) of
        (diags, False) \<Rightarrow> Some (Ret (env, False, diags))
      | (diags, True) \<Rightarrow>
          res_bind (populateResolver c env blocks [] empty_variables) (\<lambda>(t, popDiags).
            case handleDiagnostics popDiags (\<not> HasErrors diags) of
              (diags, False) \<Rightarrow> Some (Ret (env, False, diags))
            | (diags, True) \<Rightarrow>
                res_bind (resolveAllVariables c \<lparr>vs_root = t, vs_var = env\<rparr>) (\<lambda>(st, resDiags).
                  case handleDiagnostics resDiags (\<not> HasErrors diags) of
                    (diags, False) \<Rightarrow> Some (Ret (vs_var st, False, diags))
                  | (diags, True) \<Rightarrow> Some (Ret (vs_var st, True, diags)))))"

end
