(* ===== verification/Hcl_Resolve.thy ===== *)
theory Hcl_Resolve
  imports Hcl_Variables
begin

text \<open>
  What the variables extension of \<open>Hcl_Variables\<close> does: the resolution ends, since every call that goes on visits one
  more variable, and for variables that are neither maps nor lists it computes the meaning of every variable,
  defined inductively, and succeeds exactly when all of them have one. The last lemmas show its errors on
  concrete configurations.
\<close>

subsection \<open>Lemmas: the fuel is enough\<close>

definition res_ok :: "('a \<Rightarrow> bool) \<Rightarrow> 'a res \<Rightarrow> bool" where
  "res_ok P m = (case m of None \<Rightarrow> False | Some (Panic _) \<Rightarrow> True | Some (Ret a) \<Rightarrow> P a)"

lemma res_ok_simps [simp]: "res_ok P (Some (Ret a)) = P a" "res_ok P (Some (Panic m))" "\<not> res_ok P None"
  by (simp_all add: res_ok_def)

lemma res_bind_simps [simp]: "res_bind (Some (Ret a)) f = f a" "res_bind (Some (Panic m)) f = Some (Panic m)" "res_bind None f = None"
  by (simp_all add: res_bind_def)

lemma res_okE:
  assumes "res_ok P m" obtains x where "m = Some (Panic x)" | a where "m = Some (Ret a)" "P a"
  using assms by (auto simp: res_ok_def split: option.splits go.splits)

lemma res_cases: obtains "m = None" | x where "m = Some (Panic x)" | a where "m = Some (Ret a)"
  by (metis go.exhaust option.exhaust)

lemma res_ok_bind: "res_ok P m \<Longrightarrow> (\<And>a. P a \<Longrightarrow> res_ok Q (f a)) \<Longrightarrow> res_ok Q (res_bind m f)"
  by (erule res_okE) auto

text \<open>A traversal keeps what its function keeps.\<close>

abbreviation keeps :: "('s \<Rightarrow> bool) \<Rightarrow> ('s \<times> 'a) res \<Rightarrow> bool" where
  "keeps I m \<equiv> res_ok (\<lambda>x. I (fst x)) m"

lemma traverse_keeps:
  shows "(\<forall>p e st. I st \<longrightarrow> keeps I (fn p e st)) \<longrightarrow> I st \<longrightarrow> keeps I (traverse c env fn path e st)"
    and "(\<forall>p e st. I st \<longrightarrow> keeps I (fn p e st)) \<longrightarrow> I st \<longrightarrow> keeps I (traverse_map c env fn path kvs diags st)"
    and "(\<forall>p e st. I st \<longrightarrow> keeps I (fn p e st)) \<longrightarrow> I st \<longrightarrow> keeps I (traverse_list c env fn path i es diags st)"
proof (induction c env fn path e st and c env fn path kvs diags st and c env fn path i es diags st
    rule: traverse_traverse_map_traverse_list.induct)
  case (1 c env fn path k vs ev st)
  show ?case
  proof (intro impI)
    assume fn: "\<forall>p e st. I st \<longrightarrow> keeps I (fn p e st)" and st: "I st"
    show "keeps I (traverse c env fn path (Expr k vs ev) st)"
      unfolding traverse.simps
      by (rule res_ok_bind [where P = "\<lambda>x. I (fst x)"])
        (use 1 fn st in \<open>auto simp: handleDiagnostics_def split: expr_kind.splits bool.splits\<close>)
  qed
next
  case (3 c env fn path key val kvs diags st)
  show ?case
  proof (intro impI)
    assume fn: "\<forall>p e st. I st \<longrightarrow> keeps I (fn p e st)" and st: "I st"
    show "keeps I (traverse_map c env fn path ((key, val) # kvs) diags st)"
      using 3 fn st by (auto simp: Let_def split: prod.splits intro!: res_ok_bind [where P = "\<lambda>x. I (fst x)"])
  qed
next
  case (5 c env fn path i e es diags st)
  show ?case
  proof (intro impI)
    assume fn: "\<forall>p e st. I st \<longrightarrow> keeps I (fn p e st)" and st: "I st"
    show "keeps I (traverse_list c env fn path i (e # es) diags st)"
      using 5 fn st by (auto split: prod.splits intro!: res_ok_bind [where P = "\<lambda>x. I (fst x)"])
  qed
qed auto

text \<open>The number of unvisited variables.\<close>

fun valid_at :: "nat list \<Rightarrow> 'v variables \<Rightarrow> bool" where
  "valid_at [] t = True"
| "valid_at (i # a) t = (i < length (va_variables t) \<and> valid_at a (snd (va_variables t ! i)))"

lemma index_of_bound: "index_of c k ks = Some i \<Longrightarrow> i < length ks"
  by (induction c k ks arbitrary: i rule: index_of.induct) (auto split: if_splits)

lemma closest_valid: "closest c p t = (n, a) \<Longrightarrow> valid_at a t"
  by (induction c p t arbitrary: n a rule: closest.induct) (auto split: option.splits prod.splits dest: index_of_bound)

lemma unvisited_kids_update:
  "i < length ks \<Longrightarrow> unvisited_kids (ks[i := (k, t)]) + unvisited (snd (ks ! i)) = unvisited_kids ks + unvisited t"
proof (induction ks arbitrary: i)
  case (Cons kt ks)
  then show ?case by (cases kt; cases i) auto
qed simp

lemma unvisited_update:
  "valid_at a t \<Longrightarrow> unvisited (update_at f a t) + unvisited (node_at a t) = unvisited t + unvisited (f (node_at a t))"
proof (induction f a t rule: update_at.induct)
  case (2 f i a e r v s ks)
  then have "unvisited (update_at f a (snd (ks ! i))) + unvisited (node_at a (snd (ks ! i))) = unvisited (snd (ks ! i)) + unvisited (f (node_at a (snd (ks ! i))))"
    by simp
  then show ?case using 2(2) unvisited_kids_update [of i ks "fst (ks ! i)" "update_at f a (snd (ks ! i))"] by simp
qed simp

lemma node_update: "valid_at a t \<Longrightarrow> node_at a (update_at f a t) = f (node_at a t)"
  by (induction f a t rule: update_at.induct) auto

lemma valid_update: "valid_at a t \<Longrightarrow> valid_at a (update_at f a t)"
  by (induction f a t rule: update_at.induct) auto

lemma unvisited_optimize:
  "optimize c t = Ret (t', ds) \<Longrightarrow> unvisited t' \<le> unvisited t \<and> va_expression t' = va_expression t"
  "optimize_kids c ks = Ret (ks', ds) \<Longrightarrow> unvisited_kids ks' \<le> unvisited_kids ks"
proof (induction c t and c ks arbitrary: t' ds and ks' ds rule: optimize_optimize_kids.induct)
  case (1 c e r v s ks)
  show ?case
  proof (cases "Option.is_none r \<and> \<not> (Option.is_none e \<and> length ks = 0)")
    case True
    then obtain ks1 ds1 where ks1: "optimize_kids c ks = Ret (ks1, ds1)" using 1(2) by (cases "optimize_kids c ks") auto
    then have "unvisited_kids ks1 \<le> unvisited_kids ks" using 1(1) True by auto
    moreover have "unvisited t' \<le> unvisited (Variables e r v s ks1) \<and> va_expression t' = e"
    proof (cases "HasErrors ds1")
      case err: True
      then show ?thesis using 1(2) True ks1 by auto
    next
      case False
      then have "collapse c (Variables e r v s ks1) = Ret (t', ds)" using 1(2) True ks1 by auto
      then show ?thesis
        by (cases "toValue c (Variables e r v s ks1)") (auto simp del: toValue.simps simp: collapse_def split: if_splits prod.splits)
    qed
    ultimately show ?thesis by simp
  next
    case False
    then show ?thesis using 1(2) by (auto split: if_splits)
  qed
next
  case (3 c k t ks)
  obtain t1 ds1 where t1: "optimize c t = Ret (t1, ds1)" using 3(3) by (cases "optimize c t") auto
  then have le: "unvisited t1 \<le> unvisited t" using 3(1) by auto
  show ?case
  proof (cases "HasErrors ds1")
    case True
    then show ?thesis using 3(3) t1 le by auto
  next
    case False
    then obtain ks1 ds2 where ks1: "optimize_kids c ks = Ret (ks1, ds2)" using 3(3) t1 by (cases "optimize_kids c ks") auto
    then have "unvisited_kids ks1 \<le> unvisited_kids ks" using 3(2) t1 False by auto
    then show ?thesis using 3(3) t1 ks1 False le by auto
  qed
qed auto

abbreviation unv :: "'v vstate \<Rightarrow> nat" where
  "unv st \<equiv> unvisited (vs_root st)"

lemma unvisited_set: "unvisited (set_resolved x t) = unvisited t" "unvisited (set_visited t) = (if va_visited t then unvisited t else unvisited t - 1)"
  "va_visited t \<or> 0 < unvisited t"
  by (cases t; simp add: set_resolved_def set_visited_def)+

lemma unvisited_same: "(\<And>t. unvisited (f t) = unvisited t) \<Longrightarrow> unvisited (update_at f a t) = unvisited t"
proof (induction f a t rule: update_at.induct)
  case (2 f i a e r v s ks)
  then show ?case using unvisited_kids_update [of i ks "fst (ks ! i)" "update_at f a (snd (ks ! i))"] by auto
qed simp

lemma unv_set_resolved: "unv (update_node (set_resolved x) a st) = unv st"
  using unvisited_same [of "set_resolved x"] by (simp add: update_node_def unvisited_set)

lemma resolve_refs_keeps:
  assumes "\<And>p st. I st \<Longrightarrow> keeps I (resolve p st)"
  shows "I st \<Longrightarrow> keeps I (resolve_refs c resolve acc refs paths st)"
proof (induction refs arbitrary: paths st)
  case (Cons ref refs)
  obtain name steps where [simp]: "ref = (name, steps)" by force
  show ?case
  proof (cases "name = varObjectName \<and> ref_path c steps \<noteq> None")
    case True
    then show ?thesis using Cons
      by (auto intro!: res_ok_bind [where P = "\<lambda>x. I (fst x)", OF assms])
  qed (use Cons in auto)
qed simp

lemma self_fn_keeps:
  assumes "\<And>p st. I st \<Longrightarrow> keeps I (resolve p st)"
    and "\<And>x y st. I st \<Longrightarrow> I (st\<lparr>vs_var := y\<rparr>)" "\<And>x st. I st \<Longrightarrow> I (update_node (set_resolved x) a st)"
  shows "I (fst sta) \<Longrightarrow> keeps (\<lambda>sta. I (fst sta)) (self_fn c resolve a e path ex sta)"
proof -
  assume I: "I (fst sta)"
  obtain st acc where sta: "sta = (st, acc)" by force
  show ?thesis
  proof (cases "ex_kind ex")
    case ExprOther
    have "keeps I (resolve_refs c resolve acc (ex_Variables e) [] st)" using resolve_refs_keeps [OF assms(1)] I sta by simp
    then show ?thesis unfolding sta self_fn_def ExprOther
      by (auto intro!: res_ok_bind [where P = "\<lambda>x. I (fst x)"] assms(2,3) split: sum.splits go.splits prod.splits)
  qed (use I in \<open>auto simp: self_fn_def sta\<close>)
qed

text \<open>Resolution never runs out of fuel while the fuel exceeds the number of unvisited variables.\<close>

lemma resolveSingle_fuel: "unv st < n \<Longrightarrow> unv st \<le> m \<Longrightarrow> keeps (\<lambda>st. unv st \<le> m) (resolveSingle n c path st)"
proof (induction n arbitrary: path st m)
  case (Suc n)
  obtain d a where a: "closest c path (vs_root st) = (d, a)" by force
  define t where "t = node_at a (vs_root st)"
  note valid = closest_valid [OF a]
  show ?case
  proof (cases "Option.is_none (va_resolved t) \<and> \<not> va_visited t")
    case True
    define st1 where "st1 = update_node set_visited a st"
    have v1: "valid_at a (vs_root st1)" using valid by (simp add: st1_def update_node_def valid_update)
    have n1: "node_at a (vs_root st1) = set_visited t" using valid by (simp add: st1_def update_node_def node_update t_def)
    have u1: "unv st1 < unv st"
      using unvisited_update [OF valid, of set_visited] True unvisited_set(2,3) [of t]
      by (simp add: st1_def update_node_def t_def)
    show ?thesis
    proof (cases "optimize c (set_visited t)")
      case (Ret td)
      obtain t' ds where td: "td = (t', ds)" by force
      define st2 where "st2 = update_node (\<lambda>_. t') a st1"
      have v2: "valid_at a (vs_root st2)" using v1 by (simp add: st2_def update_node_def valid_update)
      have "unvisited t' \<le> unvisited (set_visited t)" using unvisited_optimize(1) Ret td by auto
      then have u2: "unv st2 \<le> unv st1" using unvisited_update [OF v1, of "\<lambda>_. t'"] by (simp add: st2_def update_node_def n1)
      have self: "keeps (\<lambda>st. unv st \<le> m) (resolveWithSelfReference c (resolveSingle n c) path a e st2)" for e
      proof -
        let ?I = "\<lambda>st. unv st \<le> min m (n - 1)"
        have n: "unv st2 \<le> min m (n - 1)" "0 < n" using u1 u2 Suc.prems by auto
        have "keeps ?I (resolveSingle n c p st')" if "?I st'" for p st'
        proof -
          have "unv st' < n" using that n(2) by linarith
          then show ?thesis using Suc.IH [of st' "min m (n - 1)" p] that by simp
        qed
        then have "keeps (\<lambda>sta. ?I (fst sta)) (self_fn c (resolveSingle n c) a e p ex sta)" if "?I (fst sta)" for p ex sta
          using that by (intro self_fn_keeps [where I = ?I]) (simp_all add: unv_set_resolved)
        then have "keeps (\<lambda>sta. ?I (fst sta)) (traverse c (\<lambda>(st, acc). vs_var st) (self_fn c (resolveSingle n c) a e) path e (st2, []))"
          using traverse_keeps(1) [of "\<lambda>sta. ?I (fst sta)" "self_fn c (resolveSingle n c) a e"] n by simp
        then show ?thesis unfolding resolveWithSelfReference_def by (rule res_ok_bind) auto
      qed
      have "unv st3 \<le> m" if "resolveWithoutSelfReference a e st2 = (st3, ds')" for e st3 ds'
        using u1 u2 Suc.prems that by (auto simp: resolveWithoutSelfReference_def unv_set_resolved split: prod.splits if_splits)
      then show ?thesis using self u1 u2 Suc.prems True Ret td a
        by (auto simp: Let_def t_def [symmetric] st1_def [symmetric] n1 st2_def [symmetric] handleDiagnostics_def
            split: prod.splits bool.splits option.splits)
    qed (use True a in \<open>simp add: Let_def t_def [symmetric] st1_def [symmetric] n1\<close>)
  qed (use Suc.prems a in \<open>auto simp: Let_def t_def [symmetric]\<close>)
qed simp

lemma resolve_keys_fuel: "unv st < n \<Longrightarrow> keeps (\<lambda>st. unv st < n) (resolve_keys n c ks st)"
proof (induction ks arbitrary: st)
  case (Cons k ks)
  have "keeps (\<lambda>st'. unv st' \<le> unv st) (resolveSingle n c [k] st)" using resolveSingle_fuel Cons.prems by blast
  then show ?case using Cons by (auto elim!: res_okE split: prod.splits)
qed simp

lemma add_total: "res_ok (\<lambda>_. True) (add c env path e t)"
  using traverse_keeps(1) [of "\<lambda>_. True" "add_fn c"] by (simp add: add_def add_fn_def)

lemma populate_attrs_total: "res_ok (\<lambda>_. True) (populate_attrs c env attrs diags t)"
proof (induction attrs arbitrary: diags t)
  case (Cons ne attrs)
  obtain name e where [simp]: "ne = (name, e)" by force
  show ?case unfolding populate_attrs.simps \<open>ne = (name, e)\<close>
    by (rule res_ok_bind [OF add_total]) (auto simp: Cons handleDiagnostics_def split: bool.splits)
qed simp

lemma populate_total: "res_ok (\<lambda>_. True) (populateResolver c env blocks diags t)"
proof (induction blocks arbitrary: diags t)
  case (Cons b blocks)
  obtain attrs ad where [simp]: "b = (attrs, ad)" by force
  show ?case
    by (auto simp: handleDiagnostics_def split: bool.splits intro!: res_ok_bind [OF populate_attrs_total] Cons)
qed simp

lemma resolveAllVariables_total: "res_ok (\<lambda>_. True) (resolveAllVariables c st)"
  unfolding resolveAllVariables_def resolveAll_def
  by (rule res_ok_bind [OF resolve_keys_fuel]) (auto simp: handleDiagnostics_def split: bool.splits go.splits)

lemma Variables_ext_total: "res_ok (\<lambda>_. True) (Variables_ext c env blocks ds)"
  unfolding Variables_ext_def
  by (auto simp: handleDiagnostics_def split: bool.splits intro!: res_ok_bind [OF populate_total] res_ok_bind [OF resolveAllVariables_total])

subsection \<open>Lemmas: variables that are neither maps nor lists\<close>

text \<open>What the code relies on of \<open>cty\<close>.\<close>

definition cty_ok :: "'v cty \<Rightarrow> bool" where
  "cty_ok c \<longleftrightarrow> (\<forall>x y. c_Equals c (c_StringVal c x) (c_StringVal c y) \<longleftrightarrow> x = y) \<and> (\<forall>x. c_AsString c (c_StringVal c x) = Some x)"

text \<open>The names of the variables an expression refers to, when its references are of the form \<open>var.x\<close>\<dots>\<close>

fun ref_name :: "'v step list \<Rightarrow> string" where
  "ref_name (TraverseAttr y # _) = y"
| "ref_name _ = []"

definition ref_names :: "'v expr \<Rightarrow> string list" where
  "ref_names e = map (\<lambda>(r, ts). ref_name ts) (filter (\<lambda>(r, ts). r = varObjectName) (ex_Variables e))"

text \<open>
  Plain variables: the expression is neither a map nor a list, its references begin with a name and have no
  splat, and without references to \<open>var\<close> its value does not depend on it.
\<close>

definition plain_expr :: "'v expr \<Rightarrow> bool" where
  "plain_expr e \<longleftrightarrow> (case ex_kind e of ExprOther \<Rightarrow> True | _ \<Rightarrow> False) \<and>
     list_all (\<lambda>(r, ts). case ts of TraverseAttr y # ts' \<Rightarrow> list_all (\<lambda>t. case t of TraverseSplat \<Rightarrow> False | _ \<Rightarrow> True) ts' | _ \<Rightarrow> r \<noteq> varObjectName) (ex_Variables e) \<and>
     (ref_names e = [] \<longrightarrow> (\<forall>env. ex_Value e env = ex_Value e None))"

definition leaf :: "'v expr \<Rightarrow> 'v option \<Rightarrow> bool \<Rightarrow> 'v variables" where
  "leaf e r v = Variables (Some e) r v (- 1) []"

definition flat :: "'v cty \<Rightarrow> (string \<times> 'v expr) list \<Rightarrow> (string \<Rightarrow> 'v option) \<Rightarrow> (string \<Rightarrow> bool) \<Rightarrow> 'v variables" where
  "flat c xs R V = Variables None None False 0 (map (\<lambda>(x, e). (c_StringVal c x, leaf e (R x) (V x))) xs)"

lemma index_of_flat:
  assumes "cty_ok c" "distinct (map fst xs)" "i < length xs"
  shows "index_of c (c_StringVal c (fst (xs ! i))) (map (\<lambda>(x, e). (c_StringVal c x, f x e)) xs) = Some i"
  using assms(2,3)
proof (induction xs arbitrary: i)
  case (Cons xe xs)
  then show ?case using assms(1) by (cases xe; cases i) (auto simp: cty_ok_def)
qed simp

lemma index_of_undefined:
  assumes "cty_ok c" "x \<notin> fst ` set xs"
  shows "index_of c (c_StringVal c x) (map (\<lambda>(x, e). (c_StringVal c x, f x e)) xs) = None"
  using assms(2)
proof (induction xs)
  case (Cons xe xs)
  then show ?case using assms(1) by (cases xe) (auto simp: cty_ok_def)
qed simp

lemma closest_leaf [simp]: "closest c p (leaf e r v) = (length p, [])"
  by (cases p) (simp_all add: leaf_def)

lemma closest_flat:
  assumes "cty_ok c" "distinct (map fst xs)" "i < length xs"
  shows "closest c (c_StringVal c (fst (xs ! i)) # rest) (flat c xs R V) = (length rest, [i])"
  using index_of_flat [OF assms, of "\<lambda>x e. leaf e (R x) (V x)"] assms(3) by (simp add: flat_def case_prod_beta)

lemma update_flat:
  assumes "distinct (map fst xs)" "i < length xs" "f (leaf (snd (xs ! i)) (R (fst (xs ! i))) (V (fst (xs ! i)))) = leaf (snd (xs ! i)) r v"
  shows "update_at f [i] (flat c xs R V) = flat c xs (R(fst (xs ! i) := r)) (V(fst (xs ! i) := v))"
proof -
  have key: "fst (xs ! j) = fst (xs ! i) \<longleftrightarrow> i = j" if "j < length xs" for j
    using assms(1,2) that nth_eq_iff_index_eq [of "map fst xs" j i] by auto
  have "(map (\<lambda>(x, e). (c_StringVal c x, leaf e (R x) (V x))) xs)[i := (c_StringVal c (fst (xs ! i)), leaf (snd (xs ! i)) r v)] =
    map (\<lambda>(x, e). (c_StringVal c x, leaf e ((R(fst (xs ! i) := r)) x) ((V(fst (xs ! i) := v)) x))) xs"
    using assms(2) by (intro nth_equalityI) (auto simp: nth_list_update case_prod_beta key)
  then show ?thesis using assms(2,3) by (simp add: flat_def case_prod_beta)
qed

lemma node_flat: "i < length xs \<Longrightarrow> node_at [i] (flat c xs R V) = leaf (snd (xs ! i)) (R (fst (xs ! i))) (V (fst (xs ! i)))"
  by (simp add: flat_def case_prod_beta)

lemma leaf_fields [simp]: "va_expression (leaf e r v) = Some e" "va_resolved (leaf e r v) = r" "va_visited (leaf e r v) = v"
  "set_visited (leaf e r v) = leaf e r True" "set_resolved y (leaf e r v) = leaf e (Some y) v" "optimize c (leaf e r v) = Ret (leaf e r v, [])"
  by (simp_all add: leaf_def set_visited_def set_resolved_def collapse_def)

lemma ref_path_plain:
  "list_all (\<lambda>t. case t of TraverseSplat \<Rightarrow> False | _ \<Rightarrow> True) ts \<Longrightarrow> \<exists>p. ref_path c ts = Some p"
  by (induction c ts rule: ref_path.induct) auto

text \<open>The context in which an expression with references is evaluated.\<close>

definition first_names :: "string list \<Rightarrow> string list" where
  "first_names ys = rev (remdups (rev ys))"

definition ref_object :: "'v cty \<Rightarrow> string list \<Rightarrow> (string \<Rightarrow> 'v) \<Rightarrow> 'v" where
  "ref_object c ys f = c_ObjectVal c (map (\<lambda>y. (y, f y)) (first_names ys))"

text \<open>The meaning of the variables: each is the value of its expression where those it refers to have their meaning.\<close>

inductive denotes :: "'v cty \<Rightarrow> (string \<times> 'v expr) list \<Rightarrow> string \<Rightarrow> 'v \<Rightarrow> bool" for c xs where
  no_refs: "(x, e) \<in> set xs \<Longrightarrow> ref_names e = [] \<Longrightarrow> ex_Value e None = (v, ds) \<Longrightarrow> \<not> HasErrors ds \<Longrightarrow> denotes c xs x v"
| with_refs: "(x, e) \<in> set xs \<Longrightarrow> ref_names e \<noteq> [] \<Longrightarrow> (\<And>y. y \<in> set (ref_names e) \<Longrightarrow> denotes c xs y (f y)) \<Longrightarrow>
    ex_Value e (Some (ref_object c (ref_names e) f)) = (v, ds) \<Longrightarrow> \<not> HasErrors ds \<Longrightarrow> denotes c xs x v"

lemma first_names_simps: "first_names [] = []" "first_names (ys @ [y]) = (if y \<in> set ys then first_names ys else first_names ys @ [y])" "set (first_names ys) = set ys"
  "distinct (first_names ys)"
  by (simp_all add: first_names_def)

lemma denotes_defined: "denotes c xs x v \<Longrightarrow> x \<in> fst ` set xs"
  by (erule denotes.cases) force+

lemma denotes_unique:
  assumes "distinct (map fst xs)" "denotes c xs x v" "denotes c xs x w" shows "v = w"
  using assms(2,3)
proof (induction arbitrary: w)
  case (no_refs x e v ds)
  from no_refs.prems show ?case
  proof cases
    case *: (no_refs e' ds')
    then have "e' = e" using assms(1) no_refs.hyps(1) by (auto dest: eq_key_imp_eq_value)
    then show ?thesis using * no_refs.hyps(3) by simp
  next
    case (with_refs e' g ds')
    then show ?thesis using no_refs.hyps(1,2) assms(1) by (auto dest: eq_key_imp_eq_value)
  qed
next
  case (with_refs x e f v ds)
  from with_refs.prems show ?case
  proof cases
    case (no_refs e')
    then show ?thesis using with_refs.hyps(1,2) assms(1) by (auto dest: eq_key_imp_eq_value)
  next
    case *: (with_refs e' g ds')
    then have e: "e' = e" using assms(1) with_refs.hyps(1) by (auto dest: eq_key_imp_eq_value)
    have "ref_object c (ref_names e) f = ref_object c (ref_names e) g"
      unfolding ref_object_def using *(3) with_refs.IH e by (auto simp: first_names_simps intro!: arg_cong [of _ _ "c_ObjectVal c"])
    then show ?thesis using * e with_refs.hyps(4) by simp
  qed
qed

text \<open>The copied variables and their value.\<close>

definition copied :: "'v cty \<Rightarrow> (string \<times> 'v expr) list \<Rightarrow> (string \<Rightarrow> 'v option) \<Rightarrow> string list \<Rightarrow> 'v variables" where
  "copied c xs R ys = Variables None None False 0 (map (\<lambda>y. (c_StringVal c y, Variables (map_of xs y) (R y) False 0 [])) (first_names ys))"

lemma path_kids_copied:
  assumes "cty_ok c" "copy_node src (Variables (map_of xs y) (R y) False 0 []) = Variables (map_of xs y) (R y) False 0 []"
    "copy_node src empty_variables = Variables (map_of xs y) (R y) False 0 []"
  shows "path_kids c (copy_node src) (c_StringVal c y) [] (map (\<lambda>y. (c_StringVal c y, Variables (map_of xs y) (R y) False 0 [])) ys) =
    map (\<lambda>y. (c_StringVal c y, Variables (map_of xs y) (R y) False 0 [])) (if y \<in> set ys then ys else ys @ [y])"
proof (induction ys)
  case (Cons z ys)
  then show ?case using assms by (auto simp: cty_ok_def)
qed (use assms in simp)

lemma path_update_copied:
  assumes "cty_ok c" "distinct (map fst xs)" "i < length xs" "y = fst (xs ! i)"
  shows "path_update c (copy_node (leaf (snd (xs ! i)) (R y) v)) [c_StringVal c y] (copied c xs R ys) = copied c xs R (ys @ [y])"
proof -
  have "map_of xs y = Some (snd (xs ! i))" using assms(2-4) by (metis map_of_eq_Some_iff nth_mem prod.collapse)
  then have "copy_node (leaf (snd (xs ! i)) (R y) v) t = Variables (map_of xs y) (R y) (va_visited t) (va_size t) []" for t
    by (simp add: copy_node_def leaf_def)
  then show ?thesis
    using path_kids_copied [OF assms(1), of "leaf (snd (xs ! i)) (R y) v" xs y R "first_names ys"]
    by (auto simp: copied_def first_names_simps empty_variables_def)
qed

abbreviation refers :: "'v cty \<Rightarrow> 'v list \<Rightarrow> string \<Rightarrow> bool" where
  "refers c p y \<equiv> \<exists>rest. p = c_StringVal c y # rest"

lemma filtered_copied:
  assumes "cty_ok c" "distinct (map fst xs)"
  shows "list_all2 (refers c) ps zs \<Longrightarrow> set zs \<subseteq> fst ` set xs \<Longrightarrow>
    filtered c (flat c xs R V) ps (copied c xs R ys) = copied c xs R (ys @ zs)"
proof (induction arbitrary: ys rule: list_all2_induct)
  case (Cons p ps y zs)
  then obtain rest i where i: "p = c_StringVal c y # rest" "i < length xs" "y = fst (xs ! i)" by (auto simp: in_set_conv_nth)
  have "filtered c (flat c xs R V) (p # ps) (copied c xs R ys) = filtered c (flat c xs R V) ps (copied c xs R (ys @ [y]))"
    using closest_flat [OF assms i(2), of rest R V] path_update_copied [OF assms i(2,3)]
    by (simp add: i(1,3) node_flat [OF i(2)] del: closest.simps node_at.simps path_update.simps)
  then show ?case using Cons by simp
qed simp

lemma map_vals_copied:
  assumes "cty_ok c"
  shows "distinct zs \<Longrightarrow> set zs \<inter> fst ` set vals = {} \<Longrightarrow> list_all (\<lambda>z. R z \<noteq> None) zs \<Longrightarrow>
    map_vals c (map (\<lambda>y. (c_StringVal c y, Variables (E y) (R y) (V y) (S y) [])) zs) vals [] = Ret (vals @ map (\<lambda>y. (y, the (R y))) zs, [])"
proof (induction zs arbitrary: vals)
  case (Cons z zs)
  have "filter (\<lambda>(k', y). k' \<noteq> z) vals = vals" using Cons.prems by (force simp: filter_id_conv)
  then show ?case using Cons assms by (auto simp: cty_ok_def)
qed simp

lemma toValue_copied:
  assumes "cty_ok c" "list_all (\<lambda>z. R z \<noteq> None) ys" "ys \<noteq> []"
  shows "toValue c (copied c xs R ys) = Ret (ref_object c ys (\<lambda>y. the (R y)), [])"
proof -
  have "list_all (\<lambda>z. R z \<noteq> None) (first_names ys)" using assms(2) by (simp add: list_all_iff first_names_simps)
  then have "map_vals c (map (\<lambda>y. (c_StringVal c y, Variables (map_of xs y) (R y) False 0 [])) (first_names ys)) [] [] =
      Ret (map (\<lambda>y. (y, the (R y))) (first_names ys), [])"
    using map_vals_copied [OF assms(1) first_names_simps(4), of ys "[]" R "map_of xs" "\<lambda>_. False" "\<lambda>_. 0"] by simp
  moreover have "first_names ys \<noteq> []" using assms(3) first_names_simps(3) by (metis set_empty)
  ultimately show ?thesis by (simp add: copied_def ref_object_def)
qed

text \<open>A resolution step on plain variables.\<close>

abbreviation state :: "'v variables \<Rightarrow> 'v option \<Rightarrow> 'v vstate" where
  "state t var \<equiv> \<lparr>vs_root = t, vs_var = var\<rparr>"

definition settled :: "'v cty \<Rightarrow> (string \<times> 'v expr) list \<Rightarrow> (string \<Rightarrow> 'v option) \<Rightarrow> bool" where
  "settled c xs R \<longleftrightarrow> (\<forall>y v. R y = Some v \<longrightarrow> denotes c xs y v)"

lemma traverse_plain:
  assumes "plain_expr e"
  shows "traverse c env fn path e st = res_bind (fn path e st) (\<lambda>(st, cont, ds). Some (Ret (st, ds @ ds)))"
  using assms by (cases e) (auto simp: plain_expr_def handleDiagnostics_def split: expr_kind.splits bool.splits intro!: arg_cong [of _ _ "res_bind _"])

lemma single_visited:
  assumes "cty_ok c" "distinct (map fst xs)" "i < length xs" "x = fst (xs ! i)"
  shows "R x = Some v \<Longrightarrow> resolveSingle (Suc n) c (c_StringVal c x # rest) (state (flat c xs R V) var) = Some (Ret (state (flat c xs R V) var, []))"
    and "R x = None \<Longrightarrow> V x \<Longrightarrow> resolveSingle (Suc n) c (c_StringVal c x # rest) (state (flat c xs R V) var) =
      Some (Ret (state (flat c xs R V) var, [Diag True ''Circular reference detected'']))"
  using closest_flat [OF assms(1-3), of rest R V] node_flat [OF assms(3), of c R V] assms(4)
  by (simp_all del: closest.simps node_at.simps)

lemma optimize_kids_leaves: "optimize_kids c (map (\<lambda>(x, e). (k x, leaf e (R x) (V x))) xs) = Ret (map (\<lambda>(x, e). (k x, leaf e (R x) (V x))) xs, [])"
  by (induction xs) auto

lemma single_undefined:
  assumes "cty_ok c" "x \<notin> fst ` set xs"
  shows "\<exists>m. resolveSingle (Suc n) c (c_StringVal c x # rest) (state (flat c xs R V) var) = Some (Panic m)"
proof -
  have cl: "closest c (c_StringVal c x # rest) (flat c xs R V) = (Suc (length rest), [])"
    using index_of_undefined [OF assms, of "\<lambda>x e. leaf e (R x) (V x)"] by (simp add: flat_def)
  have "optimize c (set_visited (flat c xs R V)) = Ret (set_visited (flat c xs R V), [])"
    by (cases xs) (auto simp: flat_def set_visited_def optimize_kids_leaves collapse_def)
  then show ?thesis using cl
    by (auto simp: Let_def update_node_def handleDiagnostics_def flat_def set_visited_def hasSelfReference_def simp del: closest.simps)
qed

lemma self_reference_names: "hasSelfReference (leaf e r v) \<longleftrightarrow> ref_names e \<noteq> []"
  by (auto simp: hasSelfReference_def ref_names_def list_ex_iff filter_empty_conv case_prod_beta)

lemma single_step:
  assumes "cty_ok c" "distinct (map fst xs)" "i < length xs" "x = fst (xs ! i)" "e = snd (xs ! i)" "R x = None" "\<not> V x"
  shows "resolveSingle (Suc n) c (c_StringVal c x # rest) (state (flat c xs R V) var) =
    (if ref_names e = [] then
       (case ex_Value e var of (v, vd) \<Rightarrow>
          if HasErrors vd then Some (Ret (state (flat c xs R (V(x := True))) var, vd))
          else Some (Ret (state (flat c xs (R(x \<mapsto> v)) (V(x := True))) var, [])))
     else resolveWithSelfReference c (resolveSingle n c) (c_StringVal c x # rest) [i] e (state (flat c xs R (V(x := True))) var))"
proof -
  note d = assms(2) and i = assms(3)
  have cl: "closest c (c_StringVal c x # rest) (flat c xs R V) = (length rest, [i])" using closest_flat [OF assms(1-3)] assms(4) by simp
  have nd: "node_at [i] (flat c xs R V) = leaf e (R x) (V x)" using node_flat [OF i] assms(4,5) by simp
  have v: "update_at set_visited [i] (flat c xs R V) = flat c xs R (V(x := True))"
    using update_flat [OF d i, of set_visited R V "R x" True c] assms(4,5) by (simp del: update_at.simps)
  have nd1: "node_at [i] (flat c xs R (V(x := True))) = leaf e (R x) True" using node_flat [OF i] assms(4,5) by simp
  have o: "update_at (\<lambda>_. leaf e (R x) True) [i] (flat c xs R (V(x := True))) = flat c xs R (V(x := True))"
    using update_flat [OF d i, of "\<lambda>_. leaf e (R x) True" R "V(x := True)" "R x" True c] assms(4,5) by (simp del: update_at.simps)
  have r: "update_at (set_resolved y) [i] (flat c xs R (V(x := True))) = flat c xs (R(x \<mapsto> y)) (V(x := True))" for y
    using update_flat [OF d i, of "set_resolved y" R "V(x := True)" "Some y" True c] assms(4,5) by (simp del: update_at.simps)
  show ?thesis using assms(6,7)
    by (simp add: cl nd nd1 v o [unfolded assms(6)] r Let_def update_node_def handleDiagnostics_def self_reference_names resolveWithoutSelfReference_def
        del: closest.simps node_at.simps update_at.simps split: prod.splits)
qed

declare resolveSingle.simps(2) [simp del]

definition names_of :: "'v traversal list \<Rightarrow> string list" where
  "names_of refs = map (\<lambda>(r, ts). ref_name ts) (filter (\<lambda>(r, ts). r = varObjectName) refs)"

definition plain_refs :: "'v traversal list \<Rightarrow> bool" where
  "plain_refs refs = list_all (\<lambda>(r, ts). case ts of TraverseAttr y # ts' \<Rightarrow> list_all (\<lambda>t. case t of TraverseSplat \<Rightarrow> False | _ \<Rightarrow> True) ts' | _ \<Rightarrow> r \<noteq> varObjectName) refs"

lemma plain_ref_path:
  assumes "plain_refs ((varObjectName, ts) # refs)"
  obtains rest where "ref_path c ts = Some (c_StringVal c (ref_name ts) # rest)"
proof -
  obtain y ts' where ts: "ts = TraverseAttr y # ts'" "list_all (\<lambda>t. case t of TraverseSplat \<Rightarrow> False | _ \<Rightarrow> True) ts'"
    using assms by (auto simp: plain_refs_def split: list.splits step.splits)
  then show ?thesis using ref_path_plain [of ts' c] that by auto
qed

text \<open>With the references resolved, the expression is evaluated where they have their values.\<close>

definition evaluated :: "'v cty \<Rightarrow> (string \<times> 'v expr) list \<Rightarrow> string \<Rightarrow> 'v expr \<Rightarrow> (string \<Rightarrow> 'v option) \<Rightarrow> (string \<Rightarrow> bool) \<Rightarrow> ('v vstate \<times> diag list) res" where
  "evaluated c xs x e R V =
     (let ref = ref_object c (ref_names e) (\<lambda>y. the (R y)) in
      case ex_Value e (Some ref) of (v, vd) \<Rightarrow>
        if HasErrors vd then Some (Ret (state (flat c xs R V) (Some ref), vd @ vd))
        else Some (Ret (state (flat c xs (R(x \<mapsto> v)) V) (Some (c_NilVal c)), [])))"

lemma with_self_reference:
  assumes "cty_ok c" "distinct (map fst xs)" "i < length xs" "x = fst (xs ! i)" "e = snd (xs ! i)" "plain_expr e" "ref_names e \<noteq> []"
  shows "resolveWithSelfReference c resolve path [i] e st =
    res_bind (resolve_refs c resolve [] (ex_Variables e) [] st) (\<lambda>(st, r).
      case r of Inl ds \<Rightarrow> Some (Ret (st, ds @ ds))
      | Inr paths \<Rightarrow>
          (case toValue c (filtered c (vs_root st) paths empty_variables) of
             Panic m \<Rightarrow> Some (Panic m)
           | Ret (ref, refDiags) \<Rightarrow>
               if HasErrors refDiags then Some (Ret (st, refDiags @ refDiags))
               else case ex_Value e (Some ref) of (value, valDiags) \<Rightarrow>
                 if HasErrors (refDiags @ valDiags) then Some (Ret (st\<lparr>vs_var := Some ref\<rparr>, (refDiags @ valDiags) @ (refDiags @ valDiags)))
                 else Some (Ret ((update_node (set_resolved value) [i] st)\<lparr>vs_var := Some (c_NilVal c)\<rparr>, []))))"
proof -
  have k: "ex_kind e = ExprOther" using assms(6) by (auto simp: plain_expr_def split: expr_kind.splits)
  show ?thesis unfolding resolveWithSelfReference_def traverse_plain [OF assms(6)] self_fn_def k
    by (cases "resolve_refs c resolve [] (ex_Variables e) [] st" rule: option.exhaust)
      (auto simp: res_bind_def split: option.splits go.splits sum.splits prod.splits)
qed

lemma evaluate_refs:
  assumes "cty_ok c" "distinct (map fst xs)" "i < length xs" "x = fst (xs ! i)" "e = snd (xs ! i)" "plain_expr e" "ref_names e \<noteq> []" "V x"
    and "resolve_refs c resolve [] (ex_Variables e) [] st = Some (Ret (state (flat c xs R V) var, Inr ps))"
    and "list_all2 (refers c) ps (ref_names e)" "set (ref_names e) \<subseteq> fst ` set xs" "list_all (\<lambda>y. R y \<noteq> None) (ref_names e)"
  shows "resolveWithSelfReference c resolve path [i] e st = evaluated c xs x e R V"
proof -
  have em: "empty_variables = copied c xs R []" by (simp add: copied_def empty_variables_def first_names_simps)
  have f: "filtered c (flat c xs R V) ps empty_variables = copied c xs R (ref_names e)"
    using filtered_copied [OF assms(1,2,10,11)] unfolding em by simp
  have r: "update_at (set_resolved y) [i] (flat c xs R V) = flat c xs (R(x \<mapsto> y)) V" for y
    using update_flat [OF assms(2,3), of "set_resolved y" R V "Some y" True c] assms(4,5,8) by (simp add: fun_upd_idem del: update_at.simps)
  show ?thesis unfolding with_self_reference [OF assms(1-7)] assms(9) evaluated_def Let_def
    by (simp add: f r toValue_copied [OF assms(1,12,7)] update_node_def del: update_at.simps split: prod.splits)
qed

text \<open>Soundness: what has been resolved is what the variables denote.\<close>

definition sound :: "'v cty \<Rightarrow> (string \<times> 'v expr) list \<Rightarrow> (string \<Rightarrow> 'v option) \<Rightarrow> string list \<Rightarrow> (string \<Rightarrow> bool) \<Rightarrow> 'v vstate \<Rightarrow> bool" where
  "sound c xs R ys V st \<longleftrightarrow> (\<exists>R' V' var'. st = state (flat c xs R' V') var' \<and> settled c xs R' \<and> R \<subseteq>\<^sub>m R' \<and>
     set ys \<subseteq> fst ` set xs \<and> list_all (\<lambda>y. R' y \<noteq> None) ys \<and> (\<forall>y. V y \<longrightarrow> V' y))"

lemma soundI:
  "settled c xs R' \<Longrightarrow> R \<subseteq>\<^sub>m R' \<Longrightarrow> set ys \<subseteq> fst ` set xs \<Longrightarrow> list_all (\<lambda>y. R' y \<noteq> None) ys \<Longrightarrow> (\<And>y. V y \<Longrightarrow> V' y) \<Longrightarrow>
   sound c xs R ys V (state (flat c xs R' V') var')"
  unfolding sound_def by blast

lemma resolve_refs_errors:
  "resolve_refs c resolve acc refs paths st = Some (Ret (st', Inl ds)) \<Longrightarrow> HasErrors ds"
proof (induction c resolve acc refs paths st rule: resolve_refs.induct)
  case (2 c resolve acc name steps refs paths st)
  then show ?case by (auto simp: res_bind_def split: if_splits option.splits go.splits prod.splits)
qed simp

lemma resolve_refs_sound:
  assumes "\<And>x rest R V var st' ds. settled c xs R \<Longrightarrow> resolve (c_StringVal c x # rest) (state (flat c xs R V) var) = Some (Ret (st', ds)) \<Longrightarrow>
      \<not> HasErrors ds \<Longrightarrow> sound c xs R [x] V st'"
  shows "plain_refs refs \<Longrightarrow> settled c xs R \<Longrightarrow> resolve_refs c resolve [] refs paths (state (flat c xs R V) var) = Some (Ret (st', Inr ps)) \<Longrightarrow>
    sound c xs R (names_of refs) V st' \<and> (\<exists>qs. ps = paths @ qs \<and> list_all2 (refers c) qs (names_of refs))"
proof (induction refs arbitrary: paths R V var)
  case Nil
  then show ?case by (auto simp: names_of_def intro: soundI)
next
  case (Cons ref refs)
  obtain name ts where ref: "ref = (name, ts)" by force
  have pr: "plain_refs refs" using Cons.prems(1) by (simp add: plain_refs_def)
  show ?case
  proof (cases "name = varObjectName")
    case True
    obtain rest where p: "ref_path c ts = Some (c_StringVal c (ref_name ts) # rest)"
      using plain_ref_path Cons.prems(1) ref True by metis
    let ?p = "c_StringVal c (ref_name ts) # rest"
    obtain st1 ds where st1: "resolve ?p (state (flat c xs R V) var) = Some (Ret (st1, ds))" "\<not> HasErrors ds"
        "resolve_refs c resolve [] refs (paths @ [?p]) st1 = Some (Ret (st', Inr ps))"
      using Cons.prems(3) ref True p by (auto simp: res_bind_def split: option.splits go.splits prod.splits if_splits)
    obtain R1 V1 var1 where s1: "st1 = state (flat c xs R1 V1) var1" "settled c xs R1" "R \<subseteq>\<^sub>m R1" "ref_name ts \<in> fst ` set xs"
        "R1 (ref_name ts) \<noteq> None" "\<forall>y. V y \<longrightarrow> V1 y"
      using assms [OF Cons.prems(2) st1(1,2)] by (auto simp: sound_def)
    obtain R2 V2 var2 where s2: "st' = state (flat c xs R2 V2) var2" "settled c xs R2" "R1 \<subseteq>\<^sub>m R2" "set (names_of refs) \<subseteq> fst ` set xs"
        "list_all (\<lambda>y. R2 y \<noteq> None) (names_of refs)" "\<forall>y. V1 y \<longrightarrow> V2 y" and
      ps: "\<exists>qs. ps = (paths @ [?p]) @ qs \<and> list_all2 (refers c) qs (names_of refs)"
      using Cons.IH [OF pr s1(2) st1(3) [unfolded s1(1)]] by (auto simp: sound_def)
    have "R2 (ref_name ts) \<noteq> None" using s1(5) s2(3) by (force simp: map_le_def)
    then have "sound c xs R (names_of (ref # refs)) V st'"
      unfolding s2(1) using s1(4,6) s2(2,4-6) ref True map_le_trans [OF s1(3) s2(3)] by (intro soundI) (simp_all add: names_of_def)
    moreover obtain qs where "ps = (paths @ [?p]) @ qs" "list_all2 (refers c) qs (names_of refs)" using ps by blast
    ultimately show ?thesis using ref True by (intro conjI exI [of _ "?p # qs"]) (auto simp: names_of_def)
  next
    case False
    then show ?thesis using Cons.IH [OF pr Cons.prems(2)] Cons.prems(3) ref by (auto simp: names_of_def)
  qed
qed

lemma ref_names_of: "ref_names e = names_of (ex_Variables e)" "plain_expr e \<Longrightarrow> plain_refs (ex_Variables e)"
  by (simp_all add: ref_names_def names_of_def plain_expr_def plain_refs_def)

lemma plain_env: "plain_expr e \<Longrightarrow> ref_names e = [] \<Longrightarrow> ex_Value e env = ex_Value e None"
  by (simp add: plain_expr_def)

lemma settled_upd: "settled c xs R \<Longrightarrow> denotes c xs x v \<Longrightarrow> settled c xs (R(x \<mapsto> v))"
  by (simp add: settled_def)

lemma resolveSingle_sound:
  assumes "cty_ok c" "distinct (map fst xs)" "list_all (\<lambda>(x, e). plain_expr e) xs"
  shows "settled c xs R \<Longrightarrow> resolveSingle n c (c_StringVal c x # rest) (state (flat c xs R V) var) = Some (Ret (st', ds)) \<Longrightarrow>
    \<not> HasErrors ds \<Longrightarrow> sound c xs R [x] V st'"
proof (induction n arbitrary: x rest R V var st' ds)
  case (Suc n)
  show ?case
  proof (cases "x \<in> fst ` set xs")
    case True
    then obtain i where i: "i < length xs" "x = fst (xs ! i)" by (auto simp: in_set_conv_nth)
    define e where "e = snd (xs ! i)"
    have xe: "(x, e) \<in> set xs" using i by (simp add: e_def)
    then have pl: "plain_expr e" using assms(3) by (auto simp: list_all_iff)
    show ?thesis
    proof (cases "R x = None \<and> \<not> V x")
      case False
      then obtain v where v: "R x = Some v"
        using single_visited(2) [OF assms(1,2) i, of R V n rest var] Suc.prems(2,3) by (cases "R x") auto
      then have "st' = state (flat c xs R V) var" using single_visited(1) [where R = R and V = V, OF assms(1,2) i v] Suc.prems(2) by simp
      then show ?thesis using Suc.prems(1) True v by (simp add: soundI)
    next
      case fresh: True
      note step = single_step [OF assms(1,2) i e_def, of R V n rest var]
      show ?thesis
      proof (cases "ref_names e = []")
        case nr: True
        obtain v vd where v: "ex_Value e var = (v, vd)" by force
        then have "\<not> HasErrors vd" "st' = state (flat c xs (R(x \<mapsto> v)) (V(x := True))) var"
          using Suc.prems step fresh nr by (auto split: if_splits)
        moreover have "denotes c xs x v" using plain_env [OF pl nr, of var] v calculation(1)
          by (intro denotes.no_refs [OF xe nr, of v vd]) simp_all
        ultimately show ?thesis using Suc.prems(1) True fresh settled_upd [of c xs R x v]
          by (simp, intro soundI) (auto simp: map_le_def dom_def image_iff Bex_def)
      next
        case False
        let ?V = "V(x := True)"
        have w: "resolveWithSelfReference c (resolveSingle n c) (c_StringVal c x # rest) [i] e (state (flat c xs R ?V) var) = Some (Ret (st', ds))"
          using Suc.prems(2) step fresh False by simp
        then obtain st1 ps where refs: "resolve_refs c (resolveSingle n c) [] (ex_Variables e) [] (state (flat c xs R ?V) var) = Some (Ret (st1, Inr ps))"
          using Suc.prems(3) resolve_refs_errors unfolding with_self_reference [OF assms(1,2) i e_def pl False]
          by (fastforce simp: res_bind_def split: option.splits go.splits prod.splits sum.splits)
        have "sound c xs R (names_of (ex_Variables e)) ?V st1 \<and> (\<exists>qs. ps = [] @ qs \<and> list_all2 (refers c) qs (names_of (ex_Variables e)))"
          by (rule resolve_refs_sound [OF _ ref_names_of(2) [OF pl] Suc.prems(1) refs]) (rule Suc.IH)
        then obtain R1 V1 var1 where s1: "st1 = state (flat c xs R1 V1) var1" "settled c xs R1" "R \<subseteq>\<^sub>m R1" "set (ref_names e) \<subseteq> fst ` set xs"
            "list_all (\<lambda>y. R1 y \<noteq> None) (ref_names e)" "\<forall>y. ?V y \<longrightarrow> V1 y" and ps: "list_all2 (refers c) ps (ref_names e)"
          unfolding sound_def ref_names_of(1) append_Nil by blast
        have vx: "V1 x" using s1(6) by simp
        note ev = evaluate_refs [OF assms(1,2) i e_def pl False vx refs [unfolded s1(1)] ps s1(4,5)]
        obtain v vd where v: "ex_Value e (Some (ref_object c (ref_names e) (\<lambda>y. the (R1 y)))) = (v, vd)" by force
        then have "\<not> HasErrors vd" "st' = state (flat c xs (R1(x \<mapsto> v)) V1) (Some (c_NilVal c))"
          using w ev Suc.prems(3) by (auto simp: evaluated_def Let_def split: if_splits)
        moreover have "denotes c xs x v"
          using s1(2,5) v calculation(1) by (intro denotes.with_refs [OF xe False _ v]) (auto simp: settled_def list_all_iff)
        ultimately show ?thesis using s1 True fresh settled_upd [of c xs R1 x v]
          by (auto simp: map_le_def dom_def image_iff Bex_def intro!: soundI)
      qed
    qed
  next
    case False
    then show ?thesis using single_undefined [OF assms(1) False, of n rest R V var] Suc.prems(2) by auto
  qed
qed simp

text \<open>Completeness: a variable that denotes a value is resolved to it, whatever is being resolved above it.\<close>

definition depends :: "(string \<times> 'v expr) list \<Rightarrow> (string \<times> string) set" where
  "depends xs = {(y, x). \<exists>e. (x, e) \<in> set xs \<and> y \<in> set (ref_names e)}"

lemma acc_no_cycle: "x \<in> Wellfounded.acc r \<Longrightarrow> (x, x) \<notin> r\<^sup>+"
proof (induction rule: Wellfounded.acc.induct)
  case (accI x)
  show ?case
  proof
    assume "(x, x) \<in> r\<^sup>+"
    then obtain y where y: "(x, y) \<in> r\<^sup>*" "(y, x) \<in> r" by (meson tranclD2)
    then have "(y, y) \<in> r\<^sup>+" by (meson rtrancl_into_trancl2)
    then show False using accI y(2) by blast
  qed
qed

lemma depends_iff:
  assumes "distinct (map fst xs)" "(x, e) \<in> set xs" shows "(y, x) \<in> depends xs \<longleftrightarrow> y \<in> set (ref_names e)"
proof -
  have "e' = e" if "(x, e') \<in> set xs" for e' by (rule eq_key_imp_eq_value [OF assms(1) that assms(2)])
  then show ?thesis using assms(2) unfolding depends_def by blast
qed

lemma denotes_acyclic:
  assumes "distinct (map fst xs)" "denotes c xs x v" shows "(x, x) \<notin> (depends xs)\<^sup>+"
proof -
  have "x \<in> Wellfounded.acc (depends xs)"
    using assms(2)
  proof induction
    case (no_refs x e v ds)
    then show ?case using depends_iff [OF assms(1)] by (metis Wellfounded.acc.accI empty_iff empty_set)
  next
    case (with_refs x e f v ds)
    then show ?case using depends_iff [OF assms(1)] by (metis Wellfounded.acc.accI)
  qed
  then show ?thesis by (rule acc_no_cycle)
qed

definition resolves_to :: "'v cty \<Rightarrow> (string \<times> 'v expr) list \<Rightarrow> (string \<Rightarrow> 'v option) \<Rightarrow> (string \<Rightarrow> bool) \<Rightarrow> ('a \<Rightarrow> bool) \<Rightarrow> (string \<times> 'v) list \<Rightarrow> ('v vstate \<times> 'a) res \<Rightarrow> bool" where
  "resolves_to c xs R V P yvs r \<longleftrightarrow> (\<exists>R' V' var' a. r = Some (Ret (state (flat c xs R' V') var', a)) \<and> P a \<and> settled c xs R' \<and> R \<subseteq>\<^sub>m R' \<and>
     list_all (\<lambda>(y, v). R' y = Some v) yvs \<and> (\<forall>z. V z \<longrightarrow> V' z) \<and> (\<forall>z. V' z \<and> R' z = None \<longrightarrow> V z \<and> R z = None) \<and>
     unvisited (flat c xs R' V') \<le> unvisited (flat c xs R V))"

lemma resolves_toI:
  "settled c xs R' \<Longrightarrow> R \<subseteq>\<^sub>m R' \<Longrightarrow> P a \<Longrightarrow> list_all (\<lambda>(y, v). R' y = Some v) yvs \<Longrightarrow> (\<And>z. V z \<Longrightarrow> V' z) \<Longrightarrow>
   (\<And>z. V' z \<Longrightarrow> R' z = None \<Longrightarrow> V z \<and> R z = None) \<Longrightarrow> unvisited (flat c xs R' V') \<le> unvisited (flat c xs R V) \<Longrightarrow>
   resolves_to c xs R V P yvs (Some (Ret (state (flat c xs R' V') var', a)))"
  unfolding resolves_to_def by blast

lemma resolve_refs_complete:
  assumes "\<And>y rest R V var. y \<in> set (names_of refs0) \<Longrightarrow> settled c xs R \<Longrightarrow> \<forall>z. V z \<and> R z = None \<longrightarrow> Q z \<Longrightarrow> unvisited (flat c xs R V) < n \<Longrightarrow>
      resolves_to c xs R V (\<lambda>ds. ds = []) [(y, f y)] (resolve (c_StringVal c y # rest) (state (flat c xs R V) var))"
  shows "plain_refs refs \<Longrightarrow> set (names_of refs) \<subseteq> set (names_of refs0) \<Longrightarrow> settled c xs R \<Longrightarrow> \<forall>z. V z \<and> R z = None \<longrightarrow> Q z \<Longrightarrow> unvisited (flat c xs R V) < n \<Longrightarrow>
    resolves_to c xs R V (\<lambda>r. \<exists>qs. r = Inr (paths @ qs) \<and> list_all2 (refers c) qs (names_of refs)) (map (\<lambda>y. (y, f y)) (names_of refs))
      (resolve_refs c resolve [] refs paths (state (flat c xs R V) var))"
proof (induction refs arbitrary: paths R V var)
  case Nil
  then show ?case by (auto simp: names_of_def intro!: resolves_toI)
next
  case (Cons ref refs)
  obtain name ts where ref: "ref = (name, ts)" by force
  have pr: "plain_refs refs" using Cons.prems(1) by (simp add: plain_refs_def)
  show ?case
  proof (cases "name = varObjectName")
    case True
    let ?y = "ref_name ts"
    have nm: "names_of (ref # refs) = ?y # names_of refs" using ref True by (simp add: names_of_def)
    obtain rest where p: "ref_path c ts = Some (c_StringVal c ?y # rest)"
      using plain_ref_path Cons.prems(1) ref True by metis
    obtain R1 V1 var1 where s1: "resolve (c_StringVal c ?y # rest) (state (flat c xs R V) var) = Some (Ret (state (flat c xs R1 V1) var1, []))"
        "settled c xs R1" "R \<subseteq>\<^sub>m R1" "R1 ?y = Some (f ?y)" "\<forall>z. V z \<longrightarrow> V1 z" "\<forall>z. V1 z \<and> R1 z = None \<longrightarrow> V z \<and> R z = None"
        "unvisited (flat c xs R1 V1) \<le> unvisited (flat c xs R V)"
      using assms [of ?y R V rest var] Cons.prems nm by (auto simp: resolves_to_def)
    obtain R2 V2 var2 qs where s2: "resolve_refs c resolve [] refs (paths @ [c_StringVal c ?y # rest]) (state (flat c xs R1 V1) var1) =
          Some (Ret (state (flat c xs R2 V2) var2, Inr ((paths @ [c_StringVal c ?y # rest]) @ qs)))" "list_all2 (refers c) qs (names_of refs)"
        "settled c xs R2" "R1 \<subseteq>\<^sub>m R2" "list_all (\<lambda>(y, v). R2 y = Some v) (map (\<lambda>y. (y, f y)) (names_of refs))" "\<forall>z. V1 z \<longrightarrow> V2 z"
        "\<forall>z. V2 z \<and> R2 z = None \<longrightarrow> V1 z \<and> R1 z = None" "unvisited (flat c xs R2 V2) \<le> unvisited (flat c xs R1 V1)"
      using Cons.IH [OF pr _ s1(2), of V1 "paths @ [c_StringVal c ?y # rest]" var1] Cons.prems(2,4,5) s1(6,7) nm
      by (force simp: resolves_to_def)
    have eq: "resolve_refs c resolve [] (ref # refs) paths (state (flat c xs R V) var) =
        Some (Ret (state (flat c xs R2 V2) var2, Inr (paths @ ((c_StringVal c ?y # rest) # qs))))"
      using ref True p s1(1) s2(1) by simp
    have y: "R2 ?y = Some (f ?y)" using s1(4) s2(4) by (force simp: map_le_def)
    show ?thesis unfolding eq nm
    proof (rule resolves_toI [OF s2(3) map_le_trans [OF s1(3) s2(4)]])
      show "\<exists>qs'. (Inr (paths @ ((c_StringVal c ?y # rest) # qs)) :: diag list + _) = Inr (paths @ qs') \<and> list_all2 (refers c) qs' (?y # names_of refs)"
        using s2(2) by auto
      show "list_all (\<lambda>(y, v). R2 y = Some v) (map (\<lambda>y. (y, f y)) (?y # names_of refs))" using y s2(5) by simp
      show "V2 z" if "V z" for z using that s1(5) s2(6) by blast
      show "V z \<and> R z = None" if "V2 z" "R2 z = None" for z using that s1(6) s2(7) by blast
      show "unvisited (flat c xs R2 V2) \<le> unvisited (flat c xs R V)" using s1(7) s2(8) by simp
    qed
  next
    case False
    then show ?thesis using Cons.IH [OF pr _ Cons.prems(3-5)] Cons.prems(2) ref by (auto simp: names_of_def)
  qed
qed

lemma unvisited_flat: "unvisited (flat c xs R V) = Suc (length (filter (\<lambda>x. \<not> V x) (map fst xs)))"
proof -
  have "unvisited_kids (map (\<lambda>(x, e). (c_StringVal c x, leaf e (R x) (V x))) xs) = length (filter (\<lambda>x. \<not> V x) (map fst xs))"
    by (induction xs) (auto simp: leaf_def)
  then show ?thesis by (simp add: flat_def)
qed

lemma unvisited_flat_visit:
  assumes "x \<in> fst ` set xs" "\<not> V x" shows "unvisited (flat c xs R (V(x := True))) < unvisited (flat c xs R' V)"
proof -
  have "filter (\<lambda>y. \<not> (V(x := True)) y) (map fst xs) = filter (\<lambda>y. y \<noteq> x) (filter (\<lambda>y. \<not> V y) (map fst xs))"
    by (auto intro: filter_cong)
  then show ?thesis using length_filter_less [of x "filter (\<lambda>y. \<not> V y) (map fst xs)" "\<lambda>y. y \<noteq> x"] assms
    unfolding unvisited_flat by simp
qed

lemma resolveSingle_complete:
  assumes "cty_ok c" "distinct (map fst xs)" "list_all (\<lambda>(x, e). plain_expr e) xs" "denotes c xs x v"
  shows "settled c xs R \<Longrightarrow> \<forall>z. V z \<and> R z = None \<longrightarrow> (x, z) \<in> (depends xs)\<^sup>+ \<Longrightarrow> unvisited (flat c xs R V) < n \<Longrightarrow>
    resolves_to c xs R V (\<lambda>ds. ds = []) [(x, v)] (resolveSingle n c (c_StringVal c x # rest) (state (flat c xs R V) var))"
  using assms(4)
proof (induction arbitrary: n R V rest var)
  case (no_refs x e v ds)
  obtain i where i: "i < length xs" "x = fst (xs ! i)" "e = snd (xs ! i)" using no_refs.hyps(1) by (metis fst_conv in_set_conv_nth snd_conv)
  have pl: "plain_expr e" using assms(3) no_refs.hyps(1) by (auto simp: list_all_iff)
  have den: "denotes c xs x v" using no_refs.hyps by (rule denotes.no_refs)
  obtain n' where n: "n = Suc n'" using no_refs.prems(3) by (cases n) auto
  show ?case
  proof (cases "R x")
    case (Some w)
    then have "denotes c xs x w" using no_refs.prems(1) by (simp add: settled_def)
    then have "w = v" using den by (rule denotes_unique [OF assms(2)])
    then show ?thesis using single_visited(1) [where R = R and V = V, OF assms(1,2) i(1,2) Some] no_refs.prems(1) Some
      unfolding n by (simp add: resolves_toI)
  next
    case None
    then have nv: "\<not> V x" using no_refs.prems(2) denotes_acyclic [OF assms(2) den] by blast
    have "x \<in> fst ` set xs" using no_refs.hyps(1) by force
    note u = unvisited_flat_visit [where V = V, OF this nv, of c "R(x \<mapsto> v)" R]
    have "resolveSingle n c (c_StringVal c x # rest) (state (flat c xs R V) var) = Some (Ret (state (flat c xs (R(x \<mapsto> v)) (V(x := True))) var, []))"
      using single_step [OF assms(1,2) i, of R V n' rest var] None nv no_refs.hyps(2-4) plain_env [OF pl no_refs.hyps(2), of var] n by simp
    then show ?thesis using settled_upd [OF no_refs.prems(1) den] None u
      by (auto simp: map_le_def intro!: resolves_toI split: if_splits)
  qed
next
  case (with_refs x e f v ds)
  obtain i where i: "i < length xs" "x = fst (xs ! i)" "e = snd (xs ! i)" using with_refs.hyps(1) by (metis fst_conv in_set_conv_nth snd_conv)
  have pl: "plain_expr e" using assms(3) with_refs.hyps(1) by (auto simp: list_all_iff)
  have den: "denotes c xs x v" using with_refs.hyps by (rule denotes.with_refs)
  obtain n' where n: "n = Suc n'" using with_refs.prems(3) by (cases n) auto
  show ?case
  proof (cases "R x")
    case (Some w)
    then have "denotes c xs x w" using with_refs.prems(1) by (simp add: settled_def)
    then have "w = v" using den by (rule denotes_unique [OF assms(2)])
    then show ?thesis using single_visited(1) [where R = R and V = V, OF assms(1,2) i(1,2) Some] with_refs.prems(1) Some
      unfolding n by (simp add: resolves_toI)
  next
    case None
    then have nv: "\<not> V x" using with_refs.prems(2) denotes_acyclic [OF assms(2) den] by blast
    have "x \<in> fst ` set xs" using with_refs.hyps(1) by force
    note u = unvisited_flat_visit [where V = V, OF this nv, of c R R]
    let ?V = "V(x := True)" and ?Q = "\<lambda>z. (x, z) \<in> (depends xs)\<^sup>*"
    have dep: "(y, z) \<in> (depends xs)\<^sup>+" if "y \<in> set (ref_names e)" "?Q z" for y z
      using depends_iff [OF assms(2) with_refs.hyps(1)] that by (meson rtrancl_into_trancl2)
    have "resolves_to c xs R1 V1 (\<lambda>ds. ds = []) [(y, f y)] (resolveSingle n' c (c_StringVal c y # rest1) (state (flat c xs R1 V1) var1))"
      if "y \<in> set (ref_names e)" "settled c xs R1" "\<forall>z. V1 z \<and> R1 z = None \<longrightarrow> ?Q z" "unvisited (flat c xs R1 V1) < n'" for y R1 V1 rest1 var1
      by (rule with_refs.IH [OF that(1,2) _ that(4)]) (use dep [OF that(1)] that(3) in blast)
    moreover have "\<forall>z. ?V z \<and> R z = None \<longrightarrow> ?Q z" using with_refs.prems(2) by (auto intro: trancl_into_rtrancl)
    moreover have "unvisited (flat c xs R ?V) < n'" using u with_refs.prems(3) n by simp
    ultimately have "resolves_to c xs R ?V (\<lambda>r. \<exists>qs. r = Inr ([] @ qs) \<and> list_all2 (refers c) qs (ref_names e)) (map (\<lambda>y. (y, f y)) (ref_names e))
        (resolve_refs c (resolveSingle n' c) [] (ex_Variables e) [] (state (flat c xs R ?V) var))"
      using resolve_refs_complete [of "ex_Variables e" c xs ?Q n' f "resolveSingle n' c" "ex_Variables e"] ref_names_of(2) [OF pl] with_refs.prems(1)
      unfolding ref_names_of(1) by blast
    then obtain R1 V1 var1 qs where r1: "resolve_refs c (resolveSingle n' c) [] (ex_Variables e) [] (state (flat c xs R ?V) var) = Some (Ret (state (flat c xs R1 V1) var1, Inr qs))"
      "list_all2 (refers c) qs (ref_names e)" "settled c xs R1" "R \<subseteq>\<^sub>m R1" "list_all (\<lambda>y. R1 y = Some (f y)) (ref_names e)" "\<forall>z. ?V z \<longrightarrow> V1 z"
      "\<forall>z. V1 z \<and> R1 z = None \<longrightarrow> ?V z \<and> R z = None" "unvisited (flat c xs R1 V1) \<le> unvisited (flat c xs R ?V)"
      by (auto simp: resolves_to_def list.pred_map comp_def)
    have nm: "set (ref_names e) \<subseteq> fst ` set xs" by (rule subsetI, rule denotes_defined [OF with_refs.hyps(3)])
    have some: "list_all (\<lambda>y. R1 y \<noteq> None) (ref_names e)" using r1(5) by (auto simp: list_all_iff)
    have "ref_object c (ref_names e) (\<lambda>y. the (R1 y)) = ref_object c (ref_names e) f"
      using r1(5) unfolding ref_object_def by (auto simp: list_all_iff first_names_simps intro!: arg_cong [of _ _ "c_ObjectVal c"])
    then have "evaluated c xs x e R1 V1 = Some (Ret (state (flat c xs (R1(x \<mapsto> v)) V1) (Some (c_NilVal c)), []))"
      using with_refs.hyps(4,5) by (simp add: evaluated_def)
    moreover have "V1 x" using r1(6) by simp
    ultimately have eq: "resolveSingle n c (c_StringVal c x # rest) (state (flat c xs R V) var) = Some (Ret (state (flat c xs (R1(x \<mapsto> v)) V1) (Some (c_NilVal c)), []))"
      using single_step [OF assms(1,2) i, of R V n' rest var] None nv with_refs.hyps(2) n
        evaluate_refs [OF assms(1,2) i pl with_refs.hyps(2) _ r1(1,2) nm some] by simp
    show ?thesis unfolding eq
    proof (rule resolves_toI)
      show "settled c xs (R1(x \<mapsto> v))" using settled_upd [OF r1(3) den] .
      show "R \<subseteq>\<^sub>m R1(x \<mapsto> v)" using r1(4) None by (auto simp: map_le_def)
      show "V1 z" if "V z" for z using r1(6) that by simp
      show "V z \<and> R z = None" if "V1 z" "(R1(x \<mapsto> v)) z = None" for z using r1(7) that by (auto split: if_splits)
      show "unvisited (flat c xs (R1(x \<mapsto> v)) V1) \<le> unvisited (flat c xs R V)" using r1(8) u unfolding unvisited_flat by simp
    qed simp_all
  qed
qed

subsection \<open>Lemmas: the whole extension\<close>

lemma resolve_keys_sound:
  assumes "cty_ok c" "distinct (map fst xs)" "list_all (\<lambda>(x, e). plain_expr e) xs"
  shows "settled c xs R \<Longrightarrow> resolve_keys n c (map (c_StringVal c) ys) (state (flat c xs R V) var) = Some (Ret (st', ds)) \<Longrightarrow>
    \<not> HasErrors ds \<Longrightarrow> sound c xs R ys V st'"
proof (induction ys arbitrary: R V var)
  case Nil
  then show ?case by (auto intro!: soundI)
next
  case (Cons y ys)
  obtain st1 ds1 where st1: "resolveSingle n c (c_StringVal c y # []) (state (flat c xs R V) var) = Some (Ret (st1, ds1))" "\<not> HasErrors ds1"
      "resolve_keys n c (map (c_StringVal c) ys) st1 = Some (Ret (st', ds))"
    using Cons.prems(2,3) by (auto simp: res_bind_def split: option.splits go.splits prod.splits if_splits)
  obtain R1 V1 var1 where s1: "st1 = state (flat c xs R1 V1) var1" "settled c xs R1" "R \<subseteq>\<^sub>m R1" "y \<in> fst ` set xs" "R1 y \<noteq> None" "\<forall>y. V y \<longrightarrow> V1 y"
    using resolveSingle_sound [OF assms Cons.prems(1) st1(1,2)] by (auto simp: sound_def)
  obtain R2 V2 var2 where s2: "st' = state (flat c xs R2 V2) var2" "settled c xs R2" "R1 \<subseteq>\<^sub>m R2" "set ys \<subseteq> fst ` set xs"
      "list_all (\<lambda>y. R2 y \<noteq> None) ys" "\<forall>y. V1 y \<longrightarrow> V2 y"
    using Cons.IH [OF s1(2) st1(3) [unfolded s1(1)] Cons.prems(3)] by (auto simp: sound_def)
  have "R2 y \<noteq> None" using s1(5) s2(3) by (force simp: map_le_def)
  then show ?case unfolding s2(1) using s1(4,6) s2(2,4-6) map_le_trans [OF s1(3) s2(3)] by (intro soundI) simp_all
qed

lemma resolve_keys_complete:
  assumes "cty_ok c" "distinct (map fst xs)" "list_all (\<lambda>(x, e). plain_expr e) xs"
  shows "list_all (\<lambda>y. denotes c xs y (f y)) ys \<Longrightarrow> settled c xs R \<Longrightarrow> \<forall>z. \<not> (V z \<and> R z = None) \<Longrightarrow> unvisited (flat c xs R V) < n \<Longrightarrow>
    resolves_to c xs R V (\<lambda>ds. ds = []) (map (\<lambda>y. (y, f y)) ys) (resolve_keys n c (map (c_StringVal c) ys) (state (flat c xs R V) var))"
proof (induction ys arbitrary: R V var)
  case Nil
  then show ?case by (auto intro!: resolves_toI)
next
  case (Cons y ys)
  obtain R1 V1 var1 where s1: "resolveSingle n c [c_StringVal c y] (state (flat c xs R V) var) = Some (Ret (state (flat c xs R1 V1) var1, []))"
      "settled c xs R1" "R \<subseteq>\<^sub>m R1" "R1 y = Some (f y)" "\<forall>z. V z \<longrightarrow> V1 z" "\<forall>z. V1 z \<and> R1 z = None \<longrightarrow> V z \<and> R z = None"
      "unvisited (flat c xs R1 V1) \<le> unvisited (flat c xs R V)"
    using resolveSingle_complete [OF assms, of y "f y" R V n "[]" var] Cons.prems by (auto simp: resolves_to_def)
  obtain R2 V2 var2 where s2: "resolve_keys n c (map (c_StringVal c) ys) (state (flat c xs R1 V1) var1) = Some (Ret (state (flat c xs R2 V2) var2, []))"
      "settled c xs R2" "R1 \<subseteq>\<^sub>m R2" "list_all (\<lambda>(y, v). R2 y = Some v) (map (\<lambda>y. (y, f y)) ys)" "\<forall>z. V1 z \<longrightarrow> V2 z"
      "\<forall>z. V2 z \<and> R2 z = None \<longrightarrow> V1 z \<and> R1 z = None" "unvisited (flat c xs R2 V2) \<le> unvisited (flat c xs R1 V1)"
    using Cons.IH [OF _ s1(2), of V1 var1] Cons.prems(1,3,4) s1(6,7) by (force simp: resolves_to_def)
  have eq: "resolve_keys n c (map (c_StringVal c) (y # ys)) (state (flat c xs R V) var) = Some (Ret (state (flat c xs R2 V2) var2, []))"
    using s1(1) s2(1) by simp
  have y: "R2 y = Some (f y)" using s1(4) s2(3) by (force simp: map_le_def)
  show ?case unfolding eq
  proof (rule resolves_toI [OF s2(2) map_le_trans [OF s1(3) s2(3)]])
    show "list_all (\<lambda>(y, v). R2 y = Some v) (map (\<lambda>y. (y, f y)) (y # ys))" using y s2(4) by simp
    show "V2 z" if "V z" for z using that s1(5) s2(5) by blast
    show "V z \<and> R z = None" if "V2 z" "R2 z = None" for z using that s1(6) s2(6) by blast
  qed (use s1(7) s2(7) in simp_all)
qed

text \<open>The tree built from one block, and the value of the tree once every variable is resolved.\<close>

lemma path_kids_flat:
  assumes "cty_ok c" shows "x \<notin> fst ` set xs \<Longrightarrow> path_kids c (set_expression e) (c_StringVal c x) [] (map (\<lambda>(x, e). (c_StringVal c x, g x e)) xs) =
    map (\<lambda>(x, e). (c_StringVal c x, g x e)) xs @ [(c_StringVal c x, set_expression e empty_variables)]"
  using assms by (induction xs) (auto simp: cty_ok_def)

lemma add_flat:
  assumes "cty_ok c" "plain_expr e" "x \<notin> fst ` set xs"
  shows "add c env [c_StringVal c x] e (flat c xs (\<lambda>_. None) (\<lambda>_. False)) = Some (Ret (flat c (xs @ [(x, e)]) (\<lambda>_. None) (\<lambda>_. False), []))"
proof -
  have "set_expression e empty_variables = leaf e None False"
    using assms(2) by (auto simp: set_expression_def empty_variables_def leaf_def expr_size_def plain_expr_def split: expr_kind.splits)
  then show ?thesis unfolding add_def traverse_plain [OF assms(2)]
    using path_kids_flat [OF assms(1,3), of e "\<lambda>x e. leaf e None False"] by (simp add: add_fn_def flat_def)
qed

lemma populate_attrs_flat:
  assumes "cty_ok c"
  shows "distinct (map fst (xs @ attrs)) \<Longrightarrow> list_all (\<lambda>(x, e). plain_expr e) attrs \<Longrightarrow> \<not> HasErrors diags \<Longrightarrow>
    \<exists>ds. populate_attrs c env attrs diags (flat c xs (\<lambda>_. None) (\<lambda>_. False)) = Some (Ret (flat c (xs @ attrs) (\<lambda>_. None) (\<lambda>_. False), ds, True)) \<and> \<not> HasErrors ds"
proof (induction attrs arbitrary: xs diags)
  case (Cons xe attrs)
  obtain x e where xe: "xe = (x, e)" by force
  have "add c env [c_StringVal c x] e (flat c xs (\<lambda>_. None) (\<lambda>_. False)) = Some (Ret (flat c (xs @ [xe]) (\<lambda>_. None) (\<lambda>_. False), []))"
    using add_flat [OF assms, of e x xs env] Cons.prems xe by auto
  then show ?case using Cons.IH [of "xs @ [xe]" "[]"] Cons.prems xe by (simp add: handleDiagnostics_def)
qed simp

lemma toValue_flat:
  assumes "cty_ok c" "distinct (map fst xs)" "list_all (\<lambda>x. R x \<noteq> None) (map fst xs)"
  shows "toValue c (flat c xs R V) = Ret (if xs = [] then c_NilVal c else c_ObjectVal c (map (\<lambda>(x, e). (x, the (R x))) xs), [])"
proof -
  have eq: "map (\<lambda>(x, e). (c_StringVal c x, leaf e (R x) (V x))) xs =
      map (\<lambda>y. (c_StringVal c y, Variables (map_of xs y) (R y) (V y) (- 1) [])) (map fst xs)"
    using assms(2) by (auto simp: leaf_def)
  have "map_vals c (map (\<lambda>(x, e). (c_StringVal c x, leaf e (R x) (V x))) xs) [] [] = Ret (map (\<lambda>y. (y, the (R y))) (map fst xs), [])"
    unfolding eq using map_vals_copied [OF assms(1,2) _ assms(3), of "[]" "map_of xs" V "\<lambda>_. - 1"] by simp
  also have "map (\<lambda>y. (y, the (R y))) (map fst xs) = map (\<lambda>(x, e). (x, the (R x))) xs" by auto
  finally show ?thesis by (simp add: flat_def)
qed

lemma denotes_mono: "denotes c xs x v \<Longrightarrow> set xs \<subseteq> set ys \<Longrightarrow> denotes c ys x v"
proof (induction rule: denotes.induct)
  case (no_refs x e v ds)
  then show ?case by (intro denotes.no_refs) auto
next
  case (with_refs x e f v ds)
  then show ?case by (intro denotes.with_refs [of x e ys c f v ds]) auto
qed

lemma sortAttributes_props: "set (sortAttributes attrs) = set attrs" "distinct (map fst (sortAttributes attrs)) = distinct (map fst attrs)"
  "sortAttributes attrs = [] \<longleftrightarrow> attrs = []"
  unfolding sortAttributes_def by simp_all (metis mset_map mset_sort mset_eq_imp_distinct_iff, metis length_0_conv length_sort)

text \<open>All the variables of one block.\<close>

lemma populate_flat:
  assumes "cty_ok c" "distinct (map fst attrs)" "list_all (\<lambda>(x, e). plain_expr e) attrs" "\<not> HasErrors ad"
  shows "\<exists>ds. populateResolver c env [(attrs, ad)] [] empty_variables = Some (Ret (flat c (sortAttributes attrs) (\<lambda>_. None) (\<lambda>_. False), ds)) \<and> \<not> HasErrors ds"
proof -
  have "empty_variables = flat c [] (\<lambda>_. None) (\<lambda>_. False)" by (simp add: empty_variables_def flat_def)
  then show ?thesis
    using populate_attrs_flat [OF assms(1), of "[]" "sortAttributes attrs" "ad @ ad" env] assms(2-4)
    by (auto simp: handleDiagnostics_def sortAttributes_props list_all_iff)
qed

lemma resolveAllVariables_flat:
  assumes "cty_ok c" "distinct (map fst xs)" "list_all (\<lambda>(x, e). plain_expr e) xs"
  shows "(\<exists>st ds. resolveAllVariables c (state (flat c xs (\<lambda>_. None) (\<lambda>_. False)) env) = Some (Ret (st, ds)) \<and> vs_var st = Some w \<and> \<not> HasErrors ds) \<longleftrightarrow>
    (\<exists>f. list_all (\<lambda>(x, e). denotes c xs x (f x)) xs \<and> w = (if xs = [] then c_NilVal c else c_ObjectVal c (map (\<lambda>(x, e). (x, f x)) xs)))"
    (is "?L \<longleftrightarrow> ?R")
proof -
  let ?t = "flat c xs (\<lambda>_. None) (\<lambda>_. False)" and ?ks = "map (c_StringVal c) (map fst xs)"
  have keys: "map fst (va_variables ?t) = ?ks" by (auto simp: flat_def)
  have settled: "settled c xs (\<lambda>_. None)" by (simp add: settled_def)
  have obj: "resolveAllVariables c (state ?t env) = Some (Ret (state (flat c xs R V) (Some x), []))"
    if "resolve_keys (Suc (unvisited ?t)) c ?ks (state ?t env) = Some (Ret (state (flat c xs R V) var, ds))" "\<not> HasErrors ds"
      "list_all (\<lambda>x. R x \<noteq> None) (map fst xs)" "x = (if xs = [] then c_NilVal c else c_ObjectVal c (map (\<lambda>(x, e). (x, the (R x))) xs))" for R V var ds x
    using that toValue_flat [OF assms(1,2) that(3), of V] unfolding resolveAllVariables_def resolveAll_def
    by (simp add: keys handleDiagnostics_def)
  show ?thesis
  proof
    assume ?L
    then obtain st ds where l: "resolveAllVariables c (state ?t env) = Some (Ret (st, ds))" "vs_var st = Some w" "\<not> HasErrors ds" by blast
    then obtain st0 ds0 where k: "resolve_keys (Suc (unvisited ?t)) c ?ks (state ?t env) = Some (Ret (st0, ds0))" "\<not> HasErrors ds0"
      unfolding resolveAllVariables_def resolveAll_def
      by (auto simp: keys handleDiagnostics_def res_bind_def split: option.splits go.splits prod.splits bool.splits if_splits)
    obtain R V var where s: "st0 = state (flat c xs R V) var" "settled c xs R" "list_all (\<lambda>x. R x \<noteq> None) (map fst xs)"
      using resolve_keys_sound [OF assms settled k] unfolding sound_def by blast
    have "w = (if xs = [] then c_NilVal c else c_ObjectVal c (map (\<lambda>(x, e). (x, the (R x))) xs))"
      using obj [OF k [unfolded s(1)] s(3) refl] l by auto
    moreover have "list_all (\<lambda>(x, e). denotes c xs x (the (R x))) xs" using s(2,3) by (auto simp: settled_def list_all_iff)
    ultimately show ?R by (intro exI [of _ "\<lambda>x. the (R x)"] conjI)
  next
    assume ?R
    then obtain f where f: "list_all (\<lambda>(x, e). denotes c xs x (f x)) xs" "w = (if xs = [] then c_NilVal c else c_ObjectVal c (map (\<lambda>(x, e). (x, f x)) xs))" by blast
    have "list_all (\<lambda>y. denotes c xs y (f y)) (map fst xs)" using f(1) by (auto simp: list_all_iff)
    then obtain R V var where k: "resolve_keys (Suc (unvisited ?t)) c ?ks (state ?t env) = Some (Ret (state (flat c xs R V) var, []))"
        "list_all (\<lambda>(y, v). R y = Some v) (map (\<lambda>y. (y, f y)) (map fst xs))"
      using resolve_keys_complete [OF assms _ settled, of f "map fst xs" "\<lambda>_. False" "Suc (unvisited ?t)" env] unfolding resolves_to_def by auto
    have "map (\<lambda>(x, e). (x, f x)) xs = map (\<lambda>(x, e). (x, the (R x))) xs" using k(2) by (auto simp: list_all_iff)
    then have w: "w = (if xs = [] then c_NilVal c else c_ObjectVal c (map (\<lambda>(x, e). (x, the (R x))) xs))" unfolding f(2) by (simp only:)
    have "list_all (\<lambda>x. R x \<noteq> None) (map fst xs)" using k(2) by (auto simp: list_all_iff)
    then show ?L using obj [OF k(1) _ _ w] by auto
  qed
qed

lemma Variables_ext_single:
  assumes "cty_ok c" "distinct (map fst attrs)" "list_all (\<lambda>(x, e). plain_expr e) attrs" "\<not> HasErrors ad" "\<not> HasErrors cd"
  shows "(\<exists>ds. Variables_ext c env [(attrs, ad)] cd = Some (Ret (Some w, True, ds))) \<longleftrightarrow>
    (\<exists>st ds. resolveAllVariables c (state (flat c (sortAttributes attrs) (\<lambda>_. None) (\<lambda>_. False)) env) = Some (Ret (st, ds)) \<and> vs_var st = Some w \<and> \<not> HasErrors ds)"
proof -
  obtain ds where "populateResolver c env [(attrs, ad)] [] empty_variables = Some (Ret (flat c (sortAttributes attrs) (\<lambda>_. None) (\<lambda>_. False), ds))" "\<not> HasErrors ds"
    using populate_flat [OF assms(1-4)] by blast
  then show ?thesis unfolding Variables_ext_def using assms(5)
    by (cases "resolveAllVariables c (state (flat c (sortAttributes attrs) (\<lambda>_. None) (\<lambda>_. False)) env)" rule: res_cases)
      (auto simp: handleDiagnostics_def split: bool.splits prod.splits)
qed

subsection \<open>Properties\<close>

text \<open>
  C11: The resolution of the variables always comes to an end: whatever the blocks, the expressions and the
  references between them, circular ones included, \<open>Variables\<close> returns or panics, because every call of
  \<open>resolveSingle\<close> that goes on marks one more variable as visited.
\<close>

theorem variables_terminate: "Variables_ext c env blocks ds \<noteq> None"
  using Variables_ext_total [of c env blocks ds] by (auto elim: res_okE)

text \<open>
  C10: For one block of variables that are neither maps nor lists, \<open>Variables\<close> succeeds exactly when every variable
  has a meaning, that is when evaluating each expression in the object of the meanings of the variables it
  refers to succeeds and no reference is circular or undefined; then the context gets the object of the
  meanings, whatever the order in which the variables are declared or refer to each other.
\<close>

theorem variables_denote:
  assumes "cty_ok c" "distinct (map fst attrs)" "list_all (\<lambda>(x, e). plain_expr e) attrs" "\<not> HasErrors ad" "\<not> HasErrors cd"
  shows "(\<exists>ds. Variables_ext c env [(attrs, ad)] cd = Some (Ret (Some w, True, ds))) \<longleftrightarrow>
    (\<exists>f. list_all (\<lambda>(x, e). denotes c attrs x (f x)) attrs \<and>
      w = (if attrs = [] then c_NilVal c else c_ObjectVal c (map (\<lambda>(x, e). (x, f x)) (sortAttributes attrs))))"
proof -
  have "denotes c (sortAttributes attrs) x v \<longleftrightarrow> denotes c attrs x v" for x v
    using denotes_mono [of c "sortAttributes attrs" x v attrs] denotes_mono [of c attrs x v "sortAttributes attrs"] by (auto simp: sortAttributes_props)
  then show ?thesis
    using resolveAllVariables_flat [OF assms(1), of "sortAttributes attrs" env w] assms(2,3)
    unfolding Variables_ext_single [OF assms] by (simp add: sortAttributes_props list_all_iff)
qed

text \<open>
  A small instance of \<open>cty\<close> with strings, numbers, tuples and objects, and the expressions of a configuration:
  a literal, and the first reference of an expression as its value.
\<close>

datatype val = VStr string | VNum nat | VTup "val list" | VObj "(string \<times> val) list" | VNil

definition val_cty :: "val cty" where
  "val_cty = \<lparr>c_Equals = (\<lambda>x y. x = y), c_StringVal = VStr, c_NumberIntVal = VNum,
     c_AsString = (\<lambda>v. case v of VStr s \<Rightarrow> Some s | _ \<Rightarrow> None), c_TupleVal = VTup, c_ObjectVal = VObj, c_NilVal = VNil\<rparr>"

definition literal :: "val \<Rightarrow> val expr" where
  "literal v = Expr ExprOther [] (\<lambda>env. (v, []))"

definition reference :: "string \<Rightarrow> val expr" where
  "reference y = Expr ExprOther [(varObjectName, [TraverseAttr y])]
     (\<lambda>env. case env of
        Some (VObj kvs) \<Rightarrow> (case map_of kvs y of Some v \<Rightarrow> (v, []) | None \<Rightarrow> (VNil, [Diag True ''Unsupported attribute'']))
      | _ \<Rightarrow> (VNil, [Diag True ''Unsupported attribute'']))"

lemma val_cty_ok: "cty_ok val_cty"
  by (simp add: cty_ok_def val_cty_def)

lemma plain_examples: "plain_expr (literal v)" "plain_expr (reference y)"
  by (simp_all add: plain_expr_def literal_def reference_def ref_names_def varObjectName_def)

lemma reference_simps: "ref_names (reference y) = [y]" "ex_Value (reference y) (Some (ref_object val_cty [y] f)) = (f y, [])"
  by (simp_all add: reference_def ref_names_def varObjectName_def ref_object_def first_names_def val_cty_def)

theorem variables_denote_witness:
  "\<exists>ds. Variables_ext val_cty None [([(''b'', reference ''a''), (''a'', literal (VNum 7))], [])] [] =
     Some (Ret (Some (VObj [(''a'', VNum 7), (''b'', VNum 7)]), True, ds))"
proof -
  let ?attrs = "[(''b'', reference ''a''), (''a'', literal (VNum 7))]"
  have a: "denotes val_cty ?attrs ''a'' (VNum 7)"
    by (rule denotes.no_refs [of _ "literal (VNum 7)" _ _ "[]"]) (simp_all add: literal_def ref_names_def)
  have "denotes val_cty ?attrs ''b'' (VNum 7)"
    by (rule denotes.with_refs [of _ "reference ''a''" _ _ "\<lambda>_. VNum 7" _ "[]"]) (simp_all add: reference_simps a)
  then have den: "list_all (\<lambda>(x, e). denotes val_cty ?attrs x (VNum 7)) ?attrs" using a by simp
  have sorted: "map (\<lambda>(x, e). (x, VNum 7)) (sortAttributes ?attrs) = [(''a'', VNum 7), (''b'', VNum 7)]" by code_simp
  have "VObj [(''a'', VNum 7), (''b'', VNum 7)] = (if ?attrs = [] then c_NilVal val_cty
      else c_ObjectVal val_cty (map (\<lambda>(x, e). (x, VNum 7)) (sortAttributes ?attrs)))"
    unfolding sorted by (simp add: val_cty_def)
  with den have "\<exists>f. list_all (\<lambda>(x, e). denotes val_cty ?attrs x (f x)) ?attrs \<and> VObj [(''a'', VNum 7), (''b'', VNum 7)] =
      (if ?attrs = [] then c_NilVal val_cty else c_ObjectVal val_cty (map (\<lambda>(x, e). (x, f x)) (sortAttributes ?attrs)))"
    by (intro exI [of _ "\<lambda>_. VNum 7"] conjI)
  then show ?thesis
    by (intro variables_denote [OF val_cty_ok, THEN iffD2]) (simp_all add: plain_examples)
qed

text \<open>
  What the errors look like: two variables that refer to each other are reported, with the diagnostic repeated by
  every level of \<open>handleDiagnostics\<close>; a reference to a variable that does not exist makes the program panic
  instead of reporting a diagnostic, because the closest variable is then the root, which has no expression.
\<close>

lemma circular_reference_reported:
  "Variables_ext val_cty None [([(''a'', reference ''b''), (''b'', reference ''a'')], [])] [] =
     Some (Ret (None, False, replicate 16 (Diag True ''Circular reference detected'')))"
  by code_simp

lemma undefined_reference_panics:
  "Variables_ext val_cty None [([(''a'', reference ''b'')], [])] [] = Some (Panic ''nil pointer dereference'')"
  by code_simp

text \<open>
  \<open>handleDiagnostics\<close> replaces the diagnostics collected so far by twice the new ones: the warnings of one
  block are lost when the next one has none.
\<close>

lemma diagnostics_overwritten:
  "Variables_ext val_cty None [([(''a'', literal VNil)], [Diag False ''deprecated''])] [] = Some (Ret (Some (VObj [(''a'', VNil)]), True, []))"
  by code_simp

end
