(* ===== verification/Hcl_Struct.thy ===== *)
theory Hcl_Struct
  imports Hcl_Diag
begin

text \<open>
  The struct tags of the HCL package: the part of \<open>src/hcl/decode.go\<close> that turns a Go struct type with \<open>hcl\<close> tags
  into the schema of a block, and \<open>src/hcl/util.go\<close>.

  Go types are the finite trees that the package \<open>reflect\<close> shows; a type that contains itself through pointers or
  slices is not such a tree, its unfolding to any depth is. The type of an interface value also records the type of
  what it holds. The fields of a struct are those of \<open>reflect.VisibleFields\<close>, and the values of a struct are listed
  in the same order; a struct with embedded structs, whose fields show up twice, is not such a list of values.
\<close>

subsection \<open>Definitions: types and values\<close>

text \<open>
  The first string of a type is its package path, empty for a type without a name of its own; interfaces and structs
  also have their names, which together with the path identify a type that has one.
\<close>

datatype gtype =
    TString string
  | TOther string string
  | TPtr gtype
  | TIface string string "gtype option"
  | TSlice string gtype
  | TMap string gtype gtype
  | TStruct string string "gfield list"
and gfield = Field (fl_name: string) (fl_tag: "string option") (fl_exported: bool) (fl_type: gtype)

text \<open>Values: \<open>'x\<close> are the values of the types whose structure does not matter here.\<close>

datatype 'x gval =
    VLeaf 'x
  | VPtr "'x gval option"
  | VIface "'x gval option"
  | VSlice "'x gval list option"
  | VMap "(string \<times> 'x gval) list option"
  | VStruct "'x gval list"

text \<open>The zero value of a type (\<open>reflect.Zero\<close>), from those of the leaves.\<close>

primrec zero_val :: "(gtype \<Rightarrow> 'x) \<Rightarrow> gtype \<Rightarrow> 'x gval" and zero_field :: "(gtype \<Rightarrow> 'x) \<Rightarrow> gfield \<Rightarrow> 'x gval" where
  "zero_val z (TString p) = VLeaf (z (TString p))"
| "zero_val z (TOther k p) = VLeaf (z (TOther k p))"
| "zero_val z (TPtr t) = VPtr None"
| "zero_val z (TIface p n t) = VIface None"
| "zero_val z (TSlice p t) = VSlice None"
| "zero_val z (TMap p k t) = VMap None"
| "zero_val z (TStruct p n fs) = VStruct (map (zero_field z) fs)"
| "zero_field z (Field n tag ex t) = zero_val z t"

fun PkgPath :: "gtype \<Rightarrow> string" where
  "PkgPath (TString p) = p"
| "PkgPath (TOther k p) = p"
| "PkgPath (TPtr t) = []"
| "PkgPath (TIface p n t) = p"
| "PkgPath (TSlice p t) = p"
| "PkgPath (TMap p k t) = p"
| "PkgPath (TStruct p n fs) = p"

subsection \<open>Definitions: dereferencing\<close>

text \<open>\<open>reflect.Type.Elem\<close> panics on an interface type, and so does \<open>derefType\<close>.\<close>

fun derefType :: "gtype \<Rightarrow> gtype go" where
  "derefType (TPtr t) = derefType t"
| "derefType (TIface p n t) = Panic ''reflect: Elem of invalid type''"
| "derefType t = Ret t"

text \<open>
  \<open>derefValue\<close> of a value that can be set or not: whether the result can be set, its type and value, and the
  original value for each new value of the result; \<open>None\<close> is the invalid value, what a nil pointer that cannot be
  set and a nil interface hold. A nil pointer that can be set gets a new value.
\<close>

fun derefValue :: "(gtype \<Rightarrow> 'x) \<Rightarrow> bool \<Rightarrow> gtype \<Rightarrow> 'x gval \<Rightarrow> (bool \<times> gtype \<times> 'x gval \<times> ('x gval \<Rightarrow> 'x gval)) option" where
  "derefValue z s (TPtr t) v =
     (case v of
        VPtr (Some w) \<Rightarrow> map_option (\<lambda>(s', t', w', up). (s', t', w', \<lambda>y. VPtr (Some (up y)))) (derefValue z True t w)
      | _ \<Rightarrow> if s then map_option (\<lambda>(s', t', w', up). (s', t', w', \<lambda>y. VPtr (Some (up y)))) (derefValue z True t (zero_val z t)) else None)"
| "derefValue z s (TIface p n (Some t)) v =
     (case v of
        VIface (Some w) \<Rightarrow> map_option (\<lambda>(s', t', w', up). (s', t', w', \<lambda>y. VIface (Some (up y)))) (derefValue z False t w)
      | _ \<Rightarrow> None)"
| "derefValue z s (TIface p n None) v = None"
| "derefValue z s t v = Some (s, t, v, \<lambda>y. y)"

subsection \<open>Definitions: the metadata of a field\<close>

datatype field_type = fieldAttr | fieldBlock | fieldLabel | fieldRemain | fieldBody | fieldContent | fieldSchema | fieldRange

record structFieldMeta =
  sfm_Name :: string
  sfm_Tagged :: bool
  sfm_Type :: field_type
  sfm_Optional :: bool
  sfm_Multiple :: bool
  sfm_Ignore :: bool
  sfm_Index :: nat
  sfm_Reflect :: gfield
  sfm_StructReflect :: "gtype option"

definition new_field_meta :: "nat \<Rightarrow> gfield \<Rightarrow> structFieldMeta" where
  "new_field_meta i f = \<lparr>sfm_Name = [], sfm_Tagged = False, sfm_Type = fieldAttr, sfm_Optional = False, sfm_Multiple = False,
     sfm_Ignore = False, sfm_Index = i, sfm_Reflect = f, sfm_StructReflect = None\<rparr>"

definition tag_part :: "string \<Rightarrow> structFieldMeta \<Rightarrow> structFieldMeta option" where
  "tag_part part m =
     (if part = ''attr'' then Some (m\<lparr>sfm_Type := fieldAttr\<rparr>)
      else if part = ''label'' then Some (m\<lparr>sfm_Type := fieldLabel\<rparr>)
      else if part = ''block'' then Some (m\<lparr>sfm_Type := fieldBlock\<rparr>)
      else if part = ''remain'' then Some (m\<lparr>sfm_Type := fieldRemain\<rparr>)
      else if part = ''body'' then Some (m\<lparr>sfm_Type := fieldBody\<rparr>)
      else if part = ''content'' then Some (m\<lparr>sfm_Type := fieldContent\<rparr>)
      else if part = ''schema'' then Some (m\<lparr>sfm_Type := fieldSchema\<rparr>)
      else if part = ''range'' then Some (m\<lparr>sfm_Type := fieldRange\<rparr>)
      else if part = ''optional'' then Some (m\<lparr>sfm_Optional := True\<rparr>)
      else if part = ''ignore'' then Some (m\<lparr>sfm_Ignore := True\<rparr>)
      else None)"

fun parse_parts :: "string list \<Rightarrow> structFieldMeta \<Rightarrow> diag list + structFieldMeta" where
  "parse_parts [] m = Inr m"
| "parse_parts (part # parts) m = (case tag_part part m of None \<Rightarrow> Inl (diag_err ''Invalid tag'') | Some m \<Rightarrow> parse_parts parts m)"

text \<open>The struct type of a block field; a slice or a map makes the block repeatable.\<close>

definition block_struct :: "structFieldMeta \<Rightarrow> (diag list + structFieldMeta) go" where
  "block_struct m =
     go_bind (derefType (fl_type (sfm_Reflect m))) (\<lambda>typ.
       go_bind (case typ of TSlice p t \<Rightarrow> go_bind (derefType t) (\<lambda>t. Ret (t, True))
                | TMap p k t \<Rightarrow> go_bind (derefType t) (\<lambda>t. Ret (t, True))
                | _ \<Rightarrow> Ret (typ, False)) (\<lambda>(typ, multiple).
         case typ of TStruct p n fs \<Rightarrow> Ret (Inr (m\<lparr>sfm_Multiple := multiple, sfm_StructReflect := Some typ\<rparr>))
         | _ \<Rightarrow> Ret (Inl (diag_err ''Cannot use block tag on field''))))"

text \<open>The types \<open>bodyTy\<close>, \<open>bodyContentTy\<close>, \<open>bodySchemaTy\<close> and \<open>rangeTy\<close>: the interface \<open>hcl.Body\<close> and three structs.\<close>

definition hcl_path :: string where
  "hcl_path = ''github.com/hashicorp/hcl/v2''"

definition is_bodyTy :: "gtype \<Rightarrow> bool" where
  "is_bodyTy t = (case t of TIface p n _ \<Rightarrow> p = hcl_path \<and> n = ''Body'' | _ \<Rightarrow> False)"

definition is_hcl_struct :: "string \<Rightarrow> gtype \<Rightarrow> bool" where
  "is_hcl_struct name t = (case t of TStruct p n _ \<Rightarrow> p = hcl_path \<and> n = name | _ \<Rightarrow> False)"

definition validate_meta :: "structFieldMeta \<Rightarrow> diag list + structFieldMeta" where
  "validate_meta m =
     (let ty = fl_type (sfm_Reflect m) in
      if sfm_Type m \<noteq> fieldAttr \<and> sfm_Type m \<noteq> fieldBlock \<and> sfm_Optional m then Inl (diag_err ''A optional tag can only be used with attributes and blocks'')
      else if sfm_Type m = fieldBlock \<and> sfm_Multiple m \<and> sfm_Optional m then Inl (diag_err ''A optional tag cannot be used with a block that can be repeated'')
      else if sfm_Type m = fieldRemain \<and> \<not> is_bodyTy ty then Inl (diag_err ''A remain tag must be used with a field of type hcl.Body'')
      else if sfm_Type m = fieldBody \<and> \<not> is_bodyTy ty then Inl (diag_err ''A body tag must be used with a field of type hcl.Body'')
      else if sfm_Type m = fieldContent \<and> \<not> is_hcl_struct ''BodyContent'' ty then Inl (diag_err ''A body tag must be used with a field of type hcl.BodyContent'')
      else if sfm_Type m = fieldSchema \<and> \<not> is_hcl_struct ''BodySchema'' ty then Inl (diag_err ''A body tag must be used with a field of type hcl.BodySchema'')
      else if sfm_Type m = fieldRange \<and> \<not> is_hcl_struct ''Range'' ty then Inl (diag_err ''A range tag must be used with a field of type hcl.Range'')
      else Inr m)"

definition getStructFieldMeta :: "nat \<Rightarrow> gfield \<Rightarrow> (diag list + structFieldMeta) go" where
  "getStructFieldMeta i f =
     (case fl_tag f of
        None \<Rightarrow> Ret (Inr (new_field_meta i f))
      | Some tag \<Rightarrow>
          let parts = split_on (CHR '','') tag;
              m = (new_field_meta i f)\<lparr>sfm_Tagged := True, sfm_Name := (if hd parts = [] then fl_name f else hd parts)\<rparr> in
          case parse_parts (tl parts) m of
            Inl ds \<Rightarrow> Ret (Inl ds)
          | Inr m \<Rightarrow>
              if \<not> fl_exported f \<and> \<not> sfm_Ignore m then Ret (Inl (diag_err ''Field is not exported but has an hcl tag''))
              else go_bind (if sfm_Type m = fieldBlock then block_struct m else Ret (Inr m)) (\<lambda>r.
                case r of Inl ds \<Rightarrow> Ret (Inl ds) | Inr m \<Rightarrow> Ret (validate_meta m)))"

subsection \<open>Definitions: the metadata of a struct\<close>

record bodySchema =
  bs_Attributes :: "(string \<times> bool) list"
  bs_Blocks :: "(string \<times> string list) list"

record structMeta =
  sm_BodySchema :: bodySchema
  sm_Labels :: "structFieldMeta list"
  sm_Attrs :: "structFieldMeta list"
  sm_Blocks :: "structFieldMeta list"
  sm_Remain :: "structFieldMeta option"
  sm_Body :: "structFieldMeta option"
  sm_Content :: "structFieldMeta option"
  sm_Schema :: "structFieldMeta option"
  sm_Range :: "structFieldMeta option"

definition new_meta :: structMeta where
  "new_meta = \<lparr>sm_BodySchema = \<lparr>bs_Attributes = [], bs_Blocks = []\<rparr>, sm_Labels = [], sm_Attrs = [], sm_Blocks = [], sm_Remain = None,
     sm_Body = None, sm_Content = None, sm_Schema = None, sm_Range = None\<rparr>"

fun fields_get :: "structFieldMeta list \<Rightarrow> string \<Rightarrow> structFieldMeta option" where
  "fields_get [] name = None"
| "fields_get (f # fs) name = (if sfm_Name f = name then Some f else fields_get fs name)"

fun fields_has :: "structFieldMeta list \<Rightarrow> string \<Rightarrow> bool" where
  "fields_has [] name = False"
| "fields_has (f # fs) name = (if sfm_Name f = name then True else fields_has fs name)"

definition fields_add :: "structFieldMeta list \<Rightarrow> structFieldMeta \<Rightarrow> structFieldMeta list option" where
  "fields_add fs f = (if fields_has fs (sfm_Name f) then None else Some (fs @ [f]))"

definition visible_fields :: "gtype \<Rightarrow> gfield list" where
  "visible_fields t = (case t of TStruct p n fs \<Rightarrow> fs | _ \<Rightarrow> [])"

text \<open>The names of the labels of a block.\<close>

fun block_labels :: "nat \<Rightarrow> gfield list \<Rightarrow> string list \<Rightarrow> (diag list + string list) go" where
  "block_labels i [] labels = Ret (Inr labels)"
| "block_labels i (f # fs) labels =
     go_bind (getStructFieldMeta i f) (\<lambda>r.
       case r of Inl ds \<Rightarrow> Ret (Inl ds)
       | Inr m \<Rightarrow> block_labels (Suc i) fs (if sfm_Tagged m \<and> sfm_Type m = fieldLabel then labels @ [sfm_Name m] else labels))"

definition add_field :: "structFieldMeta \<Rightarrow> structMeta \<Rightarrow> (diag list + structMeta) go" where
  "add_field m meta =
     (case sfm_Type m of
        fieldAttr \<Rightarrow>
          (case fields_add (sm_Attrs meta) m of
             None \<Rightarrow> Ret (Inl (diag_err ''Duplicate attribute name''))
           | Some fs \<Rightarrow> Ret (Inr (meta\<lparr>sm_Attrs := fs, sm_BodySchema := (sm_BodySchema meta)\<lparr>bs_Attributes :=
                 bs_Attributes (sm_BodySchema meta) @ [(sfm_Name m, \<not> sfm_Optional m)]\<rparr>\<rparr>)))
      | fieldLabel \<Rightarrow>
          (case fields_add (sm_Labels meta) m of
             None \<Rightarrow> Ret (Inl (diag_err ''Duplicate label name''))
           | Some fs \<Rightarrow> Ret (Inr (meta\<lparr>sm_Labels := fs\<rparr>)))
      | fieldBlock \<Rightarrow>
          go_bind (block_labels 0 (visible_fields (the (sfm_StructReflect m))) []) (\<lambda>r.
            case r of
              Inl ds \<Rightarrow> Ret (Inl ds)
            | Inr labels \<Rightarrow>
                (case fields_add (sm_Blocks meta) m of
                   None \<Rightarrow> Ret (Inl (diag_err ''Duplicate block name''))
                 | Some fs \<Rightarrow> Ret (Inr (meta\<lparr>sm_Blocks := fs, sm_BodySchema := (sm_BodySchema meta)\<lparr>bs_Blocks :=
                       bs_Blocks (sm_BodySchema meta) @ [(sfm_Name m, labels)]\<rparr>\<rparr>))))
      | fieldRemain \<Rightarrow> Ret (Inr (meta\<lparr>sm_Remain := Some m\<rparr>))
      | fieldBody \<Rightarrow> Ret (Inr (meta\<lparr>sm_Body := Some m\<rparr>))
      | fieldContent \<Rightarrow> Ret (Inr (meta\<lparr>sm_Content := Some m\<rparr>))
      | fieldSchema \<Rightarrow> Ret (Inr (meta\<lparr>sm_Schema := Some m\<rparr>))
      | fieldRange \<Rightarrow> Ret (Inr (meta\<lparr>sm_Range := Some m\<rparr>)))"

fun meta_loop :: "nat \<Rightarrow> gfield list \<Rightarrow> structMeta \<Rightarrow> (diag list + structMeta) go" where
  "meta_loop i [] meta = Ret (Inr meta)"
| "meta_loop i (f # fs) meta =
     go_bind (getStructFieldMeta i f) (\<lambda>r.
       case r of
         Inl ds \<Rightarrow> Ret (Inl ds)
       | Inr m \<Rightarrow>
           if \<not> sfm_Tagged m then meta_loop (Suc i) fs meta
           else go_bind (add_field m meta) (\<lambda>r. case r of Inl ds \<Rightarrow> Ret (Inl ds) | Inr meta \<Rightarrow> meta_loop (Suc i) fs meta))"

definition getStructMeta :: "gtype \<Rightarrow> (diag list + structMeta) go" where
  "getStructMeta s = meta_loop 0 (visible_fields s) new_meta"

end
