(* ===== verification/Hcl_Decode.thy ===== *)
theory Hcl_Decode
  imports Hcl_Struct
begin

text \<open>
  Decoding of HCL blocks into Go structs (\<open>src/hcl/decode.go\<close>) over the metadata of \<open>Hcl_Struct\<close>.

  The packages \<open>hcl\<close> and \<open>go-anymapper\<close> and the hooks that a decoded type may implement are not part of the
  repository; they are the functions of the record \<open>hcl_env\<close>, over bodies \<open>'b\<close>, expressions \<open>'e\<close>, values \<open>'c\<close> of the
  package \<open>cty\<close> and leaves \<open>'x\<close> of Go values. The attributes of a content are a Go map: they are listed in the order in
  which the loop of \<open>decodeSingleBlock\<close> finds them. A hook gets the value of the struct and returns the new one; a type
  without a hook has one that changes nothing. Every decoding returns the new value also when it fails, with what has
  been set before.
\<close>

subsection \<open>Definitions: what the code uses of its environment\<close>

record 'b hcl_block =
  hb_Type :: string
  hb_Labels :: "string list"
  hb_Body :: 'b

record ('b, 'e) hcl_content =
  hc_Attributes :: "(string \<times> 'e) list"
  hc_Blocks :: "'b hcl_block list"

record ('b, 'e, 'c, 'x) hcl_env =
  h_Content :: "'b \<Rightarrow> bodySchema \<Rightarrow> ('b, 'e) hcl_content \<times> diag list"
  h_PartialContent :: "'b \<Rightarrow> bodySchema \<Rightarrow> ('b, 'e) hcl_content \<times> 'b option \<times> diag list"
  h_Value :: "'e \<Rightarrow> 'c \<times> diag list"
  h_StringVal :: "string \<Rightarrow> 'c"
  h_MapFrom :: "'c \<Rightarrow> gtype \<Rightarrow> 'x gval \<Rightarrow> string + 'x gval"
  h_MapTo :: "gtype \<Rightarrow> 'x gval \<Rightarrow> string + 'c"
  h_AsString :: "'c \<Rightarrow> string option"
  h_Zero :: "gtype \<Rightarrow> 'x"
  h_BodyVal :: "'b \<Rightarrow> 'x gval"
  h_ContentVal :: "('b, 'e) hcl_content \<Rightarrow> 'x gval"
  h_SchemaVal :: "bodySchema \<Rightarrow> 'x gval"
  h_RangeVal :: "'b hcl_block \<Rightarrow> 'x gval"
  h_PreDecodeBlock :: "gtype \<Rightarrow> bodySchema \<Rightarrow> 'b hcl_block \<Rightarrow> ('b, 'e) hcl_content \<Rightarrow> 'x gval \<Rightarrow> 'x gval \<times> diag list"
  h_PostDecodeBlock :: "gtype \<Rightarrow> bodySchema \<Rightarrow> 'b hcl_block \<Rightarrow> ('b, 'e) hcl_content \<Rightarrow> 'x gval \<Rightarrow> 'x gval \<times> diag list"
  h_PreDecodeAttribute :: "gtype \<Rightarrow> string \<times> 'e \<Rightarrow> 'x gval \<Rightarrow> 'x gval \<times> diag list"
  h_PostDecodeAttribute :: "gtype \<Rightarrow> string \<times> 'e \<Rightarrow> 'x gval \<Rightarrow> 'x gval \<times> diag list"

subsection \<open>Definitions: the fields of a struct\<close>

text \<open>\<open>FieldByIndex\<close>, which panics when there is no such field, and its assignment.\<close>

definition field_get :: "'x gval \<Rightarrow> nat \<Rightarrow> 'x gval go" where
  "field_get v i = (case v of VStruct vs \<Rightarrow> if i < length vs then Ret (vs ! i) else Panic ''reflect: Field index out of range''
     | _ \<Rightarrow> Panic ''reflect: call of Field on a value that is no struct'')"

definition field_set :: "'x gval \<Rightarrow> nat \<Rightarrow> 'x gval \<Rightarrow> 'x gval" where
  "field_set v i y = (case v of VStruct vs \<Rightarrow> VStruct (vs[i := y]) | _ \<Rightarrow> v)"

definition set_opt :: "structFieldMeta option \<Rightarrow> 'x gval \<Rightarrow> 'x gval \<Rightarrow> 'x gval" where
  "set_opt m y v = (case m of None \<Rightarrow> v | Some m \<Rightarrow> field_set v (sfm_Index m) y)"

subsection \<open>Definitions: decoding\<close>

definition OfType :: "'b hcl_block list \<Rightarrow> string \<Rightarrow> 'b hcl_block list" where
  "OfType bs name = filter (\<lambda>b. hb_Type b = name) bs"

text \<open>Missing or extraneous blocks.\<close>

fun check_blocks :: "structFieldMeta list \<Rightarrow> 'b hcl_block list \<Rightarrow> diag list" where
  "check_blocks [] bs = []"
| "check_blocks (f # fs) bs =
     (if sfm_Ignore f \<or> sfm_Multiple f then check_blocks fs bs
      else let n = length (OfType bs (sfm_Name f)) in
        if \<not> sfm_Optional f \<and> n = 0 then diag_err ''Missing block''
        else if n > 1 then replicate n (Diag True ''Extraneous block, only one is allowed'')
        else check_blocks fs bs)"

fun decode_labels :: "('b, 'e, 'c, 'x) hcl_env \<Rightarrow> structFieldMeta list \<Rightarrow> nat \<Rightarrow> string list \<Rightarrow> 'x gval \<Rightarrow> ('x gval \<times> diag list) go" where
  "decode_labels h ms i [] v = Ret (v, [])"
| "decode_labels h ms i (label # labels) v =
     (if length ms \<le> i then Panic ''index out of range''
      else go_bind (field_get v (sfm_Index (ms ! i))) (\<lambda>w.
        case h_MapFrom h (h_StringVal h label) (fl_type (sfm_Reflect (ms ! i))) w of
          Inl e \<Rightarrow> Ret (v, diag_err ''Cannot decode label'')
        | Inr y \<Rightarrow> decode_labels h ms (Suc i) labels (field_set v (sfm_Index (ms ! i)) y)))"

definition decodeAttribute :: "('b, 'e, 'c, 'x) hcl_env \<Rightarrow> string \<times> 'e \<Rightarrow> gtype \<Rightarrow> 'x gval \<Rightarrow> 'x gval \<times> diag list" where
  "decodeAttribute h attr ty v =
     (case h_PreDecodeAttribute h ty attr v of (v, preDiags) \<Rightarrow>
        if HasErrors preDiags then (v, preDiags)
        else case h_Value h (snd attr) of (ctyVal, diags) \<Rightarrow>
          if HasErrors diags then (v, diags)
          else case h_MapFrom h ctyVal ty v of
            Inl e \<Rightarrow> (v, diag_err e)
          | Inr v \<Rightarrow>
              (case h_PostDecodeAttribute h ty attr v of (v, postDiags) \<Rightarrow>
                 if HasErrors postDiags then (v, postDiags) else (v, [])))"

fun decode_attrs :: "('b, 'e, 'c, 'x) hcl_env \<Rightarrow> structFieldMeta list \<Rightarrow> (string \<times> 'e) list \<Rightarrow> 'x gval \<Rightarrow> ('x gval \<times> diag list) go" where
  "decode_attrs h ms [] v = Ret (v, [])"
| "decode_attrs h ms (attr # attrs) v =
     (case fields_get ms (fst attr) of
        None \<Rightarrow> decode_attrs h ms attrs v
      | Some m \<Rightarrow>
          if sfm_Ignore m then decode_attrs h ms attrs v
          else go_bind (field_get v (sfm_Index m)) (\<lambda>w.
            case decodeAttribute h attr (fl_type (sfm_Reflect m)) w of (y, ds) \<Rightarrow>
              if HasErrors ds then Ret (field_set v (sfm_Index m) y, ds)
              else decode_attrs h ms attrs (field_set v (sfm_Index m) y)))"

text \<open>The loop over the blocks; \<open>single\<close> and \<open>multiple\<close> decode a block into the field with an index.\<close>

fun decode_blocks :: "(nat \<Rightarrow> 'x gval \<Rightarrow> 'b hcl_block \<Rightarrow> ('x gval \<times> diag list) go) \<Rightarrow> (nat \<Rightarrow> 'x gval \<Rightarrow> 'b hcl_block \<Rightarrow> ('x gval \<times> diag list) go) \<Rightarrow>
    structFieldMeta list \<Rightarrow> 'b hcl_block list \<Rightarrow> 'x gval \<Rightarrow> ('x gval \<times> diag list) go" where
  "decode_blocks single multiple ms [] v = Ret (v, [])"
| "decode_blocks single multiple ms (b # bs) v =
     (case fields_get ms (hb_Type b) of
        None \<Rightarrow> decode_blocks single multiple ms bs v
      | Some m \<Rightarrow>
          if sfm_Ignore m then decode_blocks single multiple ms bs v
          else go_bind (field_get v (sfm_Index m)) (\<lambda>w.
            go_bind (if sfm_Multiple m then multiple (sfm_Index m) w b else single (sfm_Index m) w b) (\<lambda>(y, ds).
              if HasErrors ds then Ret (field_set v (sfm_Index m) y, ds)
              else decode_blocks single multiple ms bs (field_set v (sfm_Index m) y))))"

text \<open>What \<open>decodeSingleBlock\<close> does once it has the struct \<open>v\<close> of type \<open>st\<close>; \<open>ty\<close> is the type of its argument.\<close>

definition decode_struct :: "('b, 'e, 'c, 'x) hcl_env \<Rightarrow> (nat \<Rightarrow> 'x gval \<Rightarrow> 'b hcl_block \<Rightarrow> ('x gval \<times> diag list) go) \<Rightarrow>
    (nat \<Rightarrow> 'x gval \<Rightarrow> 'b hcl_block \<Rightarrow> ('x gval \<times> diag list) go) \<Rightarrow> gtype \<Rightarrow> gtype \<Rightarrow> 'x gval \<Rightarrow> 'b hcl_block \<Rightarrow> ('x gval \<times> diag list) go" where
  "decode_struct h single multiple ty st v block =
     go_bind (getStructMeta st) (\<lambda>r.
       case r of
         Inl diags \<Rightarrow> Ret (v, diags)
       | Inr meta \<Rightarrow>
           let schema = sm_BodySchema meta;
               (content, remain, diags) = (if sm_Remain meta \<noteq> None then h_PartialContent h (hb_Body block) schema
                 else (case h_Content h (hb_Body block) schema of (content, diags) \<Rightarrow> (content, None, diags))) in
           if HasErrors diags then Ret (v, diags)
           else
             let v = (case remain of None \<Rightarrow> v | Some b \<Rightarrow> set_opt (sm_Remain meta) (h_BodyVal h b) v);
                 v = set_opt (sm_Body meta) (h_BodyVal h (hb_Body block)) v;
                 v = set_opt (sm_Content meta) (h_ContentVal h content) v;
                 v = set_opt (sm_Schema meta) (h_SchemaVal h schema) v;
                 v = set_opt (sm_Range meta) (h_RangeVal h block) v;
                 (v, preDiags) = h_PreDecodeBlock h ty schema block content v in
             if HasErrors preDiags then Ret (v, preDiags)
             else if HasErrors (check_blocks (sm_Blocks meta) (hc_Blocks content)) then Ret (v, check_blocks (sm_Blocks meta) (hc_Blocks content))
             else go_bind (decode_labels h (sm_Labels meta) 0 (hb_Labels block) v) (\<lambda>(v, ds).
               if HasErrors ds then Ret (v, ds)
               else go_bind (decode_blocks single multiple (sm_Blocks meta) (hc_Blocks content) v) (\<lambda>(v, ds).
                 if HasErrors ds then Ret (v, ds)
                 else go_bind (decode_attrs h (sm_Attrs meta) (hc_Attributes content) v) (\<lambda>(v, ds).
                   if HasErrors ds then Ret (v, ds)
                   else case h_PostDecodeBlock h ty schema block content v of (v, postDiags) \<Rightarrow>
                     if HasErrors postDiags then Ret (v, postDiags) else Ret (v, [])))))"

text \<open>
  \<open>decode_elem\<close> is what \<open>decodeMultipleBlocks\<close> does with a slice or a map, given the decoding of one element: the label
  becomes the key of the map; reflection panics on a key type that a string cannot be assigned to;
  interface types as keys are those without methods.
\<close>

definition decode_elem :: "('b, 'e, 'c, 'x) hcl_env \<Rightarrow> ('b hcl_block \<Rightarrow> ('x gval \<times> diag list) go) \<Rightarrow> gtype \<Rightarrow> 'x gval \<Rightarrow> 'b hcl_block \<Rightarrow>
    ('x gval \<times> diag list) go" where
  "decode_elem h elem t v block =
     (case t of
        TSlice p _ \<Rightarrow>
          let xs = (case v of VSlice (Some xs) \<Rightarrow> xs | _ \<Rightarrow> []) in
          go_bind (elem block) (\<lambda>(y, ds).
            if HasErrors ds then Ret (VSlice (Some xs), ds)
            else case y of VPtr (Some y) \<Rightarrow> Ret (VSlice (Some (xs @ [y])), []) | _ \<Rightarrow> Panic ''nil pointer dereference'')
      | TMap p k _ \<Rightarrow>
          if length (hb_Labels block) \<noteq> 1 then Ret (v, diag_err ''Cannot decode block into map: block must have only one label'')
          else if (case k of TString q \<Rightarrow> q \<noteq> [] | TIface _ _ _ \<Rightarrow> False | _ \<Rightarrow> True) then Panic ''reflect.Value.MapIndex: value of type string is not assignable''
          else
            let kvs = (case v of VMap (Some kvs) \<Rightarrow> kvs | _ \<Rightarrow> []); key = hd (hb_Labels block) in
            if map_of kvs key \<noteq> None then Ret (VMap (Some kvs), diag_err ''Cannot decode block into map: duplicate label'')
            else go_bind (elem block) (\<lambda>(y, ds).
              if HasErrors ds then Ret (VMap (Some kvs), ds)
              else case y of VPtr (Some y) \<Rightarrow> Ret (VMap (Some (kvs @ [(key, y)])), []) | _ \<Rightarrow> Panic ''nil pointer dereference'')
      | _ \<Rightarrow> Ret (v, diag_err ''Cannot decode block''))"

definition elem_type :: "gtype \<Rightarrow> gtype" where
  "elem_type t = (case t of TSlice p t \<Rightarrow> t | TMap p k t \<Rightarrow> t | _ \<Rightarrow> t)"

lemma derefValue_size: "derefValue z s t v = Some (s', t', v', up) \<Longrightarrow> size t' \<le> size t"
proof (induction z s t v arbitrary: s' t' v' up rule: derefValue.induct)
  case (1 z s t v)
  then show ?case by (cases v) (fastforce split: option.splits if_splits)+
next
  case (2 z s p n t v)
  then show ?case by (cases v) (fastforce split: option.splits)+
qed auto

lemma field_size: "i < length fs \<Longrightarrow> size (fl_type (fs ! i)) < size_list size fs"
proof (induction fs arbitrary: i)
  case (Cons f fs)
  show ?case
  proof (cases i)
    case 0
    then show ?thesis by (cases f) simp
  next
    case (Suc j)
    then show ?thesis using Cons.IH [of j] Cons.prems by simp
  qed
qed simp

function decodeSingleBlock :: "('b, 'e, 'c, 'x) hcl_env \<Rightarrow> bool \<Rightarrow> gtype \<Rightarrow> 'x gval \<Rightarrow> 'b hcl_block \<Rightarrow> ('x gval \<times> diag list) go"
  and decodeMultipleBlocks :: "('b, 'e, 'c, 'x) hcl_env \<Rightarrow> gtype \<Rightarrow> 'x gval \<Rightarrow> 'b hcl_block \<Rightarrow> ('x gval \<times> diag list) go"
where
  "decodeSingleBlock h s ty ptrVal block =
     (case derefValue (h_Zero h) s ty ptrVal of
        None \<Rightarrow> Ret (ptrVal, diag_err ''Value must be a pointer to a struct'')
      | Some (s', st, v, up) \<Rightarrow>
          (case st of
             TStruct p n fs \<Rightarrow>
               if \<not> s' then Ret (up v, diag_err ''Value must be a pointer to a struct'')
               else go_bind (decode_struct h
                   (\<lambda>i w b. if i < length fs then decodeSingleBlock h True (fl_type (fs ! i)) w b else Panic ''reflect: Field index out of range'')
                   (\<lambda>i w b. if i < length fs then decodeMultipleBlocks h (fl_type (fs ! i)) w b else Panic ''reflect: Field index out of range'')
                   ty st v block) (\<lambda>(v, ds). Ret (up v, ds))
           | _ \<Rightarrow> Ret (up v, diag_err ''Value must be a pointer to a struct'')))"
| "decodeMultipleBlocks h ty val block =
     (case derefValue (h_Zero h) True ty val of
        None \<Rightarrow> Panic ''reflect: call of reflect.Value.Type on zero Value''
      | Some (s', t, v, up) \<Rightarrow>
          go_bind (decode_elem h
              (\<lambda>b. if (case t of TSlice _ _ \<Rightarrow> True | TMap _ _ _ \<Rightarrow> True | _ \<Rightarrow> False)
                 then decodeSingleBlock h False (TPtr (elem_type t)) (VPtr (Some (zero_val (h_Zero h) (elem_type t)))) b
                 else Panic '''') t v block) (\<lambda>(v, ds). Ret (up v, ds)))"
  by pat_completeness auto
termination
  by (relation "measure (\<lambda>x. case x of Inl (h, s, t, v, b) \<Rightarrow> 2 * size t | Inr (h, t, v, b) \<Rightarrow> 2 * size t + 1)")
    (auto dest!: derefValue_size field_size simp: elem_type_def split: gtype.splits)

definition Decode :: "('b, 'e, 'c, 'x) hcl_env \<Rightarrow> 'b \<Rightarrow> gtype \<Rightarrow> 'x gval \<Rightarrow> ('x gval \<times> diag list) go" where
  "Decode h body ty val = decodeSingleBlock h False ty val \<lparr>hb_Type = [], hb_Labels = [], hb_Body = body\<rparr>"

definition DecodeBlock :: "('b, 'e, 'c, 'x) hcl_env \<Rightarrow> 'b hcl_block \<Rightarrow> gtype \<Rightarrow> 'x gval \<Rightarrow> ('x gval \<times> diag list) go" where
  "DecodeBlock h block ty val = decodeSingleBlock h False ty val block"

definition DecodeExpression :: "('b, 'e, 'c, 'x) hcl_env \<Rightarrow> 'e \<Rightarrow> gtype \<Rightarrow> 'x gval \<Rightarrow> 'x gval \<times> diag list" where
  "DecodeExpression h ex ty val =
     (case h_Value h ex of (ctyVal, diags) \<Rightarrow>
        if HasErrors diags then (val, diags)
        else case h_MapFrom h ctyVal ty val of Inl e \<Rightarrow> (val, diag_err e) | Inr y \<Rightarrow> (y, []))"

end
