(* ===== verification/Hcl_Encode.thy ===== *)
theory Hcl_Encode
  imports Hcl_Decode "HOL-Library.List_Lexorder" "HOL-Library.Char_ord"
begin

text \<open>
  Encoding of Go structs as HCL blocks (\<open>src/hcl/encode.go\<close>) and the writer that turns blocks into tokens
  (\<open>src/hcl/writer.go\<close>). The tokens of identifiers and values come from the package \<open>hclwrite\<close> and are parameters.
  A nil pointer that can be set is encoded like a pointer to a zero value; the code also stores the new value there,
  which is not followed here.
\<close>

subsection \<open>Definitions: blocks\<close>

datatype 'x wblock = WBlock (wb_TypeName: string) (wb_Labels: "string list") (wb_Attributes: "(string \<times> gtype \<times> 'x gval) list")
  (wb_Blocks: "'x wblock list")

definition root_block :: "'x wblock" where "root_block = WBlock [] [] [] []"

definition AppendAttribute :: "'x wblock \<Rightarrow> string \<Rightarrow> gtype \<times> 'x gval \<Rightarrow> 'x wblock" where
  "AppendAttribute b name val = WBlock (wb_TypeName b) (wb_Labels b) (wb_Attributes b @ [(name, val)]) (wb_Blocks b)"

text \<open>\<open>AppendBlock\<close>, with the block as it is once the caller has filled it.\<close>

definition AppendBlock :: "'x wblock \<Rightarrow> 'x wblock \<Rightarrow> 'x wblock" where
  "AppendBlock b block = WBlock (wb_TypeName b) (wb_Labels b) (wb_Attributes b) (wb_Blocks b @ [block])"

subsection \<open>Definitions: encoding\<close>

definition canBeSkipped :: "(gtype \<Rightarrow> 'x) \<Rightarrow> gtype \<Rightarrow> 'x gval \<Rightarrow> bool" where
  "canBeSkipped z t v = (if PkgPath t \<noteq> [] then False else v = zero_val z t)"

fun encode_labels :: "('b, 'e, 'c, 'x) hcl_env \<Rightarrow> structFieldMeta list \<Rightarrow> 'x gval \<Rightarrow> string list \<Rightarrow> (diag list + string list) go" where
  "encode_labels h [] v labels = Ret (Inr labels)"
| "encode_labels h (m # ms) v labels =
     go_bind (field_get v (sfm_Index m)) (\<lambda>w.
       case h_MapTo h (fl_type (sfm_Reflect m)) w of
         Inl e \<Rightarrow> Ret (Inl (diag_err ''Cannot encode label''))
       | Inr c \<Rightarrow>
           (case h_AsString h c of
              None \<Rightarrow> Ret (Inl (diag_err ''Cannot encode label: value must be a string''))
            | Some s \<Rightarrow> encode_labels h ms v (labels @ [s])))"

fun encode_attrs :: "(gtype \<Rightarrow> 'x) \<Rightarrow> structFieldMeta list \<Rightarrow> 'x gval \<Rightarrow> 'x wblock \<Rightarrow> 'x wblock go" where
  "encode_attrs z [] v body = Ret body"
| "encode_attrs z (m # ms) v body =
     (if sfm_Ignore m then encode_attrs z ms v body
      else go_bind (field_get v (sfm_Index m)) (\<lambda>w.
        if sfm_Optional m \<and> canBeSkipped z (fl_type (sfm_Reflect m)) w then encode_attrs z ms v body
        else encode_attrs z ms v (AppendAttribute body (sfm_Name m) (fl_type (sfm_Reflect m), w))))"

fun encode_blocks :: "(gtype \<Rightarrow> 'x) \<Rightarrow> (nat \<Rightarrow> 'x gval \<Rightarrow> string \<Rightarrow> 'x wblock \<Rightarrow> ('x wblock \<times> diag list) go) \<Rightarrow>
    (nat \<Rightarrow> 'x gval \<Rightarrow> string \<Rightarrow> 'x wblock \<Rightarrow> ('x wblock \<times> diag list) go) \<Rightarrow> structFieldMeta list \<Rightarrow> 'x gval \<Rightarrow> 'x wblock \<Rightarrow> ('x wblock \<times> diag list) go" where
  "encode_blocks z single multiple [] v body = Ret (body, [])"
| "encode_blocks z single multiple (m # ms) v body =
     (if sfm_Ignore m then encode_blocks z single multiple ms v body
      else go_bind (field_get v (sfm_Index m)) (\<lambda>w.
        if sfm_Optional m \<and> canBeSkipped z (fl_type (sfm_Reflect m)) w then encode_blocks z single multiple ms v body
        else go_bind (if sfm_Multiple m then multiple (sfm_Index m) w (sfm_Name m) body else single (sfm_Index m) w (sfm_Name m) body) (\<lambda>(body, ds).
          if HasErrors ds then Ret (body, ds) else encode_blocks z single multiple ms v body)))"

text \<open>The attributes, the blocks and the hook, on the block \<open>body\<close>.\<close>

definition encode_fields :: "('b, 'e, 'c, 'x) hcl_env \<Rightarrow> (gtype \<Rightarrow> 'x gval \<Rightarrow> 'x wblock \<Rightarrow> 'x wblock \<times> diag list) \<Rightarrow>
    (nat \<Rightarrow> 'x gval \<Rightarrow> string \<Rightarrow> 'x wblock \<Rightarrow> ('x wblock \<times> diag list) go) \<Rightarrow> (nat \<Rightarrow> 'x gval \<Rightarrow> string \<Rightarrow> 'x wblock \<Rightarrow> ('x wblock \<times> diag list) go) \<Rightarrow>
    gtype \<Rightarrow> structMeta \<Rightarrow> 'x gval \<Rightarrow> 'x wblock \<Rightarrow> ('x wblock \<times> diag list) go" where
  "encode_fields h hook single multiple st meta v body =
     go_bind (encode_attrs (h_Zero h) (sm_Attrs meta) v body) (\<lambda>body.
       go_bind (encode_blocks (h_Zero h) single multiple (sm_Blocks meta) v body) (\<lambda>(body, ds).
         if HasErrors ds then Ret (body, ds)
         else case hook st v body of (body, hookDiags) \<Rightarrow> if HasErrors hookDiags then Ret (body, hookDiags) else Ret (body, [])))"

definition encode_struct :: "('b, 'e, 'c, 'x) hcl_env \<Rightarrow> (gtype \<Rightarrow> 'x gval \<Rightarrow> 'x wblock \<Rightarrow> 'x wblock \<times> diag list) \<Rightarrow>
    (nat \<Rightarrow> 'x gval \<Rightarrow> string \<Rightarrow> 'x wblock \<Rightarrow> ('x wblock \<times> diag list) go) \<Rightarrow> (nat \<Rightarrow> 'x gval \<Rightarrow> string \<Rightarrow> 'x wblock \<Rightarrow> ('x wblock \<times> diag list) go) \<Rightarrow>
    gtype \<Rightarrow> 'x gval \<Rightarrow> string \<Rightarrow> string list option \<Rightarrow> 'x wblock \<Rightarrow> ('x wblock \<times> diag list) go" where
  "encode_struct h hook single multiple st v typeName labels body =
     go_bind (getStructMeta st) (\<lambda>r.
       case r of
         Inl diags \<Rightarrow> Ret (body, diags)
       | Inr meta \<Rightarrow>
           if typeName = [] then encode_fields h hook single multiple st meta v body
           else go_bind (case labels of Some ls \<Rightarrow> Ret (Inr ls) | None \<Rightarrow> encode_labels h (sm_Labels meta) v []) (\<lambda>r.
             case r of
               Inl diags \<Rightarrow> Ret (body, diags)
             | Inr ls \<Rightarrow> go_bind (encode_fields h hook single multiple st meta v (WBlock typeName ls [] [])) (\<lambda>(b, ds).
                 Ret (AppendBlock body b, ds))))"

text \<open>The loops of \<open>encodeMultipleBlocks\<close> over the elements, given the encoding of one with its labels.\<close>

fun encode_elems :: "('x gval \<Rightarrow> string list option \<Rightarrow> 'x wblock \<Rightarrow> ('x wblock \<times> diag list) go) \<Rightarrow> (string list option \<times> 'x gval) list \<Rightarrow> 'x wblock \<Rightarrow>
    ('x wblock \<times> diag list) go" where
  "encode_elems elem [] body = Ret (body, [])"
| "encode_elems elem ((labels, w) # ws) body =
     go_bind (elem w labels body) (\<lambda>(body, ds). if HasErrors ds then Ret (body, ds) else encode_elems elem ws body)"

definition encode_multiple :: "(bool \<Rightarrow> 'x gval \<Rightarrow> string list option \<Rightarrow> 'x wblock \<Rightarrow> ('x wblock \<times> diag list) go) \<Rightarrow> gtype \<Rightarrow> 'x gval \<Rightarrow> 'x wblock \<Rightarrow>
    ('x wblock \<times> diag list) go" where
  "encode_multiple elem t v body =
     (case t of
        TMap p k _ \<Rightarrow>
          (case k of
             TString q \<Rightarrow> encode_elems (elem False) (map (\<lambda>(key, w). (Some [key], w)) (sort_key fst (case v of VMap (Some kvs) \<Rightarrow> kvs | _ \<Rightarrow> []))) body
           | _ \<Rightarrow> Ret (body, diag_err ''Unable to encode value as HCL; map key is not a string''))
      | TSlice p _ \<Rightarrow> encode_elems (elem True) (map (\<lambda>w. (None, w)) (case v of VSlice (Some xs) \<Rightarrow> xs | _ \<Rightarrow> [])) body
      | _ \<Rightarrow> Ret (body, diag_err ''Unable to encode as block''))"

function encodeSingleBlock :: "('b, 'e, 'c, 'x) hcl_env \<Rightarrow> (gtype \<Rightarrow> 'x gval \<Rightarrow> 'x wblock \<Rightarrow> 'x wblock \<times> diag list) \<Rightarrow> bool \<Rightarrow> gtype \<Rightarrow> 'x gval \<Rightarrow>
    string \<Rightarrow> string list option \<Rightarrow> 'x wblock \<Rightarrow> ('x wblock \<times> diag list) go"
  and encodeMultipleBlocks :: "('b, 'e, 'c, 'x) hcl_env \<Rightarrow> (gtype \<Rightarrow> 'x gval \<Rightarrow> 'x wblock \<Rightarrow> 'x wblock \<times> diag list) \<Rightarrow> bool \<Rightarrow> gtype \<Rightarrow> 'x gval \<Rightarrow>
    string \<Rightarrow> 'x wblock \<Rightarrow> ('x wblock \<times> diag list) go"
where
  "encodeSingleBlock h hook s ty val typeName labels body =
     (case derefValue (h_Zero h) s ty val of
        None \<Rightarrow> Ret (body, diag_err ''value must be a struct'')
      | Some (s', st, v, up) \<Rightarrow>
          (case st of
             TStruct p n fs \<Rightarrow> encode_struct h hook
               (\<lambda>i w name b. if i < length fs then encodeSingleBlock h hook s' (fl_type (fs ! i)) w name None b else Panic ''reflect: Field index out of range'')
               (\<lambda>i w name b. if i < length fs then encodeMultipleBlocks h hook s' (fl_type (fs ! i)) w name b else Panic ''reflect: Field index out of range'')
               st v typeName labels body
           | _ \<Rightarrow> Ret (body, diag_err ''value must be a struct'')))"
| "encodeMultipleBlocks h hook s ty val typeName body =
     (case derefValue (h_Zero h) s ty val of
        None \<Rightarrow> Ret (body, diag_err ''Unable to encode as block'')
      | Some (s', t, v, up) \<Rightarrow>
          encode_multiple (\<lambda>settable w labels b.
            if (case t of TSlice _ _ \<Rightarrow> True | TMap _ _ _ \<Rightarrow> True | _ \<Rightarrow> False) then encodeSingleBlock h hook settable (elem_type t) w typeName labels b
            else Panic '''') t v body)"
  by pat_completeness auto
termination
  by (relation "measure (\<lambda>x. case x of Inl (h, hook, s, t, rest) \<Rightarrow> size t | Inr (h, hook, s, t, rest) \<Rightarrow> size t)")
    (auto dest!: derefValue_size field_size simp: elem_type_def split: gtype.splits)

definition Encode :: "('b, 'e, 'c, 'x) hcl_env \<Rightarrow> (gtype \<Rightarrow> 'x gval \<Rightarrow> 'x wblock \<Rightarrow> 'x wblock \<times> diag list) \<Rightarrow> gtype \<Rightarrow> 'x gval \<Rightarrow> 'x wblock \<Rightarrow>
    ('x wblock \<times> diag list) go" where
  "Encode h hook ty val block = encodeSingleBlock h hook False ty val [] None block"

definition EncodeBlock :: "('b, 'e, 'c, 'x) hcl_env \<Rightarrow> (gtype \<Rightarrow> 'x gval \<Rightarrow> 'x wblock \<Rightarrow> 'x wblock \<times> diag list) \<Rightarrow> gtype \<Rightarrow> 'x gval \<Rightarrow> 'x wblock \<Rightarrow> string \<Rightarrow>
    string list option \<Rightarrow> ('x wblock \<times> diag list) go" where
  "EncodeBlock h hook ty val block typeName labels =
     (if typeName = [] then Ret (block, diag_err ''EncodeBlock requires a non-empty typeName'')
      else encodeSingleBlock h hook False ty val typeName labels block)"

subsection \<open>Definitions: tokens\<close>

datatype token_type = TokenIdent | TokenEqual | TokenNewline | TokenOBrace | TokenCBrace | TokenOther nat

datatype token = Token (tok_Type: token_type) (tok_Bytes: string)

record 'c hclwrite =
  w_TokensForIdentifier :: "string \<Rightarrow> token list"
  w_TokensForValue :: "'c \<Rightarrow> token list"

definition multilineTokens :: "token list \<Rightarrow> bool" where
  "multilineTokens ts = list_ex (\<lambda>t. tok_Type t = TokenNewline) ts"

definition appendTokens :: "token list list \<Rightarrow> token list" where
  "appendTokens tss = concat tss"

abbreviation tok_equal :: token where "tok_equal \<equiv> Token TokenEqual ''=''"
abbreviation tok_newline :: token where "tok_newline \<equiv> Token TokenNewline [CHR 10]"
abbreviation tok_obrace :: token where "tok_obrace \<equiv> Token TokenOBrace ''{''"
abbreviation tok_cbrace :: token where "tok_cbrace \<equiv> Token TokenCBrace ''}''"

definition tokensForValue :: "('b, 'e, 'c, 'x) hcl_env \<Rightarrow> 'c hclwrite \<Rightarrow> gtype \<times> 'x gval \<Rightarrow> diag list + token list" where
  "tokensForValue h w val = (case h_MapTo h (fst val) (snd val) of Inl e \<Rightarrow> Inl (diag_err e) | Inr c \<Rightarrow> Inr (w_TokensForValue w c))"

definition tokensForAttribute :: "('b, 'e, 'c, 'x) hcl_env \<Rightarrow> 'c hclwrite \<Rightarrow> string \<times> gtype \<times> 'x gval \<Rightarrow> diag list + token list" where
  "tokensForAttribute h w attr =
     (case tokensForValue h w (snd attr) of
        Inl ds \<Rightarrow> Inl ds
      | Inr ts \<Rightarrow> Inr (appendTokens [w_TokensForIdentifier w (fst attr), [tok_equal], ts, [tok_newline]]))"

fun tokens_attrs :: "('b, 'e, 'c, 'x) hcl_env \<Rightarrow> 'c hclwrite \<Rightarrow> (string \<times> gtype \<times> 'x gval) list \<Rightarrow> token list \<Rightarrow> diag list + token list" where
  "tokens_attrs h w [] tokens = Inr tokens"
| "tokens_attrs h w (a # as) tokens =
     (case tokensForAttribute h w a of Inl ds \<Rightarrow> Inl ds | Inr ts \<Rightarrow> tokens_attrs h w as (appendTokens [tokens, ts]))"

text \<open>The blank line between attributes and blocks.\<close>

definition blank_line :: "'a list \<Rightarrow> 'b list \<Rightarrow> token list" where
  "blank_line attrs blocks = (if 0 < length attrs \<and> 0 < length blocks then [tok_newline] else [])"

fun tokensForBlock :: "('b, 'e, 'c, 'x) hcl_env \<Rightarrow> 'c hclwrite \<Rightarrow> 'x wblock \<Rightarrow> diag list + token list"
  and tokens_blocks :: "('b, 'e, 'c, 'x) hcl_env \<Rightarrow> 'c hclwrite \<Rightarrow> 'x wblock list \<Rightarrow> token list \<Rightarrow> diag list + token list"
where
  "tokensForBlock h w (WBlock typeName labels attrs blocks) =
     (if typeName = [] then
        (case tokens_attrs h w attrs [] of
           Inl ds \<Rightarrow> Inl ds
         | Inr tokens \<Rightarrow> tokens_blocks h w blocks (appendTokens [tokens, blank_line attrs blocks]))
      else
        let tokens = w_TokensForIdentifier w typeName @ concat (map (\<lambda>l. w_TokensForValue w (h_StringVal h l)) labels);
            multiline =
              (case tokens_attrs h w attrs (appendTokens [tokens, [tok_obrace, tok_newline]]) of
                 Inl ds \<Rightarrow> Inl ds
               | Inr tokens \<Rightarrow>
                   (case tokens_blocks h w blocks (appendTokens [tokens, blank_line attrs blocks]) of
                      Inl ds \<Rightarrow> Inl ds
                    | Inr tokens \<Rightarrow> Inr (appendTokens [tokens, [tok_cbrace, tok_newline]]))) in
        if length attrs = 0 \<and> length blocks = 0 then Inr (appendTokens [tokens, [tok_obrace, tok_cbrace, tok_newline]])
        else if length attrs = 1 \<and> length blocks = 0 then
          (case tokensForValue h w (snd (attrs ! 0)) of
             Inl ds \<Rightarrow> Inl ds
           | Inr ts \<Rightarrow>
               if multilineTokens ts then multiline
               else Inr (appendTokens [tokens, [tok_obrace], w_TokensForIdentifier w (fst (attrs ! 0)), [tok_equal], ts, [tok_cbrace, tok_newline]]))
        else multiline)"
| "tokens_blocks h w [] tokens = Inr tokens"
| "tokens_blocks h w (b # bs) tokens =
     (case tokensForBlock h w b of Inl ds \<Rightarrow> Inl ds | Inr ts \<Rightarrow> tokens_blocks h w bs (appendTokens [tokens, ts]))"

text \<open>\<open>Write\<close> and \<open>Bytes\<close>: the tokens appended to a body.\<close>

definition Write_block :: "('b, 'e, 'c, 'x) hcl_env \<Rightarrow> 'c hclwrite \<Rightarrow> 'x wblock \<Rightarrow> token list \<Rightarrow> token list \<times> diag list" where
  "Write_block h w b hclBody = (case tokensForBlock h w b of Inl ds \<Rightarrow> (hclBody, ds) | Inr ts \<Rightarrow> (hclBody @ ts, []))"

end
