(* ===== verification/Hcl_Writer.thy ===== *)
theory Hcl_Writer
  imports Hcl_Encode
begin

text \<open>
  What the writer of \<open>Hcl_Encode\<close> produces: the tokens follow the grammar of the native syntax of HCL and stand for
  exactly the attributes and blocks of the block that is written, in their order.
\<close>

subsection \<open>The grammar\<close>

text \<open>
  A body is a sequence of attributes, blocks and blank lines; an attribute ends with a newline, and a block may be on one line
  when it holds nothing or one attribute without newlines.
\<close>

datatype 'c item = ItemAttr string 'c | ItemBlock string "string list" "'c item list"

definition block_header :: "('b, 'e, 'c, 'x) hcl_env \<Rightarrow> 'c hclwrite \<Rightarrow> string \<Rightarrow> string list \<Rightarrow> token list" where
  "block_header h w name labels = w_TokensForIdentifier w name @ concat (map (\<lambda>l. w_TokensForValue w (h_StringVal h l)) labels)"

inductive hcl_body :: "('b, 'e, 'c, 'x) hcl_env \<Rightarrow> 'c hclwrite \<Rightarrow> token list \<Rightarrow> 'c item list \<Rightarrow> bool" for h w where
  body_empty: "hcl_body h w [] []"
| body_newline: "hcl_body h w ts items \<Longrightarrow> hcl_body h w (tok_newline # ts) items"
| body_attr: "hcl_body h w ts items \<Longrightarrow> hcl_body h w (w_TokensForIdentifier w name @ tok_equal # w_TokensForValue w c @ tok_newline # ts) (ItemAttr name c # items)"
| body_block: "hcl_body h w inner kids \<Longrightarrow> hcl_body h w ts items \<Longrightarrow>
    hcl_body h w (block_header h w name labels @ tok_obrace # tok_newline # inner @ tok_cbrace # tok_newline # ts) (ItemBlock name labels kids # items)"
| body_block_empty: "hcl_body h w ts items \<Longrightarrow>
    hcl_body h w (block_header h w name labels @ tok_obrace # tok_cbrace # tok_newline # ts) (ItemBlock name labels [] # items)"
| body_block_line: "hcl_body h w ts items \<Longrightarrow> \<not> multilineTokens (w_TokensForValue w c) \<Longrightarrow>
    hcl_body h w (block_header h w name labels @ tok_obrace # w_TokensForIdentifier w attr @ tok_equal # w_TokensForValue w c @ tok_cbrace # tok_newline # ts)
      (ItemBlock name labels [ItemAttr attr c] # items)"

text \<open>What a block stands for, if its values can be mapped; a block without a name inside another is written without braces.\<close>

fun attr_items :: "('b, 'e, 'c, 'x) hcl_env \<Rightarrow> (string \<times> gtype \<times> 'x gval) list \<Rightarrow> 'c item list option" where
  "attr_items h [] = Some []"
| "attr_items h ((name, t, v) # as) =
     (case h_MapTo h t v of Inl e \<Rightarrow> None | Inr c \<Rightarrow> map_option (\<lambda>items. ItemAttr name c # items) (attr_items h as))"

fun block_items :: "('b, 'e, 'c, 'x) hcl_env \<Rightarrow> 'x wblock \<Rightarrow> 'c item list option"
  and blocks_items :: "('b, 'e, 'c, 'x) hcl_env \<Rightarrow> 'x wblock list \<Rightarrow> 'c item list option" where
  "block_items h (WBlock name labels attrs blocks) =
     (case (attr_items h attrs, blocks_items h blocks) of
        (Some as, Some bs) \<Rightarrow> Some (if name = [] then as @ bs else [ItemBlock name labels (as @ bs)])
      | _ \<Rightarrow> None)"
| "blocks_items h [] = Some []"
| "blocks_items h (b # bs) = (case (block_items h b, blocks_items h bs) of (Some is, Some js) \<Rightarrow> Some (is @ js) | _ \<Rightarrow> None)"

subsection \<open>Lemmas\<close>

lemma hcl_body_append: "hcl_body h w ts is \<Longrightarrow> hcl_body h w us js \<Longrightarrow> hcl_body h w (ts @ us) (is @ js)"
  by (induction rule: hcl_body.induct) (auto intro: hcl_body.intros)

definition writes :: "('b, 'e, 'c, 'x) hcl_env \<Rightarrow> 'c hclwrite \<Rightarrow> token list \<Rightarrow> 'c item list option \<Rightarrow> (diag list + token list) \<Rightarrow> bool" where
  "writes h w acc items r = (case items of None \<Rightarrow> \<exists>ds. r = Inl ds \<and> HasErrors ds
     | Some items \<Rightarrow> \<exists>ts. r = Inr (acc @ ts) \<and> hcl_body h w ts items)"

lemma writes_attrs: "writes h w acc (attr_items h as) (tokens_attrs h w as acc)"
proof (induction h as arbitrary: acc rule: attr_items.induct)
  case (1 h)
  then show ?case by (auto simp: writes_def intro: hcl_body.intros)
next
  case (2 h name t v as)
  show ?case
  proof (cases "h_MapTo h t v")
    case (Inl e)
    then show ?thesis by (simp add: writes_def tokensForAttribute_def tokensForValue_def)
  next
    case (Inr c)
    let ?a = "w_TokensForIdentifier w name @ tok_equal # w_TokensForValue w c @ [tok_newline]"
    have "writes h w (acc @ ?a) (attr_items h as) (tokens_attrs h w as (acc @ ?a))" using 2 Inr by blast
    then show ?thesis using Inr body_attr [of h w _ _ name c]
      by (fastforce simp: writes_def tokensForAttribute_def tokensForValue_def appendTokens_def split: option.splits)
  qed
qed

lemma writes_newline: "writes h w (acc @ [tok_newline]) items r \<Longrightarrow> writes h w acc items r"
  by (auto simp: writes_def split: option.splits intro: body_newline)

lemma writes_blank: "writes h w (appendTokens [acc, blank_line as bs]) items r \<Longrightarrow> writes h w acc items r"
  by (auto simp: appendTokens_def blank_line_def split: if_splits dest: writes_newline)

lemma writes_contents:
  assumes "writes h w acc as (tokens_attrs h w attrs acc)" "\<And>acc. writes h w acc bs (tokens_blocks h w blocks acc)"
  shows "writes h w acc (case (as, bs) of (Some as, Some bs) \<Rightarrow> Some (as @ bs) | _ \<Rightarrow> None)
    (case tokens_attrs h w attrs acc of Inl ds \<Rightarrow> Inl ds | Inr ts \<Rightarrow> tokens_blocks h w blocks (appendTokens [ts, blank_line attrs blocks]))"
proof (cases as)
  case None
  then show ?thesis using assms(1) by (auto simp: writes_def)
next
  case (Some items)
  then obtain ts where ts: "tokens_attrs h w attrs acc = Inr (acc @ ts)" "hcl_body h w ts items" using assms(1) by (auto simp: writes_def)
  have "writes h w (acc @ ts) bs (tokens_blocks h w blocks (appendTokens [acc @ ts, blank_line attrs blocks]))"
    by (rule writes_blank [OF assms(2)])
  then show ?thesis using Some ts hcl_body_append [OF ts(2)] by (cases bs) (auto simp: writes_def)
qed

lemma writes_named:
  assumes "writes h w (block_header h w name labels @ [tok_obrace, tok_newline]) items r"
  shows "writes h w [] (map_option (\<lambda>kids. [ItemBlock name labels kids]) items)
    (case r of Inl ds \<Rightarrow> Inl ds | Inr ts \<Rightarrow> Inr (appendTokens [ts, [tok_cbrace, tok_newline]]))"
  using assms body_block [OF _ body_empty, of h w _ _ name labels] by (auto simp: writes_def appendTokens_def split: option.splits)

lemma writes_line:
  assumes "\<not> multilineTokens (w_TokensForValue w c)"
  shows "writes h w [] (Some [ItemBlock name labels [ItemAttr attr c]]) (Inr (block_header h w name labels @ tok_obrace # w_TokensForIdentifier w attr @ tok_equal #
    w_TokensForValue w c @ [tok_cbrace, tok_newline]))"
  using body_block_line [OF body_empty assms, of h name labels attr] by (simp add: writes_def)

lemma writes_block:
  shows "writes h w [] (block_items h b) (tokensForBlock h w b)"
    and "writes h w acc (blocks_items h bs) (tokens_blocks h w bs acc)"
proof (induction h b and h bs arbitrary: and acc rule: block_items_blocks_items.induct)
  case (1 h name labels attrs blocks)
  let ?hd = "block_header h w name labels"
  let ?items = "case (attr_items h attrs, blocks_items h blocks) of (Some as, Some bs) \<Rightarrow> Some (as @ bs) | _ \<Rightarrow> None"
  let ?contents = "\<lambda>acc. case tokens_attrs h w attrs acc of Inl ds \<Rightarrow> Inl ds | Inr ts \<Rightarrow> tokens_blocks h w blocks (appendTokens [ts, blank_line attrs blocks])"
  have contents: "writes h w acc ?items (?contents acc)" for acc by (rule writes_contents [OF writes_attrs 1])
  show ?case
  proof (cases "name = []")
    case True
    have "block_items h (WBlock name labels attrs blocks) = ?items" using True by (simp split: option.splits)
    then show ?thesis using contents [of "[]"] True by simp
  next
    case False
    have items: "block_items h (WBlock name labels attrs blocks) = map_option (\<lambda>kids. [ItemBlock name labels kids]) ?items"
      using False by (simp split: option.splits)
    let ?multi = "case ?contents (?hd @ [tok_obrace, tok_newline]) of Inl ds \<Rightarrow> Inl ds | Inr ts \<Rightarrow> Inr (appendTokens [ts, [tok_cbrace, tok_newline]])"
    have multi: "writes h w [] (block_items h (WBlock name labels attrs blocks)) ?multi"
      unfolding items by (rule writes_named [OF contents])
    have eq: "tokensForBlock h w (WBlock name labels attrs blocks) =
      (if length attrs = 0 \<and> length blocks = 0 then Inr (?hd @ [tok_obrace, tok_cbrace, tok_newline])
       else if length attrs = 1 \<and> length blocks = 0 then
         (case tokensForValue h w (snd (attrs ! 0)) of Inl ds \<Rightarrow> Inl ds
          | Inr ts \<Rightarrow> if multilineTokens ts then ?multi
              else Inr (?hd @ tok_obrace # w_TokensForIdentifier w (fst (attrs ! 0)) @ tok_equal # ts @ [tok_cbrace, tok_newline]))
       else ?multi)"
      using False by (cases "tokens_attrs h w attrs (?hd @ [tok_obrace, tok_newline])"; cases "tokensForValue h w (snd (attrs ! 0))")
        (simp_all add: block_header_def appendTokens_def Let_def)
    consider (empty) "attrs = []" "blocks = []" | (line) nm t v where "attrs = [(nm, t, v)]" "blocks = []" |
      (other) "\<not> (length attrs = 0 \<and> length blocks = 0)" "\<not> (length attrs = 1 \<and> length blocks = 0)"
      by (cases attrs; cases "tl attrs"; cases blocks) auto
    then show ?thesis
    proof cases
      case empty
      then show ?thesis unfolding eq items using body_block_empty [OF body_empty, of h w name labels] by (simp add: writes_def)
    next
      case line
      then show ?thesis
      proof (cases "h_MapTo h t v")
        case (Inl e)
        then show ?thesis unfolding eq items using line by (simp add: tokensForValue_def writes_def)
      next
        case (Inr c)
        show ?thesis
        proof (cases "multilineTokens (w_TokensForValue w c)")
          case True
          then show ?thesis unfolding eq using multi Inr line by (simp add: tokensForValue_def)
        next
          case F: False
          then show ?thesis unfolding eq items using writes_line [OF F, of h name labels nm] Inr line by (simp add: tokensForValue_def)
        qed
      qed
    next
      case other
      then show ?thesis unfolding eq using multi by (simp only: if_False)
    qed
  qed
next
  case (2 h)
  then show ?case by (auto simp: writes_def intro: hcl_body.intros)
next
  case (3 h b bs)
  show ?case
  proof (cases "block_items h b")
    case None
    then show ?thesis using 3(1) by (auto simp: writes_def)
  next
    case (Some items)
    then obtain ts where ts: "tokensForBlock h w b = Inr ts" "hcl_body h w ts items" using 3(1) by (auto simp: writes_def)
    then show ?thesis using 3(2) [of "acc @ ts"] Some hcl_body_append [OF ts(2)]
      by (cases "blocks_items h bs") (auto simp: writes_def appendTokens_def)
  qed
qed

subsection \<open>Properties\<close>


end
