(* ===== verification/Hcl_Codec.thy ===== *)
theory Hcl_Codec
  imports Hcl_Encode
begin

text \<open>
  What the struct tags, the encoder and the decoder do together: the metadata of a struct is consistent with its
  fields and with the schema given to the HCL parser, and a struct is decoded from what it was encoded to.
\<close>

declare decodeSingleBlock.simps [simp del] decodeMultipleBlocks.simps [simp del] encodeSingleBlock.simps [simp del] encodeMultipleBlocks.simps [simp del]

subsection \<open>The metadata of a struct\<close>

definition block_field :: "structFieldMeta \<Rightarrow> bool" where
  "block_field m \<longleftrightarrow> (\<exists>st p n fs t. sfm_StructReflect m = Some st \<and> st = TStruct p n fs \<and> derefType (fl_type (sfm_Reflect m)) = Ret t \<and>
     (if sfm_Multiple m then derefType (elem_type t) = Ret st \<and> \<not> sfm_Optional m \<and> (\<exists>q k u. t = TSlice q u \<or> t = TMap q k u) else t = st))"

lemma go_bind_Ret: "go_bind m f = Ret r \<longleftrightarrow> (\<exists>a. m = Ret a \<and> f a = Ret r)"
  by (cases m) auto

lemma try_bind: "go_bind m (\<lambda>r. case r of Inl ds \<Rightarrow> Ret (Inl ds) | Inr a \<Rightarrow> f a) = Ret (Inr b) \<longleftrightarrow> (\<exists>a. m = Ret (Inr a) \<and> f a = Ret (Inr b))"
  by (cases m) (auto split: sum.splits)

definition same_field :: "structFieldMeta \<Rightarrow> structFieldMeta \<Rightarrow> bool" where
  "same_field m m' \<longleftrightarrow> sfm_Index m' = sfm_Index m \<and> sfm_Reflect m' = sfm_Reflect m \<and> sfm_Tagged m' = sfm_Tagged m \<and> sfm_Name m' = sfm_Name m"

lemma tag_part_keeps: "tag_part part m = Some m' \<Longrightarrow> same_field m m'"
  by (auto simp: tag_part_def same_field_def split: if_splits)

lemma parse_parts_keeps: "parse_parts ps m = Inr m' \<Longrightarrow> same_field m m'"
proof (induction ps m rule: parse_parts.induct)
  case (2 part parts m)
  then obtain m1 where "tag_part part m = Some m1" by (auto split: option.splits)
  then show ?case using 2 tag_part_keeps [of part m m1] by (auto simp: same_field_def)
qed (simp add: same_field_def)

lemma block_struct_ok:
  assumes "block_struct m = Ret (Inr m')"
  shows "same_field m m' \<and> sfm_Type m' = sfm_Type m \<and> (\<not> (sfm_Multiple m' \<and> sfm_Optional m') \<longrightarrow> block_field m')"
proof -
  obtain t where t: "derefType (fl_type (sfm_Reflect m)) = Ret t" using assms unfolding block_struct_def by (cases "derefType (fl_type (sfm_Reflect m))") auto
  obtain st mult where st: "(case t of TSlice p u \<Rightarrow> go_bind (derefType u) (\<lambda>u. Ret (u, True)) | TMap p k u \<Rightarrow> go_bind (derefType u) (\<lambda>u. Ret (u, True))
      | _ \<Rightarrow> Ret (t, False)) = Ret (st, mult)"
    using assms unfolding block_struct_def t
    by (cases "case t of TSlice p u \<Rightarrow> go_bind (derefType u) (\<lambda>u. Ret (u, True)) | TMap p k u \<Rightarrow> go_bind (derefType u) (\<lambda>u. Ret (u, True)) | _ \<Rightarrow> Ret (t, False)") auto
  have m': "m' = m\<lparr>sfm_Multiple := mult, sfm_StructReflect := Some st\<rparr>" "\<exists>p n fs. st = TStruct p n fs"
    using assms st unfolding block_struct_def t by (auto split: gtype.splits)
  have "if mult then derefType (elem_type t) = Ret st \<and> (\<exists>q k u. t = TSlice q u \<or> t = TMap q k u) else t = st"
    using st by (cases t) (auto simp: elem_type_def go_bind_Ret)
  then show ?thesis using m' t by (auto simp: same_field_def block_field_def)
qed

lemma field_meta_ok:
  assumes "getStructFieldMeta i f = Ret (Inr m)"
  shows "sfm_Index m = i \<and> sfm_Reflect m = f \<and> (sfm_Tagged m \<and> sfm_Type m = fieldBlock \<longrightarrow> block_field m)"
proof (cases "fl_tag f")
  case None
  then show ?thesis using assms by (auto simp: getStructFieldMeta_def new_field_meta_def)
next
  case (Some tag)
  define m0 where "m0 = (new_field_meta i f)\<lparr>sfm_Tagged := True, sfm_Name := (if hd (split_on (CHR '','') tag) = [] then fl_name f else hd (split_on (CHR '','') tag))\<rparr>"
  obtain m1 where m1: "parse_parts (tl (split_on (CHR '','') tag)) m0 = Inr m1"
    using assms Some by (auto simp: getStructFieldMeta_def m0_def Let_def split: sum.splits)
  obtain m2 where m2: "(if sfm_Type m1 = fieldBlock then block_struct m1 else Ret (Inr m1)) = Ret (Inr m2)" "validate_meta m2 = Inr m"
    using assms Some m1 unfolding getStructFieldMeta_def m0_def [symmetric]
    by (cases "if sfm_Type m1 = fieldBlock then block_struct m1 else Ret (Inr m1)") (auto simp: Let_def m0_def split: sum.splits if_splits)
  have "m = m2" using m2(2) by (auto simp: validate_meta_def Let_def split: if_splits)
  moreover have "sfm_Type m2 = fieldBlock \<and> sfm_Multiple m2 \<longrightarrow> \<not> sfm_Optional m2" using m2(2) by (auto simp: validate_meta_def Let_def split: if_splits)
  ultimately show ?thesis using parse_parts_keeps [OF m1] m2(1) block_struct_ok [of m1 m2] by (auto simp: m0_def new_field_meta_def same_field_def split: if_splits)
qed

text \<open>The metadata fits the fields: indices and names are unique, and the schema lists the attributes and blocks with their labels.\<close>

definition struct_labels :: "structFieldMeta \<Rightarrow> string list \<Rightarrow> bool" where
  "struct_labels m ls \<longleftrightarrow> block_labels 0 (visible_fields (the (sfm_StructReflect m))) [] = Ret (Inr ls)"

definition coded :: "structMeta \<Rightarrow> structFieldMeta list" where
  "coded meta = sm_Labels meta @ sm_Blocks meta @ sm_Attrs meta"

definition wf_meta :: "gfield list \<Rightarrow> structMeta \<Rightarrow> bool" where
  "wf_meta fs meta \<longleftrightarrow>
     list_all (\<lambda>m. sfm_Index m < length fs \<and> sfm_Reflect m = fs ! sfm_Index m) (coded meta) \<and> distinct (map sfm_Index (coded meta)) \<and>
     distinct (map sfm_Name (sm_Labels meta)) \<and> distinct (map sfm_Name (sm_Attrs meta)) \<and> distinct (map sfm_Name (sm_Blocks meta)) \<and>
     list_all block_field (sm_Blocks meta) \<and> bs_Attributes (sm_BodySchema meta) = map (\<lambda>m. (sfm_Name m, \<not> sfm_Optional m)) (sm_Attrs meta) \<and>
     list_all2 (\<lambda>m (n, ls). n = sfm_Name m \<and> struct_labels m ls) (sm_Blocks meta) (bs_Blocks (sm_BodySchema meta))"

lemma fields_has_iff: "fields_has fs n \<longleftrightarrow> n \<in> sfm_Name ` set fs"
  by (induction fs n rule: fields_has.induct) auto

lemma list_all2_snoc: "list_all2 P (xs @ [x]) (ys @ [y]) \<longleftrightarrow> list_all2 P xs ys \<and> P x y"
  by (cases "length xs = length ys") (auto simp: list_all2_append dest: list_all2_lengthD)

lemma wf_meta_add:
  assumes "wf_meta fs meta" "list_all (\<lambda>m. sfm_Index m < i) (coded meta)" "getStructFieldMeta i f = Ret (Inr m)" "sfm_Tagged m" "add_field m meta = Ret (Inr meta')"
    "i < length fs" "fs ! i = f"
  shows "wf_meta fs meta' \<and> list_all (\<lambda>m. sfm_Index m < Suc i) (coded meta')"
proof -
  note m = field_meta_ok [OF assms(3)]
  have fresh: "sfm_Index m \<notin> sfm_Index ` set (coded meta)" using assms(2) m by (auto simp: list_all_iff)
  have less: "list_all (\<lambda>m. sfm_Index m < Suc i) (coded meta)" using assms(2) by (auto simp: list_all_iff less_Suc_eq)
  show ?thesis
  proof (cases "sfm_Type m")
    case fieldBlock
    then obtain ls where ls: "struct_labels m ls" "sfm_Name m \<notin> sfm_Name ` set (sm_Blocks meta)"
        "meta' = meta\<lparr>sm_Blocks := sm_Blocks meta @ [m], sm_BodySchema := (sm_BodySchema meta)\<lparr>bs_Blocks := bs_Blocks (sm_BodySchema meta) @ [(sfm_Name m, ls)]\<rparr>\<rparr>"
      using assms(5) by (auto simp: add_field_def try_bind struct_labels_def fields_add_def fields_has_iff split: if_splits)
    then show ?thesis using assms(1,4,6,7) m fresh less fieldBlock by (auto simp: wf_meta_def coded_def list_all2_snoc)
  next
    case fieldAttr
    then have "meta' = meta\<lparr>sm_Attrs := sm_Attrs meta @ [m], sm_BodySchema := (sm_BodySchema meta)\<lparr>bs_Attributes := bs_Attributes (sm_BodySchema meta) @ [(sfm_Name m, \<not> sfm_Optional m)]\<rparr>\<rparr>"
        "sfm_Name m \<notin> sfm_Name ` set (sm_Attrs meta)"
      using assms(5) by (auto simp: add_field_def fields_add_def fields_has_iff split: if_splits)
    then show ?thesis using assms(1,6,7) m fresh less by (auto simp: wf_meta_def coded_def)
  next
    case fieldLabel
    then have "meta' = meta\<lparr>sm_Labels := sm_Labels meta @ [m]\<rparr>" "sfm_Name m \<notin> sfm_Name ` set (sm_Labels meta)"
      using assms(5) by (auto simp: add_field_def fields_add_def fields_has_iff split: if_splits)
    then show ?thesis using assms(1,6,7) m fresh less by (auto simp: wf_meta_def coded_def)
  qed (use assms(1,5) less in \<open>simp_all add: add_field_def, simp_all add: wf_meta_def coded_def, (clarsimp simp: wf_meta_def coded_def)+\<close>)
qed

lemma wf_meta_loop:
  "meta_loop i gs meta = Ret (Inr meta') \<Longrightarrow> wf_meta fs meta \<Longrightarrow> list_all (\<lambda>m. sfm_Index m < i) (coded meta) \<Longrightarrow> drop i fs = gs \<Longrightarrow> i + length gs = length fs \<Longrightarrow>
   wf_meta fs meta'"
proof (induction i gs meta rule: meta_loop.induct)
  case (2 i f gs meta)
  obtain m where m: "getStructFieldMeta i f = Ret (Inr m)"
      "(if \<not> sfm_Tagged m then meta_loop (Suc i) gs meta else go_bind (add_field m meta) (\<lambda>r. case r of Inl ds \<Rightarrow> Ret (Inl ds) | Inr meta \<Rightarrow> meta_loop (Suc i) gs meta)) = Ret (Inr meta')"
    using "2.prems"(1) unfolding meta_loop.simps try_bind by blast
  have i: "i < length fs" "fs ! i = f" "drop (Suc i) fs = gs" "Suc i + length gs = length fs"
    using "2.prems"(4,5) by (auto simp: nth_via_drop drop_Suc tl_drop [symmetric])
  show ?case
  proof (cases "sfm_Tagged m")
    case False
    have "list_all (\<lambda>m. sfm_Index m < Suc i) (coded meta)" using "2.prems"(3) by (auto simp: list_all_iff less_Suc_eq)
    then show ?thesis using "2.IH"(1) [of m] False "2.prems"(2) m(2) i(3,4) by simp
  next
    case True
    then obtain meta1 where m1: "add_field m meta = Ret (Inr meta1)" "meta_loop (Suc i) gs meta1 = Ret (Inr meta')"
      using m(2) by (auto simp: try_bind)
    then show ?thesis using "2.IH"(2) [of m meta1] wf_meta_add [OF "2.prems"(2,3) m(1) True m1(1) i(1,2)] i(3,4) True by simp
  qed
qed simp

lemma getStructMeta_wf:
  assumes "getStructMeta (TStruct p n fs) = Ret (Inr meta)" shows "wf_meta fs meta"
proof (rule wf_meta_loop)
  show "meta_loop 0 fs new_meta = Ret (Inr meta)" using assms by (simp add: getStructMeta_def visible_fields_def)
qed (auto simp: wf_meta_def new_meta_def coded_def)

lemma add_field_labels:
  "add_field m meta = Ret (Inr meta') \<Longrightarrow> sm_Labels meta' = (if sfm_Type m = fieldLabel then sm_Labels meta @ [m] else sm_Labels meta)"
  by (cases "sfm_Type m") (auto simp: add_field_def try_bind fields_add_def split: if_splits)

lemma labels_loop:
  "meta_loop i gs meta = Ret (Inr meta') \<Longrightarrow> block_labels i gs (map sfm_Name (sm_Labels meta)) = Ret (Inr (map sfm_Name (sm_Labels meta')))"
proof (induction i gs meta rule: meta_loop.induct)
  case (2 i f gs meta)
  obtain m where m: "getStructFieldMeta i f = Ret (Inr m)"
      "(if \<not> sfm_Tagged m then meta_loop (Suc i) gs meta else go_bind (add_field m meta) (\<lambda>r. case r of Inl ds \<Rightarrow> Ret (Inl ds) | Inr meta \<Rightarrow> meta_loop (Suc i) gs meta)) = Ret (Inr meta')"
    using "2.prems" unfolding meta_loop.simps try_bind by blast
  show ?case
  proof (cases "sfm_Tagged m")
    case False
    then show ?thesis using "2.IH"(1) [of m] m by simp
  next
    case True
    then obtain meta1 where m1: "add_field m meta = Ret (Inr meta1)" "meta_loop (Suc i) gs meta1 = Ret (Inr meta')"
      using m(2) by (auto simp: try_bind)
    then show ?thesis using "2.IH"(2) [of m meta1] add_field_labels [OF m1(1)] m(1) True by (simp split: if_splits)
  qed
qed simp

lemma struct_labels_meta:
  assumes "getStructMeta (TStruct p n fs) = Ret (Inr meta)" "sfm_StructReflect m = Some (TStruct p n fs)" "struct_labels m ls"
  shows "ls = map sfm_Name (sm_Labels meta)"
  using labels_loop [of 0 fs new_meta meta] assms by (simp add: getStructMeta_def struct_labels_def visible_fields_def new_meta_def)

text \<open>Names give the fields back.\<close>

lemma fields_get_distinct: "distinct (map sfm_Name ms) \<Longrightarrow> m \<in> set ms \<Longrightarrow> fields_get ms (sfm_Name m) = Some m"
  by (induction ms) (auto simp: rev_image_eqI)

subsection \<open>Structs that are filled in\<close>

text \<open>The struct with the fields of \<open>vs\<close> at the indices \<open>D\<close> and zero values elsewhere.\<close>

definition filled :: "(gtype \<Rightarrow> 'x) \<Rightarrow> gfield list \<Rightarrow> 'x gval list \<Rightarrow> nat set \<Rightarrow> 'x gval list" where
  "filled z fs vs D = map (\<lambda>i. if i \<in> D then vs ! i else zero_field z (fs ! i)) [0..<length fs]"

lemma filled_simps [simp]: "length (filled z fs vs D) = length fs" "i < length fs \<Longrightarrow> filled z fs vs D ! i = (if i \<in> D then vs ! i else zero_field z (fs ! i))"
  by (simp_all add: filled_def)

lemma filled_empty: "filled z fs vs {} = map (zero_field z) fs"
  by (rule nth_equalityI) simp_all

lemma filled_insert: "i < length fs \<Longrightarrow> (filled z fs vs D)[i := vs ! i] = filled z fs vs (insert i D)"
  by (rule nth_equalityI) (auto simp: nth_list_update)

lemma filled_all:
  assumes "length vs = length fs" "\<And>i. i < length fs \<Longrightarrow> i \<notin> D \<Longrightarrow> vs ! i = zero_field z (fs ! i)"
  shows "filled z fs vs D = vs"
  by (rule nth_equalityI) (use assms in auto)

lemma zero_field_type: "zero_field z f = zero_val z (fl_type f)"
  by (cases f) simp

subsection \<open>The environment\<close>

text \<open>
  What the round trip needs of the environment: no hooks, and that the body which is read from a written block holds
  the attributes and blocks of the block, provided the schema allows for them. The attributes may come in any order.
\<close>

definition no_hooks :: "('b, 'e, 'c, 'x) hcl_env \<Rightarrow> (gtype \<Rightarrow> 'x gval \<Rightarrow> 'x wblock \<Rightarrow> 'x wblock \<times> diag list) \<Rightarrow> bool" where
  "no_hooks h hook \<longleftrightarrow> hook = (\<lambda>st v b. (b, [])) \<and> h_PreDecodeBlock h = (\<lambda>ty sc b c v. (v, [])) \<and> h_PostDecodeBlock h = (\<lambda>ty sc b c v. (v, [])) \<and>
     h_PreDecodeAttribute h = (\<lambda>ty a v. (v, [])) \<and> h_PostDecodeAttribute h = (\<lambda>ty a v. (v, []))"

definition accepts :: "bodySchema \<Rightarrow> 'x wblock \<Rightarrow> bool" where
  "accepts sc b \<longleftrightarrow> distinct (map fst (wb_Attributes b)) \<and> fst ` set (wb_Attributes b) \<subseteq> fst ` set (bs_Attributes sc) \<and>
     list_all (\<lambda>(n, req). req \<longrightarrow> n \<in> fst ` set (wb_Attributes b)) (bs_Attributes sc) \<and>
     list_all (\<lambda>k. list_ex (\<lambda>(n, ls). n = wb_TypeName k \<and> length ls = length (wb_Labels k)) (bs_Blocks sc)) (wb_Blocks b)"

definition read_block :: "('x wblock \<Rightarrow> 'b) \<Rightarrow> 'x wblock \<Rightarrow> 'b hcl_block" where
  "read_block body_of k = \<lparr>hb_Type = wb_TypeName k, hb_Labels = wb_Labels k, hb_Body = body_of k\<rparr>"

definition reads_back :: "('b, 'e, 'c, 'x) hcl_env \<Rightarrow> ('x wblock \<Rightarrow> 'b) \<Rightarrow> bool" where
  "reads_back h body_of \<longleftrightarrow> (\<forall>sc b. accepts sc b \<and> (\<forall>(n, t, v) \<in> set (wb_Attributes b). \<exists>c. h_MapTo h t v = Inr c) \<longrightarrow>
     (\<exists>attrs ds. h_Content h (body_of b) sc = (\<lparr>hc_Attributes = attrs, hc_Blocks = map (read_block body_of) (wb_Blocks b)\<rparr>, ds) \<and> \<not> HasErrors ds \<and>
        distinct (map fst attrs) \<and> fst ` set attrs = fst ` set (wb_Attributes b) \<and>
        (\<forall>(n, e) \<in> set attrs. \<forall>t v c. (n, t, v) \<in> set (wb_Attributes b) \<longrightarrow> h_MapTo h t v = Inr c \<longrightarrow> (\<exists>ds. h_Value h e = (c, ds) \<and> \<not> HasErrors ds))))"

text \<open>Values that the mapper maps to HCL and back, as attributes and as labels.\<close>

definition attr_ok :: "('b, 'e, 'c, 'x) hcl_env \<Rightarrow> gtype \<Rightarrow> 'x gval \<Rightarrow> bool" where
  "attr_ok h t v \<longleftrightarrow> (\<exists>c. h_MapTo h t v = Inr c \<and> h_MapFrom h c t (zero_val (h_Zero h) t) = Inr v)"

definition label_ok :: "('b, 'e, 'c, 'x) hcl_env \<Rightarrow> gtype \<Rightarrow> 'x gval \<Rightarrow> string \<Rightarrow> bool" where
  "label_ok h t v l \<longleftrightarrow> (\<exists>c. h_MapTo h t v = Inr c \<and> h_AsString h c = Some l) \<and> h_MapFrom h (h_StringVal h l) t (zero_val (h_Zero h) t) = Inr v"

subsection \<open>Steps of encoding and decoding\<close>

abbreviation ftype :: "structFieldMeta \<Rightarrow> gtype" where "ftype m \<equiv> fl_type (sfm_Reflect m)"

definition skipped :: "(gtype \<Rightarrow> 'x) \<Rightarrow> 'x gval list \<Rightarrow> structFieldMeta \<Rightarrow> bool" where
  "skipped z vs m \<longleftrightarrow> sfm_Ignore m \<or> sfm_Optional m \<and> canBeSkipped z (ftype m) (vs ! sfm_Index m)"

definition written_attrs :: "(gtype \<Rightarrow> 'x) \<Rightarrow> 'x gval list \<Rightarrow> structFieldMeta list \<Rightarrow> (string \<times> gtype \<times> 'x gval) list" where
  "written_attrs z vs ms = map (\<lambda>m. (sfm_Name m, ftype m, vs ! sfm_Index m)) (filter (\<lambda>m. \<not> skipped z vs m) ms)"

lemma encode_attrs_ok:
  "list_all (\<lambda>m. sfm_Index m < length vs) ms \<Longrightarrow>
   encode_attrs z ms (VStruct vs) (WBlock nm ls as bs) = Ret (WBlock nm ls (as @ written_attrs z vs ms) bs)"
  by (induction ms arbitrary: as) (auto simp: field_get_def written_attrs_def skipped_def AppendAttribute_def)

definition add_blocks :: "'x wblock \<Rightarrow> 'x wblock list \<Rightarrow> 'x wblock" where
  "add_blocks b ks = WBlock (wb_TypeName b) (wb_Labels b) (wb_Attributes b) (wb_Blocks b @ ks)"

lemma add_blocks_simps [simp]: "add_blocks b [] = b" "add_blocks (add_blocks b ks) ks' = add_blocks b (ks @ ks')" "AppendBlock b k = add_blocks b [k]"
  by (cases b; simp add: add_blocks_def AppendBlock_def)+

lemma encode_blocks_ok:
  assumes "list_all (\<lambda>m. sfm_Index m < length vs) ms"
    and "\<And>m body. m \<in> set ms \<Longrightarrow> \<not> skipped z vs m \<Longrightarrow>
      (if sfm_Multiple m then multiple (sfm_Index m) (vs ! sfm_Index m) (sfm_Name m) body else single (sfm_Index m) (vs ! sfm_Index m) (sfm_Name m) body) =
        Ret (add_blocks body (ks m), [])"
    and "\<And>m. m \<in> set ms \<Longrightarrow> skipped z vs m \<Longrightarrow> ks m = []"
  shows "encode_blocks z single multiple ms (VStruct vs) body = Ret (add_blocks body (concat (map ks ms)), [])"
  using assms
proof (induction ms arbitrary: body)
  case (Cons m ms)
  have IH: "encode_blocks z single multiple ms (VStruct vs) body = Ret (add_blocks body (concat (map ks ms)), [])" for body
    using Cons.IH [of body] Cons.prems by simp
  show ?case
  proof (cases "skipped z vs m")
    case True
    then show ?thesis using IH Cons.prems(1) Cons.prems(3) [of m] by (auto simp: skipped_def field_get_def)
  next
    case False
    then have "\<not> sfm_Ignore m" "\<not> (sfm_Optional m \<and> canBeSkipped z (ftype m) (vs ! sfm_Index m))" by (auto simp: skipped_def)
    then show ?thesis using IH Cons.prems(1) Cons.prems(2) [of m body] False by (auto simp: field_get_def)
  qed
qed simp

lemma encode_labels_ok:
  "list_all2 (\<lambda>m l. sfm_Index m < length vs \<and> label_ok h (ftype m) (vs ! sfm_Index m) l) ms ls \<Longrightarrow>
   encode_labels h ms (VStruct vs) acc = Ret (Inr (acc @ ls))"
  by (induction ms ls arbitrary: acc rule: list_all2_induct) (auto simp: field_get_def label_ok_def)

lemma decode_labels_ok:
  assumes "distinct (map sfm_Index ms)" "list_all (\<lambda>m. sfm_Index m < length fs \<and> sfm_Reflect m = fs ! sfm_Index m) ms"
  shows "list_all2 (\<lambda>m l. label_ok h (ftype m) (vs ! sfm_Index m) l) (drop i ms) ls \<Longrightarrow> i \<le> length ms \<Longrightarrow> sfm_Index ` set (drop i ms) \<inter> D = {} \<Longrightarrow>
    decode_labels h ms i ls (VStruct (filled (h_Zero h) fs vs D)) = Ret (VStruct (filled (h_Zero h) fs vs (D \<union> sfm_Index ` set (drop i ms))), [])"
proof (induction ls arbitrary: i D)
  case (Cons l ls)
  then have i: "i < length ms" by (metis drop_all le_less_linear list.simps(3) list_all2_Nil list_all2_Cons2)
  let ?m = "ms ! i"
  have dr: "drop i ms = ?m # drop (Suc i) ms" using i by (simp add: Cons_nth_drop_Suc)
  have m: "sfm_Index ?m < length fs" "sfm_Reflect ?m = fs ! sfm_Index ?m" using assms(2) i by (auto simp: list_all_iff)
  have l: "label_ok h (ftype ?m) (vs ! sfm_Index ?m) l" "list_all2 (\<lambda>m l. label_ok h (ftype m) (vs ! sfm_Index m) l) (drop (Suc i) ms) ls"
    using Cons.prems(1) dr by auto
  have "distinct (map sfm_Index (drop i ms))" using assms(1) by (simp add: drop_map [symmetric])
  then have disj: "sfm_Index ` set (drop (Suc i) ms) \<inter> insert (sfm_Index ?m) D = {}" "sfm_Index ?m \<notin> D" using Cons.prems(3) unfolding dr by auto
  have "decode_labels h ms i (l # ls) (VStruct (filled (h_Zero h) fs vs D)) = decode_labels h ms (Suc i) ls (VStruct (filled (h_Zero h) fs vs (insert (sfm_Index ?m) D)))"
    using i m l(1) disj(2) by (simp add: filled_insert [OF m(1)] field_get_def field_set_def label_ok_def zero_field_type)
  also have "\<dots> = Ret (VStruct (filled (h_Zero h) fs vs (insert (sfm_Index ?m) D \<union> sfm_Index ` set (drop (Suc i) ms))), [])"
    by (rule Cons.IH [OF l(2) _ disj(1)]) (use i in simp)
  finally show ?case unfolding dr by (simp add: insert_commute)
qed simp

lemma decode_attrs_ok:
  assumes "no_hooks h hook" "distinct (map sfm_Name ms)" "distinct (map sfm_Index ms)" "list_all (\<lambda>m. sfm_Index m < length fs \<and> sfm_Reflect m = fs ! sfm_Index m) ms"
  shows "distinct (map fst attrs) \<Longrightarrow>
    list_all (\<lambda>(n, e). \<exists>m c ds. m \<in> set ms \<and> sfm_Name m = n \<and> \<not> sfm_Ignore m \<and> sfm_Index m \<notin> D \<and> h_Value h e = (c, ds) \<and> \<not> HasErrors ds \<and>
      h_MapFrom h c (ftype m) (zero_val (h_Zero h) (ftype m)) = Inr (vs ! sfm_Index m)) attrs \<Longrightarrow>
    decode_attrs h ms attrs (VStruct (filled (h_Zero h) fs vs D)) =
      Ret (VStruct (filled (h_Zero h) fs vs (D \<union> sfm_Index ` {m \<in> set ms. sfm_Name m \<in> fst ` set attrs})), [])"
proof (induction attrs arbitrary: D)
  case (Cons a attrs)
  obtain n e where a: "a = (n, e)" by force
  obtain m c ds where m: "m \<in> set ms" "sfm_Name m = n" "\<not> sfm_Ignore m" "sfm_Index m \<notin> D" "h_Value h e = (c, ds)" "\<not> HasErrors ds"
      "h_MapFrom h c (ftype m) (zero_val (h_Zero h) (ftype m)) = Inr (vs ! sfm_Index m)" using Cons.prems(2) a by auto
  have i: "sfm_Index m < length fs" "sfm_Reflect m = fs ! sfm_Index m" using assms(4) m(1) by (auto simp: list_all_iff)
  have "decodeAttribute h (n, e) (ftype m) (zero_val (h_Zero h) (ftype m)) = (vs ! sfm_Index m, [])"
    using assms(1) m(5-7) by (simp add: decodeAttribute_def no_hooks_def)
  then have "decode_attrs h ms (a # attrs) (VStruct (filled (h_Zero h) fs vs D)) = decode_attrs h ms attrs (VStruct (filled (h_Zero h) fs vs (insert (sfm_Index m) D)))"
    using fields_get_distinct [OF assms(2) m(1)] m(2-4) i a by (simp add: filled_insert [OF i(1)] field_get_def field_set_def zero_field_type)
  also have "\<dots> = Ret (VStruct (filled (h_Zero h) fs vs (insert (sfm_Index m) D \<union> sfm_Index ` {m \<in> set ms. sfm_Name m \<in> fst ` set attrs})), [])"
  proof (rule Cons.IH)
    show "distinct (map fst attrs)" using Cons.prems(1) by simp
    have ne: "sfm_Index m' \<noteq> sfm_Index m" if "m' \<in> set ms" "sfm_Name m' \<noteq> n" for m'
      using that m(1,2) assms(3) by (metis distinct_map inj_onD)
    have "x \<noteq> n" if "(x, y) \<in> set attrs" for x y using that Cons.prems(1) a by force
    then show "list_all (\<lambda>(n, e). \<exists>m' c ds. m' \<in> set ms \<and> sfm_Name m' = n \<and> \<not> sfm_Ignore m' \<and> sfm_Index m' \<notin> insert (sfm_Index m) D \<and> h_Value h e = (c, ds) \<and>
        \<not> HasErrors ds \<and> h_MapFrom h c (ftype m') (zero_val (h_Zero h) (ftype m')) = Inr (vs ! sfm_Index m')) attrs"
      using Cons.prems(2) ne by (fastforce simp: list_all_iff)
  qed
  also have "insert (sfm_Index m) D \<union> sfm_Index ` {m \<in> set ms. sfm_Name m \<in> fst ` set attrs} = D \<union> sfm_Index ` {m \<in> set ms. sfm_Name m \<in> fst ` set (a # attrs)}"
    using m(1,2) a assms(2) by (auto simp: distinct_map dest: inj_onD)
  finally show ?case .
qed simp

text \<open>Several blocks decoded into one field.\<close>

fun decode_run :: "('x gval \<Rightarrow> 'b hcl_block \<Rightarrow> ('x gval \<times> diag list) go) \<Rightarrow> 'x gval \<Rightarrow> 'b hcl_block list \<Rightarrow> ('x gval \<times> diag list) go" where
  "decode_run f w [] = Ret (w, [])"
| "decode_run f w (b # bs) = go_bind (f w b) (\<lambda>(y, ds). if HasErrors ds then Ret (y, ds) else decode_run f y bs)"

definition block_decoder :: "(nat \<Rightarrow> 'x gval \<Rightarrow> 'b hcl_block \<Rightarrow> ('x gval \<times> diag list) go) \<Rightarrow> (nat \<Rightarrow> 'x gval \<Rightarrow> 'b hcl_block \<Rightarrow> ('x gval \<times> diag list) go) \<Rightarrow>
    structFieldMeta \<Rightarrow> 'x gval \<Rightarrow> 'b hcl_block \<Rightarrow> ('x gval \<times> diag list) go" where
  "block_decoder single multiple m = (if sfm_Multiple m then multiple (sfm_Index m) else single (sfm_Index m))"

lemma decode_blocks_run:
  assumes "distinct (map sfm_Name ms)" "m \<in> set ms" "\<not> sfm_Ignore m" "sfm_Index m < length us"
  shows "list_all (\<lambda>b. hb_Type b = sfm_Name m) bs \<Longrightarrow> decode_run (block_decoder single multiple m) (us ! sfm_Index m) bs = Ret (y, []) \<Longrightarrow>
    decode_blocks single multiple ms (bs @ rest) (VStruct us) = decode_blocks single multiple ms rest (VStruct (us[sfm_Index m := y]))"
  using assms(4)
proof (induction bs arbitrary: us)
  case (Cons b bs)
  obtain w ds where w: "block_decoder single multiple m (us ! sfm_Index m) b = Ret (w, ds)" "\<not> HasErrors ds" "decode_run (block_decoder single multiple m) w bs = Ret (y, [])"
    using Cons.prems(2) by (auto simp: go_bind_Ret split: if_splits)
  have "decode_blocks single multiple ms ((b # bs) @ rest) (VStruct us) = decode_blocks single multiple ms (bs @ rest) (VStruct (us[sfm_Index m := w]))"
    using fields_get_distinct [OF assms(1,2)] Cons.prems(1,3) assms(3) w(1,2) by (simp add: field_get_def field_set_def block_decoder_def split: if_splits)
  then show ?case using Cons.IH [of "us[sfm_Index m := w]"] Cons.prems(1,3) w(3) by simp
qed auto

lemma decode_blocks_ok:
  assumes "distinct (map sfm_Name ms0)" "distinct (map sfm_Index ms0)" "list_all (\<lambda>m. sfm_Index m < length fs \<and> sfm_Reflect m = fs ! sfm_Index m) ms0"
    and "\<And>m. m \<in> set ms0 \<Longrightarrow> list_all (\<lambda>k. wb_TypeName k = sfm_Name m) (ks m)" "\<And>m. m \<in> set ms0 \<Longrightarrow> sfm_Ignore m \<Longrightarrow> ks m = []"
    and "\<And>m. m \<in> set ms0 \<Longrightarrow> decode_run (block_decoder single multiple m) (zero_val z (ftype m)) (map (read_block body_of) (ks m)) = Ret (vs ! sfm_Index m, [])"
  shows "set ms \<subseteq> set ms0 \<Longrightarrow> distinct (map sfm_Index ms) \<Longrightarrow> sfm_Index ` set ms \<inter> D = {} \<Longrightarrow>
    decode_blocks single multiple ms0 (map (read_block body_of) (concat (map ks ms))) (VStruct (filled z fs vs D)) = Ret (VStruct (filled z fs vs (D \<union> sfm_Index ` set ms)), [])"
proof (induction ms arbitrary: D)
  case (Cons m ms)
  have m: "m \<in> set ms0" "sfm_Index m < length fs" "sfm_Reflect m = fs ! sfm_Index m" "sfm_Index m \<notin> D" "sfm_Index ` set ms \<inter> insert (sfm_Index m) D = {}"
    using Cons.prems assms(3) by (auto simp: list_all_iff)
  have zero: "filled z fs vs D ! sfm_Index m = zero_val z (ftype m)" using m by (simp add: zero_field_type)
  let ?bs = "map (read_block body_of) (ks m)" and ?rest = "map (read_block body_of) (concat (map ks ms))"
  have "decode_blocks single multiple ms0 (?bs @ ?rest) (VStruct (filled z fs vs D)) = decode_blocks single multiple ms0 ?rest (VStruct (filled z fs vs (insert (sfm_Index m) D)))"
  proof (cases "sfm_Ignore m")
    case True
    then have "ks m = []" using assms(5) m(1) by blast
    then have "vs ! sfm_Index m = zero_field z (fs ! sfm_Index m)" using assms(6) [OF m(1)] m(3) by (simp add: zero_field_type)
    then have "filled z fs vs (insert (sfm_Index m) D) = filled z fs vs D" by (intro nth_equalityI) auto
    then show ?thesis using \<open>ks m = []\<close> by simp
  next
    case False
    have "list_all (\<lambda>b. hb_Type b = sfm_Name m) ?bs" using assms(4) [OF m(1)] by (simp add: list_all_iff read_block_def)
    then show ?thesis using decode_blocks_run [OF assms(1) m(1) False, of "filled z fs vs D" ?bs single multiple "vs ! sfm_Index m" ?rest] assms(6) [OF m(1)] m(2) zero
      by (simp add: filled_insert [OF m(2)])
  qed
  also have "\<dots> = Ret (VStruct (filled z fs vs (insert (sfm_Index m) D \<union> sfm_Index ` set ms)), [])"
    by (rule Cons.IH [OF _ _ m(5)]) (use Cons.prems in auto)
  finally show ?case by simp
qed simp

subsection \<open>Values that can be encoded and decoded\<close>

definition no_special :: "structMeta \<Rightarrow> bool" where
  "no_special meta \<longleftrightarrow> sm_Remain meta = None \<and> sm_Body meta = None \<and> sm_Content meta = None \<and> sm_Schema meta = None \<and> sm_Range meta = None"

text \<open>
  The values of type \<open>t\<close> with labels \<open>ls\<close> that survive a round trip. Pointers to blocks are not nil; a struct has no special
  fields, its untagged and ignored fields are zero and ignored attributes are optional, labels and attributes survive the
  mapper; repeated blocks are in slices or maps that are nil or not empty, and the key of a map is the only label of
  its element; maps are listed by their sorted keys.
\<close>

inductive codable :: "('b, 'e, 'c, 'x) hcl_env \<Rightarrow> gtype \<Rightarrow> 'x gval \<Rightarrow> string list \<Rightarrow> bool"
  and codable_elems :: "('b, 'e, 'c, 'x) hcl_env \<Rightarrow> gtype \<Rightarrow> 'x gval \<Rightarrow> bool" for h where
  cod_ptr: "codable h t v ls \<Longrightarrow> codable h (TPtr t) (VPtr (Some v)) ls"
| cod_struct: "getStructMeta (TStruct p n fs) = Ret (Inr meta) \<Longrightarrow> no_special meta \<Longrightarrow> length vs = length fs \<Longrightarrow>
    (\<forall>i < length fs. i \<notin> sfm_Index ` {m \<in> set (coded meta). \<not> sfm_Ignore m} \<longrightarrow> vs ! i = zero_field (h_Zero h) (fs ! i)) \<Longrightarrow>
    list_all2 (\<lambda>m l. label_ok h (ftype m) (vs ! sfm_Index m) l) (sm_Labels meta) ls \<Longrightarrow>
    (\<forall>m \<in> set (sm_Attrs meta). \<not> skipped (h_Zero h) vs m \<longrightarrow> attr_ok h (ftype m) (vs ! sfm_Index m)) \<Longrightarrow>
    (\<forall>m \<in> set (sm_Attrs meta). sfm_Ignore m \<longrightarrow> sfm_Optional m) \<Longrightarrow> (\<forall>m \<in> set (sm_Blocks meta). sfm_Name m \<noteq> []) \<Longrightarrow>
    (\<And>m. m \<in> set (sm_Blocks meta) \<Longrightarrow> \<not> skipped (h_Zero h) vs m \<Longrightarrow> \<not> sfm_Multiple m \<Longrightarrow> codable h (ftype m) (vs ! sfm_Index m) (lab m)) \<Longrightarrow>
    (\<And>m. m \<in> set (sm_Blocks meta) \<Longrightarrow> \<not> skipped (h_Zero h) vs m \<Longrightarrow> sfm_Multiple m \<Longrightarrow> codable_elems h (ftype m) (vs ! sfm_Index m)) \<Longrightarrow>
    codable h (TStruct p n fs) (VStruct vs) ls"
| cod_slice_nil: "codable_elems h (TSlice q t) (VSlice None)"
| cod_slice: "xs \<noteq> [] \<Longrightarrow> (\<And>x. x \<in> set xs \<Longrightarrow> codable h t x (lab x)) \<Longrightarrow> codable_elems h (TSlice q t) (VSlice (Some xs))"
| cod_map_nil: "codable_elems h (TMap q (TString []) t) (VMap None)"
| cod_map: "kvs \<noteq> [] \<Longrightarrow> distinct (map fst kvs) \<Longrightarrow> sorted (map fst kvs) \<Longrightarrow> (\<And>k x. (k, x) \<in> set kvs \<Longrightarrow> codable h t x [k]) \<Longrightarrow>
    codable_elems h (TMap q (TString []) t) (VMap (Some kvs))"

lemma decode_struct_no_hooks:
  assumes "no_hooks h hook" shows "decode_struct h single multiple ty st v b = decode_struct h single multiple ty' st v b"
proof -
  have eq: "h_PreDecodeBlock h ty = h_PreDecodeBlock h ty'" "h_PostDecodeBlock h ty = h_PostDecodeBlock h ty'" using assms by (simp_all add: no_hooks_def)
  show ?thesis unfolding decode_struct_def eq ..
qed

definition dec_one :: "('b, 'e, 'c, 'x) hcl_env \<Rightarrow> gfield list \<Rightarrow> nat \<Rightarrow> 'x gval \<Rightarrow> 'b hcl_block \<Rightarrow> ('x gval \<times> diag list) go" where
  "dec_one h fs = (\<lambda>i w b. if i < length fs then decodeSingleBlock h True (fl_type (fs ! i)) w b else Panic ''reflect: Field index out of range'')"

definition dec_many :: "('b, 'e, 'c, 'x) hcl_env \<Rightarrow> gfield list \<Rightarrow> nat \<Rightarrow> 'x gval \<Rightarrow> 'b hcl_block \<Rightarrow> ('x gval \<times> diag list) go" where
  "dec_many h fs = (\<lambda>i w b. if i < length fs then decodeMultipleBlocks h (fl_type (fs ! i)) w b else Panic ''reflect: Field index out of range'')"

lemma decode_single_struct:
  "derefValue (h_Zero h) s ty v = Some (True, TStruct p n fs, w, up) \<Longrightarrow>
   decodeSingleBlock h s ty v b = go_bind (decode_struct h (dec_one h fs) (dec_many h fs) ty (TStruct p n fs) w b) (\<lambda>(y, ds). Ret (up y, ds))"
  by (simp add: decodeSingleBlock.simps [of h s] dec_one_def dec_many_def)

lemma decode_ptr:
  assumes "no_hooks h hook" "derefValue (h_Zero h) True t w = Some (True, TStruct p n fs, v, up)"
  shows "decodeSingleBlock h s (TPtr t) (VPtr (Some w)) b = go_bind (decodeSingleBlock h True t w b) (\<lambda>(y, ds). Ret (VPtr (Some y), ds))"
proof -
  have d: "derefValue (h_Zero h) s (TPtr t) (VPtr (Some w)) = Some (True, TStruct p n fs, v, \<lambda>y. VPtr (Some (up y)))" using assms(2) by simp
  have e: "decode_struct h (dec_one h fs) (dec_many h fs) (TPtr t) (TStruct p n fs) v b = decode_struct h (dec_one h fs) (dec_many h fs) t (TStruct p n fs) v b"
    by (rule decode_struct_no_hooks [OF assms(1)])
  show ?thesis unfolding decode_single_struct [OF d] decode_single_struct [OF assms(2)] e
    by (cases "decode_struct h (dec_one h fs) (dec_many h fs) t (TStruct p n fs) v b") (auto split: prod.splits)
qed

definition enc_one :: "('b, 'e, 'c, 'x) hcl_env \<Rightarrow> (gtype \<Rightarrow> 'x gval \<Rightarrow> 'x wblock \<Rightarrow> 'x wblock \<times> diag list) \<Rightarrow> bool \<Rightarrow> gfield list \<Rightarrow> nat \<Rightarrow> 'x gval \<Rightarrow> string \<Rightarrow> 'x wblock \<Rightarrow> ('x wblock \<times> diag list) go" where
  "enc_one h hook s fs = (\<lambda>i w name b. if i < length fs then encodeSingleBlock h hook s (fl_type (fs ! i)) w name None b else Panic ''reflect: Field index out of range'')"

definition enc_many :: "('b, 'e, 'c, 'x) hcl_env \<Rightarrow> (gtype \<Rightarrow> 'x gval \<Rightarrow> 'x wblock \<Rightarrow> 'x wblock \<times> diag list) \<Rightarrow> bool \<Rightarrow> gfield list \<Rightarrow> nat \<Rightarrow> 'x gval \<Rightarrow> string \<Rightarrow> 'x wblock \<Rightarrow> ('x wblock \<times> diag list) go" where
  "enc_many h hook s fs = (\<lambda>i w name b. if i < length fs then encodeMultipleBlocks h hook s (fl_type (fs ! i)) w name b else Panic ''reflect: Field index out of range'')"

lemma encode_single_struct:
  "derefValue (h_Zero h) s ty v = Some (s', TStruct p n fs, w, up) \<Longrightarrow>
   encodeSingleBlock h hook s ty v name labels body = encode_struct h hook (enc_one h hook s' fs) (enc_many h hook s' fs) (TStruct p n fs) w name labels body"
  by (simp add: encodeSingleBlock.simps [of h hook s] enc_one_def enc_many_def)

text \<open>The contents of a struct are written to a block and read back from it.\<close>

lemma OfType_append: "OfType (bs @ bs') x = OfType bs x @ OfType bs' x"
  by (simp add: OfType_def)

lemma OfType_concat:
  assumes "distinct (map sfm_Name ms)" "\<And>m. m \<in> set ms \<Longrightarrow> list_all (\<lambda>k. wb_TypeName k = sfm_Name m) (ks m)" "m \<in> set ms"
  shows "OfType (map (read_block body_of) (concat (map ks ms))) (sfm_Name m) = map (read_block body_of) (ks m)"
proof -
  have other: "OfType (map (read_block body_of) (concat (map ks ms))) x = []" if "x \<notin> sfm_Name ` set ms" "\<And>m. m \<in> set ms \<Longrightarrow> list_all (\<lambda>k. wb_TypeName k = sfm_Name m) (ks m)" for ms x
    using that by (induction ms) (force simp: OfType_def filter_empty_conv list_all_iff read_block_def)+
  have own: "OfType (map (read_block body_of) (ks m)) (sfm_Name m) = map (read_block body_of) (ks m)" if "list_all (\<lambda>k. wb_TypeName k = sfm_Name m) (ks m)" for m
    using that by (auto simp: OfType_def filter_id_conv list_all_iff read_block_def)
  show ?thesis using assms
  proof (induction ms)
    case (Cons m' ms)
    show ?case
    proof (cases "m = m'")
      case True
      then show ?thesis using Cons.prems own [of m] other [of "sfm_Name m" ms] by (simp add: OfType_append)
    next
      case False
      then have "m \<in> set ms" "sfm_Name m \<noteq> sfm_Name m'" using Cons.prems(1,3) by (auto simp: image_iff)
      then have "OfType (map (read_block body_of) (ks m')) (sfm_Name m) = []" using Cons.prems(2) [of m'] by (auto simp: OfType_def filter_empty_conv list_all_iff read_block_def)
      then show ?thesis using Cons \<open>m \<in> set ms\<close> by (simp add: OfType_append)
    qed
  qed simp
qed

lemma check_blocks_ok:
  "(\<And>m. m \<in> set ms \<Longrightarrow> \<not> sfm_Ignore m \<Longrightarrow> \<not> sfm_Multiple m \<Longrightarrow> length (OfType bs (sfm_Name m)) \<le> 1 \<and> (OfType bs (sfm_Name m) = [] \<longrightarrow> sfm_Optional m)) \<Longrightarrow> check_blocks ms bs = []"
proof (induction ms)
  case (Cons m ms)
  have "check_blocks ms bs = []" using Cons by simp
  then show ?case using Cons.prems [of m] by (force simp: Let_def)
qed simp

definition kids_ok :: "('b, 'e, 'c, 'x) hcl_env \<Rightarrow> (gtype \<Rightarrow> 'x gval \<Rightarrow> 'x wblock \<Rightarrow> 'x wblock \<times> diag list) \<Rightarrow> ('x wblock \<Rightarrow> 'b) \<Rightarrow> gfield list \<Rightarrow> 'x gval list \<Rightarrow>
    structFieldMeta \<Rightarrow> 'x wblock list \<Rightarrow> bool" where
  "kids_ok h hook body_of fs vs m ks \<longleftrightarrow> list_all (\<lambda>k. wb_TypeName k = sfm_Name m) ks \<and> (skipped (h_Zero h) vs m \<longrightarrow> ks = []) \<and>
     (\<not> skipped (h_Zero h) vs m \<longrightarrow> (\<forall>s body. (if sfm_Multiple m then enc_many h hook s fs (sfm_Index m) (vs ! sfm_Index m) (sfm_Name m) body
        else enc_one h hook s fs (sfm_Index m) (vs ! sfm_Index m) (sfm_Name m) body) = Ret (add_blocks body ks, []))) \<and>
     decode_run (block_decoder (dec_one h fs) (dec_many h fs) m) (zero_val (h_Zero h) (ftype m)) (map (read_block body_of) ks) = Ret (vs ! sfm_Index m, []) \<and>
     (\<forall>k \<in> set ks. \<forall>ls. struct_labels m ls \<longrightarrow> length ls = length (wb_Labels k)) \<and>
     (\<not> sfm_Multiple m \<and> \<not> sfm_Ignore m \<longrightarrow> length ks \<le> 1 \<and> (ks = [] \<longrightarrow> sfm_Optional m))"

lemma encode_contents:
  assumes "no_hooks h hook" "wf_meta fs meta" "length vs = length fs" "\<And>m. m \<in> set (sm_Blocks meta) \<Longrightarrow> kids_ok h hook body_of fs vs m (ks m)"
  shows "encode_fields h hook (enc_one h hook s fs) (enc_many h hook s fs) st meta (VStruct vs) (WBlock nm lb [] []) =
    Ret (WBlock nm lb (written_attrs (h_Zero h) vs (sm_Attrs meta)) (concat (map ks (sm_Blocks meta))), [])"
proof -
  have i: "list_all (\<lambda>m. sfm_Index m < length vs) (sm_Attrs meta)" "list_all (\<lambda>m. sfm_Index m < length vs) (sm_Blocks meta)"
    using assms(2,3) by (auto simp: wf_meta_def coded_def list_all_iff)
  have "encode_blocks (h_Zero h) (enc_one h hook s fs) (enc_many h hook s fs) (sm_Blocks meta) (VStruct vs) body = Ret (add_blocks body (concat (map ks (sm_Blocks meta))), [])" for body
    by (rule encode_blocks_ok [OF i(2)]) (use assms(4) in \<open>auto simp: kids_ok_def\<close>)
  then show ?thesis using assms(1) encode_attrs_ok [OF i(1), of "h_Zero h" nm lb "[]" "[]"]
    by (simp add: encode_fields_def no_hooks_def add_blocks_def)
qed

lemma list_all2_left: "list_all2 P xs ys \<Longrightarrow> x \<in> set xs \<Longrightarrow> \<exists>y \<in> set ys. P x y"
  by (induction rule: list_all2_induct) auto

lemma accepts_contents:
  assumes "wf_meta fs meta" "\<And>m. m \<in> set (sm_Blocks meta) \<Longrightarrow> kids_ok h hook body_of fs vs m (ks m)" "\<And>m. m \<in> set (sm_Attrs meta) \<Longrightarrow> sfm_Ignore m \<Longrightarrow> sfm_Optional m"
  shows "accepts (sm_BodySchema meta) (WBlock nm lb (written_attrs (h_Zero h) vs (sm_Attrs meta)) (concat (map ks (sm_Blocks meta))))"
proof -
  let ?as = "written_attrs (h_Zero h) vs (sm_Attrs meta)"
  have names: "map fst ?as = map sfm_Name (filter (\<lambda>m. \<not> skipped (h_Zero h) vs m) (sm_Attrs meta))" by (simp add: written_attrs_def)
  have sc: "bs_Attributes (sm_BodySchema meta) = map (\<lambda>m. (sfm_Name m, \<not> sfm_Optional m)) (sm_Attrs meta)" using assms(1) by (simp add: wf_meta_def)
  have "distinct (map fst ?as)" unfolding names using assms(1) by (auto simp: wf_meta_def intro: distinct_map_filter)
  moreover have "fst ` set ?as \<subseteq> fst ` set (bs_Attributes (sm_BodySchema meta))" unfolding sc by (auto simp: written_attrs_def image_iff)
  moreover have "list_all (\<lambda>(n, req). req \<longrightarrow> n \<in> fst ` set ?as) (bs_Attributes (sm_BodySchema meta))"
    unfolding sc using assms(3) by (auto simp: list_all_iff written_attrs_def skipped_def image_iff)
  moreover have "list_ex (\<lambda>(n, ls). n = wb_TypeName k \<and> length ls = length (wb_Labels k)) (bs_Blocks (sm_BodySchema meta))"
    if mm: "m \<in> set (sm_Blocks meta)" and kk: "k \<in> set (ks m)" for m k
  proof -
    have "list_all2 (\<lambda>m (n, ls). n = sfm_Name m \<and> struct_labels m ls) (sm_Blocks meta) (bs_Blocks (sm_BodySchema meta))" using assms(1) by (simp add: wf_meta_def)
    then obtain ls where "(sfm_Name m, ls) \<in> set (bs_Blocks (sm_BodySchema meta))" "struct_labels m ls"
      using list_all2_left [OF _ mm] by (fastforce split: prod.splits)
    moreover have "wb_TypeName k = sfm_Name m" "length ls = length (wb_Labels k)"
      using assms(2) [OF mm] kk \<open>struct_labels m ls\<close> by (auto simp: kids_ok_def list_all_iff)
    ultimately show ?thesis by (auto simp: list_ex_iff)
  qed
  ultimately show ?thesis by (auto simp: accepts_def list_all_iff)
qed

lemma decode_contents:
  assumes "no_hooks h hook" "reads_back h body_of" "getStructMeta (TStruct p n fs) = Ret (Inr meta)" "no_special meta" "length vs = length fs"
    and zero: "\<And>i. i < length fs \<Longrightarrow> i \<notin> sfm_Index ` {m \<in> set (coded meta). \<not> sfm_Ignore m} \<Longrightarrow> vs ! i = zero_field (h_Zero h) (fs ! i)"
    and labels: "list_all2 (\<lambda>m l. label_ok h (ftype m) (vs ! sfm_Index m) l) (sm_Labels meta) ls"
    and attrs: "\<And>m. m \<in> set (sm_Attrs meta) \<Longrightarrow> \<not> skipped (h_Zero h) vs m \<Longrightarrow> attr_ok h (ftype m) (vs ! sfm_Index m)"
    and ignored: "\<And>m. m \<in> set (sm_Attrs meta) \<Longrightarrow> sfm_Ignore m \<Longrightarrow> sfm_Optional m"
    and kids: "\<And>m. m \<in> set (sm_Blocks meta) \<Longrightarrow> kids_ok h hook body_of fs vs m (ks m)"
    and body: "hb_Labels block = ls" "hb_Body block = body_of (WBlock nm lb (written_attrs (h_Zero h) vs (sm_Attrs meta)) (concat (map ks (sm_Blocks meta))))"
  shows "decode_struct h (dec_one h fs) (dec_many h fs) ty (TStruct p n fs) (zero_val (h_Zero h) (TStruct p n fs)) block = Ret (VStruct vs, [])"
proof -
  note wf = getStructMeta_wf [OF assms(3)]
  let ?z = "h_Zero h" and ?as = "written_attrs (h_Zero h) vs (sm_Attrs meta)" and ?bs = "concat (map ks (sm_Blocks meta))"
  have parts: "list_all (\<lambda>m. sfm_Index m < length fs \<and> sfm_Reflect m = fs ! sfm_Index m) (sm_Labels meta)" "distinct (map sfm_Index (sm_Labels meta))"
    "list_all (\<lambda>m. sfm_Index m < length fs \<and> sfm_Reflect m = fs ! sfm_Index m) (sm_Blocks meta)" "distinct (map sfm_Index (sm_Blocks meta))"
    "list_all (\<lambda>m. sfm_Index m < length fs \<and> sfm_Reflect m = fs ! sfm_Index m) (sm_Attrs meta)" "distinct (map sfm_Index (sm_Attrs meta))"
    "distinct (map sfm_Name (sm_Blocks meta))" "distinct (map sfm_Name (sm_Attrs meta))"
    and disj: "sfm_Index ` set (sm_Labels meta) \<inter> sfm_Index ` set (sm_Blocks meta) = {}" "sfm_Index ` set (sm_Attrs meta) \<inter> (sfm_Index ` set (sm_Labels meta) \<union> sfm_Index ` set (sm_Blocks meta)) = {}"
    using wf by (auto simp: wf_meta_def coded_def)
  have mappable: "\<forall>(n, t, v) \<in> set ?as. \<exists>c. h_MapTo h t v = Inr c" using attrs by (auto simp: written_attrs_def attr_ok_def)
  obtain as ds where content: "h_Content h (hb_Body block) (sm_BodySchema meta) = (\<lparr>hc_Attributes = as, hc_Blocks = map (read_block body_of) ?bs\<rparr>, ds)" "\<not> HasErrors ds"
      "distinct (map fst as)" "fst ` set as = fst ` set ?as"
      "\<forall>(n, e) \<in> set as. \<forall>t v c. (n, t, v) \<in> set ?as \<longrightarrow> h_MapTo h t v = Inr c \<longrightarrow> (\<exists>ds. h_Value h e = (c, ds) \<and> \<not> HasErrors ds)"
    using assms(2) [unfolded reads_back_def, THEN spec, THEN spec, THEN mp, OF conjI [OF accepts_contents [OF wf kids ignored, of nm lb]]] mappable body(2) by auto
  have checks: "check_blocks (sm_Blocks meta) (map (read_block body_of) ?bs) = []"
    by (rule check_blocks_ok) (use OfType_concat [OF parts(7), of ks _ body_of] kids in \<open>auto simp: kids_ok_def\<close>)
  have "decode_labels h (sm_Labels meta) 0 ls (VStruct (filled ?z fs vs {})) = Ret (VStruct (filled ?z fs vs (sfm_Index ` set (sm_Labels meta))), [])"
    using decode_labels_ok [OF parts(2,1), of h vs 0 ls "{}"] labels by simp
  moreover have "decode_blocks (dec_one h fs) (dec_many h fs) (sm_Blocks meta) (map (read_block body_of) ?bs) (VStruct (filled ?z fs vs (sfm_Index ` set (sm_Labels meta)))) =
      Ret (VStruct (filled ?z fs vs (sfm_Index ` set (sm_Labels meta) \<union> sfm_Index ` set (sm_Blocks meta))), [])"
    by (rule decode_blocks_ok [OF parts(7,4,3)]) (use kids parts(4) disj(1) in \<open>auto simp: kids_ok_def skipped_def\<close>)
  moreover have "decode_attrs h (sm_Attrs meta) as (VStruct (filled ?z fs vs (sfm_Index ` set (sm_Labels meta) \<union> sfm_Index ` set (sm_Blocks meta)))) = Ret (VStruct vs, [])"
  proof -
    let ?D = "sfm_Index ` set (sm_Labels meta) \<union> sfm_Index ` set (sm_Blocks meta)"
    have "\<exists>m c ds. m \<in> set (sm_Attrs meta) \<and> sfm_Name m = x \<and> \<not> sfm_Ignore m \<and> sfm_Index m \<notin> ?D \<and> h_Value h e = (c, ds) \<and> \<not> HasErrors ds \<and>
        h_MapFrom h c (ftype m) (zero_val ?z (ftype m)) = Inr (vs ! sfm_Index m)" if xe: "(x, e) \<in> set as" for x e
    proof -
      have "x \<in> fst ` set ?as" using content(4) xe by (metis fst_conv image_eqI)
      then obtain m where m: "m \<in> set (sm_Attrs meta)" "\<not> skipped ?z vs m" "sfm_Name m = x" "(x, ftype m, vs ! sfm_Index m) \<in> set ?as"
        by (auto simp: written_attrs_def)
      obtain c where c: "h_MapTo h (ftype m) (vs ! sfm_Index m) = Inr c" "h_MapFrom h c (ftype m) (zero_val ?z (ftype m)) = Inr (vs ! sfm_Index m)"
        using attrs [OF m(1,2)] by (auto simp: attr_ok_def)
      obtain ds where "h_Value h e = (c, ds)" "\<not> HasErrors ds" using content(5) xe m(4) c(1) by blast
      then show ?thesis using m c(2) disj(2) by (intro exI [of _ m] exI [of _ c] exI [of _ ds]) (auto simp: skipped_def)
    qed
    then have "decode_attrs h (sm_Attrs meta) as (VStruct (filled ?z fs vs ?D)) =
        Ret (VStruct (filled ?z fs vs (?D \<union> sfm_Index ` {m \<in> set (sm_Attrs meta). sfm_Name m \<in> fst ` set as})), [])"
      by (intro decode_attrs_ok [OF assms(1) parts(8,6,5) content(3)]) (auto simp: list_all_iff)
    also have "filled ?z fs vs (?D \<union> sfm_Index ` {m \<in> set (sm_Attrs meta). sfm_Name m \<in> fst ` set as}) = vs"
    proof (rule filled_all [OF assms(5)])
      fix i assume i: "i < length fs" "i \<notin> ?D \<union> sfm_Index ` {m \<in> set (sm_Attrs meta). sfm_Name m \<in> fst ` set as}"
      show "vs ! i = zero_field ?z (fs ! i)"
      proof (cases "i \<in> sfm_Index ` {m \<in> set (coded meta). \<not> sfm_Ignore m}")
        case True
        then obtain m where m: "m \<in> set (sm_Attrs meta)" "\<not> sfm_Ignore m" "sfm_Index m = i" using i(2) by (auto simp: coded_def)
        then have "sfm_Name m \<notin> fst ` set ?as" using i(2) content(4) by blast
        then have "skipped ?z vs m" using m(1) by (force simp: written_attrs_def image_iff)
        then show ?thesis using m parts(5) by (auto simp: skipped_def canBeSkipped_def list_all_iff zero_field_type split: if_splits)
      qed (rule zero [OF i(1)])
    qed
    finally show ?thesis .
  qed
  moreover have "zero_val ?z (TStruct p n fs) = VStruct (filled ?z fs vs {})" by (simp add: filled_empty)
  ultimately show ?thesis unfolding decode_struct_def assms(3)
    using assms(1,4) content(1,2) checks body(1) by (simp add: no_special_def no_hooks_def set_opt_def)
qed

subsection \<open>The round trip\<close>

definition contents :: "('b, 'e, 'c, 'x) hcl_env \<Rightarrow> (gtype \<Rightarrow> 'x gval \<Rightarrow> 'x wblock \<Rightarrow> 'x wblock \<times> diag list) \<Rightarrow> ('x wblock \<Rightarrow> 'b) \<Rightarrow> gtype \<Rightarrow> 'x gval \<Rightarrow> string list \<Rightarrow>
    gtype \<Rightarrow> gfield list \<Rightarrow> structMeta \<Rightarrow> 'x gval list \<Rightarrow> ('x gval \<Rightarrow> 'x gval) \<Rightarrow> (string \<times> gtype \<times> 'x gval) list \<Rightarrow> 'x wblock list \<Rightarrow> bool" where
  "contents h hook body_of ty v ls st fs meta vs up as bs \<longleftrightarrow> (\<exists>p n. st = TStruct p n fs) \<and> derefType ty = Ret st \<and> getStructMeta st = Ret (Inr meta) \<and>
     list_all2 (\<lambda>m l. sfm_Index m < length vs \<and> label_ok h (ftype m) (vs ! sfm_Index m) l) (sm_Labels meta) ls \<and> up (VStruct vs) = v \<and>
     (\<forall>s. \<exists>s'. derefValue (h_Zero h) s ty v = Some (s', st, VStruct vs, up)) \<and>
     derefValue (h_Zero h) True ty (zero_val (h_Zero h) ty) = Some (True, st, zero_val (h_Zero h) st, up) \<and>
     (\<forall>s nm lb. encode_fields h hook (enc_one h hook s fs) (enc_many h hook s fs) st meta (VStruct vs) (WBlock nm lb [] []) = Ret (WBlock nm lb as bs, [])) \<and>
     (\<forall>ty tn nm lb. decode_struct h (dec_one h fs) (dec_many h fs) ty st (zero_val (h_Zero h) st)
        \<lparr>hb_Type = tn, hb_Labels = ls, hb_Body = body_of (WBlock nm lb as bs)\<rparr> = Ret (VStruct vs, []))"

lemma contents_ptr:
  assumes "contents h hook body_of t v ls st fs meta vs up as bs"
  shows "contents h hook body_of (TPtr t) (VPtr (Some v)) ls st fs meta vs (\<lambda>y. VPtr (Some (up y))) as bs"
proof -
  obtain s' where "derefValue (h_Zero h) True t v = Some (s', st, VStruct vs, up)" using assms unfolding contents_def by blast
  then show ?thesis using assms unfolding contents_def by simp
qed

lemma contents_named:
  assumes "no_hooks h hook" "contents h hook body_of ty v ls st fs meta vs up as bs" "name \<noteq> []"
  shows "labels = None \<or> labels = Some ls \<Longrightarrow> encodeSingleBlock h hook s ty v name labels body = Ret (add_blocks body [WBlock name ls as bs], [])"
    and "decodeSingleBlock h True ty (zero_val (h_Zero h) ty) (read_block body_of (WBlock name ls as bs)) = Ret (v, [])"
proof -
  obtain p n where st: "st = TStruct p n fs" using assms(2) by (auto simp: contents_def)
  have l: "encode_labels h (sm_Labels meta) (VStruct vs) [] = Ret (Inr ls)" using assms(2) encode_labels_ok [of vs h "sm_Labels meta" ls "[]"] by (simp add: contents_def)
  obtain s' where d: "derefValue (h_Zero h) s ty v = Some (s', st, VStruct vs, up)" using assms(2) unfolding contents_def by blast
  have f: "encode_fields h hook (enc_one h hook s' fs) (enc_many h hook s' fs) st meta (VStruct vs) (WBlock name ls [] []) = Ret (WBlock name ls as bs, [])"
    "getStructMeta st = Ret (Inr meta)" using assms(2) unfolding contents_def by blast+
  show "encodeSingleBlock h hook s ty v name labels body = Ret (add_blocks body [WBlock name ls as bs], [])" if "labels = None \<or> labels = Some ls"
    using encode_single_struct [OF d [unfolded st]] f [unfolded st] l assms(3) that by (auto simp: encode_struct_def)
  have d2: "derefValue (h_Zero h) True ty (zero_val (h_Zero h) ty) = Some (True, TStruct p n fs, zero_val (h_Zero h) st, up)" "up (VStruct vs) = v"
    "decode_struct h (dec_one h fs) (dec_many h fs) ty (TStruct p n fs) (zero_val (h_Zero h) st) \<lparr>hb_Type = name, hb_Labels = ls, hb_Body = body_of (WBlock name ls as bs)\<rparr> =
      Ret (VStruct vs, [])"
    using assms(2) unfolding contents_def st by blast+
  then show "decodeSingleBlock h True ty (zero_val (h_Zero h) ty) (read_block body_of (WBlock name ls as bs)) = Ret (v, [])"
    by (simp add: decode_single_struct [OF d2(1)] read_block_def)
qed

text \<open>The elements of a slice or a map.\<close>

definition elem_ok :: "('b, 'e, 'c, 'x) hcl_env \<Rightarrow> (gtype \<Rightarrow> 'x gval \<Rightarrow> 'x wblock \<Rightarrow> 'x wblock \<times> diag list) \<Rightarrow> ('x wblock \<Rightarrow> 'b) \<Rightarrow> gtype \<Rightarrow> 'x gval \<Rightarrow> string list \<Rightarrow> bool" where
  "elem_ok h hook body_of ty v ls \<longleftrightarrow> (\<exists>st fs meta vs up as bs. contents h hook body_of ty v ls st fs meta vs up as bs)"

lemma elem_block:
  assumes "no_hooks h hook" "elem_ok h hook body_of t x ls" "name \<noteq> []"
  shows "\<exists>b. (\<forall>s labels body. labels = None \<or> labels = Some ls \<longrightarrow> encodeSingleBlock h hook s t x name labels body = Ret (add_blocks body [b], [])) \<and>
    wb_TypeName b = name \<and> wb_Labels b = ls \<and> decodeSingleBlock h True t (zero_val (h_Zero h) t) (read_block body_of b) = Ret (x, []) \<and>
    decodeSingleBlock h False (TPtr t) (VPtr (Some (zero_val (h_Zero h) t))) (read_block body_of b) = Ret (VPtr (Some x), []) \<and>
    (\<exists>p n fs meta. derefType t = Ret (TStruct p n fs) \<and> getStructMeta (TStruct p n fs) = Ret (Inr meta) \<and> length ls = length (sm_Labels meta))"
proof -
  obtain st fs meta vs up as bs where c: "contents h hook body_of t x ls st fs meta vs up as bs" using assms(2) unfolding elem_ok_def by blast
  obtain p n where st: "st = TStruct p n fs" using c by (auto simp: contents_def)
  have d: "derefValue (h_Zero h) True t (zero_val (h_Zero h) t) = Some (True, TStruct p n fs, zero_val (h_Zero h) st, up)" using c by (simp add: contents_def st)
  note dec = contents_named(2) [OF assms(1) c assms(3)]
  have "decodeSingleBlock h False (TPtr t) (VPtr (Some (zero_val (h_Zero h) t))) (read_block body_of (WBlock name ls as bs)) = Ret (VPtr (Some x), [])"
    by (simp add: decode_ptr [OF assms(1) d] dec)
  moreover have "derefType t = Ret (TStruct p n fs) \<and> getStructMeta (TStruct p n fs) = Ret (Inr meta) \<and> length ls = length (sm_Labels meta)"
    using c by (auto simp: contents_def st dest: list_all2_lengthD)
  ultimately show ?thesis using contents_named(1) [OF assms(1) c assms(3)] dec by (intro exI [of _ "WBlock name ls as bs"]) auto
qed

definition elems_ok :: "('b, 'e, 'c, 'x) hcl_env \<Rightarrow> (gtype \<Rightarrow> 'x gval \<Rightarrow> 'x wblock \<Rightarrow> 'x wblock \<times> diag list) \<Rightarrow> ('x wblock \<Rightarrow> 'b) \<Rightarrow> gtype \<Rightarrow> 'x gval \<Rightarrow> string \<Rightarrow> 'x wblock list \<Rightarrow> bool" where
  "elems_ok h hook body_of ty v name ks \<longleftrightarrow> (\<forall>s body. encodeMultipleBlocks h hook s ty v name body = Ret (add_blocks body ks, [])) \<and> list_all (\<lambda>k. wb_TypeName k = name) ks \<and>
     decode_run (decodeMultipleBlocks h ty) (zero_val (h_Zero h) ty) (map (read_block body_of) ks) = Ret (v, []) \<and>
     (\<forall>k \<in> set ks. \<exists>p n fs meta. derefType (elem_type ty) = Ret (TStruct p n fs) \<and> getStructMeta (TStruct p n fs) = Ret (Inr meta) \<and> length (wb_Labels k) = length (sm_Labels meta))"

lemma encode_elems_ok:
  "list_all2 (\<lambda>(lo, x) k. \<forall>body. elem x lo body = Ret (add_blocks body [k], [])) ws ks \<Longrightarrow> encode_elems elem ws body = Ret (add_blocks body ks, [])"
proof (induction ws ks arbitrary: body rule: list_all2_induct)
  case (Cons w ws k ks)
  obtain lo x where "w = (lo, x)" by force
  then show ?case using Cons by simp
qed simp

lemma elems_ok_nil:
  "elems_ok h hook body_of (TSlice q t) (VSlice None) name []" "elems_ok h hook body_of (TMap q (TString []) t) (VMap None) name []"
  by (simp_all add: elems_ok_def encodeMultipleBlocks.simps encode_multiple_def)

lemma decode_slice_run:
  assumes "list_all2 (\<lambda>x k. decodeSingleBlock h False (TPtr t) (VPtr (Some (zero_val (h_Zero h) t))) (read_block body_of k) = Ret (VPtr (Some x), [])) xs ks"
  shows "decode_run (decodeMultipleBlocks h (TSlice q t)) (VSlice (Some acc)) (map (read_block body_of) ks) = Ret (VSlice (Some (acc @ xs)), [])"
  using assms by (induction xs ks arbitrary: acc rule: list_all2_induct) (simp_all add: decodeMultipleBlocks.simps decode_elem_def elem_type_def)

lemma decode_nil: "decodeMultipleBlocks h (TSlice q t) (VSlice None) b = decodeMultipleBlocks h (TSlice q t) (VSlice (Some [])) b"
  by (simp add: decodeMultipleBlocks.simps decode_elem_def)

lemma elems_ok_slice:
  assumes "no_hooks h hook" "xs \<noteq> []" "\<And>x. x \<in> set xs \<Longrightarrow> elem_ok h hook body_of t x (lab x)" "name \<noteq> []"
  shows "\<exists>ks. elems_ok h hook body_of (TSlice q t) (VSlice (Some xs)) name ks"
proof -
  let ?P = "\<lambda>x b. (\<forall>s labels body. labels = None \<or> labels = Some (lab x) \<longrightarrow> encodeSingleBlock h hook s t x name labels body = Ret (add_blocks body [b], [])) \<and>
    wb_TypeName b = name \<and> decodeSingleBlock h False (TPtr t) (VPtr (Some (zero_val (h_Zero h) t))) (read_block body_of b) = Ret (VPtr (Some x), []) \<and>
    (\<exists>p n fs meta. derefType t = Ret (TStruct p n fs) \<and> getStructMeta (TStruct p n fs) = Ret (Inr meta) \<and> length (wb_Labels b) = length (sm_Labels meta))"
  have "\<forall>x \<in> set xs. \<exists>b. ?P x b" using elem_block [OF assms(1) assms(3) assms(4)] by metis
  then obtain f where f: "\<forall>x \<in> set xs. ?P x (f x)" by (rule bchoice [THEN exE])
  let ?ks = "map f xs"
  have enc: "encodeMultipleBlocks h hook s (TSlice q t) (VSlice (Some xs)) name body = Ret (add_blocks body ?ks, [])" for s body
    using f by (simp add: encodeMultipleBlocks.simps encode_multiple_def elem_type_def, intro encode_elems_ok) (simp add: list_all2_conv_all_nth)
  have l2: "list_all2 (\<lambda>x k. decodeSingleBlock h False (TPtr t) (VPtr (Some (zero_val (h_Zero h) t))) (read_block body_of k) = Ret (VPtr (Some x), [])) xs ?ks"
    using f by (simp add: list_all2_conv_all_nth)
  have "decode_run (decodeMultipleBlocks h (TSlice q t)) (VSlice None) (map (read_block body_of) ?ks) = decode_run (decodeMultipleBlocks h (TSlice q t)) (VSlice (Some [])) (map (read_block body_of) ?ks)"
    using assms(2) by (cases xs) (simp_all add: decode_nil)
  then have "elems_ok h hook body_of (TSlice q t) (VSlice (Some xs)) name ?ks"
    unfolding elems_ok_def using enc f decode_slice_run [OF l2, of q "[]"] by (simp add: list_all_iff elem_type_def)
  then show ?thesis by blast
qed

lemma read_block_Labels [simp]: "hb_Labels (read_block body_of k) = wb_Labels k"
  by (simp add: read_block_def)

lemma decode_map_run:
  assumes "list_all2 (\<lambda>(k, x) b. wb_Labels b = [k] \<and> decodeSingleBlock h False (TPtr t) (VPtr (Some (zero_val (h_Zero h) t))) (read_block body_of b) = Ret (VPtr (Some x), [])) kvs ks"
  shows "distinct (map fst (acc @ kvs)) \<Longrightarrow>
    decode_run (decodeMultipleBlocks h (TMap q (TString []) t)) (VMap (Some acc)) (map (read_block body_of) ks) = Ret (VMap (Some (acc @ kvs)), [])"
  using assms
proof (induction kvs ks arbitrary: acc rule: list_all2_induct)
  case (Cons kx kvs b ks)
  obtain k x where kx: "kx = (k, x)" by force
  have "map_of acc k = None" using Cons.prems kx by (auto simp: map_of_eq_None_iff)
  then have "decodeMultipleBlocks h (TMap q (TString []) t) (VMap (Some acc)) (read_block body_of b) = Ret (VMap (Some (acc @ [(k, x)])), [])"
    using Cons.hyps(1) kx by (simp add: decodeMultipleBlocks.simps decode_elem_def elem_type_def)
  then show ?case using Cons.IH [of "acc @ [(k, x)]"] Cons.prems kx by simp
qed simp

lemma decode_nil_map:
  "decodeMultipleBlocks h (TMap q (TString []) t) (VMap None) (read_block body_of b) = decodeMultipleBlocks h (TMap q (TString []) t) (VMap (Some [])) (read_block body_of b)"
  if "length (wb_Labels b) = 1"
  using that by (simp add: decodeMultipleBlocks.simps decode_elem_def)

lemma elems_ok_map:
  assumes "no_hooks h hook" "kvs \<noteq> []" "distinct (map fst kvs)" "sorted (map fst kvs)" "\<And>k x. (k, x) \<in> set kvs \<Longrightarrow> elem_ok h hook body_of t x [k]" "name \<noteq> []"
  shows "\<exists>ks. elems_ok h hook body_of (TMap q (TString []) t) (VMap (Some kvs)) name ks"
proof -
  let ?P = "\<lambda>kx b. (\<forall>s labels body. labels = None \<or> labels = Some [fst kx] \<longrightarrow> encodeSingleBlock h hook s t (snd kx) name labels body = Ret (add_blocks body [b], [])) \<and>
    wb_TypeName b = name \<and> wb_Labels b = [fst kx] \<and> decodeSingleBlock h False (TPtr t) (VPtr (Some (zero_val (h_Zero h) t))) (read_block body_of b) = Ret (VPtr (Some (snd kx)), []) \<and>
    (\<exists>p n fs meta. derefType t = Ret (TStruct p n fs) \<and> getStructMeta (TStruct p n fs) = Ret (Inr meta) \<and> length (wb_Labels b) = length (sm_Labels meta))"
  have "\<forall>kx \<in> set kvs. \<exists>b. ?P kx b"
  proof
    fix kx assume "kx \<in> set kvs"
    then have "elem_ok h hook body_of t (snd kx) [fst kx]" using assms(5) [of "fst kx" "snd kx"] by simp
    from elem_block [OF assms(1) this assms(6)] show "\<exists>b. ?P kx b" by metis
  qed
  then obtain f where f: "\<forall>kx \<in> set kvs. ?P kx (f kx)" by (rule bchoice [THEN exE])
  let ?ks = "map f kvs"
  have sorted: "sort_key fst kvs = kvs" using assms(4) by (rule sort_key_id_if_sorted)
  have enc: "encodeMultipleBlocks h hook s (TMap q (TString []) t) (VMap (Some kvs)) name body = Ret (add_blocks body ?ks, [])" for s body
    using f by (simp add: encodeMultipleBlocks.simps encode_multiple_def elem_type_def sorted, intro encode_elems_ok) (auto simp: list_all2_conv_all_nth case_prod_beta)
  have l2: "list_all2 (\<lambda>(k, x) b. wb_Labels b = [k] \<and> decodeSingleBlock h False (TPtr t) (VPtr (Some (zero_val (h_Zero h) t))) (read_block body_of b) = Ret (VPtr (Some x), [])) kvs ?ks"
    using f by (auto simp: list_all2_conv_all_nth case_prod_beta)
  have "decode_run (decodeMultipleBlocks h (TMap q (TString []) t)) (VMap None) (map (read_block body_of) ?ks) =
      decode_run (decodeMultipleBlocks h (TMap q (TString []) t)) (VMap (Some [])) (map (read_block body_of) ?ks)"
    using assms(2) f by (cases kvs) (simp_all add: decode_nil_map)
  then have "elems_ok h hook body_of (TMap q (TString []) t) (VMap (Some kvs)) name ?ks"
    unfolding elems_ok_def using enc f decode_map_run [OF l2, of "[]" q] assms(3) by (intro conjI) (auto simp: list_all_iff elem_type_def)
  then show ?thesis by blast
qed

text \<open>Every codable value can be encoded and decoded.\<close>

lemma struct_field_kids:
  assumes "no_hooks h hook" "wf_meta fs meta" "length vs = length fs" "m \<in> set (sm_Blocks meta)" "sfm_Name m \<noteq> []"
    and zero: "\<And>i. i < length fs \<Longrightarrow> i \<notin> sfm_Index ` {m \<in> set (coded meta). \<not> sfm_Ignore m} \<Longrightarrow> vs ! i = zero_field (h_Zero h) (fs ! i)"
    and single: "\<not> skipped (h_Zero h) vs m \<Longrightarrow> \<not> sfm_Multiple m \<Longrightarrow> elem_ok h hook body_of (ftype m) (vs ! sfm_Index m) (lab m)"
    and multiple: "\<not> skipped (h_Zero h) vs m \<Longrightarrow> sfm_Multiple m \<Longrightarrow> \<exists>ks. elems_ok h hook body_of (ftype m) (vs ! sfm_Index m) (sfm_Name m) ks"
    and direct: "\<not> skipped (h_Zero h) vs m \<Longrightarrow> sfm_Multiple m \<Longrightarrow> derefType (ftype m) = Ret (ftype m)"
  shows "\<exists>ks. kids_ok h hook body_of fs vs m ks"
proof -
  have m: "sfm_Index m < length fs" "sfm_Reflect m = fs ! sfm_Index m" "block_field m" using assms(2,4) by (auto simp: wf_meta_def coded_def list_all_iff)
  consider (skip) "skipped (h_Zero h) vs m" | (one) "\<not> skipped (h_Zero h) vs m" "\<not> sfm_Multiple m" | (many) "\<not> skipped (h_Zero h) vs m" "sfm_Multiple m" by blast
  then show ?thesis
  proof cases
    case skip
    have "vs ! sfm_Index m = zero_val (h_Zero h) (ftype m)"
    proof (cases "sfm_Ignore m")
      case True
      have "sfm_Index m \<notin> sfm_Index ` {m \<in> set (coded meta). \<not> sfm_Ignore m}"
      proof
        assume "sfm_Index m \<in> sfm_Index ` {m \<in> set (coded meta). \<not> sfm_Ignore m}"
        then obtain m' where "m' \<in> set (coded meta)" "\<not> sfm_Ignore m'" "sfm_Index m' = sfm_Index m" by auto
        moreover have "m \<in> set (coded meta)" "distinct (map sfm_Index (coded meta))" using assms(2,4) by (auto simp: wf_meta_def coded_def)
        ultimately show False using True by (metis distinct_map inj_onD)
      qed
      then show ?thesis using zero [OF m(1)] m(2) by (simp add: zero_field_type)
    next
      case False
      then show ?thesis using skip by (auto simp: skipped_def canBeSkipped_def split: if_splits)
    qed
    then show ?thesis using skip by (intro exI [of _ "[]"]) (auto simp: kids_ok_def skipped_def)
  next
    case one
    obtain b where b: "\<forall>s labels body. labels = None \<or> labels = Some (lab m) \<longrightarrow> encodeSingleBlock h hook s (ftype m) (vs ! sfm_Index m) (sfm_Name m) labels body = Ret (add_blocks body [b], [])"
        "wb_TypeName b = sfm_Name m" "wb_Labels b = lab m" "decodeSingleBlock h True (ftype m) (zero_val (h_Zero h) (ftype m)) (read_block body_of b) = Ret (vs ! sfm_Index m, [])"
        "\<exists>p n fs meta. derefType (ftype m) = Ret (TStruct p n fs) \<and> getStructMeta (TStruct p n fs) = Ret (Inr meta) \<and> length (lab m) = length (sm_Labels meta)"
      using elem_block [OF assms(1) single [OF one] assms(5)] by blast
    have "length ls = length (lab m)" if "struct_labels m ls" for ls
      using b(5) m(3) one(2) struct_labels_meta [OF _ _ that] by (auto simp: block_field_def)
    then have "kids_ok h hook body_of fs vs m [b]"
      using b m one by (simp add: kids_ok_def enc_one_def block_decoder_def dec_one_def)
    then show ?thesis by blast
  next
    case many
    obtain ks where ks: "elems_ok h hook body_of (ftype m) (vs ! sfm_Index m) (sfm_Name m) ks" using multiple [OF many] by blast
    have "length ls = length (wb_Labels k)" if sl: "struct_labels m ls" and kk: "k \<in> set ks" for ls k
    proof -
      obtain p n fs' meta' where "derefType (elem_type (ftype m)) = Ret (TStruct p n fs')" "getStructMeta (TStruct p n fs') = Ret (Inr meta')" "length (wb_Labels k) = length (sm_Labels meta')"
        using ks kk unfolding elems_ok_def by blast
      moreover have "sfm_StructReflect m = Some (TStruct p n fs')" using m(3) many(2) direct [OF many] calculation(1) by (auto simp: block_field_def)
      ultimately show ?thesis using struct_labels_meta [OF _ _ sl] by simp
    qed
    then have "kids_ok h hook body_of fs vs m ks"
      using ks m many by (simp add: kids_ok_def elems_ok_def enc_many_def block_decoder_def dec_many_def)
    then show ?thesis by blast
  qed
qed

lemma codable_ok:
  assumes "no_hooks h hook" "reads_back h body_of"
  shows "codable h t v ls \<Longrightarrow> elem_ok h hook body_of t v ls"
    and "codable_elems h t v \<Longrightarrow> derefType t = Ret t \<and> (\<forall>name. name \<noteq> [] \<longrightarrow> (\<exists>ks. elems_ok h hook body_of t v name ks))"
proof (induction rule: codable_codable_elems.inducts)
  case (cod_ptr t v ls)
  then show ?case unfolding elem_ok_def using contents_ptr by blast
next
  case (cod_struct p n fs meta vs ls lab)
  note wf = getStructMeta_wf [OF cod_struct.hyps(1)]
  have zero: "vs ! i = zero_field (h_Zero h) (fs ! i)" if "i < length fs" "i \<notin> sfm_Index ` {m \<in> set (coded meta). \<not> sfm_Ignore m}" for i
    using cod_struct that by blast
  have single: "elem_ok h hook body_of (ftype m) (vs ! sfm_Index m) (lab m)"
    if "m \<in> set (sm_Blocks meta)" "\<not> skipped (h_Zero h) vs m" "\<not> sfm_Multiple m" for m using cod_struct that by blast
  have multiple: "derefType (ftype m) = Ret (ftype m) \<and> (\<forall>name. name \<noteq> [] \<longrightarrow> (\<exists>ks. elems_ok h hook body_of (ftype m) (vs ! sfm_Index m) name ks))"
    if "m \<in> set (sm_Blocks meta)" "\<not> skipped (h_Zero h) vs m" "sfm_Multiple m" for m using cod_struct that by blast
  have attrs: "attr_ok h (ftype m) (vs ! sfm_Index m)" if "m \<in> set (sm_Attrs meta)" "\<not> skipped (h_Zero h) vs m" for m using cod_struct that by blast
  have labels: "list_all2 (\<lambda>m l. label_ok h (ftype m) (vs ! sfm_Index m) l) (sm_Labels meta) ls" using cod_struct by blast
  have named: "sfm_Name m \<noteq> []" if "m \<in> set (sm_Blocks meta)" for m using cod_struct that by blast
  have "\<exists>ks. kids_ok h hook body_of fs vs m ks" if m: "m \<in> set (sm_Blocks meta)" for m
    by (rule struct_field_kids [OF assms(1) wf cod_struct.hyps(3) m named [OF m]])
      (use zero single [OF m] multiple [OF m] named [OF m] in auto)
  then obtain ks where ks: "\<And>m. m \<in> set (sm_Blocks meta) \<Longrightarrow> kids_ok h hook body_of fs vs m (ks m)" by metis
  let ?as = "written_attrs (h_Zero h) vs (sm_Attrs meta)" and ?bs = "concat (map ks (sm_Blocks meta))"
  have "encode_fields h hook (enc_one h hook s fs) (enc_many h hook s fs) (TStruct p n fs) meta (VStruct vs) (WBlock nm lb [] []) = Ret (WBlock nm lb ?as ?bs, [])" for s nm lb
    by (rule encode_contents [OF assms(1) wf cod_struct.hyps(3) ks])
  moreover have "decode_struct h (dec_one h fs) (dec_many h fs) ty (TStruct p n fs) (zero_val (h_Zero h) (TStruct p n fs))
      \<lparr>hb_Type = tn, hb_Labels = ls, hb_Body = body_of (WBlock nm lb ?as ?bs)\<rparr> = Ret (VStruct vs, [])" for ty tn nm lb
    by (rule decode_contents [OF assms cod_struct.hyps(1-3) _ labels _ _ ks, of _ nm lb]) (use zero attrs cod_struct.hyps(4) in auto)
  moreover have "list_all2 (\<lambda>m l. sfm_Index m < length vs \<and> label_ok h (ftype m) (vs ! sfm_Index m) l) (sm_Labels meta) ls"
    using cod_struct.hyps(3) labels wf by (auto simp: wf_meta_def coded_def list_all_iff list_all2_conv_all_nth)
  ultimately have "contents h hook body_of (TStruct p n fs) (VStruct vs) ls (TStruct p n fs) fs meta vs (\<lambda>y. y) ?as ?bs"
    using cod_struct.hyps(1) unfolding contents_def by simp
  then show ?case unfolding elem_ok_def by blast
next
  case (cod_slice_nil q t)
  show ?case by (auto intro: elems_ok_nil(1))
next
  case (cod_slice xs t lab q)
  then show ?case using elems_ok_slice [OF assms(1), of xs body_of t lab _ q] by auto
next
  case (cod_map_nil q t)
  show ?case by (auto intro: elems_ok_nil(2))
next
  case (cod_map kvs t q)
  then show ?case using elems_ok_map [OF assms(1), of kvs body_of t _ q] by auto
qed

subsection \<open>An environment and a configuration\<close>

text \<open>Bodies are the written blocks themselves, and all values are strings.\<close>

definition ex_env :: "(string wblock, string, string, string) hcl_env" where
  "ex_env = \<lparr>
     h_Content = (\<lambda>b sc. (\<lparr>hc_Attributes = map (\<lambda>(n, t, v). (n, case v of VLeaf x \<Rightarrow> x | _ \<Rightarrow> [])) (wb_Attributes b), hc_Blocks = map (read_block (\<lambda>b. b)) (wb_Blocks b)\<rparr>, [])),
     h_PartialContent = (\<lambda>b sc. (\<lparr>hc_Attributes = [], hc_Blocks = []\<rparr>, None, diag_err [])),
     h_Value = (\<lambda>e. (e, [])), h_StringVal = (\<lambda>s. s), h_MapFrom = (\<lambda>c t v. Inr (VLeaf c)),
     h_MapTo = (\<lambda>t v. case v of VLeaf x \<Rightarrow> Inr x | _ \<Rightarrow> Inl ''not a string''), h_AsString = Some, h_Zero = (\<lambda>t. []),
     h_BodyVal = (\<lambda>b. VLeaf []), h_ContentVal = (\<lambda>c. VLeaf []), h_SchemaVal = (\<lambda>s. VLeaf []), h_RangeVal = (\<lambda>b. VLeaf []),
     h_PreDecodeBlock = (\<lambda>ty sc b c v. (v, [])), h_PostDecodeBlock = (\<lambda>ty sc b c v. (v, [])),
     h_PreDecodeAttribute = (\<lambda>ty a v. (v, [])), h_PostDecodeAttribute = (\<lambda>ty a v. (v, []))\<rparr>"

definition ex_hook :: "gtype \<Rightarrow> string gval \<Rightarrow> string wblock \<Rightarrow> string wblock \<times> diag list" where
  "ex_hook = (\<lambda>st v b. (b, []))"

lemma ex_env_no_hooks: "no_hooks ex_env ex_hook"
  by (simp add: no_hooks_def ex_env_def ex_hook_def)

lemma ex_env_reads_back: "reads_back ex_env (\<lambda>b. b)"
  unfolding reads_back_def
proof (intro allI impI)
  fix sc :: bodySchema and b :: "string wblock"
  let ?as = "map (\<lambda>(n, t, v). (n, case v of VLeaf x \<Rightarrow> x | _ \<Rightarrow> [])) (wb_Attributes b)"
  assume "accepts sc b \<and> (\<forall>(n, t, v)\<in>set (wb_Attributes b). \<exists>c. h_MapTo ex_env t v = Inr c)"
  then have d: "distinct (map fst (wb_Attributes b))" by (simp add: accepts_def)
  have names: "map fst ?as = map fst (wb_Attributes b)" by (simp add: case_prod_beta comp_def)
  have "h_Content ex_env b sc = (\<lparr>hc_Attributes = ?as, hc_Blocks = map (read_block (\<lambda>b. b)) (wb_Blocks b)\<rparr>, [])" by (simp add: ex_env_def)
  moreover have "distinct (map fst ?as)" unfolding names by (rule d)
  moreover have "fst ` set ?as = fst ` set (wb_Attributes b)" using names by (metis set_map)
  moreover have "\<exists>ds. h_Value ex_env e = (c, ds) \<and> \<not> HasErrors ds" if e: "(n, e) \<in> set ?as" "(n, t, v) \<in> set (wb_Attributes b)" "h_MapTo ex_env t v = Inr c" for n e t v c
  proof -
    obtain t' v' where v': "(n, t', v') \<in> set (wb_Attributes b)" "e = (case v' of VLeaf x \<Rightarrow> x | _ \<Rightarrow> [])" using e(1) by auto
    then have "(t', v') = (t, v)" using d e(2) by (metis eq_key_imp_eq_value)
    then have "e = c" using v'(2) e(3) by (cases v) (auto simp: ex_env_def)
    then show ?thesis by (simp add: ex_env_def HasErrors_simps)
  qed
  then have "\<forall>(n, e) \<in> set ?as. \<forall>t v c. (n, t, v) \<in> set (wb_Attributes b) \<longrightarrow> h_MapTo ex_env t v = Inr c \<longrightarrow> (\<exists>ds. h_Value ex_env e = (c, ds) \<and> \<not> HasErrors ds)"
    by (intro ballI case_prodI2 allI impI) simp
  ultimately show "\<exists>attrs ds. h_Content ex_env b sc = (\<lparr>hc_Attributes = attrs, hc_Blocks = map (read_block (\<lambda>b. b)) (wb_Blocks b)\<rparr>, ds) \<and> \<not> HasErrors ds \<and>
      distinct (map fst attrs) \<and> fst ` set attrs = fst ` set (wb_Attributes b) \<and>
      (\<forall>(n, e) \<in> set attrs. \<forall>t v c. (n, t, v) \<in> set (wb_Attributes b) \<longrightarrow> h_MapTo ex_env t v = Inr c \<longrightarrow> (\<exists>ds. h_Value ex_env e = (c, ds) \<and> \<not> HasErrors ds))"
    by (intro exI [of _ ?as] exI [of _ "[]"] conjI) (simp_all only: HasErrors_simps not_False_eq_True)
qed

text \<open>A configuration with a title, a slice of pointers to labelled blocks with an optional attribute, and a map of blocks.\<close>

definition limit_type :: gtype where
  "limit_type = TStruct ''cfg'' ''Limit'' [Field ''Key'' (Some '',label'') True (TString []), Field ''Rate'' (Some ''rate'') True (TString [])]"

definition server_type :: gtype where
  "server_type = TStruct ''cfg'' ''Server'' [Field ''Name'' (Some ''name,label'') True (TString []), Field ''Port'' (Some ''port,optional'') True (TString []),
     Field ''cache'' None False (TString [])]"

definition config_fields :: "gfield list" where
  "config_fields = [Field ''Title'' (Some ''title'') True (TString []), Field ''Servers'' (Some ''server,block'') True (TSlice [] (TPtr server_type)),
     Field ''Limits'' (Some ''limit,block'') True (TMap [] (TString []) limit_type)]"

definition config_value :: "string gval" where
  "config_value = VStruct [VLeaf ''main'', VSlice (Some [VPtr (Some (VStruct [VLeaf ''a'', VLeaf ''80'', VLeaf []])), VPtr (Some (VStruct [VLeaf ''b'', VLeaf [], VLeaf []]))]),
     VMap (Some [(''x'', VStruct [VLeaf ''x'', VLeaf ''5'']), (''y'', VStruct [VLeaf ''y'', VLeaf ''7''])])]"

definition ex_meta :: "string \<Rightarrow> field_type \<Rightarrow> bool \<Rightarrow> gtype option \<Rightarrow> nat \<Rightarrow> gfield \<Rightarrow> structFieldMeta" where
  "ex_meta name ty opt block i f = \<lparr>sfm_Name = name, sfm_Tagged = True, sfm_Type = ty, sfm_Optional = opt, sfm_Multiple = (block \<noteq> None), sfm_Ignore = False,
     sfm_Index = i, sfm_Reflect = f, sfm_StructReflect = block\<rparr>"

lemma limit_meta:
  "getStructMeta limit_type = Ret (Inr (new_meta\<lparr>sm_BodySchema := \<lparr>bs_Attributes = [(''rate'', True)], bs_Blocks = []\<rparr>,
     sm_Labels := [ex_meta ''Key'' fieldLabel False None 0 (Field ''Key'' (Some '',label'') True (TString []))],
     sm_Attrs := [ex_meta ''rate'' fieldAttr False None 1 (Field ''Rate'' (Some ''rate'') True (TString []))]\<rparr>))"
  by code_simp

lemma server_meta:
  "getStructMeta server_type = Ret (Inr (new_meta\<lparr>sm_BodySchema := \<lparr>bs_Attributes = [(''port'', False)], bs_Blocks = []\<rparr>,
     sm_Labels := [ex_meta ''name'' fieldLabel False None 0 (Field ''Name'' (Some ''name,label'') True (TString []))],
     sm_Attrs := [ex_meta ''port'' fieldAttr True None 1 (Field ''Port'' (Some ''port,optional'') True (TString []))]\<rparr>))"
  by code_simp

lemma config_meta:
  "getStructMeta (TStruct ''cfg'' ''Config'' config_fields) = Ret (Inr (new_meta\<lparr>
     sm_BodySchema := \<lparr>bs_Attributes = [(''title'', True)], bs_Blocks = [(''server'', [''name'']), (''limit'', [''Key''])]\<rparr>,
     sm_Attrs := [ex_meta ''title'' fieldAttr False None 0 (config_fields ! 0)],
     sm_Blocks := [ex_meta ''server'' fieldBlock False (Some server_type) 1 (config_fields ! 1), ex_meta ''limit'' fieldBlock False (Some limit_type) 2 (config_fields ! 2)]\<rparr>))"
  by code_simp

lemma ex_env_leaves [simp]: "attr_ok ex_env t (VLeaf x)" "label_ok ex_env t (VLeaf l) l" "h_Zero ex_env t = []"
  by (simp_all add: attr_ok_def label_ok_def ex_env_def)

lemma kept_index: "sfm_Index ` {m \<in> set ms. \<not> sfm_Ignore m} = set (map sfm_Index (filter (\<lambda>m. \<not> sfm_Ignore m) ms))"
  by auto

lemmas cod_struct_list = cod_struct [unfolded kept_index]

lemmas ex_struct_simps = ex_meta_def new_meta_def coded_def no_special_def skipped_def less_Suc_eq All_less_Suc

lemma limit_codable: "codable ex_env limit_type (VStruct [VLeaf k, VLeaf x]) [k]"
  unfolding limit_type_def
  by (rule cod_struct_list [OF limit_meta [unfolded limit_type_def]]) (simp_all add: ex_struct_simps)

lemma server_codable: "codable ex_env server_type (VStruct [VLeaf k, VLeaf x, VLeaf []]) [k]"
  unfolding server_type_def
  by (rule cod_struct_list [OF server_meta [unfolded server_type_def]]) (simp_all add: ex_struct_simps)

lemma config_codable: "codable ex_env (TStruct ''cfg'' ''Config'' config_fields) config_value []"
proof -
  let ?srv = "\<lambda>x. (case x of VPtr (Some (VStruct (VLeaf k # _))) \<Rightarrow> [k] | _ \<Rightarrow> [])"
  have "codable_elems ex_env (TSlice [] (TPtr server_type)) (VSlice (Some [VPtr (Some (VStruct [VLeaf ''a'', VLeaf ''80'', VLeaf []])), VPtr (Some (VStruct [VLeaf ''b'', VLeaf [], VLeaf []]))]))"
    by (rule cod_slice [where lab = ?srv]) (auto intro!: cod_ptr server_codable)
  moreover have "codable_elems ex_env (TMap [] (TString []) limit_type) (VMap (Some [(''x'', VStruct [VLeaf ''x'', VLeaf ''5'']), (''y'', VStruct [VLeaf ''y'', VLeaf ''7''])]))"
    by (rule cod_map) (auto intro!: limit_codable)
  ultimately show ?thesis unfolding config_value_def
    by (intro cod_struct_list [OF config_meta]) (auto simp: ex_struct_simps config_fields_def)
qed

subsection \<open>Panics\<close>

text \<open>The metadata of a block field of an interface type cannot be computed.\<close>

lemma block_interface_panics: "getStructFieldMeta i (Field n (Some ''x,block'') True (TIface p m t)) = Panic ''reflect: Elem of invalid type''"
  by (simp add: getStructFieldMeta_def new_field_meta_def tag_part_def block_struct_def)

text \<open>A map whose key type is a named string type can be encoded but not decoded.\<close>

lemma map_named_key_panics:
  assumes "q \<noteq> []"
  shows "decodeMultipleBlocks h (TMap p (TString q) t) v \<lparr>hb_Type = ty, hb_Labels = [l], hb_Body = b\<rparr> = Panic ''reflect.Value.MapIndex: value of type string is not assignable''"
  using assms by (simp add: decodeMultipleBlocks.simps decode_elem_def)

text \<open>A block with more labels than the struct has label fields.\<close>

lemma extra_label_panics:
  "DecodeBlock ex_env \<lparr>hb_Type = ''server'', hb_Labels = [''a'', ''b''], hb_Body = WBlock [] [] [] []\<rparr> (TPtr server_type) (VPtr (Some (zero_val (h_Zero ex_env) server_type))) =
     Panic ''index out of range''"
  by code_simp

subsection \<open>Properties\<close>



end
