(* ===== verification/Hcl_Include.thy ===== *)
theory Hcl_Include
  imports Hcl_Decode
begin

text \<open>
  Parsing of HCL files and the extension for includes (\<open>src/hcl/parse.go\<close> and \<open>src/hcl/ext/include/include.go\<close>).

  The file system is an interface value that the caller provides, and the HCL parser is not part of the repository:
  both are the functions of \<open>include_env\<close>, next to those of \<open>hcl_env\<close>. A nil body is \<open>None\<close>; the parser and the code
  return one together with an error only. Paths are those of Unix.
\<close>

subsection \<open>Definitions: paths\<close>

text \<open>\<open>filepath.Clean\<close>: the elements on a stack, whose top is the head of the list.\<close>

fun clean_elems :: "bool \<Rightarrow> string list \<Rightarrow> string list \<Rightarrow> string list" where
  "clean_elems rooted [] stack = rev stack"
| "clean_elems rooted (x # xs) stack =
     (if x = [] \<or> x = ''.'' then clean_elems rooted xs stack
      else if x \<noteq> ''..'' then clean_elems rooted xs (x # stack)
      else case stack of
        [] \<Rightarrow> clean_elems rooted xs (if rooted then [] else [x])
      | y # ys \<Rightarrow> if y = ''..'' then clean_elems rooted xs (x # stack) else clean_elems rooted xs ys)"

definition Clean :: "string \<Rightarrow> string" where
  "Clean path =
     (let rooted = (path \<noteq> [] \<and> hd path = CHR ''/''); out = join_with (CHR ''/'') (clean_elems rooted (split_on (CHR ''/'') path) []) in
      if rooted then CHR ''/'' # out else if out = [] then ''.'' else out)"

definition filepath_Dir :: "string \<Rightarrow> string" where
  "filepath_Dir path = Clean (rev (dropWhile (\<lambda>c. c \<noteq> CHR ''/'') (rev path)))"

definition filepath_Base :: "string \<Rightarrow> string" where
  "filepath_Base path =
     (if path = [] then ''.''
      else let base = rev (takeWhile (\<lambda>c. c \<noteq> CHR ''/'') (dropWhile (\<lambda>c. c = CHR ''/'') (rev path))) in
        if base = [] then ''/'' else base)"

subsection \<open>Definitions: parsing\<close>

record ('f, 'b) include_env =
  i_OsReadFile :: "string \<Rightarrow> string option"
  i_ReadFile :: "'f \<Rightarrow> string \<Rightarrow> string option"
  i_Glob :: "'f \<Rightarrow> string \<Rightarrow> string list option"
  i_Sub :: "'f \<Rightarrow> string \<Rightarrow> 'f option"
  i_ParseConfig :: "string \<Rightarrow> string \<Rightarrow> 'b \<times> diag list"
  i_MergeBodies :: "'b option list \<Rightarrow> 'b"

definition ParseSource :: "('f, 'b) include_env \<Rightarrow> string \<Rightarrow> string \<Rightarrow> 'b option \<times> diag list" where
  "ParseSource e filename src =
     (case i_ParseConfig e src filename of (body, diags) \<Rightarrow> if HasErrors diags then (None, diags) else (Some body, diags))"

text \<open>The loop of \<open>ParseSources\<close>, over the sources in the order in which the range over the map finds them.\<close>

fun parse_loop :: "('f, 'b) include_env \<Rightarrow> (string \<times> string) list \<Rightarrow> 'b option list \<Rightarrow> diag list \<Rightarrow> 'b option list \<times> diag list" where
  "parse_loop e [] bodies diags = (bodies, diags)"
| "parse_loop e ((k, v) # srcs) bodies diags =
     (case ParseSource e k v of (srcBody, srcDiags) \<Rightarrow>
        if HasErrors srcDiags then parse_loop e srcs bodies (diags @ srcDiags)
        else parse_loop e srcs (bodies @ [srcBody]) (diags @ srcDiags))"

definition ParseSources :: "('f, 'b) include_env \<Rightarrow> (string \<times> string) list \<Rightarrow> 'b option \<times> diag list" where
  "ParseSources e srcs =
     (case parse_loop e srcs [] [] of (bodies, diags) \<Rightarrow>
        if HasErrors diags then (None, diags) else (Some (i_MergeBodies e bodies), diags))"

definition ParseFile :: "('f, 'b) include_env \<Rightarrow> string \<Rightarrow> 'b option \<times> diag list" where
  "ParseFile e path =
     (case i_OsReadFile e path of
        None \<Rightarrow> (None, diag_err ''Failed to read configuration'')
      | Some src \<Rightarrow> ParseSource e (filepath_Base path) src)"

definition ParseFileFS :: "('f, 'b) include_env \<Rightarrow> 'f \<Rightarrow> string \<Rightarrow> 'b option \<times> diag list" where
  "ParseFileFS e f path =
     (case i_ReadFile e f path of
        None \<Rightarrow> (None, diag_err ''Failed to read configuration'')
      | Some src \<Rightarrow> ParseSource e (filepath_Base path) src)"

subsection \<open>Definitions: includes\<close>

definition include_schema :: bodySchema where
  "include_schema = \<lparr>bs_Attributes = [(''include'', False)], bs_Blocks = []\<rparr>"

definition glob :: "('f, 'b) include_env \<Rightarrow> 'f \<Rightarrow> string \<Rightarrow> string list option" where
  "glob e f pattern = (if CHR ''*'' \<notin> set pattern then Some [pattern] else i_Glob e f pattern)"

text \<open>The strings of a decoded slice, given the string of a leaf.\<close>

definition string_slice :: "('x \<Rightarrow> string) \<Rightarrow> 'x gval \<Rightarrow> string list" where
  "string_slice str v = (case v of VSlice (Some xs) \<Rightarrow> map (\<lambda>x. case x of VLeaf s \<Rightarrow> str s | _ \<Rightarrow> []) xs | _ \<Rightarrow> [])"

text \<open>The loops over the files of a pattern and over the patterns; \<open>inc\<close> is the recursive call.\<close>

fun include_paths :: "('f, 'b) include_env \<Rightarrow> 'f \<Rightarrow> ('f \<Rightarrow> 'b \<Rightarrow> 'b option \<times> diag list) \<Rightarrow> string list \<Rightarrow> 'b option list \<Rightarrow> diag list + 'b option list" where
  "include_paths e f inc [] bodies = Inr bodies"
| "include_paths e f inc (path # paths) bodies =
     (case ParseFileFS e f path of (fileBody, diags) \<Rightarrow>
        if HasErrors diags then Inl diags
        else case i_Sub e f (filepath_Dir path) of
          None \<Rightarrow> Inl (diag_err ''Invalid include dir pattern'')
        | Some sub \<Rightarrow>
            (case fileBody of
               None \<Rightarrow> Inl diags
             | Some fileBody \<Rightarrow>
                 (case inc sub fileBody of (body, diags) \<Rightarrow>
                    if HasErrors diags then Inl diags else include_paths e f inc paths (bodies @ [body]))))"

fun include_patterns :: "('f, 'b) include_env \<Rightarrow> 'f \<Rightarrow> ('f \<Rightarrow> 'b \<Rightarrow> 'b option \<times> diag list) \<Rightarrow> string list \<Rightarrow> 'b option list \<Rightarrow> diag list + 'b option list" where
  "include_patterns e f inc [] bodies = Inr bodies"
| "include_patterns e f inc (pattern # patterns) bodies =
     (case glob e f pattern of
        None \<Rightarrow> Inl (diag_err ''Invalid glob pattern'')
      | Some paths \<Rightarrow>
          (case include_paths e f inc paths bodies of
             Inl diags \<Rightarrow> Inl diags
           | Inr bodies \<Rightarrow> include_patterns e f inc patterns bodies))"

function Include :: "('f, 'b) include_env \<Rightarrow> ('b, 'e, 'c, 'x) hcl_env \<Rightarrow> ('x \<Rightarrow> string) \<Rightarrow> 'f \<Rightarrow> 'b \<Rightarrow> int \<Rightarrow> 'b option \<times> diag list" where
  "Include e h str f body maxDepth =
     (case h_PartialContent h body include_schema of (content, remain, diags) \<Rightarrow>
        (case map_of (hc_Attributes content) ''include'' of
           None \<Rightarrow> (Some body, diags)
         | Some attr \<Rightarrow>
             if HasErrors diags then (Some body, diags)
             else case DecodeExpression h attr (TSlice [] (TString [])) (VSlice None) of (includes, diags) \<Rightarrow>
               if HasErrors diags then (None, diags)
               else if maxDepth < 0 then (None, diag_err ''Too many nested includes'')
               else case include_patterns e f (\<lambda>sub b. Include e h str sub b (maxDepth - 1)) (string_slice str includes) [] of
                 Inl diags \<Rightarrow> (None, diags)
               | Inr bodies \<Rightarrow> (Some (i_MergeBodies e (remain # bodies)), [])))"
  by pat_completeness auto
termination by (relation "measure (\<lambda>(e, h, str, f, body, maxDepth). nat (maxDepth + 1))") auto

declare Include.simps [simp del]

subsection \<open>What a body includes\<close>

text \<open>The patterns of the include attribute and the rest of the body: \<open>None\<close> if they cannot be read, \<open>Some None\<close> without the attribute.\<close>

definition include_of :: "('b, 'e, 'c, 'x) hcl_env \<Rightarrow> ('x \<Rightarrow> string) \<Rightarrow> 'b \<Rightarrow> (string list \<times> 'b option) option option" where
  "include_of h str body =
     (case h_PartialContent h body include_schema of (content, remain, diags) \<Rightarrow>
        if HasErrors diags then None
        else case map_of (hc_Attributes content) ''include'' of
          None \<Rightarrow> Some None
        | Some attr \<Rightarrow>
            (case DecodeExpression h attr (TSlice [] (TString [])) (VSlice None) of (includes, diags) \<Rightarrow>
               if HasErrors diags then None else Some (Some (string_slice str includes, remain))))"

text \<open>The files of the patterns, and the body of a file with the directory that its own includes refer to.\<close>

fun included_files :: "('f, 'b) include_env \<Rightarrow> 'f \<Rightarrow> string list \<Rightarrow> string list option" where
  "included_files e f [] = Some []"
| "included_files e f (p # ps) = (case (glob e f p, included_files e f ps) of (Some xs, Some ys) \<Rightarrow> Some (xs @ ys) | _ \<Rightarrow> None)"

definition file_at :: "('f, 'b) include_env \<Rightarrow> 'f \<Rightarrow> string \<Rightarrow> ('f \<times> 'b) option" where
  "file_at e f path =
     (case ParseFileFS e f path of (fileBody, diags) \<Rightarrow>
        if HasErrors diags then None
        else case (i_Sub e f (filepath_Dir path), fileBody) of (Some sub, Some b) \<Rightarrow> Some (sub, b) | _ \<Rightarrow> None)"

text \<open>
  The expansion of a body with at most \<open>n\<close> levels of includes: a body that includes nothing stands for itself, any other
  for the merge of the rest with the expansions of the included files, in their order.
\<close>

inductive expands :: "('f, 'b) include_env \<Rightarrow> ('b, 'e, 'c, 'x) hcl_env \<Rightarrow> ('x \<Rightarrow> string) \<Rightarrow> nat \<Rightarrow> 'f \<Rightarrow> 'b \<Rightarrow> 'b \<Rightarrow> bool"
  and expands_files :: "('f, 'b) include_env \<Rightarrow> ('b, 'e, 'c, 'x) hcl_env \<Rightarrow> ('x \<Rightarrow> string) \<Rightarrow> nat \<Rightarrow> 'f \<Rightarrow> string list \<Rightarrow> 'b list \<Rightarrow> bool" for e h str where
  exp_plain: "include_of h str body = Some None \<Longrightarrow> expands e h str n f body body"
| exp_include: "include_of h str body = Some (Some (ps, remain)) \<Longrightarrow> included_files e f ps = Some paths \<Longrightarrow> expands_files e h str n f paths bs \<Longrightarrow>
    expands e h str (Suc n) f body (i_MergeBodies e (remain # map Some bs))"
| exp_nil: "expands_files e h str n f [] []"
| exp_file: "file_at e f path = Some (sub, b) \<Longrightarrow> expands e h str n sub b r \<Longrightarrow> expands_files e h str n f paths rs \<Longrightarrow>
    expands_files e h str n f (path # paths) (r # rs)"

inductive_simps expands_simps: "expands e h str n f body b"
inductive_simps expands_files_simps: "expands_files e h str n f [] rs" "expands_files e h str n f (path # paths) rs"

subsection \<open>The loops\<close>

definition reaches :: "('f, 'b) include_env \<Rightarrow> 'f \<Rightarrow> ('f \<Rightarrow> 'b \<Rightarrow> 'b option \<times> diag list) \<Rightarrow> string \<Rightarrow> 'b option \<Rightarrow> bool" where
  "reaches e f inc path r \<longleftrightarrow> (\<exists>sub b ds. file_at e f path = Some (sub, b) \<and> inc sub b = (r, ds) \<and> \<not> HasErrors ds)"

lemma ParseFileFS_body: "ParseFileFS e f path = (fb, ds) \<Longrightarrow> \<not> HasErrors ds \<Longrightarrow> \<exists>b. fb = Some b"
  by (auto simp: ParseFileFS_def ParseSource_def split: option.splits prod.splits if_splits)

lemma include_paths_none:
  assumes "file_at e f path = None" shows "\<exists>ds. include_paths e f inc (path # paths) bodies = Inl ds \<and> HasErrors ds"
proof (cases "ParseFileFS e f path")
  case (Pair fb ds)
  then show ?thesis using assms ParseFileFS_body [OF Pair] by (cases "HasErrors ds"; cases "i_Sub e f (filepath_Dir path)"; cases fb) (simp_all add: file_at_def)
qed

lemma include_paths_some:
  assumes "file_at e f path = Some (sub, b)"
  shows "include_paths e f inc (path # paths) bodies =
    (case inc sub b of (r, ds) \<Rightarrow> if HasErrors ds then Inl ds else include_paths e f inc paths (bodies @ [r]))"
proof (cases "ParseFileFS e f path")
  case (Pair fb ds)
  then show ?thesis using assms by (cases "HasErrors ds"; cases "i_Sub e f (filepath_Dir path)"; cases fb) (simp_all add: file_at_def)
qed

lemma include_paths_step:
  "include_paths e f inc (path # paths) bodies = Inr bs \<longleftrightarrow> (\<exists>r. reaches e f inc path r \<and> include_paths e f inc paths (bodies @ [r]) = Inr bs)"
proof (cases "file_at e f path")
  case None
  then show ?thesis using include_paths_none [OF None, of inc paths bodies] by (auto simp: reaches_def simp del: include_paths.simps)
next
  case (Some x)
  obtain sub b where x: "x = (sub, b)" by force
  show ?thesis unfolding include_paths_some [OF Some [unfolded x]] reaches_def using Some x
    by (cases "inc sub b") (simp add: reaches_def del: include_paths.simps)
qed

lemma include_paths_all: "include_paths e f inc paths bodies = Inr bs \<longleftrightarrow> (\<exists>rs. list_all2 (reaches e f inc) paths rs \<and> bs = bodies @ rs)"
proof (induction paths arbitrary: bodies)
  case (Cons path paths)
  show ?case unfolding include_paths_step by (auto simp: Cons.IH list_all2_Cons1)
qed auto

lemma include_patterns_all:
  "include_patterns e f inc ps bodies = Inr bs \<longleftrightarrow> (\<exists>paths rs. included_files e f ps = Some paths \<and> list_all2 (reaches e f inc) paths rs \<and> bs = bodies @ rs)"
proof (induction ps arbitrary: bodies)
  case (Cons p ps)
  show ?case
  proof (cases "glob e f p")
    case (Some xs)
    have "include_patterns e f inc (p # ps) bodies = Inr bs \<longleftrightarrow> (\<exists>ys. include_paths e f inc xs bodies = Inr ys \<and> include_patterns e f inc ps ys = Inr bs)"
      using Some by (auto split: sum.splits)
    also have "\<dots> \<longleftrightarrow> (\<exists>r1 paths r2. list_all2 (reaches e f inc) xs r1 \<and> included_files e f ps = Some paths \<and> list_all2 (reaches e f inc) paths r2 \<and> bs = bodies @ r1 @ r2)"
      by (auto simp: include_paths_all Cons.IH)
    also have "\<dots> \<longleftrightarrow> (\<exists>paths rs. included_files e f (p # ps) = Some paths \<and> list_all2 (reaches e f inc) paths rs \<and> bs = bodies @ rs)"
    proof (cases "included_files e f ps")
      case (Some ys)
      have "list_all2 (reaches e f inc) (xs @ ys) rs \<longleftrightarrow> (\<exists>r1 r2. rs = r1 @ r2 \<and> list_all2 (reaches e f inc) xs r1 \<and> list_all2 (reaches e f inc) ys r2)" for rs
        by (metis list_all2_append1 list_all2_appendI)
      then show ?thesis using \<open>glob e f p = Some xs\<close> Some by (simp add: ex_simps [symmetric] del: ex_simps)
    qed (use \<open>glob e f p = Some xs\<close> in simp)
    finally show ?thesis .
  qed simp
qed auto

lemma include_paths_error: "include_paths e f inc paths bodies = Inl ds \<Longrightarrow> HasErrors ds"
proof (induction paths arbitrary: bodies)
  case (Cons path paths)
  show ?case
  proof (cases "file_at e f path")
    case None
    then show ?thesis using include_paths_none [OF None, of inc paths bodies] Cons.prems by auto
  next
    case (Some x)
    obtain sub b where x: "x = (sub, b)" by force
    show ?thesis using Cons.prems Cons.IH unfolding include_paths_some [OF Some [unfolded x]] by (cases "inc sub b") (auto split: if_splits)
  qed
qed simp

lemma include_patterns_error: "include_patterns e f inc ps bodies = Inl ds \<Longrightarrow> HasErrors ds"
  by (induction ps arbitrary: bodies) (auto split: option.splits sum.splits dest: include_paths_error)

lemma Include_plain: "include_of h str body = Some None \<Longrightarrow> \<exists>ds. Include e h str f body d = (Some body, ds) \<and> \<not> HasErrors ds"
  by (subst Include.simps) (auto simp: include_of_def split: prod.splits option.splits if_splits)

lemma Include_unread:
  assumes "include_of h str body = None" shows "HasErrors (snd (Include e h str f body d))"
  using assms by (subst Include.simps) (auto simp: include_of_def split: prod.splits option.splits if_splits)

lemma Include_files:
  assumes "include_of h str body = Some (Some (ps, remain))"
  shows "Include e h str f body d =
    (if d < 0 then (None, diag_err ''Too many nested includes'')
     else case include_patterns e f (\<lambda>sub b. Include e h str sub b (d - 1)) ps [] of
       Inl diags \<Rightarrow> (None, diags) | Inr bodies \<Rightarrow> (Some (i_MergeBodies e (remain # bodies)), []))"
  using assms by (subst Include.simps) (auto simp: include_of_def split: prod.splits option.splits if_splits)

lemma expands_files_all: "expands_files e h str n f paths rs \<longleftrightarrow> list_all2 (\<lambda>path r. \<exists>sub b. file_at e f path = Some (sub, b) \<and> expands e h str n sub b r) paths rs"
  by (induction paths arbitrary: rs) (auto simp: expands_files_simps list_all2_Cons1)

lemma Include_expands:
  "(\<exists>ds. Include e h str f body d = (r, ds) \<and> \<not> HasErrors ds) \<longleftrightarrow> (\<exists>b. r = Some b \<and> expands e h str (nat (d + 1)) f body b)"
proof (induction "nat (d + 1)" arbitrary: d f body r rule: less_induct)
  case less
  consider (none) "include_of h str body = None" | (plain) "include_of h str body = Some None" | (files) ps remain where "include_of h str body = Some (Some (ps, remain))"
    by (cases "include_of h str body") force+
  then show ?case
  proof cases
    case none
    then show ?thesis using Include_unread [OF none, of e f d] by (auto simp: expands_simps [of _ _ _ _ _ body])
  next
    case plain
    then show ?thesis using Include_plain [OF plain, of e f d] by (auto simp: expands_simps [of _ _ _ _ _ body])
  next
    case files
    show ?thesis
    proof (cases "d < 0")
      case True
      then show ?thesis using files by (auto simp: Include_files [OF files] expands_simps [of _ _ _ _ _ body])
    next
      case False
      define n where "n = nat d"
      have n: "nat (d - 1 + 1) = n" "nat (d + 1) = Suc n" using False by (auto simp: n_def)
      let ?inc = "\<lambda>sub b. Include e h str sub b (d - 1)"
      have IH: "(\<exists>ds. ?inc sub b = (r, ds) \<and> \<not> HasErrors ds) \<longleftrightarrow> (\<exists>b'. r = Some b' \<and> expands e h str n sub b b')" for sub b r
        using less.hyps [of "d - 1" sub b r] n False by simp
      have reach: "reaches e f ?inc path r \<longleftrightarrow> (\<exists>b'. r = Some b' \<and> (\<exists>sub b. file_at e f path = Some (sub, b) \<and> expands e h str n sub b b'))" for path r
        unfolding reaches_def using IH by blast
      have all: "list_all2 (reaches e f ?inc) paths rs \<longleftrightarrow> (\<exists>bs. rs = map Some bs \<and> expands_files e h str n f paths bs)" for paths rs
        unfolding expands_files_all by (induction paths arbitrary: rs) (auto simp: list_all2_Cons1 reach Cons_eq_map_conv)
      have "(\<exists>ds. Include e h str f body d = (r, ds) \<and> \<not> HasErrors ds) \<longleftrightarrow> (\<exists>bodies. include_patterns e f ?inc ps [] = Inr bodies \<and> r = Some (i_MergeBodies e (remain # bodies)))"
        using False include_patterns_error [of e f ?inc ps "[]"] by (cases "include_patterns e f ?inc ps []") (auto simp: Include_files [OF files])
      also have "\<dots> \<longleftrightarrow> (\<exists>b. r = Some b \<and> expands e h str (nat (d + 1)) f body b)"
        unfolding include_patterns_all all n expands_simps [of _ _ _ "Suc n" _ body] using files by auto
      finally show ?thesis .
    qed
  qed
qed

text \<open>A body includes a file with its directory.\<close>

definition includes_file :: "('f, 'b) include_env \<Rightarrow> ('b, 'e, 'c, 'x) hcl_env \<Rightarrow> ('x \<Rightarrow> string) \<Rightarrow> 'f \<times> 'b \<Rightarrow> 'f \<times> 'b \<Rightarrow> bool" where
  "includes_file e h str = (\<lambda>(f, body) s. \<exists>ps remain paths path. include_of h str body = Some (Some (ps, remain)) \<and> included_files e f ps = Some paths \<and>
     path \<in> set paths \<and> file_at e f path = Some s)"

lemma circular_not_expanded:
  assumes "\<forall>s \<in> S. \<exists>s' \<in> S. includes_file e h str s s'"
  shows "expands e h str n f body b \<Longrightarrow> (f, body) \<notin> S"
    and "expands_files e h str n f paths bs \<Longrightarrow> \<forall>path \<in> set paths. \<forall>s. file_at e f path = Some s \<longrightarrow> s \<notin> S"
proof (induction rule: expands_expands_files.inducts)
  case (exp_plain body n f)
  then show ?case using assms by (fastforce simp: includes_file_def)
next
  case (exp_include body ps remain f paths n bs)
  then show ?case using assms by (fastforce simp: includes_file_def)
qed auto

text \<open>The expansion does not depend on the bound.\<close>

lemma expands_mono:
  "expands e h str n f body b \<Longrightarrow> n \<le> m \<Longrightarrow> expands e h str m f body b"
  "expands_files e h str n f paths bs \<Longrightarrow> n \<le> m \<Longrightarrow> expands_files e h str m f paths bs"
proof (induction arbitrary: m and m rule: expands_expands_files.inducts)
  case (exp_include body ps remain f paths n bs)
  then obtain k where "m = Suc k" "n \<le> k" by (cases m) auto
  then show ?case using exp_include by (auto intro: expands_expands_files.exp_include)
qed (auto intro: expands_expands_files.intros)

subsection \<open>A file that includes itself\<close>

definition self_fs :: "(unit, bool) include_env" where
  "self_fs = \<lparr>i_OsReadFile = (\<lambda>path. None), i_ReadFile = (\<lambda>f path. if path = ''dir/self.hcl'' then Some ''include'' else None), i_Glob = (\<lambda>f p. None),
     i_Sub = (\<lambda>f d. if d = ''dir'' then Some f else None), i_ParseConfig = (\<lambda>src name. (src = ''include'' \<and> name = ''self.hcl'', [])), i_MergeBodies = (\<lambda>bs. False)\<rparr>"

definition self_hcl :: "(bool, string list, string list, string) hcl_env" where
  "self_hcl = \<lparr>h_Content = (\<lambda>b sc. (\<lparr>hc_Attributes = [], hc_Blocks = []\<rparr>, [])),
     h_PartialContent = (\<lambda>b sc. (\<lparr>hc_Attributes = (if b then [(''include'', [''dir/self.hcl''])] else []), hc_Blocks = []\<rparr>, Some False, [])),
     h_Value = (\<lambda>e. (e, [])), h_StringVal = (\<lambda>s. [s]), h_MapFrom = (\<lambda>c t v. Inr (VSlice (Some (map VLeaf c)))), h_MapTo = (\<lambda>t v. Inl []), h_AsString = (\<lambda>c. None),
     h_Zero = (\<lambda>t. []), h_BodyVal = (\<lambda>b. VLeaf []), h_ContentVal = (\<lambda>c. VLeaf []), h_SchemaVal = (\<lambda>s. VLeaf []), h_RangeVal = (\<lambda>b. VLeaf []),
     h_PreDecodeBlock = (\<lambda>ty sc b c v. (v, [])), h_PostDecodeBlock = (\<lambda>ty sc b c v. (v, [])),
     h_PreDecodeAttribute = (\<lambda>ty a v. (v, [])), h_PostDecodeAttribute = (\<lambda>ty a v. (v, []))\<rparr>"

lemma self_includes: "includes_file self_fs self_hcl (\<lambda>s. s) ((), True) ((), True)"
proof -
  have "include_of self_hcl (\<lambda>s. s) True = Some (Some ([''dir/self.hcl''], Some False))" by code_simp
  moreover have "included_files self_fs () [''dir/self.hcl''] = Some [''dir/self.hcl'']" by code_simp
  moreover have "file_at self_fs () ''dir/self.hcl'' = Some ((), True)" by code_simp
  ultimately show ?thesis by (auto simp: includes_file_def)
qed

subsection \<open>Properties\<close>

text \<open>
  C12: \<open>Include\<close> succeeds exactly when the body has an expansion with at most \<open>maxDepth + 1\<close> levels of includes, and then
  returns it: the rest of the body merged with the expansions of all files that match its patterns, in the order of
  the patterns and of the files.
\<close>

theorem include_expands:
  "(\<exists>ds. Include e h str f body maxDepth = (r, ds) \<and> \<not> HasErrors ds) \<longleftrightarrow> (\<exists>b. r = Some b \<and> expands e h str (nat (maxDepth + 1)) f body b)"
  by (rule Include_expands)

text \<open>
  C13: A circular include is reported, whatever the depth allowed: if every body of a set includes a file whose body is in the
  set again, then \<open>Include\<close> of a body of the set returns an error.
\<close>

theorem circular_include_fails:
  assumes "\<forall>s \<in> S. \<exists>s' \<in> S. includes_file e h str s s'" "(f, body) \<in> S"
  shows "HasErrors (snd (Include e h str f body maxDepth))"
proof (rule ccontr)
  assume "\<not> HasErrors (snd (Include e h str f body maxDepth))"
  then obtain b where "expands e h str (nat (maxDepth + 1)) f body b"
    using Include_expands [of e h str f body maxDepth "fst (Include e h str f body maxDepth)"] by (cases "Include e h str f body maxDepth") auto
  then show False using circular_not_expanded(1) [OF assms(1)] assms(2) by blast
qed

theorem circular_include_fails_witness: "HasErrors (snd (Include self_fs self_hcl (\<lambda>s. s) () True 5))"
  using circular_include_fails [of "{((), True)}" self_fs self_hcl "\<lambda>s. s" "()" True 5] self_includes by simp

end
