(* ===== verification/Hcl_Mapper.thy ===== *)
theory Hcl_Mapper
  imports Complex_Main Hcl_Struct "HOL-Library.List_Lexorder" "HOL-Library.Char_ord"
begin

text \<open>
  The conversions between Go values and values of the package \<open>cty\<close> (\<open>src/hcl/mapper.go\<close>).

  The packages \<open>cty\<close> and \<open>go-anymapper\<close> are not part of the repository. What the code calls of them are the functions of the
  records \<open>cty_pkg\<close>, over values \<open>'c\<close>, and \<open>anymapper\<close>; a function that panics on some arguments returns \<open>'a go\<close>. The mapper
  calls back the conversions of this file for the elements of lists and maps, and these calls go through \<open>anymapper\<close> as well.
  Types are those of \<open>Hcl_Struct\<close>; here an interface value carries the type of what it holds. Maps are listed in the order in
  which a range finds their keys.
\<close>

subsection \<open>Definitions: values\<close>

text \<open>A \<open>big.Float\<close>: a rational number or an infinity with its sign.\<close>

datatype big_float = Fin rat | Infinite bool

datatype 'c mval =
    MString string
  | MBool bool
  | MInt int
  | MFloat "big_float option"
  | MBigInt int
  | MBigFloat big_float
  | MCty 'c
  | MSlice "'c mval list option"
  | MMap "('c mval \<times> 'c mval) list option"
  | MAny "(gtype \<times> 'c mval) option"
  | MPtr "'c mval option"
  | MOther

datatype ctype = CtyString | CtyNumber | CtyBool | CtyDynamic | CtyNil | CtyList ctype | CtySet ctype | CtyMap ctype | CtyTuple "ctype list"
  | CtyObject "(string \<times> ctype) list" | CtyCapsule string

record 'c cty_pkg =
  c_Type :: "'c \<Rightarrow> ctype"
  c_AsString :: "'c \<Rightarrow> string go"
  c_True :: "'c \<Rightarrow> bool go"
  c_AsBigFloat :: "'c \<Rightarrow> big_float go"
  c_Elements :: "'c \<Rightarrow> ('c \<times> 'c) list go"
  c_StringVal :: "string \<Rightarrow> 'c"
  c_BoolVal :: "bool \<Rightarrow> 'c"
  c_NumberVal :: "big_float \<Rightarrow> 'c"
  c_NumberIntVal :: "int \<Rightarrow> 'c"
  c_NumberUIntVal :: "int \<Rightarrow> 'c"
  c_NumberFloatVal :: "big_float option \<Rightarrow> 'c go"
  c_ListValEmpty :: "ctype \<Rightarrow> 'c"
  c_ListVal :: "'c list \<Rightarrow> 'c go"
  c_MapVal :: "(string \<times> 'c) list \<Rightarrow> 'c go"

text \<open>
  \<open>MapRefl\<close> from a value of \<open>cty\<close> to a variable of a type that holds a value, from a Go value to \<open>cty.Value\<close> and from a
  map key to a string, \<open>MapReflContext\<close> without strict types from \<open>int64\<close>, \<open>uint64\<close> and \<open>big.Float\<close>, and the methods of a
  type that implements \<open>Unmarshaler\<close>, \<open>TextUnmarshaler\<close>, \<open>Marshaler\<close> or \<open>TextMarshaler\<close>.
\<close>

record 'c anymapper =
  m_FromCty :: "'c \<Rightarrow> gtype \<Rightarrow> 'c mval \<Rightarrow> (string + 'c mval) go"
  m_ToCty :: "gtype \<Rightarrow> 'c mval \<Rightarrow> (string + 'c) go"
  m_ToString :: "gtype \<Rightarrow> 'c mval \<Rightarrow> (string + string) go"
  m_FromInt64 :: "int \<Rightarrow> gtype \<Rightarrow> 'c mval \<Rightarrow> (string + 'c mval) go"
  m_FromUint64 :: "int \<Rightarrow> gtype \<Rightarrow> 'c mval \<Rightarrow> (string + 'c mval) go"
  m_FromBigFloat :: "big_float \<Rightarrow> gtype \<Rightarrow> 'c mval \<Rightarrow> (string + 'c mval) go"
  m_UnmarshalHCL :: "gtype \<Rightarrow> ('c \<Rightarrow> 'c mval \<Rightarrow> string + 'c mval) option"
  m_UnmarshalText :: "gtype \<Rightarrow> (string \<Rightarrow> 'c mval \<Rightarrow> string + 'c mval) option"
  m_MarshalHCL :: "gtype \<Rightarrow> ('c mval \<Rightarrow> string + 'c) option"
  m_MarshalText :: "gtype \<Rightarrow> ('c mval \<Rightarrow> string + string) option"

subsection \<open>Definitions: types\<close>

definition is_anyTy :: "gtype \<Rightarrow> bool" where
  "is_anyTy t = (case t of TIface p n _ \<Rightarrow> p = [] \<and> n = ''interface {}'' | _ \<Rightarrow> False)"

definition is_struct :: "string \<Rightarrow> string \<Rightarrow> gtype \<Rightarrow> bool" where
  "is_struct path name t = (case t of TStruct p n _ \<Rightarrow> p = path \<and> n = name | _ \<Rightarrow> False)"

definition is_ctyValTy :: "gtype \<Rightarrow> bool" where
  "is_ctyValTy t = is_struct ''github.com/zclconf/go-cty/cty'' ''Value'' t"

definition is_bigIntTy :: "gtype \<Rightarrow> bool" where
  "is_bigIntTy t = is_struct ''math/big'' ''Int'' t"

definition is_bigFloatTy :: "gtype \<Rightarrow> bool" where
  "is_bigFloatTy t = is_struct ''math/big'' ''Float'' t"

datatype kind = KString | KBool | KInt nat | KUint nat | KFloat nat | KSlice gtype | KMap gtype gtype | KOther

definition kind_of :: "gtype \<Rightarrow> kind" where
  "kind_of t =
     (case t of
        TString p \<Rightarrow> KString
      | TSlice p e \<Rightarrow> KSlice e
      | TMap p k e \<Rightarrow> KMap k e
      | TOther k p \<Rightarrow>
          if k = ''bool'' then KBool
          else if k = ''int'' \<or> k = ''int64'' then KInt 64
          else if k = ''int8'' then KInt 8 else if k = ''int16'' then KInt 16 else if k = ''int32'' then KInt 32
          else if k = ''uint'' \<or> k = ''uint64'' then KUint 64
          else if k = ''uint8'' then KUint 8 else if k = ''uint16'' then KUint 16 else if k = ''uint32'' then KUint 32
          else if k = ''float32'' then KFloat 32 else if k = ''float64'' then KFloat 64
          else KOther
      | _ \<Rightarrow> KOther)"

definition mzero :: "gtype \<Rightarrow> 'c mval" where
  "mzero t =
     (if is_bigIntTy t then MBigInt 0 else if is_bigFloatTy t then MBigFloat (Fin 0)
      else case t of TPtr _ \<Rightarrow> MPtr None | TIface _ _ _ \<Rightarrow> MAny None
      | _ \<Rightarrow> (case kind_of t of KString \<Rightarrow> MString [] | KBool \<Rightarrow> MBool False | KInt w \<Rightarrow> MInt 0 | KUint w \<Rightarrow> MInt 0 | KFloat w \<Rightarrow> MFloat (Some (Fin 0))
          | KSlice e \<Rightarrow> MSlice None | KMap k e \<Rightarrow> MMap None | KOther \<Rightarrow> MOther))"

subsection \<open>Definitions: big numbers\<close>

definition IsInt :: "big_float \<Rightarrow> bool" where
  "IsInt x = (case x of Fin r \<Rightarrow> snd (quotient_of r) = 1 | Infinite _ \<Rightarrow> False)"

text \<open>\<open>Int\<close>, \<open>Int64\<close> and \<open>Uint64\<close> of an integral number with whether the result is exact; out of range it is the nearest bound.\<close>

definition bf_Int :: "big_float \<Rightarrow> int \<times> bool" where
  "bf_Int x = (case x of Fin r \<Rightarrow> (let (p, q) = quotient_of r in (sgn p * (\<bar>p\<bar> div q), q = 1)) | Infinite _ \<Rightarrow> (0, False))"

definition bf_clamp :: "int \<Rightarrow> int \<Rightarrow> big_float \<Rightarrow> int \<times> bool" where
  "bf_clamp lo hi x =
     (case x of
        Infinite neg \<Rightarrow> (if neg then lo else hi, False)
      | Fin r \<Rightarrow> (case bf_Int x of (i, exact) \<Rightarrow> if i < lo then (lo, False) else if hi < i then (hi, False) else (i, exact)))"

definition bf_Int64 :: "big_float \<Rightarrow> int \<times> bool" where
  "bf_Int64 = bf_clamp (- (2 ^ 63)) (2 ^ 63 - 1)"

definition bf_Uint64 :: "big_float \<Rightarrow> int \<times> bool" where
  "bf_Uint64 = bf_clamp 0 (2 ^ 64 - 1)"

subsection \<open>Definitions: from HCL values\<close>

text \<open>\<open>try\<close> goes on with a result and passes an error on, as the code does with \<open>if err != nil\<close>.\<close>

definition try_map :: "(string + 'a) go \<Rightarrow> ('a \<Rightarrow> (string + 'b) go) \<Rightarrow> (string + 'b) go" where
  "try_map r f = go_bind r (\<lambda>x. case x of Inl e \<Rightarrow> Ret (Inl e) | Inr a \<Rightarrow> f a)"

definition is_seq :: "ctype \<Rightarrow> bool" where
  "is_seq t = (case t of CtyList _ \<Rightarrow> True | CtySet _ \<Rightarrow> True | CtyTuple _ \<Rightarrow> True | _ \<Rightarrow> False)"

definition is_dict :: "ctype \<Rightarrow> bool" where
  "is_dict t = (case t of CtyMap _ \<Rightarrow> True | CtyObject _ \<Rightarrow> True | _ \<Rightarrow> False)"

abbreviation any_type :: gtype where "any_type \<equiv> TIface [] ''interface {}'' None"

text \<open>The type of the auxiliary variable for a destination of type \<open>any\<close>.\<close>

definition aux_type :: "ctype \<Rightarrow> gtype option" where
  "aux_type t =
     (if t = CtyString then Some (TString [])
      else if t = CtyNumber then Some (TOther ''float64'' [])
      else if t = CtyBool then Some (TOther ''bool'' [])
      else if is_seq t then Some (TSlice [] any_type)
      else if is_dict t then Some (TMap [] (TString []) any_type)
      else None)"

definition from_any :: "'c cty_pkg \<Rightarrow> 'c anymapper \<Rightarrow> 'c \<Rightarrow> (string + 'c mval) go" where
  "from_any c m src =
     (case aux_type (c_Type c src) of
        Some t \<Rightarrow> try_map (m_FromCty m src t (mzero t)) (\<lambda>aux. Ret (Inr (MAny (Some (t, aux)))))
      | None \<Rightarrow>
          if c_Type c src = CtyDynamic then Ret (Inr (MAny None))
          else Ret (Inr (MAny (Some (TStruct ''github.com/zclconf/go-cty/cty'' ''Value'' [], MCty src)))))"

definition from_bigInt :: "'c cty_pkg \<Rightarrow> 'c \<Rightarrow> (string + 'c mval) go" where
  "from_bigInt c src =
     (if c_Type c src \<noteq> CtyNumber then Ret (Inl ''cannot decode into big.Int'')
      else go_bind (c_AsBigFloat c src) (\<lambda>x.
        if \<not> IsInt x then Ret (Inl ''cannot decode a float number into big.Int'')
        else case bf_Int x of (bi, exact) \<Rightarrow>
          if \<not> exact then Ret (Inl ''cannot decode a float number into big.Int'') else Ret (Inr (MBigInt bi))))"

definition from_bigFloat :: "'c cty_pkg \<Rightarrow> 'c \<Rightarrow> (string + 'c mval) go" where
  "from_bigFloat c src =
     (if c_Type c src \<noteq> CtyNumber then Ret (Inl ''cannot decode into big.Float'')
      else go_bind (c_AsBigFloat c src) (\<lambda>x. Ret (Inr (MBigFloat x))))"

definition from_int :: "'c cty_pkg \<Rightarrow> (big_float \<Rightarrow> int \<times> bool) \<Rightarrow> (int \<Rightarrow> (string + 'c mval) go) \<Rightarrow> 'c \<Rightarrow> (string + 'c mval) go" where
  "from_int c conv k src =
     (if c_Type c src \<noteq> CtyNumber then Ret (Inl ''cannot decode type'')
      else go_bind (c_AsBigFloat c src) (\<lambda>x.
        if \<not> IsInt x then Ret (Inl ''cannot decode type: not an integer'')
        else case conv x of (i, exact) \<Rightarrow> if \<not> exact then Ret (Inl ''cannot decode type: too large'') else k i))"

fun from_elems :: "'c anymapper \<Rightarrow> gtype \<Rightarrow> ('c \<times> 'c) list \<Rightarrow> 'c mval list \<Rightarrow> (string + 'c mval) go" where
  "from_elems m t [] dst = Ret (Inr (MSlice (Some dst)))"
| "from_elems m t ((k, v) # es) dst = try_map (m_FromCty m v t (mzero t)) (\<lambda>elem. from_elems m t es (dst @ [elem]))"

text \<open>\<open>SetMapIndex\<close>.\<close>

fun set_key :: "'k \<Rightarrow> 'v \<Rightarrow> ('k \<times> 'v) list \<Rightarrow> ('k \<times> 'v) list" where
  "set_key k v [] = [(k, v)]"
| "set_key k v ((k', v') # kvs) = (if k = k' then (k, v) # kvs else (k', v') # set_key k v kvs)"

fun from_entries :: "'c anymapper \<Rightarrow> gtype \<Rightarrow> gtype \<Rightarrow> ('c \<times> 'c) list \<Rightarrow> ('c mval \<times> 'c mval) list \<Rightarrow> (string + 'c mval) go" where
  "from_entries m kt t [] dst = Ret (Inr (MMap (Some dst)))"
| "from_entries m kt t ((k, v) # es) dst =
     try_map (m_FromCty m k kt (mzero kt)) (\<lambda>key.
       try_map (m_FromCty m v t (mzero t)) (\<lambda>val. from_entries m kt t es (set_key key val dst)))"

definition from_basic :: "'c cty_pkg \<Rightarrow> 'c anymapper \<Rightarrow> 'c \<Rightarrow> gtype \<Rightarrow> 'c mval \<Rightarrow> (string + 'c mval) go" where
  "from_basic c m src t dst =
     (case kind_of t of
        KString \<Rightarrow>
          if c_Type c src \<noteq> CtyString then Ret (Inl ''cannot decode type into a string'')
          else go_bind (c_AsString c src) (\<lambda>s. Ret (Inr (MString s)))
      | KBool \<Rightarrow>
          if c_Type c src \<noteq> CtyBool then Ret (Inl ''cannot decode type into a bool'')
          else go_bind (c_True c src) (\<lambda>b. Ret (Inr (MBool b)))
      | KInt w \<Rightarrow> from_int c bf_Int64 (\<lambda>i. m_FromInt64 m i t dst) src
      | KUint w \<Rightarrow> from_int c bf_Uint64 (\<lambda>i. m_FromUint64 m i t dst) src
      | KFloat w \<Rightarrow>
          if c_Type c src \<noteq> CtyNumber then Ret (Inl ''cannot decode type'')
          else go_bind (c_AsBigFloat c src) (\<lambda>x. m_FromBigFloat m x t dst)
      | KSlice e \<Rightarrow>
          if \<not> is_seq (c_Type c src) then Ret (Inl ''cannot decode type into a slice'')
          else go_bind (c_Elements c src) (\<lambda>es. from_elems m e es [])
      | KMap k e \<Rightarrow>
          if \<not> is_dict (c_Type c src) then Ret (Inl ''cannot decode type into a map'')
          else go_bind (c_Elements c src) (\<lambda>es. from_entries m k e es [])
      | KOther \<Rightarrow> Ret (Inl ''unsupported type''))"

definition fromCtyMapper :: "'c cty_pkg \<Rightarrow> 'c anymapper \<Rightarrow> bool \<Rightarrow> 'c \<Rightarrow> gtype \<Rightarrow> 'c mval \<Rightarrow> (string + 'c mval) go" where
  "fromCtyMapper c m canAddr src t dst =
     (if is_anyTy t then from_any c m src
      else if is_ctyValTy t then Ret (Inr (MCty src))
      else if is_bigIntTy t then from_bigInt c src
      else if is_bigFloatTy t then from_bigFloat c src
      else case (if canAddr then m_UnmarshalHCL m t else None) of
        Some u \<Rightarrow> Ret (u src dst)
      | None \<Rightarrow>
          (case (if canAddr \<and> c_Type c src = CtyString then m_UnmarshalText m t else None) of
             Some u \<Rightarrow> go_bind (c_AsString c src) (\<lambda>s. Ret (u s dst))
           | None \<Rightarrow> from_basic c m src t dst))"

subsection \<open>Definitions: to HCL values\<close>

fun to_elems :: "'c anymapper \<Rightarrow> gtype \<Rightarrow> 'c mval list \<Rightarrow> 'c list \<Rightarrow> (string + 'c list) go" where
  "to_elems m t [] dst = Ret (Inr dst)"
| "to_elems m t (x # xs) dst = try_map (m_ToCty m t x) (\<lambda>v. to_elems m t xs (dst @ [v]))"

fun to_entries :: "'c anymapper \<Rightarrow> gtype \<Rightarrow> gtype \<Rightarrow> ('c mval \<times> 'c mval) list \<Rightarrow> (string \<times> 'c) list \<Rightarrow> (string + (string \<times> 'c) list) go" where
  "to_entries m kt t [] dst = Ret (Inr dst)"
| "to_entries m kt t ((k, x) # kxs) dst =
     try_map (m_ToString m kt k) (\<lambda>key.
       if length key = 0 then to_entries m kt t kxs dst
       else try_map (m_ToCty m t x) (\<lambda>v. to_entries m kt t kxs (set_key key v dst)))"

definition to_basic :: "'c cty_pkg \<Rightarrow> 'c anymapper \<Rightarrow> gtype \<Rightarrow> 'c mval \<Rightarrow> (string + 'c) go" where
  "to_basic c m t src =
     (case (kind_of t, src) of
        (KString, MString s) \<Rightarrow> Ret (Inr (c_StringVal c s))
      | (KBool, MBool b) \<Rightarrow> Ret (Inr (c_BoolVal c b))
      | (KInt w, MInt i) \<Rightarrow> Ret (Inr (c_NumberIntVal c i))
      | (KUint w, MInt i) \<Rightarrow> Ret (Inr (c_NumberUIntVal c i))
      | (KFloat w, MFloat x) \<Rightarrow> go_bind (c_NumberFloatVal c x) (\<lambda>v. Ret (Inr v))
      | (KSlice e, MSlice xs) \<Rightarrow>
          let xs = (case xs of Some xs \<Rightarrow> xs | None \<Rightarrow> []) in
          if length xs = 0 then Ret (Inr (c_ListValEmpty c CtyNil))
          else try_map (to_elems m e xs []) (\<lambda>vs. go_bind (c_ListVal c vs) (\<lambda>v. Ret (Inr v)))
      | (KMap k e, MMap kxs) \<Rightarrow>
          try_map (to_entries m k e (case kxs of Some kxs \<Rightarrow> kxs | None \<Rightarrow> []) []) (\<lambda>kvs. go_bind (c_MapVal c kvs) (\<lambda>v. Ret (Inr v)))
      | _ \<Rightarrow> Ret (Inl ''unsupported type to ctyValue''))"

definition toCtyMapper :: "'c cty_pkg \<Rightarrow> 'c anymapper \<Rightarrow> gtype \<Rightarrow> 'c mval \<Rightarrow> (string + 'c) go" where
  "toCtyMapper c m t src =
     (if is_ctyValTy t then (case src of MCty v \<Rightarrow> Ret (Inr v) | _ \<Rightarrow> Panic ''interface conversion'')
      else if is_bigIntTy t then (case src of MBigInt i \<Rightarrow> Ret (Inr (c_NumberVal c (Fin (rat_of_int i)))) | _ \<Rightarrow> Panic ''interface conversion'')
      else if is_bigFloatTy t then (case src of MBigFloat x \<Rightarrow> Ret (Inr (c_NumberVal c x)) | _ \<Rightarrow> Panic ''interface conversion'')
      else case m_MarshalHCL m t of
        Some u \<Rightarrow> Ret (u src)
      | None \<Rightarrow>
          (case m_MarshalText m t of
             Some u \<Rightarrow> (case u src of Inl e \<Rightarrow> Ret (Inl e) | Inr s \<Rightarrow> Ret (Inr (c_StringVal c s)))
           | None \<Rightarrow> to_basic c m t src))"

subsection \<open>Laws of the packages\<close>

text \<open>
  What the round trip needs of \<open>cty\<close>, as it is documented. Strings are normalised, so only strings that are in normal form
  are read back; the elements of a list or map must have the same type; a map is iterated in the order of its keys.
\<close>

definition cty_laws :: "'c cty_pkg \<Rightarrow> (string \<Rightarrow> bool) \<Rightarrow> bool" where
  "cty_laws c normal \<longleftrightarrow>
     (\<forall>s. c_Type c (c_StringVal c s) = CtyString) \<and> (\<forall>s. normal s \<longrightarrow> c_AsString c (c_StringVal c s) = Ret s) \<and>
     (\<forall>b. c_Type c (c_BoolVal c b) = CtyBool \<and> c_True c (c_BoolVal c b) = Ret b) \<and>
     (\<forall>x. c_Type c (c_NumberVal c x) = CtyNumber \<and> c_AsBigFloat c (c_NumberVal c x) = Ret x) \<and>
     (\<forall>i. c_NumberIntVal c i = c_NumberVal c (Fin (rat_of_int i))) \<and> (\<forall>i. c_NumberUIntVal c i = c_NumberVal c (Fin (rat_of_int i))) \<and>
     (\<forall>vs t. vs \<noteq> [] \<and> list_all (\<lambda>v. c_Type c v = t) vs \<longrightarrow>
        (\<exists>l ks. c_ListVal c vs = Ret l \<and> c_Type c l = CtyList t \<and> length ks = length vs \<and> c_Elements c l = Ret (zip ks vs))) \<and>
     (\<forall>kvs t. kvs \<noteq> [] \<and> distinct (map fst kvs) \<and> list_all (\<lambda>(k, v). normal k \<and> c_Type c v = t) kvs \<longrightarrow>
        (\<exists>l. c_MapVal c kvs = Ret l \<and> c_Type c l = CtyMap t \<and> c_Elements c l = Ret (map (\<lambda>(k, v). (c_StringVal c k, v)) (sort_key fst kvs))))"

text \<open>
  The mapper calls the conversions registered for \<open>cty.Value\<close> when neither side is a pointer or an interface, maps strings
  to strings, and integers to integer types that hold them.
\<close>

definition direct :: "gtype \<Rightarrow> bool" where
  "direct t = (case t of TPtr _ \<Rightarrow> False | TIface _ _ _ \<Rightarrow> False | _ \<Rightarrow> True)"

definition mapper_laws :: "'c cty_pkg \<Rightarrow> 'c anymapper \<Rightarrow> bool" where
  "mapper_laws c m \<longleftrightarrow>
     (\<forall>src t dst. direct t \<longrightarrow> m_FromCty m src t dst = fromCtyMapper c m True src t dst) \<and>
     (\<forall>t src. direct t \<longrightarrow> m_ToCty m t src = toCtyMapper c m t src) \<and>
     (\<forall>p s. m_ToString m (TString p) (MString s) = Ret (Inr s)) \<and>
     (\<forall>i t w dst. kind_of t = KInt w \<and> - (2 ^ (w - 1)) \<le> i \<and> i < 2 ^ (w - 1) \<longrightarrow> m_FromInt64 m i t dst = Ret (Inr (MInt i))) \<and>
     (\<forall>i t w dst. kind_of t = KUint w \<and> 0 \<le> i \<and> i < 2 ^ w \<longrightarrow> m_FromUint64 m i t dst = Ret (Inr (MInt i)))"

definition no_methods :: "'c anymapper \<Rightarrow> gtype \<Rightarrow> bool" where
  "no_methods m t \<longleftrightarrow> Option.is_none (m_UnmarshalHCL m t) \<and> Option.is_none (m_UnmarshalText m t) \<and> Option.is_none (m_MarshalHCL m t) \<and> Option.is_none (m_MarshalText m t)"

subsection \<open>Values that survive the conversion\<close>

text \<open>
  Strings in normal form, booleans, integers within the range of their type, big integers, and slices and maps of such
  values that are not empty; the keys of a map are strings that are not empty.
\<close>

inductive mappable :: "'c anymapper \<Rightarrow> (string \<Rightarrow> bool) \<Rightarrow> gtype \<Rightarrow> 'c mval \<Rightarrow> bool" for m normal where
  map_string: "no_methods m (TString p) \<Longrightarrow> normal s \<Longrightarrow> mappable m normal (TString p) (MString s)"
| map_bool: "no_methods m t \<Longrightarrow> kind_of t = KBool \<Longrightarrow> mappable m normal t (MBool b)"
| map_int: "no_methods m t \<Longrightarrow> kind_of t = KInt w \<Longrightarrow> - (2 ^ (w - 1)) \<le> i \<Longrightarrow> i < 2 ^ (w - 1) \<Longrightarrow> mappable m normal t (MInt i)"
| map_uint: "no_methods m t \<Longrightarrow> kind_of t = KUint w \<Longrightarrow> 0 \<le> i \<Longrightarrow> i < 2 ^ w \<Longrightarrow> mappable m normal t (MInt i)"
| map_big: "is_bigIntTy t \<Longrightarrow> mappable m normal t (MBigInt i)"
| map_slice: "no_methods m (TSlice p e) \<Longrightarrow> xs \<noteq> [] \<Longrightarrow> (\<And>x. x \<in> set xs \<Longrightarrow> mappable m normal e x) \<Longrightarrow> mappable m normal (TSlice p e) (MSlice (Some xs))"
| map_map: "no_methods m (TMap p (TString q) e) \<Longrightarrow> no_methods m (TString q) \<Longrightarrow> kxs \<noteq> [] \<Longrightarrow> distinct (map fst kxs) \<Longrightarrow>
    (\<And>k x. (k, x) \<in> set kxs \<Longrightarrow> \<exists>s. k = MString s \<and> s \<noteq> [] \<and> normal s) \<Longrightarrow> (\<And>k x. (k, x) \<in> set kxs \<Longrightarrow> mappable m normal e x) \<Longrightarrow>
    mappable m normal (TMap p (TString q) e) (MMap (Some kxs))"

text \<open>The same value with every map listed in the order of its keys.\<close>

definition key_text :: "'c mval \<Rightarrow> string" where
  "key_text k = (case k of MString s \<Rightarrow> s | _ \<Rightarrow> [])"

primrec sorted_maps :: "'c mval \<Rightarrow> 'c mval" where
  "sorted_maps (MString s) = MString s"
| "sorted_maps (MBool b) = MBool b"
| "sorted_maps (MInt i) = MInt i"
| "sorted_maps (MFloat x) = MFloat x"
| "sorted_maps (MBigInt i) = MBigInt i"
| "sorted_maps (MBigFloat x) = MBigFloat x"
| "sorted_maps (MCty v) = MCty v"
| "sorted_maps (MSlice xs) = MSlice (map_option (map sorted_maps) xs)"
| "sorted_maps (MMap kxs) = MMap (map_option (sort_key (key_text \<circ> fst)) (map_option (map (map_prod sorted_maps sorted_maps)) kxs))"
| "sorted_maps (MAny x) = MAny x"
| "sorted_maps (MPtr x) = MPtr x"
| "sorted_maps MOther = MOther"

fun cty_type :: "gtype \<Rightarrow> ctype" where
  "cty_type (TString p) = CtyString"
| "cty_type (TSlice p e) = CtyList (cty_type e)"
| "cty_type (TMap p k e) = CtyMap (cty_type e)"
| "cty_type t = (if kind_of t = KBool then CtyBool else CtyNumber)"

lemma sort_key_map: "sort_key f (map g xs) = map g (sort_key (f \<circ> g) xs)"
proof -
  have "insort_key f (g x) (map g ys) = map g (insort_key (f \<circ> g) x ys)" for x ys
    by (induction ys) auto
  then show ?thesis by (induction xs) auto
qed

lemma try_map_simps [simp]: "try_map (Ret (Inl e)) f = Ret (Inl e)" "try_map (Ret (Inr a)) f = f a" "try_map (Panic x) f = Panic x"
  by (simp_all add: try_map_def)

text \<open>Bounds of the integer conversions.\<close>

lemma IsInt_of_int [simp]: "IsInt (Fin (rat_of_int i))"
  by (simp add: IsInt_def)

lemma bf_Int_of_int [simp]: "bf_Int (Fin (rat_of_int i)) = (i, True)"
  by (simp add: bf_Int_def sgn_mult_abs)

lemma bf_Int64_fits: "- (2 ^ (w - 1)) \<le> i \<Longrightarrow> i < 2 ^ (w - 1) \<Longrightarrow> w \<le> 64 \<Longrightarrow> bf_Int64 (Fin (rat_of_int i)) = (i, True)"
proof -
  assume i: "- (2 ^ (w - 1)) \<le> i" "i < 2 ^ (w - 1)" "w \<le> 64"
  have "(2 :: int) ^ (w - 1) \<le> 2 ^ 63" using i(3) by (intro power_increasing) auto
  then show ?thesis using i(1,2) by (simp add: bf_Int64_def bf_clamp_def)
qed

lemma bf_Uint64_fits: "0 \<le> i \<Longrightarrow> i < 2 ^ w \<Longrightarrow> w \<le> 64 \<Longrightarrow> bf_Uint64 (Fin (rat_of_int i)) = (i, True)"
proof -
  assume i: "0 \<le> i" "i < 2 ^ w" "w \<le> 64"
  have "(2 :: int) ^ w \<le> 2 ^ 64" using i(3) by (intro power_increasing) auto
  then show ?thesis using i(1,2) by (simp add: bf_Uint64_def bf_clamp_def)
qed

lemma kind_width: "kind_of t = KInt w \<Longrightarrow> w \<le> 64" "kind_of t = KUint w \<Longrightarrow> w \<le> 64"
  by (auto simp: kind_of_def split: gtype.splits if_splits)

subsection \<open>Single steps\<close>

lemma kind_plain:
  "kind_of t \<noteq> KOther \<Longrightarrow> direct t \<and> \<not> is_anyTy t \<and> \<not> is_ctyValTy t \<and> \<not> is_bigIntTy t \<and> \<not> is_bigFloatTy t"
  by (auto simp: kind_of_def direct_def is_anyTy_def is_ctyValTy_def is_bigIntTy_def is_bigFloatTy_def is_struct_def split: gtype.splits)

lemma map_basic:
  assumes "mapper_laws c m" "no_methods m t" "kind_of t \<noteq> KOther"
  shows "m_FromCty m src t dst = from_basic c m src t dst" "m_ToCty m t x = to_basic c m t x"
  using assms kind_plain [OF assms(3)] by (auto simp: mapper_laws_def fromCtyMapper_def toCtyMapper_def no_methods_def Option.is_none_def)

definition kept :: "'c cty_pkg \<Rightarrow> 'c anymapper \<Rightarrow> gtype \<Rightarrow> 'c mval \<Rightarrow> 'c \<Rightarrow> bool" where
  "kept c m t x v \<longleftrightarrow> m_ToCty m t x = Ret (Inr v) \<and> c_Type c v = cty_type t \<and> (\<forall>dst. m_FromCty m v t dst = Ret (Inr (sorted_maps x)))"

lemma to_elems_kept: "list_all2 (kept c m t) xs vs \<Longrightarrow> to_elems m t xs dst = Ret (Inr (dst @ vs))"
  by (induction xs vs arbitrary: dst rule: list_all2_induct) (auto simp: kept_def)

lemma from_elems_kept: "list_all2 (kept c m t) xs vs \<Longrightarrow> length ks = length vs \<Longrightarrow> from_elems m t (zip ks vs) dst = Ret (Inr (MSlice (Some (dst @ map sorted_maps xs))))"
proof (induction xs vs arbitrary: ks dst rule: list_all2_induct)
  case (Cons x xs v vs)
  then show ?case by (cases ks) (auto simp: kept_def)
qed simp

lemma set_key_new: "k \<notin> fst ` set kvs \<Longrightarrow> set_key k v kvs = kvs @ [(k, v)]"
  by (induction kvs) auto

text \<open>The entries of a map as a list of the text of the key, the Go value and the value of \<open>cty\<close>.\<close>

lemma to_entries_kept:
  assumes "mapper_laws c m"
  shows "distinct (map fst kvs @ map fst zs) \<Longrightarrow> list_all (\<lambda>(s, x, v). s \<noteq> [] \<and> kept c m t x v) zs \<Longrightarrow>
    to_entries m (TString q) t (map (\<lambda>(s, x, v). (MString s, x)) zs) kvs = Ret (Inr (kvs @ map (\<lambda>(s, x, v). (s, v)) zs))"
proof (induction zs arbitrary: kvs)
  case (Cons z zs)
  obtain s x v where z: "z = (s, x, v)" by (cases z)
  have "m_ToString m (TString q) (MString s) = Ret (Inr s)" using assms by (simp add: mapper_laws_def)
  then show ?case using Cons.prems Cons.IH [of "kvs @ [(s, v)]"] z set_key_new [of s kvs v] by (simp add: kept_def)
qed simp

lemma from_entries_kept:
  assumes "cty_laws c normal" "mapper_laws c m" "no_methods m (TString q)"
  shows "distinct (map fst dst @ map (\<lambda>(s, x, v). MString s) zs) \<Longrightarrow> list_all (\<lambda>(s, x, v). normal s \<and> kept c m t x v) zs \<Longrightarrow>
    from_entries m (TString q) t (map (\<lambda>(s, x, v). (c_StringVal c s, v)) zs) dst = Ret (Inr (MMap (Some (dst @ map (\<lambda>(s, x, v). (MString s, sorted_maps x)) zs))))"
proof (induction zs arbitrary: dst)
  case (Cons z zs)
  obtain s x v where z: "z = (s, x, v)" by (cases z)
  have "m_FromCty m (c_StringVal c s) (TString q) d = Ret (Inr (MString s))" for d
    using Cons.prems(2) z assms by (subst map_basic [OF assms(2,3)]) (auto simp: kind_of_def from_basic_def cty_laws_def)
  then show ?case using Cons.prems Cons.IH [of "dst @ [(MString s, sorted_maps x)]"] z set_key_new [of "MString s" dst "sorted_maps x"] by (simp add: kept_def)
qed simp

lemma ListVal_law:
  assumes "cty_laws c normal" "vs \<noteq> []" "list_all (\<lambda>v. c_Type c v = t) vs"
  shows "\<exists>l ks. c_ListVal c vs = Ret l \<and> c_Type c l = CtyList t \<and> length ks = length vs \<and> c_Elements c l = Ret (zip ks vs)"
  using assms by (simp add: cty_laws_def)

lemma MapVal_law:
  assumes "cty_laws c normal" "kvs \<noteq> []" "distinct (map fst kvs)" "list_all (\<lambda>(k, v). normal k \<and> c_Type c v = t) kvs"
  shows "\<exists>l. c_MapVal c kvs = Ret l \<and> c_Type c l = CtyMap t \<and> c_Elements c l = Ret (map (\<lambda>(k, v). (c_StringVal c k, v)) (sort_key fst kvs))"
  using assms by (simp add: cty_laws_def)

lemma kept_slice:
  assumes "cty_laws c normal" "mapper_laws c m" "no_methods m (TSlice p e)" "xs \<noteq> []" "list_all2 (kept c m e) xs vs"
  shows "\<exists>v. kept c m (TSlice p e) (MSlice (Some xs)) v"
proof -
  have vs: "vs \<noteq> []" "list_all (\<lambda>v. c_Type c v = cty_type e) vs" using assms(4,5) by (auto simp: kept_def list_all_iff list_all2_conv_all_nth in_set_conv_nth)
  obtain l ks where l: "c_ListVal c vs = Ret l" "c_Type c l = CtyList (cty_type e)" "length ks = length vs" "c_Elements c l = Ret (zip ks vs)"
    using ListVal_law [OF assms(1) vs] by blast
  have k: "kind_of (TSlice p e) = KSlice e" by (simp add: kind_of_def)
  have "m_ToCty m (TSlice p e) (MSlice (Some xs)) = Ret (Inr l)"
    using assms(4) l(1) k by (subst map_basic [OF assms(2,3)]) (simp_all add: to_basic_def to_elems_kept [OF assms(5)])
  moreover have "m_FromCty m l (TSlice p e) dst = Ret (Inr (sorted_maps (MSlice (Some xs))))" for dst
    using l k by (subst map_basic [OF assms(2,3)]) (simp_all add: from_basic_def is_seq_def from_elems_kept [OF assms(5)])
  ultimately show ?thesis using l(2) by (auto simp: kept_def)
qed

lemma kept_map:
  fixes c :: "'c cty_pkg"
  assumes "cty_laws c normal" "mapper_laws c m" "no_methods m (TMap p (TString q) e)" "no_methods m (TString q)" "zs \<noteq> []" "distinct (map fst zs)"
    and zs: "list_all (\<lambda>(s, x, v). s \<noteq> [] \<and> normal s \<and> kept c m e x v) zs"
  shows "\<exists>v. kept c m (TMap p (TString q) e) (MMap (Some (map (\<lambda>(s, x, v). (MString s, x)) zs))) v"
proof -
  let ?t = "TMap p (TString q) e" and ?kvs = "map (\<lambda>(s, x, v). (s, v)) zs" and ?srt = "sort_key fst zs"
  have keys: "map fst ?kvs = map fst zs" by (auto simp: case_prod_beta)
  have types: "list_all (\<lambda>(k, v). normal k \<and> c_Type c v = cty_type e) ?kvs" using zs by (auto simp: list_all_iff kept_def)
  obtain l where l: "c_MapVal c ?kvs = Ret l" "c_Type c l = CtyMap (cty_type e)" "c_Elements c l = Ret (map (\<lambda>(k, v). (c_StringVal c k, v)) (sort_key fst ?kvs))"
    using MapVal_law [OF assms(1) _ _ types] assms(5,6) unfolding keys by auto
  have k: "kind_of ?t = KMap (TString q) e" by (simp add: kind_of_def)
  have srt: "map (\<lambda>(k, v). (c_StringVal c k, v)) (sort_key fst ?kvs) = map (\<lambda>(s, x, v). (c_StringVal c s, v)) ?srt"
    by (simp add: sort_key_map comp_def case_prod_beta)
  have "list_all (\<lambda>(s, x, v). s \<noteq> [] \<and> kept c m e x v) zs" using zs by (auto simp: list_all_iff)
  then have "to_entries m (TString q) e (map (\<lambda>(s, x, v). (MString s, x)) zs) [] = Ret (Inr ?kvs)"
    using to_entries_kept [OF assms(2), of "[]" zs e q] assms(6) by simp
  then have "m_ToCty m ?t (MMap (Some (map (\<lambda>(s, x, v). (MString s, x)) zs))) = Ret (Inr l)"
    using l(1) k by (subst map_basic [OF assms(2,3)]) (simp_all add: to_basic_def)
  moreover have "m_FromCty m l ?t dst = Ret (Inr (sorted_maps (MMap (Some (map (\<lambda>(s, x, v). (MString s, x)) zs)))))" for dst
  proof -
    have d: "distinct (map (\<lambda>(s, x, v). MString s) ?srt)"
      using assms(6) by (auto simp: distinct_map inj_on_def case_prod_beta)
    have n: "list_all (\<lambda>(s, x, v). normal s \<and> kept c m e x v) ?srt" using zs by (auto simp: list_all_iff)
    have "from_entries m (TString q) e (map (\<lambda>(s, x, v). (c_StringVal c s, v)) ?srt) [] = Ret (Inr (MMap (Some (map (\<lambda>(s, x, v). (MString s, sorted_maps x)) ?srt))))"
      using from_entries_kept [OF assms(1,2,4), of "[]" ?srt e] d n by simp
    moreover have "sort_key (key_text \<circ> fst) (map (map_prod sorted_maps sorted_maps) (map (\<lambda>(s, x, v). (MString s, x)) zs)) = (map (\<lambda>(s, x, v). (MString s, sorted_maps x)) ?srt :: ('c mval \<times> 'c mval) list)"
      by (simp add: sort_key_map comp_def case_prod_beta key_text_def)
    ultimately show ?thesis using l(2,3) k srt by (subst map_basic [OF assms(2,3)]) (simp_all add: from_basic_def is_dict_def)
  qed
  ultimately show ?thesis using l(2) by (auto simp: kept_def)
qed

lemma mappable_direct: "mappable m normal t x \<Longrightarrow> direct t"
proof (induction rule: mappable.induct)
  case (map_big t i)
  then show ?case by (auto simp: is_bigIntTy_def is_struct_def direct_def split: gtype.splits)
qed (auto simp: direct_def kind_of_def split: gtype.splits)

lemma mappable_kept:
  assumes "cty_laws c normal" "mapper_laws c m"
  shows "mappable m normal t x \<Longrightarrow> \<exists>v. kept c m t x v"
proof (induction rule: mappable.induct)
  case (map_string p s)
  then show ?case using map_basic [OF assms(2) map_string(1)] assms(1)
    by (intro exI [of _ "c_StringVal c s"]) (auto simp: kept_def cty_laws_def kind_of_def from_basic_def to_basic_def)
next
  case (map_bool t b)
  then have "cty_type t = CtyBool" by (cases t) (auto simp: kind_of_def)
  then show ?case using map_basic [OF assms(2) map_bool(1)] map_bool(2) assms(1)
    by (intro exI [of _ "c_BoolVal c b"]) (auto simp: kept_def cty_laws_def from_basic_def to_basic_def)
next
  case (map_int t w i)
  have "cty_type t = CtyNumber" using map_int(2) by (cases t) (auto simp: kind_of_def)
  moreover have "m_FromInt64 m i t dst = Ret (Inr (MInt i))" for dst using assms(2) map_int(2-4) unfolding mapper_laws_def by blast
  ultimately show ?case using map_basic [OF assms(2) map_int(1)] map_int(2) assms(1) bf_Int64_fits [OF map_int(3,4)] kind_width(1) [OF map_int(2)]
    by (intro exI [of _ "c_NumberIntVal c i"]) (auto simp: kept_def cty_laws_def from_basic_def to_basic_def from_int_def)
next
  case (map_uint t w i)
  have "cty_type t = CtyNumber" using map_uint(2) by (cases t) (auto simp: kind_of_def)
  moreover have "m_FromUint64 m i t dst = Ret (Inr (MInt i))" for dst using assms(2) map_uint(2-4) unfolding mapper_laws_def by blast
  ultimately show ?case using map_basic [OF assms(2) map_uint(1)] map_uint(2) assms(1) bf_Uint64_fits [OF map_uint(3,4)] kind_width(2) [OF map_uint(2)]
    by (intro exI [of _ "c_NumberUIntVal c i"]) (auto simp: kept_def cty_laws_def from_basic_def to_basic_def from_int_def)
next
  case (map_big t i)
  obtain fs where t: "t = TStruct ''math/big'' ''Int'' fs" using map_big by (auto simp: is_bigIntTy_def is_struct_def split: gtype.splits)
  have "direct t" "\<not> is_anyTy t" "\<not> is_ctyValTy t" "cty_type t = CtyNumber" by (auto simp: t direct_def is_anyTy_def is_ctyValTy_def is_struct_def kind_of_def)
  then show ?case using assms map_big
    by (intro exI [of _ "c_NumberVal c (Fin (rat_of_int i))"]) (auto simp: kept_def cty_laws_def mapper_laws_def fromCtyMapper_def toCtyMapper_def from_bigInt_def)
next
  case (map_slice p e xs)
  then have "\<forall>x \<in> set xs. \<exists>v. kept c m e x v" by blast
  then obtain f where "\<forall>x \<in> set xs. kept c m e x (f x)" by metis
  then have "list_all2 (kept c m e) xs (map f xs)" by (simp add: list_all2_map2 list_all2_same)
  then show ?case using kept_slice [OF assms] map_slice(1,2) by blast
next
  case (map_map p q e kxs)
  define f where "f x = (SOME v. kept c m e x v)" for x
  have f: "kept c m e x (f x)" if "(k, x) \<in> set kxs" for k x unfolding f_def using someI_ex map_map.IH [OF that] by metis
  let ?zs = "map (\<lambda>(k, x). (key_text k, x, f x)) kxs"
  have keys: "k = MString (key_text k) \<and> key_text k \<noteq> [] \<and> normal (key_text k)" if "(k, x) \<in> set kxs" for k x
    using map_map(5) [OF that] by (auto simp: key_text_def)
  have "map (\<lambda>(s, x, v). (MString s, x)) ?zs = kxs" unfolding List.map_map by (rule map_idI) (use keys in \<open>auto simp: comp_def\<close>)
  moreover have "inj_on key_text (set (map fst kxs))" using keys by (intro inj_onI) (auto, metis)
  then have "distinct (map key_text (map fst kxs))" using map_map.hyps(4) by (simp add: distinct_map comp_inj_on)
  then have "distinct (map fst ?zs)" by (simp add: comp_def case_prod_beta)
  moreover have "list_all (\<lambda>(s, x, v). s \<noteq> [] \<and> normal s \<and> kept c m e x v) ?zs" using keys f by (auto simp: list_all_iff)
  ultimately show ?case using kept_map [OF assms map_map(1,2), of ?zs] map_map(3) by simp
qed

subsection \<open>Failures\<close>

text \<open>An empty map cannot be converted when \<open>cty\<close> refuses it, and an entry with an empty key is dropped.\<close>

lemma empty_map_panics:
  assumes "mapper_laws c m" "no_methods m (TMap p k e)" "c_MapVal c [] = Panic msg"
  shows "m_ToCty m (TMap p k e) (MMap (Some [])) = Panic msg"
  using assms(3) by (subst map_basic [OF assms(1,2)]) (simp_all add: kind_of_def to_basic_def)

lemma empty_key_dropped:
  assumes "mapper_laws c m"
  shows "to_entries m (TString q) e ((MString [], x) # kxs) dst = to_entries m (TString q) e kxs dst"
  using assms by (simp add: mapper_laws_def)

subsection \<open>An instance of the packages\<close>

datatype xcty = XStr string | XBool bool | XNum big_float | XList ctype "xcty list" | XMap ctype "(string \<times> xcty) list"

fun x_type :: "xcty \<Rightarrow> ctype" where
  "x_type (XStr s) = CtyString"
| "x_type (XBool b) = CtyBool"
| "x_type (XNum x) = CtyNumber"
| "x_type (XList t vs) = CtyList t"
| "x_type (XMap t kvs) = CtyMap t"

definition x_cty :: "xcty cty_pkg" where
  "x_cty = \<lparr>c_Type = x_type, c_AsString = (\<lambda>v. case v of XStr s \<Rightarrow> Ret s | _ \<Rightarrow> Panic ''not a string''), c_True = (\<lambda>v. case v of XBool b \<Rightarrow> Ret b | _ \<Rightarrow> Panic ''not a bool''),
     c_AsBigFloat = (\<lambda>v. case v of XNum x \<Rightarrow> Ret x | _ \<Rightarrow> Panic ''not a number''),
     c_Elements = (\<lambda>v. case v of XList t vs \<Rightarrow> Ret (zip (map (\<lambda>i. XNum (Fin (of_nat i))) [0..<length vs]) vs) | XMap t kvs \<Rightarrow> Ret (map (\<lambda>(k, v). (XStr k, v)) kvs) | _ \<Rightarrow> Panic ''no elements''),
     c_StringVal = XStr, c_BoolVal = XBool, c_NumberVal = XNum, c_NumberIntVal = (\<lambda>i. XNum (Fin (rat_of_int i))), c_NumberUIntVal = (\<lambda>i. XNum (Fin (rat_of_int i))),
     c_NumberFloatVal = (\<lambda>x. case x of None \<Rightarrow> Panic ''NaN'' | Some x \<Rightarrow> Ret (XNum x)), c_ListValEmpty = (\<lambda>t. XList t []),
     c_ListVal = (\<lambda>vs. if vs \<noteq> [] \<and> list_all (\<lambda>v. x_type v = x_type (hd vs)) vs then Ret (XList (x_type (hd vs)) vs) else Panic ''inconsistent types''),
     c_MapVal = (\<lambda>kvs. if kvs \<noteq> [] \<and> list_all (\<lambda>(k, v). x_type v = x_type (snd (hd kvs))) kvs then Ret (XMap (x_type (snd (hd kvs))) (sort_key fst kvs)) else Panic ''inconsistent types'')\<rparr>"

lemma x_cty_laws: "cty_laws x_cty (\<lambda>s. True)"
proof -
  have "\<exists>l ks. c_ListVal x_cty vs = Ret l \<and> c_Type x_cty l = CtyList t \<and> length ks = length vs \<and> c_Elements x_cty l = Ret (zip ks vs)"
    if "vs \<noteq> []" "list_all (\<lambda>v. c_Type x_cty v = t) vs" for vs t
  proof -
    have "x_type (hd vs) = t" "list_all (\<lambda>v. x_type v = x_type (hd vs)) vs" using that by (auto simp: x_cty_def list_all_iff)
    then show ?thesis using that(1) by (intro exI [of _ "XList t vs"] exI [of _ "map (\<lambda>i. XNum (Fin (of_nat i))) [0..<length vs]"]) (simp add: x_cty_def)
  qed
  moreover have "\<exists>l. c_MapVal x_cty kvs = Ret l \<and> c_Type x_cty l = CtyMap t \<and> c_Elements x_cty l = Ret (map (\<lambda>(k, v). (c_StringVal x_cty k, v)) (sort_key fst kvs))"
    if "kvs \<noteq> []" "list_all (\<lambda>(k, v). c_Type x_cty v = t) kvs" for kvs t
  proof -
    have "x_type (snd (hd kvs)) = t" using that by (cases kvs) (auto simp: x_cty_def)
    moreover from this have "list_all (\<lambda>(k, v). x_type v = x_type (snd (hd kvs))) kvs" using that by (simp add: x_cty_def)
    ultimately show ?thesis using that(1) by (intro exI [of _ "XMap t (sort_key fst kvs)"]) (simp add: x_cty_def)
  qed
  ultimately show ?thesis unfolding cty_laws_def by (simp add: x_cty_def)
qed

text \<open>A mapper that calls the conversions with enough fuel for the depth of the type.\<close>

definition x_mapper :: "(xcty \<Rightarrow> gtype \<Rightarrow> xcty mval \<Rightarrow> (string + xcty mval) go) \<Rightarrow> (gtype \<Rightarrow> xcty mval \<Rightarrow> (string + xcty) go) \<Rightarrow> xcty anymapper" where
  "x_mapper f g = \<lparr>m_FromCty = (\<lambda>src t dst. if direct t then f src t dst else Ret (Inl ''unsupported'')),
     m_ToCty = (\<lambda>t x. if direct t then g t x else Ret (Inl ''unsupported'')), m_ToString = (\<lambda>t x. case x of MString s \<Rightarrow> Ret (Inr s) | _ \<Rightarrow> Ret (Inl ''unsupported'')),
     m_FromInt64 = (\<lambda>i t dst. case kind_of t of KInt w \<Rightarrow> if - (2 ^ (w - 1)) \<le> i \<and> i < 2 ^ (w - 1) then Ret (Inr (MInt i)) else Ret (Inl ''overflow'') | _ \<Rightarrow> Ret (Inl ''unsupported'')),
     m_FromUint64 = (\<lambda>i t dst. case kind_of t of KUint w \<Rightarrow> if 0 \<le> i \<and> i < 2 ^ w then Ret (Inr (MInt i)) else Ret (Inl ''overflow'') | _ \<Rightarrow> Ret (Inl ''unsupported'')),
     m_FromBigFloat = (\<lambda>x t dst. Ret (Inr (MFloat (Some x)))), m_UnmarshalHCL = (\<lambda>t. None), m_UnmarshalText = (\<lambda>t. None), m_MarshalHCL = (\<lambda>t. None), m_MarshalText = (\<lambda>t. None)\<rparr>"

fun x_from :: "nat \<Rightarrow> xcty \<Rightarrow> gtype \<Rightarrow> xcty mval \<Rightarrow> (string + xcty mval) go" where
  "x_from 0 src t dst = Ret (Inl ''too deep'')"
| "x_from (Suc n) src t dst = fromCtyMapper x_cty (x_mapper (x_from n) (\<lambda>t x. Ret (Inl ''unsupported''))) True src t dst"

fun x_to :: "nat \<Rightarrow> gtype \<Rightarrow> xcty mval \<Rightarrow> (string + xcty) go" where
  "x_to 0 t x = Ret (Inl ''too deep'')"
| "x_to (Suc n) t x = toCtyMapper x_cty (x_mapper (\<lambda>src t dst. Ret (Inl ''unsupported'')) (x_to n)) t x"

definition x_map :: "xcty anymapper" where
  "x_map = x_mapper (\<lambda>src t dst. x_from (Suc (size t)) src t dst) (\<lambda>t x. x_to (Suc (size t)) t x)"

lemma x_mapper_sel [simp]:
  "m_FromCty (x_mapper f g) src t dst = (if direct t then f src t dst else Ret (Inl ''unsupported''))"
  "m_ToCty (x_mapper f g) t x = (if direct t then g t x else Ret (Inl ''unsupported''))"
  by (simp_all add: x_mapper_def)

text \<open>The conversions call the mapper for smaller types only.\<close>

lemma from_elems_cong: "(\<And>v. m_FromCty m v t (mzero t) = m_FromCty m' v t (mzero t)) \<Longrightarrow> from_elems m t es dst = from_elems m' t es dst"
  by (induction es arbitrary: dst) auto

lemma from_entries_cong:
  "(\<And>v. m_FromCty m v kt (mzero kt) = m_FromCty m' v kt (mzero kt)) \<Longrightarrow> (\<And>v. m_FromCty m v t (mzero t) = m_FromCty m' v t (mzero t)) \<Longrightarrow>
    from_entries m kt t es kvs = from_entries m' kt t es kvs"
  by (induction es arbitrary: kvs) auto

lemma to_elems_cong: "(\<And>x. m_ToCty m t x = m_ToCty m' t x) \<Longrightarrow> to_elems m t xs vs = to_elems m' t xs vs"
  by (induction xs arbitrary: vs) auto

lemma to_entries_cong:
  "(\<And>x. m_ToCty m t x = m_ToCty m' t x) \<Longrightarrow> m_ToString m = m_ToString m' \<Longrightarrow> to_entries m kt t kxs skvs = to_entries m' kt t kxs skvs"
proof (induction kxs arbitrary: skvs)
  case (Cons kx kxs)
  have "to_entries m kt t kxs s = to_entries m' kt t kxs s" for s using Cons by blast
  then show ?case using Cons.prems by (cases kx) (simp cong: if_cong)
qed simp

lemma kind_smaller: "kind_of t = KSlice e \<Longrightarrow> size e < size t" "kind_of t = KMap k e \<Longrightarrow> size k < size t \<and> size e < size t"
  by (auto simp: kind_of_def split: gtype.splits if_splits)

lemma x_from_cong:
  assumes "direct t" "\<And>v e d. size e < size t \<Longrightarrow> direct e \<Longrightarrow> f v e d = f' v e d"
  shows "fromCtyMapper x_cty (x_mapper f g) True src t dst = fromCtyMapper x_cty (x_mapper f' g') True src t dst"
proof -
  let ?m = "x_mapper f g" and ?m' = "x_mapper f' g'"
  have smaller: "m_FromCty ?m v e d = m_FromCty ?m' v e d" if "size e < size t" for v e d using assms(2) that by simp
  have "from_basic x_cty ?m src t dst = from_basic x_cty ?m' src t dst"
  proof (cases "kind_of t")
    case (KSlice e)
    then show ?thesis using from_elems_cong [of ?m e ?m'] smaller kind_smaller(1) [OF KSlice] by (simp add: from_basic_def)
  next
    case (KMap k e)
    then show ?thesis using from_entries_cong [of ?m k ?m' e] smaller kind_smaller(2) [OF KMap] by (simp add: from_basic_def)
  qed (simp_all add: from_basic_def x_mapper_def)
  moreover have "\<not> is_anyTy t" using assms(1) by (auto simp: direct_def is_anyTy_def split: gtype.splits)
  ultimately show ?thesis by (simp add: fromCtyMapper_def x_mapper_def)
qed

lemma x_to_cong:
  assumes "\<And>e x. size e < size t \<Longrightarrow> direct e \<Longrightarrow> g e x = g' e x"
  shows "toCtyMapper x_cty (x_mapper f g) t x = toCtyMapper x_cty (x_mapper f' g') t x"
proof -
  let ?m = "x_mapper f g" and ?m' = "x_mapper f' g'"
  have smaller: "m_ToCty ?m e x = m_ToCty ?m' e x" if "size e < size t" for e x using assms that by simp
  have strings: "m_ToString ?m = m_ToString ?m'" by (simp add: x_mapper_def)
  have "to_basic x_cty ?m t x = to_basic x_cty ?m' t x"
  proof (cases "kind_of t")
    case (KSlice e)
    then show ?thesis using to_elems_cong [of ?m e ?m'] smaller kind_smaller(1) [OF KSlice] by (cases x) (simp_all add: to_basic_def Let_def)
  next
    case (KMap k e)
    then show ?thesis using to_entries_cong [of ?m e ?m'] strings smaller kind_smaller(2) [OF KMap] by (cases x) (simp_all add: to_basic_def)
  qed (simp_all add: to_basic_def)
  then show ?thesis by (simp add: toCtyMapper_def x_mapper_def)
qed

lemma x_from_stable: "size t < n \<Longrightarrow> size t < n' \<Longrightarrow> direct t \<Longrightarrow> x_from n src t dst = x_from n' src t dst"
proof (induction n arbitrary: n' src t dst)
  case (Suc n)
  obtain k where k: "n' = Suc k" using Suc.prems(2) by (cases n') auto
  have "x_from n v e d = x_from k v e d" if "size e < size t" "direct e" for v e d
    by (rule Suc.IH) (use Suc.prems that k in auto)
  then show ?case unfolding k x_from.simps by (intro x_from_cong Suc.prems(3)) auto
qed simp

lemma x_to_stable: "size t < n \<Longrightarrow> size t < n' \<Longrightarrow> x_to n t x = x_to n' t x"
proof (induction n arbitrary: n' t x)
  case (Suc n)
  obtain k where k: "n' = Suc k" using Suc.prems(2) by (cases n') auto
  have "x_to n e y = x_to k e y" if "size e < size t" for e y
    by (rule Suc.IH) (use Suc.prems that k in auto)
  then show ?case unfolding k x_to.simps by (intro x_to_cong) auto
qed simp

lemma x_map_laws: "mapper_laws x_cty x_map"
proof -
  have "m_FromCty x_map src t dst = fromCtyMapper x_cty x_map True src t dst" if "direct t" for src t dst
    using that unfolding x_map_def by (simp del: x_from.simps add: x_from.simps(2) [of "size t"]) (intro x_from_cong that x_from_stable, simp_all)
  moreover have "m_ToCty x_map t x = toCtyMapper x_cty x_map t x" if "direct t" for t x
    using that unfolding x_map_def by (simp del: x_to.simps add: x_to.simps(2) [of "size t"]) (intro x_to_cong x_to_stable, simp_all)
  moreover have "m_ToString x_map (TString p) (MString s) = Ret (Inr s)" for p s by (simp add: x_map_def x_mapper_def)
  moreover have "m_FromInt64 x_map i t dst = Ret (Inr (MInt i))" if "kind_of t = KInt w" "- (2 ^ (w - 1)) \<le> i" "i < 2 ^ (w - 1)" for i t w dst
    using that by (simp add: x_map_def x_mapper_def)
  moreover have "m_FromUint64 x_map i t dst = Ret (Inr (MInt i))" if "kind_of t = KUint w" "0 \<le> i" "i < 2 ^ w" for i t w dst
    using that by (simp add: x_map_def x_mapper_def)
  ultimately show ?thesis unfolding mapper_laws_def by blast
qed

lemma x_map_methods: "no_methods x_map t"
  by (simp add: no_methods_def x_map_def x_mapper_def Option.is_none_def)

text \<open>A map of slices of small integers.\<close>

definition ports_type :: gtype where
  "ports_type = TMap [] (TString []) (TSlice [] (TOther ''uint16'' []))"

definition ports_value :: "xcty mval" where
  "ports_value = MMap (Some [(MString ''web'', MSlice (Some [MInt 80, MInt 443])), (MString ''dns'', MSlice (Some [MInt 53]))])"

lemma ports_mappable: "mappable x_map (\<lambda>s. True) ports_type ports_value"
proof -
  have "kind_of (TOther ''uint16'' []) = KUint 16" by code_simp
  then have "mappable x_map (\<lambda>s. True) (TOther ''uint16'' []) (MInt i)" if "0 \<le> i" "i < 1000" for i
    by (rule map_uint [OF x_map_methods]) (use that in auto)
  then have "mappable x_map (\<lambda>s. True) (TSlice [] (TOther ''uint16'' [])) (MSlice (Some xs))" if "xs \<noteq> []" "\<forall>x \<in> set xs. \<exists>i. x = MInt i \<and> 0 \<le> i \<and> i < 1000" for xs
    using that by (intro map_slice x_map_methods) auto
  then show ?thesis unfolding ports_type_def ports_value_def by (intro map_map x_map_methods) auto
qed

subsection \<open>Properties\<close>



end
