(* ===== verification/Tree_Render.thy ===== *)
theory Tree_Render
  imports Map_Util "HOL-Library.List_Lexorder" "HOL-Library.Char_ord"
begin

text \<open>
  Package \<open>treerender\<close> (\<open>src/treerender/treerender.go\<close>). The tree is what the callback returns for each node, and it is
  finite. Parameters hold the text that \<open>fmt\<close> prints for their values, an error is its message, and text is a list of bytes.
  The variable \<open>NoColors\<close> is an argument.
\<close>

subsection \<open>Definitions\<close>

datatype tree = NodeData (Name: string) (Params: "(string \<times> string) list") (Error: "string option") (Ancestors: "tree list")

abbreviation newline :: char where "newline \<equiv> CHR 10"

definition utf8 :: "nat list \<Rightarrow> string" where
  "utf8 bs = List.map char_of bs"

definition reset :: string where "reset = CHR 27 # ''[0m''"
definition red :: string where "red = CHR 27 # ''[31m''"
definition green :: string where "green = CHR 27 # ''[32m''"

definition box_first :: string where "box_first = utf8 [226, 148, 140, 226, 148, 128, 226, 148, 128]"
definition box_middle :: string where "box_middle = utf8 [226, 148, 156, 226, 148, 128, 226, 148, 128]"
definition box_last :: string where "box_last = utf8 [226, 148, 148, 226, 148, 128, 226, 148, 128]"
definition box_vline :: string where "box_vline = utf8 [226, 148, 130] @ ''  ''"
definition box_hline :: string where "box_hline = utf8 [226, 148, 128, 226, 148, 128, 226, 148, 128]"
definition box_empty :: string where "box_empty = ''   ''"

text \<open>\<open>strings.ReplaceAll\<close> and \<open>bytes.ReplaceAll\<close> of one byte.\<close>

definition ReplaceAll :: "string \<Rightarrow> char \<Rightarrow> string \<Rightarrow> string" where
  "ReplaceAll s c t = concat (List.map (\<lambda>x. if x = c then t else [x]) s)"

definition color :: "bool \<Rightarrow> string \<Rightarrow> string \<Rightarrow> string" where
  "color NoColors str c = (if NoColors then str else c @ ReplaceAll str newline (newline # reset @ c) @ reset)"

definition prependLines :: "string \<Rightarrow> string \<Rightarrow> string \<Rightarrow> string" where
  "prependLines s frst rest = frst @ ReplaceAll (TrimRight s newline) newline (newline # rest)"

fun params_loop :: "bool \<Rightarrow> (string \<times> string) list \<Rightarrow> nat \<Rightarrow> string list \<Rightarrow> string" where
  "params_loop nc params i [] = []"
| "params_loop nc params i (key # keys) =
     color nc key green @ '':'' @ (case map_of params key of Some v \<Rightarrow> v | None \<Rightarrow> ''<nil>'') @
     (if int i \<noteq> int (length params) - 1 then '', '' else []) @ params_loop nc params (Suc i) keys"

definition renderNode :: "bool \<Rightarrow> string \<Rightarrow> (string \<times> string) list \<Rightarrow> string option \<Rightarrow> string" where
  "renderNode nc typ params err =
     (if err \<noteq> None then color nc typ red else typ) @ ''('' @ params_loop nc params 0 (SortedKeys params sort) @ '')'' @
     (case err of None \<Rightarrow> [] | Some e \<Rightarrow> [newline] @ color nc (''Error: '' @ TrimSpace e) red)"

definition firstLinePrefix :: "bool \<Rightarrow> bool \<Rightarrow> bool \<Rightarrow> bool \<Rightarrow> string" where
  "firstLinePrefix nc isTop isFirst isLast =
     color nc [] reset @
     (if isTop \<and> isFirst \<and> isLast then color nc box_hline green
      else if isTop \<and> isFirst then color nc box_first green
      else if isLast then color nc box_last green
      else color nc box_middle green)"

definition restLinesPrefix :: "bool \<Rightarrow> bool \<Rightarrow> bool \<Rightarrow> string" where
  "restLinesPrefix nc isLast hasAncestors =
     color nc [] reset @
     (if isLast \<and> hasAncestors then color nc (box_empty @ box_vline) green
      else if \<not> isLast \<and> hasAncestors then color nc (box_vline @ box_vline) green
      else if isLast \<and> \<not> hasAncestors then color nc (box_empty @ box_empty) green
      else color nc (box_vline @ box_empty) green)"

fun render_loop :: "bool \<Rightarrow> nat \<Rightarrow> nat \<Rightarrow> nat \<Rightarrow> tree list \<Rightarrow> string" where
  "render_loop nc len level i [] = []"
| "render_loop nc len level i (NodeData name params err ancestors # nodes) =
     (let isFirst = (i = 0); isLast = (i = len - 1); hasAncestors = (0 < length ancestors) in
      prependLines (renderNode nc name params err) (firstLinePrefix nc (level = 0) isFirst isLast) (restLinesPrefix nc isLast hasAncestors) @ [newline] @
      (if 0 < length ancestors then
         (let subTree = render_loop nc (length ancestors) (level + 1) 0 ancestors in
          (if isLast then prependLines subTree box_empty box_empty
           else prependLines subTree (color nc box_vline green) (color nc box_vline green)) @ [newline])
       else []) @
      render_loop nc len level (Suc i) nodes)"

definition RenderTree :: "bool \<Rightarrow> tree list \<Rightarrow> nat \<Rightarrow> string" where
  "RenderTree nc nodes level = render_loop nc (length nodes) level 0 nodes"

subsection \<open>The layout of a tree\<close>

text \<open>
  The nodes in depth-first order, each with the way that leads to it: whether the node of each level above is the last one
  of its siblings, whether the node is the first and the last one, and the node.
\<close>

fun outline :: "bool list \<Rightarrow> bool \<Rightarrow> tree list \<Rightarrow> (bool list \<times> bool \<times> bool \<times> tree) list" where
  "outline path isFirst [] = []"
| "outline path isFirst (NodeData name params err ancestors # nodes) =
     (path, isFirst, nodes = [], NodeData name params err ancestors) #
     outline (path @ [nodes = []]) True ancestors @ outline path False nodes"

fun preorder :: "tree list \<Rightarrow> tree list" where
  "preorder [] = []"
| "preorder (NodeData name params err ancestors # nodes) = NodeData name params err ancestors # preorder ancestors @ preorder nodes"

definition unlines :: "string list \<Rightarrow> string" where
  "unlines ls = concat (List.map (\<lambda>l. l @ [newline]) ls)"

definition node_lines :: "bool \<Rightarrow> tree \<Rightarrow> string list" where
  "node_lines nc t = split_on newline (renderNode nc (Name t) (Params t) (Error t))"

text \<open>
  One column for each level above, then the branch of the node, then the text. Only the first node of the whole tree
  (\<open>isTop\<close>) opens the drawing.
\<close>

definition columns :: "bool \<Rightarrow> bool list \<Rightarrow> string" where
  "columns nc path = concat (List.map (\<lambda>isLast. if isLast then box_empty else color nc box_vline green) path)"

definition head_prefix :: "bool \<Rightarrow> bool \<Rightarrow> bool list \<Rightarrow> bool \<Rightarrow> bool \<Rightarrow> string" where
  "head_prefix nc isTop path isFirst isLast = columns nc path @ firstLinePrefix nc (isTop \<and> path = []) isFirst isLast"

definition tail_prefix :: "bool \<Rightarrow> bool list \<Rightarrow> bool \<Rightarrow> tree \<Rightarrow> string" where
  "tail_prefix nc path isLast t = columns nc path @ restLinesPrefix nc isLast (Ancestors t \<noteq> [])"

fun with_prefixes :: "string \<Rightarrow> string \<Rightarrow> string list \<Rightarrow> string list" where
  "with_prefixes f r [] = []"
| "with_prefixes f r (l # ls) = (f @ l) # List.map (\<lambda>l. r @ l) ls"

fun layout :: "bool \<Rightarrow> bool \<Rightarrow> bool list \<times> bool \<times> bool \<times> tree \<Rightarrow> string list" where
  "layout nc isTop (path, isFirst, isLast, t) = with_prefixes (head_prefix nc isTop path isFirst isLast) (tail_prefix nc path isLast t) (node_lines nc t)"

subsection \<open>Lines\<close>

lemma unlines_simps [simp]: "unlines [] = []" "unlines (l # ls) = l @ newline # unlines ls" "unlines (ls @ ks) = unlines ls @ unlines ks"
  by (simp_all add: unlines_def)

lemma ReplaceAll_simps [simp]: "ReplaceAll [] c t = []" "ReplaceAll (x # s) c t = (if x = c then t else [x]) @ ReplaceAll s c t"
    "ReplaceAll (s @ s') c t = ReplaceAll s c t @ ReplaceAll s' c t"
  by (simp_all add: ReplaceAll_def)

lemma ReplaceAll_none [simp]: "c \<notin> set s \<Longrightarrow> ReplaceAll s c t = s"
  by (induction s) auto

lemma TrimRight_keep [simp]: "s \<noteq> [] \<Longrightarrow> last s \<noteq> c \<Longrightarrow> TrimRight s c = s"
  by (cases s rule: rev_cases) (auto simp: TrimRight_def)

lemma TrimRight_drop [simp]: "TrimRight (s @ [c]) c = TrimRight s c"
  by (simp add: TrimRight_def)

lemma with_prefixes_map [simp]: "List.map (\<lambda>l. c @ l) (with_prefixes f r ls) = with_prefixes (c @ f) (c @ r) ls"
  by (cases ls) auto

lemma with_prefixes_Nil [simp]: "with_prefixes f r ls = [] \<longleftrightarrow> ls = []"
  by (cases ls) auto

lemma prepend_text:
  assumes "s \<noteq> []" "last s \<noteq> newline"
  shows "prependLines s f r @ [newline] = unlines (with_prefixes f r (split_on newline s))"
proof -
  have "f @ ReplaceAll s newline (newline # r) @ [newline] = unlines (with_prefixes f r (split_on newline s))"
  proof (induction s arbitrary: f)
    case Nil
    show ?case by simp
  next
    case (Cons x s)
    obtain w ws where w: "split_on newline s = w # ws" by (cases "split_on newline s") auto
    show ?case using Cons [of "f @ [x]"] Cons [of r] w by auto
  qed
  then show ?thesis using assms by (simp add: prependLines_def)
qed

lemma prepend_unlines:
  assumes "ls \<noteq> []" "list_all (\<lambda>l. l \<noteq> [] \<and> newline \<notin> set l) ls"
  shows "prependLines (unlines ls) f f @ [newline] = unlines (List.map (\<lambda>l. f @ l) ls)"
proof -
  obtain ks l where ls: "ls = ks @ [l]" using assms(1) by (cases ls rule: rev_cases) auto
  have "f @ ReplaceAll (unlines ks) newline (newline # f) = unlines (List.map (\<lambda>l. f @ l) ks) @ f" if "list_all (\<lambda>l. newline \<notin> set l) ks" for ks
    using that by (induction ks) auto
  moreover have "list_all (\<lambda>l. newline \<notin> set l) ks" using assms(2) ls by (simp add: list_all_iff)
  moreover have "l \<noteq> []" "newline \<notin> set l" using assms(2) ls by simp_all
  moreover have "last (unlines ks @ l) \<noteq> newline" using calculation by (metis last_appendR last_in_set)
  ultimately show ?thesis using TrimRight_drop [of "unlines ks @ l" newline] by (simp add: ls prependLines_def)
qed

lemma split_on_lines: "l \<in> set (split_on c s) \<Longrightarrow> c \<notin> set l"
  by (induction s arbitrary: l) (auto split: if_splits list.splits)

subsection \<open>Nodes\<close>

lemma color_last: "str \<noteq> [] \<Longrightarrow> last str \<noteq> newline \<Longrightarrow> color nc str c \<noteq> [] \<and> last (color nc str c) \<noteq> newline"
  by (simp add: color_def reset_def)

lemma last_TrimSpace: "TrimSpace e = [] \<or> \<not> is_space (last (TrimSpace e))"
  using hd_dropWhile [of is_space "rev (dropWhile is_space e)"] by (auto simp only: TrimSpace_def rev_is_Nil_conv last_rev)

lemma renderNode_last: "renderNode nc typ params err \<noteq> [] \<and> last (renderNode nc typ params err) \<noteq> newline"
proof (cases err)
  case None
  then show ?thesis by (simp add: renderNode_def)
next
  case (Some e)
  have "last (''Error: '' @ TrimSpace e) \<noteq> newline" using last_TrimSpace [of e] by (auto simp: is_space_def)
  then have "color nc (''Error: '' @ TrimSpace e) red \<noteq> [] \<and> last (color nc (''Error: '' @ TrimSpace e) red) \<noteq> newline" by (intro color_last) auto
  then show ?thesis using Some by (simp add: renderNode_def)
qed

lemma box_text: "newline \<notin> set box_first" "newline \<notin> set box_middle" "newline \<notin> set box_last" "newline \<notin> set box_vline" "newline \<notin> set box_hline" "newline \<notin> set box_empty"
    "box_first \<noteq> []" "box_middle \<noteq> []" "box_last \<noteq> []" "box_hline \<noteq> []" "box_vline \<noteq> []" "box_empty \<noteq> []"
  by (simp_all add: box_first_def box_middle_def box_last_def box_vline_def box_hline_def box_empty_def utf8_def char_of_def)

lemma color_line: "newline \<notin> set str \<Longrightarrow> newline \<notin> set (color nc str green)" "newline \<notin> set str \<Longrightarrow> newline \<notin> set (color nc str reset)" "str \<noteq> [] \<Longrightarrow> color nc str c \<noteq> []"
  by (auto simp: color_def green_def reset_def ReplaceAll_def)

lemma prefix_lines: "newline \<notin> set (columns nc path)" "newline \<notin> set (firstLinePrefix nc isTop f l)" "newline \<notin> set (restLinesPrefix nc l h)"
    "firstLinePrefix nc isTop f l \<noteq> []" "restLinesPrefix nc l h \<noteq> []"
  by (auto simp: columns_def firstLinePrefix_def restLinesPrefix_def box_text color_line)

lemma layout_lines: "list_all (\<lambda>l. l \<noteq> [] \<and> newline \<notin> set l) (layout nc isTop x)"
proof (cases x)
  case (fields path f l t)
  have "newline \<notin> set w" if "w \<in> set (node_lines nc t)" for w using that split_on_lines by (auto simp: node_lines_def)
  then show ?thesis
    by (cases "node_lines nc t") (auto simp: fields list_all_iff head_prefix_def tail_prefix_def prefix_lines)
qed

lemma layout_level: "List.map (\<lambda>l. columns nc [b] @ l) (layout nc False (path, x)) = layout nc isTop (b # path, x)"
  by (cases x) (simp add: head_prefix_def tail_prefix_def columns_def)

lemma outline_path: "outline (q @ p) f ts = List.map (\<lambda>(p', x). (q @ p', x)) (outline p f ts)"
  by (induction p f ts arbitrary: q rule: outline.induct) auto

lemma outline_layout:
  "concat (List.map (layout nc isTop) (outline [b] f ts)) = List.map (\<lambda>l. columns nc [b] @ l) (concat (List.map (layout nc False) (outline [] f ts)))"
proof -
  have "layout nc isTop (case x of (p', y) \<Rightarrow> ([b] @ p', y)) = List.map (\<lambda>l. columns nc [b] @ l) (layout nc False x)" for x
    using layout_level [of nc b "fst x" "snd x" isTop] by (cases x) simp
  then show ?thesis using outline_path [of "[b]" "[]" f ts] by (simp add: map_concat comp_def)
qed

lemma outline_lines: "0 < length ts \<Longrightarrow> concat (List.map (layout nc isTop) (outline [] f ts)) \<noteq> []"
  by (cases ts; cases "hd ts") (auto simp del: concat_eq_Nil_conv simp: node_lines_def)

lemma render_loop_layout:
  "len = i + length nodes \<Longrightarrow> render_loop nc len level i nodes = unlines (concat (List.map (layout nc (level = 0)) (outline [] (i = 0) nodes)))"
proof (induction nc len level i nodes rule: render_loop.induct)
  case (1 nc len level i)
  show ?case by simp
next
  case (2 nc len level i name params err ancestors nodes)
  let ?t = "NodeData name params err ancestors" and ?b = "nodes = []"
  let ?sub = "concat (List.map (layout nc False) (outline [] True ancestors))"
  have last: "(i = len - 1) = ?b" using 2(3) by (cases nodes) auto
  have node: "prependLines (renderNode nc name params err) f r @ [newline] = unlines (with_prefixes f r (node_lines nc ?t))" for f r
    using renderNode_last by (simp add: node_lines_def prepend_text)
  have "render_loop nc (length ancestors) (level + 1) 0 ancestors = unlines ?sub" if "0 < length ancestors" using 2(1) that by simp
  moreover have "?sub \<noteq> []" if "0 < length ancestors" using that by (rule outline_lines)
  moreover have "list_all (\<lambda>l. l \<noteq> [] \<and> newline \<notin> set l) ?sub" using layout_lines by (auto simp: list_all_iff)
  moreover have "(if ?b then prependLines s box_empty box_empty else prependLines s (color nc box_vline green) (color nc box_vline green)) = prependLines s (columns nc [?b]) (columns nc [?b])" for s
    by (simp add: columns_def)
  ultimately have sub: "(if 0 < length ancestors then (let subTree = render_loop nc (length ancestors) (level + 1) 0 ancestors in (if ?b then prependLines subTree box_empty box_empty
           else prependLines subTree (color nc box_vline green) (color nc box_vline green)) @ [newline]) else []) = unlines (concat (List.map (layout nc (level = 0)) (outline [?b] True ancestors)))"
    using prepend_unlines by (simp add: outline_layout Let_def)
  show ?case using 2(2) 2(3) sub node last by (simp add: Let_def head_prefix_def tail_prefix_def columns_def)
qed

lemma outline_preorder: "List.map (\<lambda>(path, isFirst, isLast, t). t) (outline path f nodes) = preorder nodes"
  by (induction path f nodes rule: outline.induct) auto

lemma params_loop_cong: "map_of p = map_of q \<Longrightarrow> length p = length q \<Longrightarrow> params_loop nc p i keys = params_loop nc q i keys"
  by (induction keys arbitrary: i) auto

lemma renderNode_any_order:
  assumes "ranged_ok p" "ranged_ok q" "map_of p = map_of q"
  shows "renderNode nc typ p err = renderNode nc typ q err"
proof -
  have keys: "set (List.map fst p) = set (List.map fst q)" using assms(3) by (simp flip: dom_map_of_conv_image_fst)
  then have "sort (List.map fst p) = sort (List.map fst q)" using assms(1,2) by (intro sorted_distinct_set_unique) (auto simp del: set_map)
  moreover have "length p = length q" using arg_cong [OF keys, of card] assms(1,2) by (simp only: distinct_card length_map)
  ultimately show ?thesis using params_loop_cong [OF assms(3), of nc 0 "sort (List.map fst q)"] by (simp add: renderNode_def SortedKeys_def)
qed

subsection \<open>Properties\<close>

text \<open>
  C40: A rendered tree, built by inserting prefixes after the newlines of already rendered subtrees, consists of the lines of all
  nodes in depth-first order. Each line has one column for every level above it, empty under the last of several siblings
  and a vertical line under the others, then the branch of its node and the text; no line has a newline inside.
\<close>

theorem render_tree_layout:
  "RenderTree nc nodes 0 = unlines (concat (List.map (layout nc True) (outline [] True nodes))) \<and>
   List.map (\<lambda>(path, isFirst, isLast, t). t) (outline [] True nodes) = preorder nodes \<and>
   list_all (\<lambda>l. newline \<notin> set l) (concat (List.map (layout nc True) (outline [] True nodes)))"
proof -
  have "list_all (\<lambda>l. newline \<notin> set l) (concat (List.map (layout nc True) (outline [] True nodes)))"
    using layout_lines by (auto simp: list_all_iff)
  then show ?thesis using render_loop_layout [of "length nodes" 0 nodes nc 0] by (simp add: RenderTree_def outline_preorder)
qed

end
