(* ===== verification/Log_Service.thy ===== *)
theory Log_Service
  imports Chan_Util
begin

text \<open>
  The chain of loggers as a service (\<open>Start\<close>, \<open>Wait\<close> and \<open>contextCancelHandler\<close> of \<open>src/log/chain/log.go\<close>) as a machine.
  \<open>cs_services\<close> counts the members that implement \<open>log.LoggerService\<close>; what they send on their wait channels and when they
  close them is free. The channel that \<open>Wait\<close> returns is the output of the \<open>FanIn\<close>.
\<close>

subsection \<open>Definitions\<close>

datatype 'e start_error = StartedTwice | NilContext | MemberFailed 'e

text \<open>Where \<open>Start\<close> is: members still to start, wait channels still to add, \<open>AutoClose\<close>, returned.\<close>

datatype cs_pc = Idle | Starting nat | Adding nat | AutoClosing | Running | StartFailed

record 'e chain_service =
  cs_services :: nat
  cs_ctx :: "bool option"
  cs_pc :: cs_pc
  cs_fan :: "'e FanIn"
  cs_results :: "'e start_error option list"

definition NewChain :: "nat \<Rightarrow> 'e chain_service" where
  "NewChain n = \<lparr>cs_services = n, cs_ctx = None, cs_pc = Idle, cs_fan = NewFanIn, cs_results = []\<rparr>"

datatype 'e cs_event =
    StartNil                     \<comment> \<open>a call of \<open>Start\<close> without a context\<close>
  | Start bool                   \<comment> \<open>a call of \<open>Start\<close>; whether the context is already cancelled\<close>
  | MemberStarts "'e option"     \<comment> \<open>\<open>Start\<close> of the next member returns\<close>
  | AddInput
  | CallAutoClose
  | CancelCtx
  | HandlerCloses                \<comment> \<open>\<open>contextCancelHandler\<close> closes its channel, and its input ends\<close>
  | MemberSends nat 'e           \<comment> \<open>an error is taken from the wait channel of a member\<close>
  | MemberCloses nat             \<comment> \<open>a member closes its wait channel\<close>
  | ErrorOut nat                 \<comment> \<open>an error is received from the output\<close>
  | FanWaited
  | FanCloses

definition chain_Start :: "bool option \<Rightarrow> 'e chain_service \<Rightarrow> 'e chain_service" where
  "chain_Start ctx s =
     (if cs_ctx s \<noteq> None then s\<lparr>cs_results := cs_results s @ [Some StartedTwice]\<rparr>
      else if ctx = None then s\<lparr>cs_results := cs_results s @ [Some NilContext]\<rparr>
      else s\<lparr>cs_ctx := ctx, cs_pc := (if cs_services s = 0 then Adding 0 else Starting (cs_services s))\<rparr>)"

definition fan_event :: "'e fi_event \<Rightarrow> 'e chain_service \<Rightarrow> 'e chain_service option" where
  "fan_event e s = (case fi_step e (cs_fan s) of None \<Rightarrow> None | Some f \<Rightarrow> Some (s\<lparr>cs_fan := f\<rparr>))"

fun cs_step :: "'e cs_event \<Rightarrow> 'e chain_service \<Rightarrow> 'e chain_service option" where
  "cs_step StartNil s = Some (chain_Start None s)"
| "cs_step (Start c) s = Some (chain_Start (Some c) s)"
| "cs_step (MemberStarts r) s =
     (case cs_pc s of
        Starting (Suc k) \<Rightarrow>
          (case r of
             Some e \<Rightarrow> Some (s\<lparr>cs_pc := StartFailed, cs_results := cs_results s @ [Some (MemberFailed e)]\<rparr>)
           | None \<Rightarrow> Some (s\<lparr>cs_pc := (if k = 0 then Adding (cs_services s) else Starting k)\<rparr>))
      | _ \<Rightarrow> None)"
| "cs_step AddInput s =
     (case cs_pc s of
        Adding k \<Rightarrow> fan_event (Input 1) (s\<lparr>cs_pc := (if k = 0 then AutoClosing else Adding (k - 1))\<rparr>)
      | _ \<Rightarrow> None)"
| "cs_step CallAutoClose s =
     (if cs_pc s = AutoClosing then fan_event AutoClose (s\<lparr>cs_pc := Running, cs_results := cs_results s @ [None]\<rparr>) else None)"
| "cs_step CancelCtx s = (if cs_ctx s = None then None else Some (s\<lparr>cs_ctx := Some True\<rparr>))"
| "cs_step HandlerCloses s = (if cs_pc s = Running \<and> cs_ctx s = Some True then fan_event (InputEnds (cs_services s)) s else None)"
| "cs_step (MemberSends i v) s = (if i < cs_services s then fan_event (Take i v) s else None)"
| "cs_step (MemberCloses i) s = (if i < cs_services s then fan_event (InputEnds i) s else None)"
| "cs_step (ErrorOut i) s = fan_event (Send i) s"
| "cs_step FanWaited s = fan_event WaitReturns s"
| "cs_step FanCloses s = fan_event AutoCloses s"

subsection \<open>Invariant\<close>

text \<open>The fan-in is used as it asks for, and the channel of the handler is its last input.\<close>

definition inputs_added :: "'e chain_service \<Rightarrow> nat" where
  "inputs_added s = (case cs_pc s of Adding k \<Rightarrow> cs_services s - k | AutoClosing \<Rightarrow> Suc (cs_services s) | Running \<Rightarrow> Suc (cs_services s) | _ \<Rightarrow> 0)"

definition cs_inv :: "'e chain_service \<Rightarrow> bool" where
  "cs_inv s \<longleftrightarrow> fi_safe (cs_fan s) \<and> length (fi_routines (cs_fan s)) = inputs_added s \<and>
     (cs_pc s \<noteq> Running \<longrightarrow> fi_closer (cs_fan s) = NotCalled) \<and> (\<forall>k. cs_pc s = Adding k \<longrightarrow> k \<le> cs_services s) \<and>
     (cs_services s < length (fi_routines (cs_fan s)) \<longrightarrow> fi_routines (cs_fan s) ! cs_services s = Finished \<longrightarrow> cs_ctx s = Some True) \<and>
     (cs_pc s \<noteq> Idle \<longrightarrow> cs_ctx s \<noteq> None)"

lemma inputs_added_simps [simp]: "inputs_added (s\<lparr>cs_fan := f\<rparr>) = inputs_added s" "inputs_added (s\<lparr>cs_results := r\<rparr>) = inputs_added s"
    "inputs_added (s\<lparr>cs_ctx := c\<rparr>) = inputs_added s"
  by (simp_all add: inputs_added_def cong: cs_pc.case_cong)

lemma fan_length:
  "fi_step e f = Some f' \<Longrightarrow> length (fi_routines f') = length (fi_routines f) + (case e of Input k \<Rightarrow> if fi_closed f then 0 else k | _ \<Rightarrow> 0)"
  by (cases e) (auto simp: fi_Input_def fi_Close_def split: if_splits fi_routine.splits)

lemma fan_finished:
  "fi_step e f = Some f' \<Longrightarrow> m < length (fi_routines f) \<Longrightarrow> fi_routines f' ! m = Finished \<Longrightarrow> fi_routines f ! m = Finished \<or> e = InputEnds m"
  by (cases e) (auto simp: fi_Input_def fi_Close_def nth_append nth_list_update split: if_splits fi_routine.splits)

lemma fan_closer: "fi_step e f = Some f' \<Longrightarrow> fi_closer f = NotCalled \<Longrightarrow> e \<noteq> AutoClose \<Longrightarrow> fi_closer f' = NotCalled"
  by (cases e) (auto simp: fi_Input_def fi_Close_def split: if_splits fi_routine.splits)

lemma fan_event_inv:
  assumes "fan_event e s = Some s'" "cs_inv s" "\<forall>k. e \<noteq> Input k" "e \<noteq> AutoClose" "e \<noteq> CloseIn" "e = InputEnds (cs_services s) \<longrightarrow> cs_ctx s = Some True"
  shows "cs_inv s'"
proof -
  obtain f where f: "fi_step e (cs_fan s) = Some f" "s' = s\<lparr>cs_fan := f\<rparr>" using assms(1) by (auto simp: fan_event_def split: option.splits)
  have "fi_protocol_step e (cs_fan s) = Some f" using f(1) assms(3,5) by (cases e) (auto simp: fi_protocol_step_def fi_protocol_def)
  then have "fi_safe f" using fi_safe_step assms(2) by (auto simp: cs_inv_def)
  moreover have "length (fi_routines f) = length (fi_routines (cs_fan s))" using fan_length [OF f(1)] assms(3) by (cases e) auto
  ultimately show ?thesis using assms(2,4,6) fan_finished [OF f(1)] fan_closer [OF f(1)]
    by (auto simp: cs_inv_def f(2))
qed

lemma add_input_inv:
  assumes "fan_event (Input 1) (s\<lparr>cs_pc := (if k = 0 then AutoClosing else Adding (k - 1))\<rparr>) = Some s'" "cs_inv s" "cs_pc s = Adding k"
  shows "cs_inv s'"
proof -
  have k: "k \<le> cs_services s" "fi_closer (cs_fan s) = NotCalled" "fi_safe (cs_fan s)" "length (fi_routines (cs_fan s)) = cs_services s - k" "cs_ctx s \<noteq> None"
    using assms(2,3) by (auto simp: cs_inv_def inputs_added_def)
  then have opn: "\<not> fi_closed (cs_fan s)" by (simp add: fi_safe_def)
  define f where "f = fi_Input 1 (cs_fan s)"
  have "fi_protocol_step (Input 1) (cs_fan s) = Some f" using k by (simp add: fi_protocol_step_def fi_protocol_def f_def)
  then have "fi_safe f" using fi_safe_step k(3) by blast
  moreover have "fi_routines f = fi_routines (cs_fan s) @ [Ranging]" "fi_closer f = NotCalled" using opn k(2) by (simp_all add: f_def fi_Input_def)
  moreover have "s' = s\<lparr>cs_pc := (if k = 0 then AutoClosing else Adding (k - 1)), cs_fan := f\<rparr>" using assms(1) by (simp add: fan_event_def f_def)
  ultimately show ?thesis using k by (auto simp: cs_inv_def inputs_added_def nth_append)
qed

lemma cs_inv_step: "cs_step e s = Some s' \<Longrightarrow> cs_inv s \<Longrightarrow> cs_inv s'"
proof -
  assume st: "cs_step e s = Some s'" and inv: "cs_inv s"
  have start: "cs_inv (chain_Start c s)" for c
  proof (cases "cs_ctx s")
    case None
    then have "cs_pc s = Idle" using inv by (auto simp: cs_inv_def)
    then show ?thesis using inv None by (auto simp: chain_Start_def cs_inv_def inputs_added_def)
  next
    case (Some b)
    then show ?thesis using inv by (simp add: chain_Start_def cs_inv_def)
  qed
  show ?thesis
  proof (cases e)
    case (MemberStarts r)
    then show ?thesis using st inv by (auto simp: cs_inv_def inputs_added_def split: cs_pc.splits nat.splits option.splits if_splits)
  next
    case AddInput
    then show ?thesis using st inv add_input_inv by (auto split: cs_pc.splits)
  next
    case CallAutoClose
    then have pc: "cs_pc s = AutoClosing" and s': "s' = s\<lparr>cs_pc := Running, cs_results := cs_results s @ [None], cs_fan := cs_fan s\<lparr>fi_closer := Waiting\<rparr>\<rparr>"
      using st inv by (auto simp: fan_event_def cs_inv_def split: if_splits)
    have "fi_protocol_step AutoClose (cs_fan s) = Some (cs_fan s\<lparr>fi_closer := Waiting\<rparr>)" using pc inv by (simp add: fi_protocol_step_def fi_protocol_def cs_inv_def)
    then have "fi_safe (cs_fan s\<lparr>fi_closer := Waiting\<rparr>)" using inv fi_safe_step by (auto simp: cs_inv_def)
    then show ?thesis using inv pc by (auto simp: cs_inv_def s' inputs_added_def)
  next
    case CancelCtx
    then show ?thesis using st inv by (auto simp: cs_inv_def split: if_splits)
  qed (use st inv start fan_event_inv in \<open>auto split: if_splits\<close>)
qed

interpretation chain_machine: machine cs_step cs_inv
  by unfold_locales (rule cs_inv_step)

lemma NewChain_inv: "cs_inv (NewChain n)"
  by (simp add: cs_inv_def NewChain_def inputs_added_def fi_safe_def NewFanIn_def fi_conserves_def)

lemma fi_safe_input:
  assumes "fi_safe f" "i < length (fi_routines f)"
  shows "prefix (from_input i (fi_out f)) (fi_taken f ! i)" "fi_closed f \<Longrightarrow> fi_routines f ! i = Finished \<and> from_input i (fi_out f) = fi_taken f ! i"
proof -
  have taken: "fi_taken f ! i = from_input i (fi_out f) @ held (fi_routines f ! i)" using assms by (simp add: fi_safe_def fi_conserves_def)
  then show "prefix (from_input i (fi_out f)) (fi_taken f ! i)" by simp
  assume "fi_closed f"
  then have "fi_routines f ! i = Finished" using assms nth_mem unfolding fi_safe_def by blast
  then show "fi_routines f ! i = Finished \<and> from_input i (fi_out f) = fi_taken f ! i" using taken by simp
qed

lemma services_const: "run cs_step evs s = Some s' \<Longrightarrow> cs_services s' = cs_services s"
proof (induction evs arbitrary: s)
  case (Cons e evs)
  have "cs_services t = cs_services s" if "cs_step e s = Some t" for t
    using that by (cases e) (auto simp: chain_Start_def fan_event_def split: if_splits cs_pc.splits nat.splits option.splits)
  with Cons show ?case by (auto split: option.splits)
qed simp

subsection \<open>Properties\<close>

text \<open>
  C37: In every interleaving of \<open>Start\<close>, the members, the handler of the context and the receiver, nothing panics and the wait
  channel of the chain has got an initial part of the errors of each member, in their order. It is closed only after a
  successful \<open>Start\<close>, when the context is cancelled and every member has closed its wait channel, and then it has got all
  their errors.
\<close>

theorem chain_wait_complete:
  assumes "run cs_step evs (NewChain n) = Some s" "i < n"
  shows "\<not> fi_panicked (cs_fan s) \<and>
    (if i < length (fi_routines (cs_fan s)) then prefix (from_input i (fi_out (cs_fan s))) (fi_taken (cs_fan s) ! i) else True) \<and>
    (if fi_closed (cs_fan s) then cs_pc s = Running \<and> cs_ctx s = Some True \<and> fi_routines (cs_fan s) ! i = Finished \<and>
       from_input i (fi_out (cs_fan s)) = fi_taken (cs_fan s) ! i else True)"
proof -
  have inv: "cs_inv s" using chain_machine.inv_run [OF assms(1) NewChain_inv] .
  then have safe: "fi_safe (cs_fan s)" by (simp add: cs_inv_def)
  have n: "cs_services s = n" using services_const [OF assms(1)] by (simp add: NewChain_def)
  have "cs_pc s = Running \<and> cs_ctx s = Some True \<and> i < length (fi_routines (cs_fan s))" if closed: "fi_closed (cs_fan s)"
  proof -
    have "cs_pc s = Running" using inv closed by (auto simp: cs_inv_def fi_safe_def)
    then have "length (fi_routines (cs_fan s)) = Suc n" using inv n by (simp add: cs_inv_def inputs_added_def)
    moreover from this have "fi_routines (cs_fan s) ! n = Finished" using fi_safe_input(2) [OF safe _ closed] by simp
    ultimately show ?thesis using inv n assms(2) \<open>cs_pc s = Running\<close> by (simp add: cs_inv_def)
  qed
  then show ?thesis using fi_safe_input [OF safe, of i] safe by (auto simp: fi_safe_def)
qed

theorem chain_wait_complete_witness:
  "\<exists>s. run cs_step [Start False, MemberStarts None, AddInput, MemberSends 0 ''e'', AddInput, CallAutoClose, ErrorOut 0, MemberCloses 0,
      CancelCtx, HandlerCloses, FanWaited, FanCloses] (NewChain 1) = Some s \<and> fi_closed (cs_fan s) \<and> from_input 0 (fi_out (cs_fan s)) = [''e'']"
proof -
  let ?evs = "[Start False, MemberStarts None, AddInput, MemberSends 0 ''e'', AddInput, CallAutoClose, ErrorOut 0, MemberCloses 0,
      CancelCtx, HandlerCloses, FanWaited, FanCloses]"
  obtain s where s: "run cs_step ?evs (NewChain 1) = Some s" "fi_closed (cs_fan s)" "fi_taken (cs_fan s) ! 0 = [''e'']"
    by (simp add: NewChain_def chain_Start_def fan_event_def NewFanIn_def fi_Input_def fi_Close_def guard_def)
  with chain_wait_complete [OF s(1), of 0] show ?thesis by auto
qed

end
